(* ===== verification/Prelude.thy ===== *)
theory Prelude
  imports Main "HOL-Library.Word" "HOL-Library.Sublist"
begin

text \<open>
  What every other theory of the development shares: the result type with its \<open>?\<close>
  operator, the operations of Rust's \<open>str\<close> and \<open>slice\<close> that the modelled code
  calls, and the generic lemmas on them.

  A Rust \<open>&str\<close> is a \<open>string\<close> whose characters are the BYTES of its UTF-8 encoding, so
  \<open>length\<close> is \<open>str::len\<close> and an index is a byte offset. A \<open>Result<T, E>\<close> is a value of
  \<open>'e + 'a\<close> with \<open>Inl\<close> for \<open>Err\<close> and \<open>Inr\<close> for \<open>Ok\<close>.
\<close>

named_theorems str_simps \<open>equations of the string operations\<close>
named_theorems guard_simps \<open>definitions of the guards and small helpers of the components\<close>

section \<open>Results\<close>

type_synonym ('e, 'a) result = "'e + 'a"

definition bind_res :: "'e + 'a \<Rightarrow> ('a \<Rightarrow> 'e + 'b) \<Rightarrow> 'e + 'b" where
  "bind_res r f = (case r of Inl e \<Rightarrow> Inl e | Inr a \<Rightarrow> f a)"

lemma bind_res_Inl [simp]: "bind_res (Inl e) f = Inl e"
  and bind_res_Inr [simp]: "bind_res (Inr a) f = f a"
  by (simp_all add: bind_res_def)

lemma bind_res_eq_Inr: "bind_res r f = Inr b \<longleftrightarrow> (\<exists>a. r = Inr a \<and> f a = Inr b)"
  by (cases r) auto

lemma bind_res_eq_Inl: "bind_res r f = Inl e \<longleftrightarrow> r = Inl e \<or> (\<exists>a. r = Inr a \<and> f a = Inl e)"
  by (cases r) auto

lemma bind_res_cong [fundef_cong]:
  "r = r' \<Longrightarrow> (\<And>a. r' = Inr a \<Longrightarrow> f a = g a) \<Longrightarrow> bind_res r f = bind_res r' g"
  by (cases r') auto

definition map_err :: "('e \<Rightarrow> 'f) \<Rightarrow> 'e + 'a \<Rightarrow> 'f + 'a" where
  "map_err h r = (case r of Inl e \<Rightarrow> Inl (h e) | Inr a \<Rightarrow> Inr a)"

lemma map_err_simps [simp]: "map_err h (Inl e) = Inl (h e)" "map_err h (Inr a) = Inr a"
  by (simp_all add: map_err_def)

lemma map_err_eq_Inr [simp]: "map_err h r = Inr a \<longleftrightarrow> r = Inr a"
  by (cases r) auto

definition map_ok :: "('a \<Rightarrow> 'b) \<Rightarrow> 'e + 'a \<Rightarrow> 'e + 'b" where
  "map_ok f r = bind_res r (\<lambda>a. Inr (f a))"

lemma map_ok_simps [simp]: "map_ok f (Inl e) = Inl e" "map_ok f (Inr a) = Inr (f a)"
  by (simp_all add: map_ok_def)

definition ok_or :: "'e \<Rightarrow> 'a option \<Rightarrow> 'e + 'a" where
  "ok_or e x = (case x of None \<Rightarrow> Inl e | Some a \<Rightarrow> Inr a)"

lemma ok_or_simps [simp]: "ok_or e None = Inl e" "ok_or e (Some a) = Inr a"
  by (simp_all add: ok_or_def)

lemma ok_or_eq_Inr [simp]: "ok_or e x = Inr a \<longleftrightarrow> x = Some a"
  by (cases x) auto

text \<open>\<open>iter().map(f).collect::<Result<Vec<_>, _>>()\<close>: the first error wins.\<close>

fun collect_res :: "('a \<Rightarrow> 'e + 'b) \<Rightarrow> 'a list \<Rightarrow> 'e + 'b list" where
  "collect_res f [] = Inr []"
| "collect_res f (x # xs) = bind_res (f x) (\<lambda>y. bind_res (collect_res f xs) (\<lambda>ys. Inr (y # ys)))"

lemma collect_res_Inr_iff:
  "collect_res f xs = Inr ys \<longleftrightarrow> list_all2 (\<lambda>x y. f x = Inr y) xs ys"
proof (induction xs arbitrary: ys)
  case Nil
  then show ?case by (cases ys) auto
next
  case (Cons x xs)
  then show ?case by (cases ys) (auto simp: bind_res_eq_Inr)
qed

lemma collect_res_length: "collect_res f xs = Inr ys \<Longrightarrow> length ys = length xs"
  by (auto simp: collect_res_Inr_iff dest: list_all2_lengthD)

lemma collect_res_first_error:
  "collect_res f xs = Inl e \<longleftrightarrow>
     (\<exists>us x vs. xs = us @ x # vs \<and> f x = Inl e \<and> (\<forall>u\<in>set us. \<exists>y. f u = Inr y))"
proof (induction xs)
  case Nil
  then show ?case by simp
next
  case (Cons a xs)
  show ?case
  proof (cases "f a")
    case (Inl d)
    have "(\<exists>us x vs. a # xs = us @ x # vs \<and> f x = Inl e \<and> (\<forall>u\<in>set us. \<exists>y. f u = Inr y)) \<longleftrightarrow> d = e"
    proof
      assume "\<exists>us x vs. a # xs = us @ x # vs \<and> f x = Inl e \<and> (\<forall>u\<in>set us. \<exists>y. f u = Inr y)"
      then obtain us x vs where *: "a # xs = us @ x # vs" "f x = Inl e"
        "\<forall>u\<in>set us. \<exists>y. f u = Inr y" by blast
      then show "d = e" using Inl by (cases us) auto
    next
      assume "d = e"
      then show "\<exists>us x vs. a # xs = us @ x # vs \<and> f x = Inl e \<and> (\<forall>u\<in>set us. \<exists>y. f u = Inr y)"
        using Inl by (intro exI [of _ "[]"]) auto
    qed
    then show ?thesis using Inl by simp
  next
    case (Inr b)
    have "collect_res f (a # xs) = Inl e \<longleftrightarrow> collect_res f xs = Inl e"
      using Inr by (auto simp: bind_res_eq_Inl)
    moreover have "(\<exists>us x vs. a # xs = us @ x # vs \<and> f x = Inl e \<and> (\<forall>u\<in>set us. \<exists>y. f u = Inr y))
      \<longleftrightarrow> (\<exists>us x vs. xs = us @ x # vs \<and> f x = Inl e \<and> (\<forall>u\<in>set us. \<exists>y. f u = Inr y))" (is "?L \<longleftrightarrow> ?R")
    proof
      assume ?L
      then obtain us x vs where *: "a # xs = us @ x # vs" "f x = Inl e"
        "\<forall>u\<in>set us. \<exists>y. f u = Inr y" by blast
      then show ?R using Inr by (cases us) auto
    next
      assume ?R
      then obtain us x vs where *: "xs = us @ x # vs" "f x = Inl e"
        "\<forall>u\<in>set us. \<exists>y. f u = Inr y" by blast
      then show ?L using Inr by (intro exI [of _ "a # us"] exI [of _ x] exI [of _ vs]) auto
    qed
    ultimately show ?thesis using Cons.IH by simp
  qed
qed

section \<open>Iterator operations\<close>

text \<open>\<open>iter().position(p)\<close> and \<open>iter().find(p)\<close>.\<close>

fun position :: "('a \<Rightarrow> bool) \<Rightarrow> 'a list \<Rightarrow> nat option" where
  "position p [] = None"
| "position p (x # xs) = (if p x then Some 0 else map_option Suc (position p xs))"

lemma position_Some:
  "position p xs = Some i \<Longrightarrow> i < length xs \<and> p (xs ! i) \<and> (\<forall>j<i. \<not> p (xs ! j))"
proof (induction xs arbitrary: i)
  case Nil
  then show ?case by simp
next
  case (Cons x xs)
  show ?case
  proof (cases "p x")
    case True
    with Cons.prems show ?thesis by simp
  next
    case False
    with Cons.prems obtain k where k: "position p xs = Some k" "i = Suc k" by auto
    from Cons.IH [OF k(1)] False k(2) show ?thesis by (auto simp: nth_Cons split: nat.splits)
  qed
qed

lemma position_None: "position p xs = None \<longleftrightarrow> (\<forall>x\<in>set xs. \<not> p x)"
  by (induction xs) auto

lemma position_less [dest]: "position p xs = Some i \<Longrightarrow> i < length xs"
  using position_Some by blast

lemma position_unique:
  "\<lbrakk> i < length xs; p (xs ! i); \<And>j. j < i \<Longrightarrow> \<not> p (xs ! j) \<rbrakk> \<Longrightarrow> position p xs = Some i"
proof (induction xs arbitrary: i)
  case Nil
  then show ?case by simp
next
  case (Cons x xs)
  show ?case
  proof (cases i)
    case 0
    with Cons.prems show ?thesis by simp
  next
    case (Suc k)
    have "position p xs = Some k"
      using Cons.prems Suc by (intro Cons.IH) force+
    moreover have "\<not> p x" using Cons.prems(3) [of 0] Suc by simp
    ultimately show ?thesis using Suc by simp
  qed
qed

definition get_opt :: "'a list \<Rightarrow> nat \<Rightarrow> 'a option" where
  "get_opt xs i = (if i < length xs then Some (xs ! i) else None)"

lemma get_opt_simps [simp]:
  "i < length xs \<Longrightarrow> get_opt xs i = Some (xs ! i)"
  "\<not> i < length xs \<Longrightarrow> get_opt xs i = None"
  by (simp_all add: get_opt_def)

end
