(* ===== verification/Acl.thy ===== *)
theory Acl
  imports Prelude
begin

text \<open>
  The identity layer and the access-control resolver of \<open>mmcp-core\<close>
  (\<open>identity/role.rs\<close>, \<open>identity/group.rs\<close>, \<open>identity/membership.rs\<close>,
  \<open>acl/decision.rs\<close>, \<open>acl/resolver.rs\<close>). Identifiers are UUIDs, opaque to the
  resolver: it only compares them, so the types of user, org and group ids are
  distinct types of the model, each wrapping a 128-bit word. The loop of the resolver is
  \<open>resolve_loop\<close>, its accumulator the mutable \<open>effective\<close>.

  The locale \<open>join_bot\<close> is the contract between the resolver and \<open>EffectiveRole\<close>: a
  join with a bottom element over an order. The lemmas on the accumulating loop are proved
  from it once, and it is interpreted on \<open>eff_max\<close> and \<open>eff_none\<close>.
\<close>

section \<open>Data\<close>

datatype user_id = UserId "128 word"
datatype org_id = OrgId "128 word"
datatype group_id = GroupId "128 word"

type_synonym timestamp = int

datatype role = Read | Write | Admin

definition role_rank :: "role \<Rightarrow> nat" where
  "role_rank r = (case r of Read \<Rightarrow> 0 | Write \<Rightarrow> 1 | Admin \<Rightarrow> 2)"

instantiation role :: linorder
begin

definition less_eq_role :: "role \<Rightarrow> role \<Rightarrow> bool" where
  "less_eq_role a b \<longleftrightarrow> role_rank a \<le> role_rank b"

definition less_role :: "role \<Rightarrow> role \<Rightarrow> bool" where
  "less_role a b \<longleftrightarrow> role_rank a < role_rank b"

instance
  by standard (auto simp: less_eq_role_def less_role_def role_rank_def split: role.splits)

end

definition includes_role :: "role \<Rightarrow> role \<Rightarrow> bool" where
  "includes_role self other \<longleftrightarrow> self \<ge> other"

datatype group_owner = OwnerUser user_id | OwnerOrg org_id

record group =
  gid :: group_id
  gslug :: string
  gowner :: group_owner
  gdisplay_name :: "string option"
  gcreated_at :: timestamp

datatype principal = PrUser user_id | PrOrg org_id | PrGroup group_id

record membership =
  mgroup :: group_id
  mprincipal :: principal
  mrole :: role
  mgranted_at :: timestamp

section \<open>Effective roles\<close>

datatype effective_role = EffectiveRole "role option"

definition eff_none :: effective_role where
  "eff_none = EffectiveRole None"

definition eff_of :: "role \<Rightarrow> effective_role" where
  "eff_of r = EffectiveRole (Some r)"

definition eff_role :: "effective_role \<Rightarrow> role option" where
  "eff_role e = (case e of EffectiveRole r \<Rightarrow> r)"

definition eff_allows :: "effective_role \<Rightarrow> role \<Rightarrow> bool" where
  "eff_allows e required =
     (case eff_role e of Some r \<Rightarrow> includes_role r required | None \<Rightarrow> False)"

definition eff_max :: "effective_role \<Rightarrow> effective_role \<Rightarrow> effective_role" where
  "eff_max e f =
     (case (eff_role e, eff_role f) of
        (None, None) \<Rightarrow> eff_none
      | (Some a, None) \<Rightarrow> eff_of a
      | (None, Some b) \<Rightarrow> eff_of b
      | (Some a, Some b) \<Rightarrow> eff_of (max a b))"

text \<open>The derived order: \<open>None\<close> below every \<open>Some\<close>.\<close>

definition eff_le :: "effective_role \<Rightarrow> effective_role \<Rightarrow> bool" where
  "eff_le e f =
     (case (eff_role e, eff_role f) of
        (None, _) \<Rightarrow> True
      | (Some a, None) \<Rightarrow> False
      | (Some a, Some b) \<Rightarrow> a \<le> b)"

section \<open>The resolver\<close>

text \<open>The arms of the \<open>match\<close> on the principal.\<close>

definition principal_matches :: "user_id \<Rightarrow> org_id list \<Rightarrow> principal \<Rightarrow> bool" where
  "principal_matches user user_orgs p =
     (case p of
        PrUser u \<Rightarrow> u = user
      | PrOrg o' \<Rightarrow> o' \<in> set user_orgs
      | PrGroup g \<Rightarrow> False)"

fun resolve_loop ::
  "user_id \<Rightarrow> org_id list \<Rightarrow> group \<Rightarrow> membership list \<Rightarrow> effective_role \<Rightarrow> effective_role" where
  "resolve_loop user user_orgs g [] effective = effective"
| "resolve_loop user user_orgs g (m # ms) effective =
     (if mgroup m \<noteq> gid g then resolve_loop user user_orgs g ms effective
      else if principal_matches user user_orgs (mprincipal m)
      then resolve_loop user user_orgs g ms (eff_max effective (eff_of (mrole m)))
      else resolve_loop user user_orgs g ms effective)"

definition resolve_effective_role ::
  "user_id \<Rightarrow> org_id list \<Rightarrow> group \<Rightarrow> membership list \<Rightarrow> effective_role" where
  "resolve_effective_role user user_orgs g memberships =
     resolve_loop user user_orgs g memberships
       (if gowner g = OwnerUser user then eff_max eff_none (eff_of Admin) else eff_none)"

section \<open>The contract of the maximum\<close>

locale join_bot =
  fixes le :: "'a \<Rightarrow> 'a \<Rightarrow> bool"
    and join :: "'a \<Rightarrow> 'a \<Rightarrow> 'a"
    and bot :: 'a
  assumes le_refl: "le a a"
    and le_trans: "\<lbrakk> le a b; le b c \<rbrakk> \<Longrightarrow> le a c"
    and le_antisym: "\<lbrakk> le a b; le b a \<rbrakk> \<Longrightarrow> a = b"
    and bot_least: "le bot a"
    and join_least_iff: "le (join a b) c \<longleftrightarrow> le a c \<and> le b c"
begin

lemma join_upper: "le a (join a b)" "le b (join a b)"
  using join_least_iff le_refl by blast+

lemma fold_join_le_iff: "le (fold (\<lambda>b a. join a b) bs a) c \<longleftrightarrow> le a c \<and> (\<forall>b\<in>set bs. le b c)"
  by (induction bs arbitrary: a) (auto simp: join_least_iff)

lemma fold_join_unique:
  assumes "\<And>c. le x c \<longleftrightarrow> le a c \<and> (\<forall>b\<in>set bs. le b c)"
  shows "x = fold (\<lambda>b a. join a b) bs a"
proof (rule le_antisym)
  show "le x (fold (\<lambda>b a. join a b) bs a)" by (subst assms, subst fold_join_le_iff [symmetric]) (rule le_refl)
  show "le (fold (\<lambda>b a. join a b) bs a) x" by (subst fold_join_le_iff, subst assms [symmetric]) (rule le_refl)
qed

lemma fold_join_set_cong:
  assumes "set bs = set cs"
  shows "fold (\<lambda>b a. join a b) bs a = fold (\<lambda>b a. join a b) cs a"
  by (rule fold_join_unique) (simp add: fold_join_le_iff assms)

lemma fold_join_mono:
  assumes "set bs \<subseteq> set cs"
  shows "le (fold (\<lambda>b a. join a b) bs a) (fold (\<lambda>b a. join a b) cs a)"
proof -
  have "le a (fold (\<lambda>b a. join a b) cs a) \<and> (\<forall>b\<in>set cs. le b (fold (\<lambda>b a. join a b) cs a))"
    using fold_join_le_iff le_refl by blast
  with assms show ?thesis by (simp add: fold_join_le_iff subset_iff)
qed

end

lemmas eff_defs = eff_none_def eff_of_def eff_role_def eff_max_def eff_le_def

lemma eff_cases [case_names none of, cases type: effective_role]:
  obtains "e = eff_none" | r where "e = eff_of r"
  by (cases e rule: effective_role.exhaust) (metis eff_none_def eff_of_def option.exhaust)

lemma eff_le_simps [simp]:
  "eff_le eff_none f" "\<not> eff_le (eff_of a) eff_none" "eff_le (eff_of a) (eff_of b) \<longleftrightarrow> a \<le> b"
  by (simp_all add: eff_defs)

lemma eff_max_simps [simp]:
  "eff_max eff_none f = f" "eff_max e eff_none = e" "eff_max (eff_of a) (eff_of b) = eff_of (max a b)"
  by (cases e; cases f; simp add: eff_defs)+

lemma eff_of_inject [simp]: "eff_of a = eff_of b \<longleftrightarrow> a = b" "eff_of a \<noteq> eff_none" "eff_none \<noteq> eff_of a"
  by (simp_all add: eff_defs)

interpretation eff: join_bot eff_le eff_max eff_none
proof unfold_locales
  fix a b c
  show "eff_le a a" by (cases a) auto
  show "eff_le a b \<Longrightarrow> eff_le b c \<Longrightarrow> eff_le a c" by (cases a; cases b; cases c) auto
  show "eff_le a b \<Longrightarrow> eff_le b a \<Longrightarrow> a = b" by (cases a; cases b) auto
  show "eff_le eff_none a" by simp
  show "eff_le (eff_max a b) c \<longleftrightarrow> eff_le a c \<and> eff_le b c"
    by (cases a; cases b; cases c) auto
qed

text \<open>The roles that contribute: one for each membership that passes both guards.\<close>

definition contributions ::
  "user_id \<Rightarrow> org_id list \<Rightarrow> group \<Rightarrow> membership list \<Rightarrow> role list" where
  "contributions user user_orgs g ms =
     map mrole (filter (\<lambda>m. mgroup m = gid g \<and> principal_matches user user_orgs (mprincipal m)) ms)"

lemma resolve_loop_fold:
  "resolve_loop user user_orgs g ms e =
     fold (\<lambda>b a. eff_max a b) (map eff_of (contributions user user_orgs g ms)) e"
  by (induction ms arbitrary: e) (simp_all add: contributions_def)

lemma contributions_mono:
  "set ms \<subseteq> set ms' \<Longrightarrow> set (contributions user user_orgs g ms) \<subseteq> set (contributions user user_orgs g ms')"
  by (auto simp: contributions_def)

lemma eff_allows_of [simp]: "eff_allows (eff_of a) r \<longleftrightarrow> r \<le> a"
  by (simp add: eff_defs eff_allows_def includes_role_def)

lemma eff_allows_none [simp]: "\<not> eff_allows eff_none r"
  by (simp add: eff_defs eff_allows_def)

lemma eff_le_of_iff_allows: "eff_le (eff_of r) e \<longleftrightarrow> eff_allows e r"
  by (cases e) auto

lemma eff_allows_max: "eff_allows (eff_max e f) r \<longleftrightarrow> eff_allows e r \<or> eff_allows f r"
  by (cases e; cases f) (auto simp: le_max_iff_disj)

lemma eff_allows_fold:
  "eff_allows (fold (\<lambda>b a. eff_max a b) (map eff_of rs) e) r
     \<longleftrightarrow> eff_allows e r \<or> (\<exists>a\<in>set rs. r \<le> a)"
  by (induction rs arbitrary: e) (auto simp: eff_allows_max)

lemma eff_ext: "(\<And>r. eff_allows e r \<longleftrightarrow> eff_allows f r) \<Longrightarrow> e = f"
  by (cases e; cases f) (auto intro: order_antisym)

lemma role_Read_least [simp]: "Read \<le> r"
  by (cases r) (simp_all add: less_eq_role_def role_rank_def)

lemma role_Admin_greatest [simp]: "r \<le> Admin"
  by (cases r) (simp_all add: less_eq_role_def role_rank_def)

lemma resolve_allows:
  "eff_allows (resolve_effective_role user orgs g ms) r \<longleftrightarrow>
     gowner g = OwnerUser user \<or> (\<exists>a\<in>set (contributions user orgs g ms). r \<le> a)"
  unfolding resolve_effective_role_def resolve_loop_fold eff_allows_fold
  by (simp add: eff_allows_max)

lemma principal_matches_iff:
  "principal_matches user orgs p \<longleftrightarrow> p = PrUser user \<or> (\<exists>org\<in>set orgs. p = PrOrg org)"
  by (cases p) (auto simp: principal_matches_def)

lemma set_contributions:
  "a \<in> set (contributions user orgs g ms) \<longleftrightarrow>
     (\<exists>m\<in>set ms. mgroup m = gid g \<and> mrole m = a \<and>
        (mprincipal m = PrUser user \<or> (\<exists>org\<in>set orgs. mprincipal m = PrOrg org)))"
  by (auto simp: contributions_def principal_matches_iff)

section \<open>Properties\<close>

text \<open>
  C4. The resolver grants a capability exactly when one documented path grants it: the
  caller owns the group, or a membership on this very group, whose principal is the caller
  or one of the caller's orgs, carries a role at least as strong as the one required.
\<close>

theorem resolve_allows_iff_path:
  "eff_allows (resolve_effective_role user user_orgs g ms) required \<longleftrightarrow>
     gowner g = OwnerUser user \<or>
     (\<exists>m\<in>set ms. mgroup m = gid g \<and> required \<le> mrole m \<and>
        (mprincipal m = PrUser user \<or> (\<exists>org\<in>set user_orgs. mprincipal m = PrOrg org)))"
  unfolding resolve_allows by (auto simp: Bex_def set_contributions)

text \<open>
  The answer depends on the set of memberships and on the set of orgs only, not on the
  order or the repetition of their entries, and adding memberships or orgs never weakens it.
\<close>

theorem resolve_monotone:
  assumes "set ms \<subseteq> set ms'" and "set orgs \<subseteq> set orgs'"
  shows "eff_le (resolve_effective_role user orgs g ms) (resolve_effective_role user orgs' g ms')
    \<and> (set ms' \<subseteq> set ms \<and> set orgs' \<subseteq> set orgs \<longrightarrow>
         resolve_effective_role user orgs g ms = resolve_effective_role user orgs' g ms')"
proof -
  have sub: "set (contributions user o1 g m1) \<subseteq> set (contributions user o2 g m2)"
    if "set m1 \<subseteq> set m2" "set o1 \<subseteq> set o2" for m1 m2 o1 o2
    unfolding contributions_def set_map set_filter principal_matches_iff
    by (rule image_mono) (use that in auto)
  have "eff_le (resolve_effective_role user o1 g m1) (resolve_effective_role user o2 g m2)"
    if "set m1 \<subseteq> set m2" "set o1 \<subseteq> set o2" for m1 m2 o1 o2
    unfolding resolve_effective_role_def resolve_loop_fold
    by (rule eff.fold_join_mono) (use sub [OF that] in auto)
  with assms eff.le_antisym show ?thesis by blast
qed

definition ex_group :: group where
  "ex_group = \<lparr> gid = GroupId 1, gslug = ''g'', gowner = OwnerOrg (OrgId 7),
     gdisplay_name = None, gcreated_at = 0 \<rparr>"

definition ex_member :: membership where
  "ex_member = \<lparr> mgroup = GroupId 1, mprincipal = PrOrg (OrgId 7), mrole = Write, mgranted_at = 0 \<rparr>"

theorem resolve_monotone_witness:
  "eff_le (resolve_effective_role (UserId 3) [] ex_group [ex_member])
          (resolve_effective_role (UserId 3) [OrgId 7] ex_group [ex_member, ex_member])"
  using resolve_monotone [of "[ex_member]" "[ex_member, ex_member]" "[]" "[OrgId 7]" "UserId 3" ex_group]
  by simp

text \<open>The resolver does not follow a membership held by another group.\<close>

lemma resolve_ignores_group_principals:
  "resolve_effective_role user orgs g ms =
     resolve_effective_role user orgs g
       (filter (\<lambda>m. mgroup m = gid g \<and> (\<forall>h. mprincipal m \<noteq> PrGroup h)) ms)"
proof (rule eff_ext)
  let ?f = "filter (\<lambda>m. mgroup m = gid g \<and> (\<forall>h. mprincipal m \<noteq> PrGroup h)) ms"
  have "set (contributions user orgs g ms) = set (contributions user orgs g ?f)"
    unfolding contributions_def set_map set_filter principal_matches_iff
    by (rule arg_cong [where f = "image mrole"]) auto
  then show "eff_allows (resolve_effective_role user orgs g ms) r =
      eff_allows (resolve_effective_role user orgs g ?f) r" for r
    by (simp only: resolve_allows)
qed

end
