(* ===== verification/Rust_Str.thy ===== *)
theory Rust_Str
  imports Prelude
begin

text \<open>
  The operations of Rust's \<open>str\<close> that the modelled code calls, on the UTF-8 bytes of the
  string: splitting, prefixes and suffixes, trimming, lines, ASCII classes. A character
  class that only accepts ASCII characters is a predicate on bytes, because every byte of
  a multi-byte UTF-8 sequence is at least 128. \<open>trim\<close> removes the Unicode white space
  characters, which are one to three bytes long.
\<close>

section \<open>Bytes\<close>

definition byte :: "char \<Rightarrow> nat" where
  "byte c = of_char c"

abbreviation newline :: char where "newline \<equiv> CHR 0x0A"
abbreviation carriage_return :: char where "carriage_return \<equiv> CHR 0x0D"

lemma byte_inj [simp]: "byte c = byte d \<longleftrightarrow> c = d"
  by (simp add: byte_def)

definition is_ascii_lowercase :: "char \<Rightarrow> bool" where
  "is_ascii_lowercase c \<longleftrightarrow> 97 \<le> byte c \<and> byte c \<le> 122"

definition is_ascii_uppercase :: "char \<Rightarrow> bool" where
  "is_ascii_uppercase c \<longleftrightarrow> 65 \<le> byte c \<and> byte c \<le> 90"

definition is_ascii_digit :: "char \<Rightarrow> bool" where
  "is_ascii_digit c \<longleftrightarrow> 48 \<le> byte c \<and> byte c \<le> 57"

definition is_ascii_hexdigit :: "char \<Rightarrow> bool" where
  "is_ascii_hexdigit c \<longleftrightarrow>
     is_ascii_digit c \<or> (97 \<le> byte c \<and> byte c \<le> 102) \<or> (65 \<le> byte c \<and> byte c \<le> 70)"

definition to_ascii_lower :: "char \<Rightarrow> char" where
  "to_ascii_lower c = (if is_ascii_uppercase c then char_of (byte c + 32) else c)"

definition to_ascii_lowercase :: "string \<Rightarrow> string" where
  "to_ascii_lowercase s = map to_ascii_lower s"

definition eq_ignore_ascii_case :: "string \<Rightarrow> string \<Rightarrow> bool" where
  "eq_ignore_ascii_case s t \<longleftrightarrow> to_ascii_lowercase s = to_ascii_lowercase t"

text \<open>
  \<open>str::is_char_boundary\<close>: the start, the end, and every offset that is not a
  continuation byte \<open>0b10xxxxxx\<close>.
\<close>

definition is_char_boundary :: "string \<Rightarrow> nat \<Rightarrow> bool" where
  "is_char_boundary s i \<longleftrightarrow>
     i = 0 \<or> i = length s \<or> (i < length s \<and> \<not> (128 \<le> byte (s ! i) \<and> byte (s ! i) < 192))"

section \<open>Prefixes and suffixes\<close>

definition starts_with :: "string \<Rightarrow> string \<Rightarrow> bool" where
  "starts_with s p \<longleftrightarrow> take (length p) s = p"

definition ends_with :: "string \<Rightarrow> string \<Rightarrow> bool" where
  "ends_with s p \<longleftrightarrow> length p \<le> length s \<and> drop (length s - length p) s = p"

fun strip_prefix :: "string \<Rightarrow> string \<Rightarrow> string option" where
  "strip_prefix s [] = Some s"
| "strip_prefix [] (p # ps) = None"
| "strip_prefix (c # s) (p # ps) = (if c = p then strip_prefix s ps else None)"

definition strip_suffix :: "string \<Rightarrow> string \<Rightarrow> string option" where
  "strip_suffix s p = map_option rev (strip_prefix (rev s) (rev p))"

lemma strip_prefix_Some: "strip_prefix s p = Some t \<longleftrightarrow> s = p @ t"
  by (induction s p rule: strip_prefix.induct) auto

lemma strip_prefix_append [simp]: "strip_prefix (p @ t) p = Some t"
  by (simp add: strip_prefix_Some)

lemma strip_prefix_None: "strip_prefix s p = None \<longleftrightarrow> (\<nexists>t. s = p @ t)"
  by (metis not_None_eq strip_prefix_Some)

lemma strip_suffix_Some: "strip_suffix s p = Some t \<longleftrightarrow> s = t @ p"
proof -
  have "strip_suffix s p = Some t \<longleftrightarrow> strip_prefix (rev s) (rev p) = Some (rev t)"
    by (auto simp: strip_suffix_def)
  also have "\<dots> \<longleftrightarrow> rev s = rev p @ rev t" by (simp only: strip_prefix_Some)
  also have "\<dots> \<longleftrightarrow> s = t @ p" by (metis rev_append rev_rev_ident)
  finally show ?thesis .
qed

lemma strip_suffix_append [simp]: "strip_suffix (t @ p) p = Some t"
  by (simp add: strip_suffix_Some)

lemma strip_suffix_None: "strip_suffix s p = None \<longleftrightarrow> (\<nexists>t. s = t @ p)"
  by (metis not_None_eq strip_suffix_Some)

lemma starts_with_iff: "starts_with s p \<longleftrightarrow> (\<exists>t. s = p @ t)"
  unfolding starts_with_def by (metis append_eq_conv_conj append_take_drop_id)

lemma ends_with_iff: "ends_with s p \<longleftrightarrow> (\<exists>t. s = t @ p)"
proof
  assume "ends_with s p"
  then have "s = take (length s - length p) s @ p"
    unfolding ends_with_def by (metis append_take_drop_id)
  then show "\<exists>t. s = t @ p" ..
next
  assume "\<exists>t. s = t @ p"
  then show "ends_with s p" by (auto simp: ends_with_def)
qed

lemma ends_with_singleton: "ends_with s [c] \<longleftrightarrow> s \<noteq> [] \<and> last s = c"
  by (metis append_butlast_last_id ends_with_iff last_snoc snoc_eq_iff_butlast)

lemma ends_with_Nil [simp]: "\<not> ends_with [] (c # p)"
  by (simp add: ends_with_def)

section \<open>Splitting\<close>

text \<open>\<open>str::split(c)\<close> for one byte \<open>c\<close>: always at least one piece.\<close>

fun split_on :: "'a \<Rightarrow> 'a list \<Rightarrow> 'a list list" where
  "split_on c [] = [[]]"
| "split_on c (x # xs) =
     (if x = c then [] # split_on c xs
      else (case split_on c xs of [] \<Rightarrow> [[x]] | y # ys \<Rightarrow> (x # y) # ys))"

fun join_with :: "'a list \<Rightarrow> 'a list list \<Rightarrow> 'a list" where
  "join_with sep [] = []"
| "join_with sep [x] = x"
| "join_with sep (x # y # ys) = x @ sep @ join_with sep (y # ys)"

lemma split_on_not_Nil [simp]: "split_on c xs \<noteq> []"
  by (induction xs) (auto split: list.splits)

lemma join_with_Cons: "xs \<noteq> [] \<Longrightarrow> join_with sep (x # xs) = x @ sep @ join_with sep xs"
  by (cases xs) auto

lemma join_split [simp]: "join_with [c] (split_on c xs) = xs"
proof (induction xs)
  case Nil
  then show ?case by simp
next
  case (Cons x xs)
  obtain y ys where *: "split_on c xs = y # ys"
    by (metis list.exhaust split_on_not_Nil)
  from Cons.IH * show ?case
    by (cases ys) auto
qed

lemma split_on_no_sep: "\<forall>y\<in>set (split_on c xs). c \<notin> set y"
  by (induction xs) (auto split: list.splits)

lemma split_on_none: "c \<notin> set xs \<Longrightarrow> split_on c xs = [xs]"
  by (induction xs) auto

lemma split_on_append_sep: "c \<notin> set xs \<Longrightarrow> split_on c (xs @ c # ys) = xs # split_on c ys"
  by (induction xs) auto

lemma split_join:
  "\<lbrakk> xss \<noteq> []; \<forall>xs\<in>set xss. c \<notin> set xs \<rbrakk> \<Longrightarrow> split_on c (join_with [c] xss) = xss"
  by (induction "[c]" xss rule: join_with.induct) (auto simp: split_on_none split_on_append_sep)

lemma set_split_on: "p \<in> set (split_on c xs) \<Longrightarrow> set p \<subseteq> set xs"
proof (induction xs arbitrary: p)
  case Nil
  then show ?case by simp
next
  case (Cons x xs)
  then show ?case by (force split: if_splits list.splits)
qed

lemma length_split_on: "length (split_on c xs) = Suc (count_list xs c)"
  by (induction xs) (auto split: list.splits)

text \<open>\<open>split_once(c)\<close> and \<open>rsplit_once(c)\<close>: at the first and at the last occurrence.\<close>

fun split_once :: "'a \<Rightarrow> 'a list \<Rightarrow> ('a list \<times> 'a list) option" where
  "split_once c [] = None"
| "split_once c (x # xs) =
     (if x = c then Some ([], xs)
      else map_option (\<lambda>(a, b). (x # a, b)) (split_once c xs))"

definition rsplit_once :: "'a \<Rightarrow> 'a list \<Rightarrow> ('a list \<times> 'a list) option" where
  "rsplit_once c xs = map_option (\<lambda>(a, b). (rev b, rev a)) (split_once c (rev xs))"

lemma split_once_Some: "split_once c xs = Some (a, b) \<longleftrightarrow> xs = a @ c # b \<and> c \<notin> set a"
proof (induction xs arbitrary: a)
  case Nil
  then show ?case by simp
next
  case (Cons x xs)
  then show ?case by (cases a) auto
qed

lemma split_once_None: "split_once c xs = None \<longleftrightarrow> c \<notin> set xs"
  by (induction xs) auto

lemma rsplit_once_Some: "rsplit_once c xs = Some (a, b) \<longleftrightarrow> xs = a @ c # b \<and> c \<notin> set b"
proof -
  have "rsplit_once c xs = Some (a, b) \<longleftrightarrow> split_once c (rev xs) = Some (rev b, rev a)"
    by (auto simp: rsplit_once_def)
  also have "\<dots> \<longleftrightarrow> rev xs = rev b @ c # rev a \<and> c \<notin> set b"
    by (simp add: split_once_Some)
  also have "rev xs = rev b @ c # rev a \<longleftrightarrow> xs = a @ c # b"
    by (metis append.assoc append_Cons append_Nil rev.simps(2) rev_append rev_rev_ident)
  finally show ?thesis .
qed

lemma rsplit_once_None: "rsplit_once c xs = None \<longleftrightarrow> c \<notin> set xs"
  by (simp add: rsplit_once_def split_once_None)

text \<open>\<open>rfind(c)\<close>: the offset of the last occurrence.\<close>

definition rfind :: "'a \<Rightarrow> 'a list \<Rightarrow> nat option" where
  "rfind c xs = map_option (\<lambda>(a, b). length a) (rsplit_once c xs)"

lemma rfind_Some:
  "rfind c xs = Some i \<longleftrightarrow> i < length xs \<and> xs ! i = c \<and> c \<notin> set (drop (Suc i) xs)"
proof
  assume "rfind c xs = Some i"
  then obtain a b where "rsplit_once c xs = Some (a, b)" "i = length a"
    by (auto simp: rfind_def)
  then show "i < length xs \<and> xs ! i = c \<and> c \<notin> set (drop (Suc i) xs)"
    by (auto simp: rsplit_once_Some)
next
  assume *: "i < length xs \<and> xs ! i = c \<and> c \<notin> set (drop (Suc i) xs)"
  then have "xs = take i xs @ c # drop (Suc i) xs" using id_take_nth_drop [of i xs] by auto
  with * have "rsplit_once c xs = Some (take i xs, drop (Suc i) xs)"
    by (simp only: rsplit_once_Some) simp
  with * show "rfind c xs = Some i" by (simp add: rfind_def)
qed

lemma rfind_None: "rfind c xs = None \<longleftrightarrow> c \<notin> set xs"
  by (simp add: rfind_def rsplit_once_None)

section \<open>Trimming\<close>

text \<open>\<open>trim_matches(c)\<close> for one ASCII byte \<open>c\<close>.\<close>

definition trim_start_matches :: "'a \<Rightarrow> 'a list \<Rightarrow> 'a list" where
  "trim_start_matches c xs = dropWhile (\<lambda>x. x = c) xs"

definition trim_end_matches :: "'a \<Rightarrow> 'a list \<Rightarrow> 'a list" where
  "trim_end_matches c xs = rev (dropWhile (\<lambda>x. x = c) (rev xs))"

definition trim_matches :: "'a \<Rightarrow> 'a list \<Rightarrow> 'a list" where
  "trim_matches c xs = trim_end_matches c (trim_start_matches c xs)"

text \<open>
  The byte length of the Unicode white space character a string starts with, 0 when it
  does not start with one: ASCII tab, line feed, vertical tab, form feed, carriage return
  and space; U+0085 and U+00A0; U+1680; U+2000 to U+200A, U+2028, U+2029, U+202F, U+205F;
  U+3000.
\<close>

definition ws_len :: "nat \<Rightarrow> nat option \<Rightarrow> nat option \<Rightarrow> nat" where
  "ws_len a b c =
     (if a \<in> {9, 10, 11, 12, 13, 32} then 1
      else if a = 0xC2 \<and> (b = Some 0x85 \<or> b = Some 0xA0) then 2
      else if a = 0xE1 \<and> b = Some 0x9A \<and> c = Some 0x80 then 3
      else if a = 0xE2 \<and> b = Some 0x80 \<and>
              (case c of None \<Rightarrow> False
               | Some n \<Rightarrow> (0x80 \<le> n \<and> n \<le> 0x8A) \<or> n = 0xA8 \<or> n = 0xA9 \<or> n = 0xAF) then 3
      else if a = 0xE2 \<and> b = Some 0x81 \<and> c = Some 0x9F then 3
      else if a = 0xE3 \<and> b = Some 0x80 \<and> c = Some 0x80 then 3
      else 0)"

fun ws_prefix :: "string \<Rightarrow> nat" where
  "ws_prefix [] = 0"
| "ws_prefix [a] = ws_len (byte a) None None"
| "ws_prefix [a, b] = ws_len (byte a) (Some (byte b)) None"
| "ws_prefix (a # b # c # s) = ws_len (byte a) (Some (byte b)) (Some (byte c))"

text \<open>
  The same for the last character, read on the reversed string: the character is one, two
  or three bytes, and its bytes appear in reverse order.
\<close>

definition ws_suffix_rev :: "string \<Rightarrow> nat" where
  "ws_suffix_rev r =
     (if r \<noteq> [] \<and> ws_prefix [hd r] = 1 then 1
      else if 2 \<le> length r \<and> ws_prefix (rev (take 2 r)) = 2 then 2
      else if 3 \<le> length r \<and> ws_prefix (rev (take 3 r)) = 3 then 3
      else 0)"

function trim_start :: "string \<Rightarrow> string" where
  "trim_start s = (if ws_prefix s = 0 \<or> s = [] then s else trim_start (drop (ws_prefix s) s))"
  by pat_completeness auto
termination
  by (relation "measure length") (auto simp: length_drop)

function trim_end_rev :: "string \<Rightarrow> string" where
  "trim_end_rev r =
     (if ws_suffix_rev r = 0 \<or> r = [] then r else trim_end_rev (drop (ws_suffix_rev r) r))"
  by pat_completeness auto
termination
  by (relation "measure length") auto

declare trim_start.simps [simp del] trim_end_rev.simps [simp del]

definition trim_end :: "string \<Rightarrow> string" where
  "trim_end s = rev (trim_end_rev (rev s))"

definition trim :: "string \<Rightarrow> string" where
  "trim s = trim_end (trim_start s)"

lemma trim_start_suffix: "\<exists>w. s = w @ trim_start s"
proof (induction s rule: trim_start.induct)
  case (1 s)
  show ?case
  proof (cases "ws_prefix s = 0 \<or> s = []")
    case True
    then show ?thesis by (simp add: trim_start.simps [of s])
  next
    case False
    with "1" obtain w where "drop (ws_prefix s) s = w @ trim_start (drop (ws_prefix s) s)" by blast
    then have "s = (take (ws_prefix s) s @ w) @ trim_start (drop (ws_prefix s) s)"
      by (metis append.assoc append_take_drop_id)
    with False show ?thesis by (metis trim_start.simps)
  qed
qed

lemma trim_end_rev_suffix: "\<exists>w. r = w @ trim_end_rev r"
proof (induction r rule: trim_end_rev.induct)
  case (1 r)
  show ?case
  proof (cases "ws_suffix_rev r = 0 \<or> r = []")
    case True
    then show ?thesis by (simp add: trim_end_rev.simps [of r])
  next
    case False
    with "1" obtain w where
      "drop (ws_suffix_rev r) r = w @ trim_end_rev (drop (ws_suffix_rev r) r)" by blast
    then have "r = (take (ws_suffix_rev r) r @ w) @ trim_end_rev (drop (ws_suffix_rev r) r)"
      by (metis append.assoc append_take_drop_id)
    with False show ?thesis by (metis trim_end_rev.simps)
  qed
qed

lemma trim_end_prefix: "\<exists>w. s = trim_end s @ w"
proof -
  obtain w where "rev s = w @ trim_end_rev (rev s)" using trim_end_rev_suffix by blast
  then have "s = rev (trim_end_rev (rev s)) @ rev w" by (metis rev_append rev_rev_ident)
  then show ?thesis unfolding trim_end_def by blast
qed

lemma ws_prefix_le: "ws_prefix s \<le> length s"
  by (cases s rule: ws_prefix.cases) (auto simp: ws_len_def)

lemma ws_prefix_ascii: "\<lbrakk> byte a < 128; byte a \<notin> {9, 10, 11, 12, 13, 32} \<rbrakk> \<Longrightarrow> ws_prefix (a # s) = 0"
  by (cases "a # s" rule: ws_prefix.cases) (auto simp: ws_len_def)

lemma ws_prefix_newline [simp]: "ws_prefix (newline # s) = 1"
  by (cases "newline # s" rule: ws_prefix.cases) (auto simp: ws_len_def byte_def)

lemma ws_prefix_snoc_newline: "s \<noteq> [] \<Longrightarrow> ws_prefix (s @ [newline]) = ws_prefix s"
  by (cases s rule: ws_prefix.cases) (auto simp: ws_len_def byte_def)

lemma trim_start_Nil [simp]: "trim_start [] = []"
  by (simp add: trim_start.simps)

lemma trim_start_fix: "ws_prefix s = 0 \<Longrightarrow> trim_start s = s"
  by (simp add: trim_start.simps)

lemma trim_start_newline [simp]: "trim_start (newline # s) = trim_start s"
  by (subst trim_start.simps) simp

lemma trim_start_snoc_newline:
  "trim_start (s @ [newline]) = (if trim_start s = [] then [] else trim_start s @ [newline])"
proof (induction s rule: trim_start.induct)
  case (1 s)
  show ?case
  proof (cases "ws_prefix s = 0 \<or> s = []")
    case True
    then show ?thesis
      by (cases "s = []") (simp_all add: trim_start_fix ws_prefix_snoc_newline)
  next
    case False
    then have "trim_start (s @ [newline]) = trim_start (drop (ws_prefix s) s @ [newline])"
      by (subst trim_start.simps) (simp add: ws_prefix_snoc_newline ws_prefix_le)
    moreover have "trim_start s = trim_start (drop (ws_prefix s) s)"
      using False by (subst trim_start.simps) simp
    ultimately show ?thesis using "1" False by simp
  qed
qed

lemma trim_end_snoc_newline [simp]: "trim_end (s @ [newline]) = trim_end s"
proof -
  have "ws_suffix_rev (newline # r) = 1" for r
    by (simp add: ws_suffix_rev_def ws_len_def byte_def)
  then show ?thesis by (simp add: trim_end_def trim_end_rev.simps [of "newline # rev s"])
qed

lemma trim_end_Nil [simp]: "trim_end [] = []"
  by (simp add: trim_end_def trim_end_rev.simps)

lemma trim_newline_left [simp]: "trim (newline # s) = trim s"
  by (simp add: trim_def)

lemma trim_newline_right [simp]: "trim (s @ [newline]) = trim s"
  by (simp add: trim_def trim_start_snoc_newline)

section \<open>Lines\<close>

text \<open>
  \<open>str::lines\<close>: the pieces between line feeds with no final empty piece; a carriage
  return right before a line feed is not part of the line, one at the end of an
  unterminated last line is.
\<close>

definition strip_cr :: "string \<Rightarrow> string" where
  "strip_cr l = (case strip_suffix l [carriage_return] of None \<Rightarrow> l | Some m \<Rightarrow> m)"

definition lines :: "string \<Rightarrow> string list" where
  "lines s =
     (let ps = split_on newline s; n = length ps - 1
      in map strip_cr (take n ps) @ (if last ps = [] then [] else [last ps]))"

lemma split_on_append: "split_on c (xs @ c # ys) = split_on c xs @ split_on c ys"
proof (induction xs)
  case Nil
  then show ?case by simp
next
  case (Cons x xs)
  then show ?case by (cases "split_on c xs") auto
qed

lemma lines_append: "lines (s @ newline # t) = map strip_cr (split_on newline s) @ lines t"
  by (simp add: lines_def Let_def split_on_append length_split_on)

lemma strip_cr_id: "carriage_return \<notin> set l \<Longrightarrow> strip_cr l = l"
  by (auto simp: strip_cr_def strip_suffix_Some split: option.splits)

lemma concat_split_on: "concat (map (\<lambda>l. c # l) (split_on c s)) = c # s"
proof (induction s)
  case Nil
  then show ?case by simp
next
  case (Cons x s)
  then show ?case by (cases "split_on c s") auto
qed

text \<open>\<open>split_inclusive('\\n')\<close>: pieces keep their line feed; no final empty piece.\<close>

fun split_inclusive :: "char \<Rightarrow> string \<Rightarrow> string list" where
  "split_inclusive c [] = []"
| "split_inclusive c (x # xs) =
     (if x = c then [x] # split_inclusive c xs
      else (case split_inclusive c xs of [] \<Rightarrow> [[x]] | y # ys \<Rightarrow> (x # y) # ys))"

lemma concat_split_inclusive [simp]: "concat (split_inclusive c xs) = xs"
  by (induction xs) (auto split: list.splits)

lemma split_inclusive_nonempty: "l \<in> set (split_inclusive c xs) \<Longrightarrow> l \<noteq> []"
  by (induction xs) (auto split: list.splits if_splits)

lemma split_inclusive_prefix:
  "k < length (split_inclusive c xs) \<Longrightarrow>
   concat (take k (split_inclusive c xs)) = [] \<or> last (concat (take k (split_inclusive c xs))) = c"
proof (induction xs arbitrary: k)
  case Nil
  then show ?case by simp
next
  case (Cons x xs)
  show ?case
  proof (cases k)
    case 0
    then show ?thesis by simp
  next
    case (Suc j)
    show ?thesis
    proof (cases "x = c")
      case True
      with Cons Suc show ?thesis by auto
    next
      case False
      with Cons.prems Suc obtain y ys where y: "split_inclusive c xs = y # ys"
        by (cases "split_inclusive c xs") auto
      then have "y \<noteq> []" using split_inclusive_nonempty [of y c xs] by simp
      moreover have "Suc j < length (split_inclusive c xs)" using Cons.prems False Suc y by simp
      ultimately have "last (concat (take (Suc j) (split_inclusive c xs))) = c"
        using Cons.IH [of "Suc j"] y by auto
      with False Suc y \<open>y \<noteq> []\<close> show ?thesis by simp
    qed
  qed
qed

text \<open>
  What every \<open>&str\<close> satisfies and the line arithmetic relies on: the first byte and the byte
  after a line feed do not continue a multi-byte character.
\<close>

definition continuation_byte :: "char \<Rightarrow> bool" where
  "continuation_byte c \<longleftrightarrow> 128 \<le> byte c \<and> byte c < 192"

fun wf_after :: "bool \<Rightarrow> string \<Rightarrow> bool" where
  "wf_after line_start [] \<longleftrightarrow> True"
| "wf_after line_start (c # cs) \<longleftrightarrow>
     (line_start \<longrightarrow> \<not> continuation_byte c) \<and> wf_after (c = newline) cs"

definition str_wf :: "string \<Rightarrow> bool" where
  "str_wf s \<longleftrightarrow> wf_after True s"

lemma wf_after_weaken: "wf_after True s \<Longrightarrow> wf_after b s"
  by (cases s) auto

lemma wf_after_append:
  "wf_after b (xs @ ys) \<longleftrightarrow> wf_after b xs \<and> wf_after (if xs = [] then b else last xs = newline) ys"
  by (induction xs arbitrary: b) auto

lemma wf_after_split:
  "wf_after b s \<longleftrightarrow> wf_after b (take k s) \<and>
     wf_after (if take k s = [] then b else last (take k s) = newline) (drop k s)"
  using wf_after_append [of b "take k s" "drop k s"] by simp

lemma str_wf_append: "\<lbrakk> str_wf xs; str_wf ys \<rbrakk> \<Longrightarrow> str_wf (xs @ ys)"
  by (simp add: str_wf_def wf_after_append wf_after_weaken)

lemma str_wf_Nil [simp]: "str_wf []"
  by (simp add: str_wf_def)

lemma str_wf_ascii: "\<forall>c\<in>set s. byte c < 128 \<Longrightarrow> str_wf s"
proof -
  have "\<forall>c\<in>set s. byte c < 128 \<Longrightarrow> wf_after b s" for b
    by (induction s arbitrary: b) (auto simp: continuation_byte_def)
  then show "\<forall>c\<in>set s. byte c < 128 \<Longrightarrow> str_wf s" by (simp add: str_wf_def)
qed

lemma str_wf_take: "str_wf s \<Longrightarrow> str_wf (take k s)"
  using wf_after_split [of True s k] by (simp add: str_wf_def)

lemma str_wf_drop:
  assumes "str_wf s" "is_char_boundary s k"
  shows "str_wf (drop k s)"
proof (cases "k < length s")
  case True
  have "wf_after (if take k s = [] then True else last (take k s) = newline) (drop k s)"
    using assms(1) wf_after_split [of True s] unfolding str_wf_def by blast
  moreover from True obtain c cs where "drop k s = c # cs" "c = s ! k"
    by (metis Cons_nth_drop_Suc)
  moreover have "k = 0 \<or> \<not> continuation_byte (s ! k)"
    using assms(2) True by (auto simp: is_char_boundary_def continuation_byte_def)
  ultimately show ?thesis using assms(1) by (auto simp: str_wf_def)
qed simp

lemma boundary_after_newline:
  assumes "str_wf s" "i \<le> length s" "i = 0 \<or> s ! (i - 1) = newline"
  shows "is_char_boundary s i"
proof (cases "i = 0 \<or> i = length s")
  case False
  then have i: "0 < i" "i < length s" using assms(2) by auto
  have "wf_after (if take i s = [] then True else last (take i s) = newline) (drop i s)"
    using assms(1) wf_after_split [of True s] unfolding str_wf_def by blast
  moreover have "last (take i s) = newline"
    using assms(3) i by (cases "s = []") (auto simp: last_conv_nth)
  moreover from i obtain cs where "drop i s = s ! i # cs"
    by (metis Cons_nth_drop_Suc)
  ultimately show ?thesis by (auto simp: is_char_boundary_def continuation_byte_def)
qed (auto simp: is_char_boundary_def)

lemma dropWhile_newline_wf:
  "wf_after b s \<Longrightarrow> b \<Longrightarrow> wf_after True (dropWhile (\<lambda>x. x = newline) s)"
  by (induction s arbitrary: b) auto

lemma trim_matches_newline_wf:
  assumes "str_wf s"
  shows "str_wf (trim_matches newline s)"
proof -
  have "str_wf (trim_start_matches newline s)"
    using dropWhile_newline_wf [of True s] assms by (simp add: str_wf_def trim_start_matches_def)
  moreover have "\<exists>w. t = trim_end_matches newline t @ w" for t
  proof -
    have "rev t = takeWhile (\<lambda>x. x = newline) (rev t) @ dropWhile (\<lambda>x. x = newline) (rev t)" by simp
    then have "t = rev (dropWhile (\<lambda>x. x = newline) (rev t)) @ rev (takeWhile (\<lambda>x. x = newline) (rev t))"
      by (metis rev_append rev_rev_ident)
    then show ?thesis unfolding trim_end_matches_def by blast
  qed
  ultimately show ?thesis
    unfolding trim_matches_def by (metis str_wf_def wf_after_append)
qed

section \<open>Decimal numbers\<close>

text \<open>\<open>format!("{n}")\<close> of an unsigned integer.\<close>

definition digit_char :: "nat \<Rightarrow> char" where
  "digit_char d = char_of (48 + d)"

fun dec :: "nat \<Rightarrow> string" where
  "dec n = (if n < 10 then [digit_char n] else dec (n div 10) @ [digit_char (n mod 10)])"

declare dec.simps [simp del]

lemma digit_char_inject: "\<lbrakk> a < 10; b < 10; digit_char a = digit_char b \<rbrakk> \<Longrightarrow> a = b"
proof -
  assume a: "a < 10" "b < 10" and eq: "digit_char a = digit_char b"
  have "byte (digit_char d) = 48 + d" if "d < 10" for d
    using that by (simp add: digit_char_def byte_def)
  with a eq show ?thesis by (metis add_left_cancel)
qed

lemma dec_not_Nil [simp]: "dec n \<noteq> []"
  by (subst dec.simps) simp

lemma Nil_not_dec [simp]: "[] \<noteq> dec n"
  using dec_not_Nil by metis

lemma dec_inject: "dec m = dec n \<longleftrightarrow> m = n"
proof (induction m arbitrary: n rule: dec.induct)
  case (1 m)
  have single: "dec k = [digit_char k]" if "k < 10" for k
    using that by (subst dec.simps) simp
  have many: "dec k = dec (k div 10) @ [digit_char (k mod 10)]" if "\<not> k < 10" for k
    using that by (subst dec.simps) simp
  show ?case
  proof (cases "m < 10")
    case True
    show ?thesis
    proof (cases "n < 10")
      case True
      with \<open>m < 10\<close> show ?thesis by (auto simp: single dest: digit_char_inject)
    next
      case False
      with \<open>m < 10\<close> show ?thesis by (auto simp: single many)
    qed
  next
    case False
    note m = this
    show ?thesis
    proof (cases "n < 10")
      case True
      with m show ?thesis by (auto simp: single many [of m])
    next
      case n: False
      show ?thesis
      proof
        assume "dec m = dec n"
        then have "dec (m div 10) = dec (n div 10)" "digit_char (m mod 10) = digit_char (n mod 10)"
          by (auto simp: many [OF m] many [OF n])
        then have "m div 10 = n div 10" "m mod 10 = n mod 10"
          using "1.IH" [OF m] digit_char_inject [of "m mod 10" "n mod 10"] by auto
        then show "m = n" by (metis div_mult_mod_eq)
      qed simp
    qed
  qed
qed

section \<open>UTF-8\<close>

text \<open>\<open>std::str::from_utf8\<close>: the well-formed UTF-8 byte sequences.\<close>

definition cont_in :: "nat \<Rightarrow> nat \<Rightarrow> char \<Rightarrow> bool" where
  "cont_in lo hi c \<longleftrightarrow> lo \<le> byte c \<and> byte c \<le> hi"

fun utf8_ok :: "string \<Rightarrow> bool" where
  "utf8_ok [] \<longleftrightarrow> True"
| "utf8_ok (a # s) \<longleftrightarrow>
     (if byte a < 0x80 then utf8_ok s
      else if cont_in 0xC2 0xDF a then
        (case s of b # t \<Rightarrow> cont_in 0x80 0xBF b \<and> utf8_ok t | _ \<Rightarrow> False)
      else if cont_in 0xE0 0xEF a then
        (case s of b # c # t \<Rightarrow>
             (if byte a = 0xE0 then cont_in 0xA0 0xBF b
              else if byte a = 0xED then cont_in 0x80 0x9F b else cont_in 0x80 0xBF b)
             \<and> cont_in 0x80 0xBF c \<and> utf8_ok t
         | _ \<Rightarrow> False)
      else if cont_in 0xF0 0xF4 a then
        (case s of b # c # d # t \<Rightarrow>
             (if byte a = 0xF0 then cont_in 0x90 0xBF b
              else if byte a = 0xF4 then cont_in 0x80 0x8F b else cont_in 0x80 0xBF b)
             \<and> cont_in 0x80 0xBF c \<and> cont_in 0x80 0xBF d \<and> utf8_ok t
         | _ \<Rightarrow> False)
      else False)"

text \<open>
  \<open>String::from_utf8_lossy\<close>: every maximal ill-formed piece becomes the replacement
  character. \<open>utf8_step\<close> is the length of the next character or piece and whether it is
  well formed.
\<close>

definition second_ok :: "char \<Rightarrow> char \<Rightarrow> bool" where
  "second_ok a b \<longleftrightarrow>
     (if byte a = 0xE0 then cont_in 0xA0 0xBF b
      else if byte a = 0xED then cont_in 0x80 0x9F b
      else if byte a = 0xF0 then cont_in 0x90 0xBF b
      else if byte a = 0xF4 then cont_in 0x80 0x8F b
      else cont_in 0x80 0xBF b)"

fun utf8_tail :: "nat \<Rightarrow> nat \<Rightarrow> string \<Rightarrow> nat \<times> bool" where
  "utf8_tail 0 k s = (k, True)"
| "utf8_tail (Suc n) k [] = (k, False)"
| "utf8_tail (Suc n) k (c # s) = (if cont_in 0x80 0xBF c then utf8_tail n (Suc k) s else (k, False))"

fun utf8_step :: "char \<Rightarrow> string \<Rightarrow> nat \<times> bool" where
  "utf8_step a s =
     (if byte a < 0x80 then (1, True)
      else if cont_in 0xC2 0xF4 a then
        (case s of
           [] \<Rightarrow> (1, False)
         | b # t \<Rightarrow>
             if second_ok a b
             then utf8_tail (if byte a < 0xE0 then 0 else if byte a < 0xF0 then 1 else 2) 2 t
             else (1, False))
      else (1, False))"

lemma utf8_tail_ge: "k \<le> fst (utf8_tail n k s)"
  by (induction n k s rule: utf8_tail.induct) auto

lemma utf8_step_pos: "0 < fst (utf8_step a s)"
  using utf8_tail_ge [of 2] by (auto split: list.split) (metis less_le_trans zero_less_numeral)+

definition REPLACEMENT :: string where "REPLACEMENT = [CHR 0xEF, CHR 0xBF, CHR 0xBD]"

function utf8_lossy :: "string \<Rightarrow> string" where
  "utf8_lossy [] = []"
| "utf8_lossy (a # s) =
     (let (n, ok) = utf8_step a s
      in (if ok then take n (a # s) else REPLACEMENT) @ utf8_lossy (drop n (a # s)))"
  by pat_completeness auto
termination
proof (relation "measure length")
  fix a s x n ok
  assume "x = utf8_step a s" "(n, ok) = x"
  then have "n = fst (utf8_step a s)" by (metis fst_conv)
  with utf8_step_pos [of a s] show "(drop n (a # s), a # s) \<in> measure length" by simp
qed simp

declare utf8_step.simps [simp del]

lemma utf8_lossy_ok: "utf8_ok s \<Longrightarrow> utf8_lossy s = s"
proof (induction s rule: utf8_ok.induct)
  case 1
  then show ?case by simp
next
  case (2 a s)
  consider "byte a < 0x80" | "\<not> byte a < 0x80" "cont_in 0xC2 0xDF a" | "\<not> byte a < 0x80" "\<not> cont_in 0xC2 0xDF a" "cont_in 0xE0 0xEF a"
    | "\<not> byte a < 0x80" "\<not> cont_in 0xC2 0xDF a" "\<not> cont_in 0xE0 0xEF a" "cont_in 0xF0 0xF4 a"
    using "2.prems" by (auto split: if_splits)
  then show ?case
  proof cases
    case 1
    with 2 show ?thesis by (simp add: utf8_step.simps)
  next
    case 2
    then obtain b t where s: "s = b # t" "cont_in 0x80 0xBF b" "utf8_ok t"
      using "2.prems" by (auto split: list.splits)
    have "utf8_step a s = (2, True)"
      using 2 s by (auto simp: utf8_step.simps second_ok_def cont_in_def)
    with "2.IH"(2) [OF 2 s(1) s(3)] s show ?thesis by simp
  next
    case 3
    then obtain b c t where s: "s = b # c # t" "cont_in 0x80 0xBF c" "utf8_ok t"
      "if byte a = 0xE0 then cont_in 0xA0 0xBF b else if byte a = 0xED then cont_in 0x80 0x9F b else cont_in 0x80 0xBF b"
      using "2.prems" by (auto split: list.splits if_splits)
    have "utf8_step a s = (3, True)"
      using 3 s by (auto simp: utf8_step.simps second_ok_def cont_in_def eval_nat_numeral)
    with "2.IH"(3) [OF 3 s(1) _ s(3)] s show ?thesis by simp
  next
    case 4
    then obtain b c d t where s: "s = b # c # d # t" "cont_in 0x80 0xBF c" "cont_in 0x80 0xBF d" "utf8_ok t"
      "if byte a = 0xF0 then cont_in 0x90 0xBF b else if byte a = 0xF4 then cont_in 0x80 0x8F b else cont_in 0x80 0xBF b"
      using "2.prems" by (auto split: list.splits if_splits)
    have "utf8_step a s = (4, True)"
      using 4 s by (auto simp: utf8_step.simps second_ok_def cont_in_def eval_nat_numeral)
    with "2.IH"(4) [OF 4 s(1)] s show ?thesis by simp
  qed
qed

lemma utf8_ok_append: "utf8_ok s \<Longrightarrow> utf8_ok t \<Longrightarrow> utf8_ok (s @ t)"
proof (induction s rule: utf8_ok.induct)
  case (2 a s)
  consider "byte a < 0x80" | "\<not> byte a < 0x80" "cont_in 0xC2 0xDF a" | "\<not> byte a < 0x80" "\<not> cont_in 0xC2 0xDF a" "cont_in 0xE0 0xEF a"
    | "\<not> byte a < 0x80" "\<not> cont_in 0xC2 0xDF a" "\<not> cont_in 0xE0 0xEF a" "cont_in 0xF0 0xF4 a"
    using "2.prems"(1) by (auto split: if_splits)
  then show ?case
  proof cases
    case 1
    with 2 show ?thesis by simp
  next
    case 2
    then obtain b u where s: "s = b # u" "cont_in 0x80 0xBF b" "utf8_ok u"
      using "2.prems"(1) by (auto split: list.splits)
    with "2.IH"(2) [OF 2 s(1) s(3) "2.prems"(2)] 2 show ?thesis by simp
  next
    case 3
    then obtain b c u where s: "s = b # c # u" "cont_in 0x80 0xBF c" "utf8_ok u"
      "if byte a = 0xE0 then cont_in 0xA0 0xBF b else if byte a = 0xED then cont_in 0x80 0x9F b else cont_in 0x80 0xBF b"
      using "2.prems"(1) by (auto split: list.splits if_splits)
    with "2.IH"(3) [OF 3 s(1) _ s(3) "2.prems"(2)] 3 show ?thesis by simp
  next
    case 4
    then obtain b c d u where s: "s = b # c # d # u" "cont_in 0x80 0xBF c" "cont_in 0x80 0xBF d" "utf8_ok u"
      "if byte a = 0xF0 then cont_in 0x90 0xBF b else if byte a = 0xF4 then cont_in 0x80 0x8F b else cont_in 0x80 0xBF b"
      using "2.prems"(1) by (auto split: list.splits if_splits)
    with "2.IH"(4) [OF 4 s(1)] "2.prems"(2) 4 show ?thesis by simp
  qed
qed simp

end
