(* ===== verification/Kinds.thy ===== *)
theory Kinds
  imports Rust_Str
begin

text \<open>
  The kinds of a memory (\<open>memory/kind.rs\<close>), the trait that tracker statuses share
  (\<open>memory/status.rs\<close>) and its three implementations (\<open>memory/feature.rs\<close>,
  \<open>memory/issue.rs\<close>, \<open>memory/milestone.rs\<close>). The locale \<open>status_contract\<close> is the trait
  \<open>Status\<close>: what listings and parsers rely on. It is interpreted on the three enums.
\<close>

section \<open>Memory kinds\<close>

datatype memory_kind =
  Rule | Snapshot | Log | Reference | Scratch | KFeature | KIssue | KMilestone

definition kind_variants :: "memory_kind list" where
  "kind_variants = [Rule, Snapshot, Log, Reference, Scratch, KFeature, KIssue, KMilestone]"

text \<open>The \<open>snake_case\<close> wire names of the variants.\<close>

definition kind_as_str :: "memory_kind \<Rightarrow> string" where
  "kind_as_str self =
   (case self of
      Rule \<Rightarrow> ''rule''
    | Snapshot \<Rightarrow> ''snapshot''
    | Log \<Rightarrow> ''log''
    | Reference \<Rightarrow> ''reference''
    | Scratch \<Rightarrow> ''scratch''
    | KFeature \<Rightarrow> ''feature''
    | KIssue \<Rightarrow> ''issue''
    | KMilestone \<Rightarrow> ''milestone'')"

datatype kind_parse_error = MemoryKindParseError string

definition kind_from_str :: "string \<Rightarrow> kind_parse_error + memory_kind" where
  "kind_from_str raw = ok_or (MemoryKindParseError raw) (find (\<lambda>k. kind_as_str k = raw) kind_variants)"

definition warns_stale :: "memory_kind \<Rightarrow> bool" where
  "warns_stale self \<longleftrightarrow> self = Snapshot"

definition is_append_only :: "memory_kind \<Rightarrow> bool" where
  "is_append_only self \<longleftrightarrow> self = Log"

definition is_versioned :: "memory_kind \<Rightarrow> bool" where
  "is_versioned self \<longleftrightarrow> self \<noteq> Scratch"

text \<open>The message of the parse error: the wire names, joined with a slash.\<close>

definition kind_error_display :: "kind_parse_error \<Rightarrow> string" where
  "kind_error_display e =
     (case e of MemoryKindParseError input \<Rightarrow>
        ''invalid memory kind '' @ [CHR 0x27] @ input @ [CHR 0x27] @ '': expected one of '' @
        join_with '' / '' (map kind_as_str kind_variants))"

section \<open>Tracker statuses\<close>

subsection \<open>Features\<close>

datatype feature_status =
  FRequested | FApproved | FPending | FCompleted | FBlocked | FDeferred | FDuplicate | FSuperseded

definition feature_status_as_str :: "feature_status \<Rightarrow> string" where
  "feature_status_as_str self =
   (case self of
      FRequested \<Rightarrow> ''requested''
    | FApproved \<Rightarrow> ''approved''
    | FPending \<Rightarrow> ''pending''
    | FCompleted \<Rightarrow> ''completed''
    | FBlocked \<Rightarrow> ''blocked''
    | FDeferred \<Rightarrow> ''deferred''
    | FDuplicate \<Rightarrow> ''duplicate''
    | FSuperseded \<Rightarrow> ''superseded'')"

definition feature_status_all :: "feature_status list" where
  "feature_status_all =
     [FRequested, FApproved, FPending, FCompleted, FBlocked, FDeferred, FDuplicate, FSuperseded]"

definition feature_status_is_default_hidden :: "feature_status \<Rightarrow> bool" where
  "feature_status_is_default_hidden self \<longleftrightarrow> self \<in> {FCompleted, FDuplicate, FSuperseded}"

datatype feature_status_parse_error = FeatureStatusParseError string

definition feature_status_parse :: "string \<Rightarrow> feature_status_parse_error + feature_status" where
  "feature_status_parse raw =
     (if raw = ''requested'' then Inr FRequested
      else if raw = ''approved'' then Inr FApproved
      else if raw = ''pending'' then Inr FPending
      else if raw = ''completed'' then Inr FCompleted
      else if raw = ''blocked'' then Inr FBlocked
      else if raw = ''deferred'' then Inr FDeferred
      else if raw = ''duplicate'' then Inr FDuplicate
      else if raw = ''superseded'' then Inr FSuperseded
      else Inl (FeatureStatusParseError raw))"

subsection \<open>Issues\<close>

datatype issue_status =
  IOpen | IClosed | IWontfix | IBlocked | IDeferred | IDuplicate | ISuperseded

definition issue_status_as_str :: "issue_status \<Rightarrow> string" where
  "issue_status_as_str self =
   (case self of
      IOpen \<Rightarrow> ''open''
    | IClosed \<Rightarrow> ''closed''
    | IWontfix \<Rightarrow> ''wontfix''
    | IBlocked \<Rightarrow> ''blocked''
    | IDeferred \<Rightarrow> ''deferred''
    | IDuplicate \<Rightarrow> ''duplicate''
    | ISuperseded \<Rightarrow> ''superseded'')"

definition issue_status_all :: "issue_status list" where
  "issue_status_all =
     [IOpen, IClosed, IWontfix, IBlocked, IDeferred, IDuplicate, ISuperseded]"

definition issue_status_is_default_hidden :: "issue_status \<Rightarrow> bool" where
  "issue_status_is_default_hidden self \<longleftrightarrow> self \<in> {IClosed, IWontfix, IDuplicate, ISuperseded}"

datatype issue_status_parse_error = IssueStatusParseError string

definition issue_status_parse :: "string \<Rightarrow> issue_status_parse_error + issue_status" where
  "issue_status_parse raw =
     (if raw = ''open'' then Inr IOpen
      else if raw = ''closed'' then Inr IClosed
      else if raw = ''wontfix'' then Inr IWontfix
      else if raw = ''blocked'' then Inr IBlocked
      else if raw = ''deferred'' then Inr IDeferred
      else if raw = ''duplicate'' then Inr IDuplicate
      else if raw = ''superseded'' then Inr ISuperseded
      else Inl (IssueStatusParseError raw))"

subsection \<open>Milestones\<close>

datatype milestone_status =
  MPlanning | MActive | MOnHold | MCompleted

definition milestone_status_as_str :: "milestone_status \<Rightarrow> string" where
  "milestone_status_as_str self =
   (case self of
      MPlanning \<Rightarrow> ''planning''
    | MActive \<Rightarrow> ''active''
    | MOnHold \<Rightarrow> ''on_hold''
    | MCompleted \<Rightarrow> ''completed'')"

definition milestone_status_all :: "milestone_status list" where
  "milestone_status_all =
     [MPlanning, MActive, MOnHold, MCompleted]"

definition milestone_status_is_default_hidden :: "milestone_status \<Rightarrow> bool" where
  "milestone_status_is_default_hidden self \<longleftrightarrow> self \<in> {MCompleted}"

datatype milestone_status_parse_error = MilestoneStatusParseError string

definition milestone_status_parse :: "string \<Rightarrow> milestone_status_parse_error + milestone_status" where
  "milestone_status_parse raw =
     (if raw = ''planning'' then Inr MPlanning
      else if raw = ''active'' then Inr MActive
      else if raw = ''on_hold'' then Inr MOnHold
      else if raw = ''completed'' then Inr MCompleted
      else Inl (MilestoneStatusParseError raw))"

section \<open>The contract of a status\<close>

locale status_contract =
  fixes as_str :: "'s \<Rightarrow> string"
    and is_default_hidden :: "'s \<Rightarrow> bool"
    and all_variants :: "'s list"
    and parse :: "string \<Rightarrow> 'e + 's"
    and echo :: "string \<Rightarrow> 'e"
  assumes variants_complete: "s \<in> set all_variants"
    and variants_distinct: "distinct all_variants"
    and parse_as_str: "parse (as_str s) = Inr s"
    and parse_ok: "parse raw = Inr s \<Longrightarrow> raw = as_str s"
    and parse_error: "parse raw = Inl e \<Longrightarrow> e = echo raw"
begin

lemma parse_iff: "parse raw = Inr s \<longleftrightarrow> raw = as_str s"
  using parse_as_str parse_ok by blast

lemma as_str_inject: "as_str s = as_str t \<longleftrightarrow> s = t"
  by (metis parse_as_str sum.inject(2))

lemma parse_total: "parse raw = (case find (\<lambda>s. as_str s = raw) all_variants of
    None \<Rightarrow> Inl (echo raw) | Some s \<Rightarrow> Inr s)"
proof (cases "find (\<lambda>s. as_str s = raw) all_variants")
  case None
  then have "\<forall>s. as_str s \<noteq> raw" using variants_complete by (auto simp: find_None_iff)
  then have "\<nexists>s. parse raw = Inr s" using parse_iff by metis
  then obtain e where "parse raw = Inl e" by (cases "parse raw") auto
  with None parse_error show ?thesis by simp
next
  case (Some s)
  then have "raw = as_str s" by (auto simp: find_Some_iff)
  with Some show ?thesis by (simp add: parse_as_str)
qed

lemma parse_err_iff: "parse raw = Inl e \<longleftrightarrow> e = echo raw \<and> raw \<notin> as_str ` set all_variants"
proof -
  have "(\<exists>s. parse raw = Inr s) \<longleftrightarrow> raw \<in> as_str ` set all_variants"
    using variants_complete parse_iff by auto
  then show ?thesis
    using parse_error by (cases "parse raw") auto
qed

lemma wire_names_distinct: "distinct (map as_str all_variants)"
  using variants_distinct by (simp add: distinct_map inj_on_def as_str_inject)

end

lemma kind_as_str_inject: "kind_as_str k = kind_as_str l \<longleftrightarrow> k = l"
  by (cases k; cases l; simp add: kind_as_str_def)

interpretation feature_st: status_contract feature_status_as_str feature_status_is_default_hidden
  feature_status_all feature_status_parse FeatureStatusParseError
proof unfold_locales
  fix s raw e
  show "s \<in> set feature_status_all" by (cases s) (simp_all add: feature_status_all_def)
  show "distinct feature_status_all" by (simp add: feature_status_all_def)
  show "feature_status_parse (feature_status_as_str s) = Inr s"
    by (cases s) (simp_all add: feature_status_as_str_def feature_status_parse_def)
  show "feature_status_parse raw = Inr s \<Longrightarrow> raw = feature_status_as_str s"
    by (auto simp: feature_status_parse_def feature_status_as_str_def split: if_splits)
  show "feature_status_parse raw = Inl e \<Longrightarrow> e = FeatureStatusParseError raw"
    by (auto simp: feature_status_parse_def split: if_splits)
qed

interpretation issue_st: status_contract issue_status_as_str issue_status_is_default_hidden
  issue_status_all issue_status_parse IssueStatusParseError
proof unfold_locales
  fix s raw e
  show "s \<in> set issue_status_all" by (cases s) (simp_all add: issue_status_all_def)
  show "distinct issue_status_all" by (simp add: issue_status_all_def)
  show "issue_status_parse (issue_status_as_str s) = Inr s"
    by (cases s) (simp_all add: issue_status_as_str_def issue_status_parse_def)
  show "issue_status_parse raw = Inr s \<Longrightarrow> raw = issue_status_as_str s"
    by (auto simp: issue_status_parse_def issue_status_as_str_def split: if_splits)
  show "issue_status_parse raw = Inl e \<Longrightarrow> e = IssueStatusParseError raw"
    by (auto simp: issue_status_parse_def split: if_splits)
qed

interpretation milestone_st: status_contract milestone_status_as_str milestone_status_is_default_hidden
  milestone_status_all milestone_status_parse MilestoneStatusParseError
proof unfold_locales
  fix s raw e
  show "s \<in> set milestone_status_all" by (cases s) (simp_all add: milestone_status_all_def)
  show "distinct milestone_status_all" by (simp add: milestone_status_all_def)
  show "milestone_status_parse (milestone_status_as_str s) = Inr s"
    by (cases s) (simp_all add: milestone_status_as_str_def milestone_status_parse_def)
  show "milestone_status_parse raw = Inr s \<Longrightarrow> raw = milestone_status_as_str s"
    by (auto simp: milestone_status_parse_def milestone_status_as_str_def split: if_splits)
  show "milestone_status_parse raw = Inl e \<Longrightarrow> e = MilestoneStatusParseError raw"
    by (auto simp: milestone_status_parse_def split: if_splits)
qed

section \<open>Properties\<close>

text \<open>
  The parser of memory kinds accepts exactly the wire names: a string parses to a kind
  iff it is that kind's wire name, and any other string is echoed in the error.
\<close>

theorem kind_from_str_iff:
  "(kind_from_str raw = Inr k \<longleftrightarrow> raw = kind_as_str k)
   \<and> (kind_from_str raw = Inl e \<longleftrightarrow> e = MemoryKindParseError raw \<and> (\<forall>k. raw \<noteq> kind_as_str k))"
proof -
  have complete: "l \<in> set kind_variants" for l by (cases l) (simp_all add: kind_variants_def)
  show ?thesis
  proof (cases "find (\<lambda>k. kind_as_str k = raw) kind_variants")
    case None
    then have "\<forall>k. kind_as_str k \<noteq> raw" using complete by (auto simp: find_None_iff)
    with None show ?thesis by (auto simp: kind_from_str_def)
  next
    case (Some l)
    then have "raw = kind_as_str l" by (auto simp: find_Some_iff)
    with Some show ?thesis by (auto simp: kind_from_str_def kind_as_str_inject)
  qed
qed

text \<open>
  Every status enum round-trips through its wire form: the parser inverts the printer,
  accepts nothing else, echoes what it rejects, and the printed names are distinct.
\<close>

theorem status_wire_roundtrip:
  "(feature_status_parse raw = Inr f \<longleftrightarrow> raw = feature_status_as_str f)
   \<and> (issue_status_parse raw = Inr i \<longleftrightarrow> raw = issue_status_as_str i)
   \<and> (milestone_status_parse raw = Inr m \<longleftrightarrow> raw = milestone_status_as_str m)
   \<and> (feature_status_parse raw = Inl ef \<longleftrightarrow>
        ef = FeatureStatusParseError raw \<and> raw \<notin> feature_status_as_str ` set feature_status_all)
   \<and> (issue_status_parse raw = Inl ei \<longleftrightarrow>
        ei = IssueStatusParseError raw \<and> raw \<notin> issue_status_as_str ` set issue_status_all)
   \<and> (milestone_status_parse raw = Inl em \<longleftrightarrow>
        em = MilestoneStatusParseError raw \<and> raw \<notin> milestone_status_as_str ` set milestone_status_all)
   \<and> distinct (map feature_status_as_str feature_status_all)
   \<and> distinct (map issue_status_as_str issue_status_all)
   \<and> distinct (map milestone_status_as_str milestone_status_all)"
  by (intro conjI feature_st.parse_iff issue_st.parse_iff milestone_st.parse_iff
    feature_st.parse_err_iff issue_st.parse_err_iff milestone_st.parse_err_iff
    feature_st.wire_names_distinct issue_st.wire_names_distinct milestone_st.wire_names_distinct)

end
