(* ===== verification/Versions.thy ===== *)
theory Versions
  imports Rust_Str
begin

text \<open>
  Versions of memories: the bump intent of \<open>mmcp-core\<close> (\<open>memory/bump.rs\<close>), its negotiation
  at push time (\<open>mmcp-sync\<close>, \<open>version.rs\<close>) and the trailer scanner that reads it out of a
  commit message (\<open>mmcp-sync\<close>, \<open>bump.rs\<close>). The fields of a semver version are \<open>u64\<close>, so
  64-bit words. \<open>semver::Version::parse\<close> is not part of the repository: it is the parameter
  \<open>version_parse\<close>. A slice index that is not a character boundary panics; that is \<open>Inl Panic\<close>.
\<close>

section \<open>Applying an intent\<close>

datatype bump_intent = Patch | Minor | Major

definition default_bump :: bump_intent where
  "default_bump = Minor"

record version =
  vmajor :: "64 word"
  vminor :: "64 word"
  vpatch :: "64 word"
  vpre :: string
  vbuild :: string

definition version_new :: "64 word \<Rightarrow> 64 word \<Rightarrow> 64 word \<Rightarrow> version" where
  "version_new a b c = \<lparr> vmajor = a, vminor = b, vpatch = c, vpre = [], vbuild = [] \<rparr>"

definition apply_bump :: "bump_intent \<Rightarrow> version \<Rightarrow> version" where
  "apply_bump self current =
     (case self of
        Patch \<Rightarrow> version_new (vmajor current) (vminor current) (vpatch current + 1)
      | Minor \<Rightarrow> version_new (vmajor current) (vminor current + 1) 0
      | Major \<Rightarrow> version_new (vmajor current + 1) 0 0)"

definition negotiate_next_version ::
  "(string \<Rightarrow> 'e + version) \<Rightarrow> string option \<Rightarrow> bump_intent \<Rightarrow> 'e + version" where
  "negotiate_next_version version_parse current intent =
     (case current of
        None \<Rightarrow> Inr (version_new 0 1 0)
      | Some raw \<Rightarrow> bind_res (version_parse raw) (\<lambda>parsed. Inr (apply_bump intent parsed)))"

text \<open>The numeric part of the semver precedence: lexicographic on the three fields.\<close>

definition core_less :: "version \<Rightarrow> version \<Rightarrow> bool" where
  "core_less v w \<longleftrightarrow>
     vmajor v < vmajor w \<or>
     (vmajor v = vmajor w \<and> (vminor v < vminor w \<or> (vminor v = vminor w \<and> vpatch v < vpatch w)))"

text \<open>The field an intent increments.\<close>

definition bumped_field :: "bump_intent \<Rightarrow> version \<Rightarrow> 64 word" where
  "bumped_field b v = (case b of Patch \<Rightarrow> vpatch v | Minor \<Rightarrow> vminor v | Major \<Rightarrow> vmajor v)"

definition u64_max :: "64 word" where
  "u64_max = 18446744073709551615"

lemma u64_max_minus_1: "u64_max = - 1"
  by (simp add: u64_max_def)

lemma word_less_Suc_iff: "(x :: 64 word) < x + 1 \<longleftrightarrow> x \<noteq> u64_max"
proof
  assume "x < x + 1"
  then show "x \<noteq> u64_max" by (auto simp: u64_max_minus_1)
next
  assume "x \<noteq> u64_max"
  then have "1 + x \<noteq> 0" by (metis add_eq_0_iff u64_max_minus_1)
  then show "x < x + 1" by (simp add: word_less_nat_alt unatSuc add.commute)
qed

section \<open>The bump trailer\<close>

datatype panic = Panic

definition strip_prefix_ignore_case :: "string \<Rightarrow> string \<Rightarrow> panic + string option" where
  "strip_prefix_ignore_case self pfx =
     (if length self < length pfx then Inr None
      else if \<not> is_char_boundary self (length pfx) then Inl Panic
      else if eq_ignore_ascii_case (take (length pfx) self) pfx
      then Inr (Some (drop (length pfx) self))
      else Inr None)"

definition parse_level :: "string \<Rightarrow> bump_intent option" where
  "parse_level level =
     (let l = to_ascii_lowercase level
      in if l = ''patch'' then Some Patch
         else if l = ''minor'' then Some Minor
         else if l = ''major'' then Some Major
         else None)"

text \<open>The loop that collects the tail lines, given the lines from the last to the first.\<close>

fun trailer_loop :: "string list \<Rightarrow> string list" where
  "trailer_loop [] = []"
| "trailer_loop (line # ls) =
     (let stripped = trim_end line in if stripped = [] then [] else stripped # trailer_loop ls)"

definition trailer_block :: "string \<Rightarrow> string list" where
  "trailer_block message = trailer_loop (rev (lines message))"

fun parse_bump_loop :: "string list \<Rightarrow> panic + bump_intent" where
  "parse_bump_loop [] = Inr default_bump"
| "parse_bump_loop (line # ls) =
     bind_res (strip_prefix_ignore_case line ''bump:'') (\<lambda>r.
       case r of
         Some rest \<Rightarrow> Inr (case parse_level (trim rest) of Some b \<Rightarrow> b | None \<Rightarrow> default_bump)
       | None \<Rightarrow> parse_bump_loop ls)"

definition parse_bump_intent :: "string \<Rightarrow> panic + bump_intent" where
  "parse_bump_intent message = parse_bump_loop (trailer_block message)"

section \<open>Lemmas\<close>

lemma trailer_loop_takeWhile: "trailer_loop ls = takeWhile (\<lambda>l. l \<noteq> []) (map trim_end ls)"
  by (induction ls) (simp_all add: Let_def)

definition splits_badly :: "string \<Rightarrow> bool" where
  "splits_badly l \<longleftrightarrow> 5 \<le> length l \<and> \<not> is_char_boundary l 5"

definition bump_key :: "string \<Rightarrow> bool" where
  "bump_key l \<longleftrightarrow> 5 \<le> length l \<and> eq_ignore_ascii_case (take 5 l) ''bump:''"

lemma strip_bump:
  "strip_prefix_ignore_case l ''bump:'' =
     (if splits_badly l then Inl Panic else if bump_key l then Inr (Some (drop 5 l)) else Inr None)"
proof -
  have "length ''bump:'' = 5" by simp
  then show ?thesis
    unfolding strip_prefix_ignore_case_def splits_badly_def bump_key_def by (simp only: not_less if_not_P) auto
qed

lemma parse_bump_loop_panic:
  "parse_bump_loop ls = Inl Panic \<longleftrightarrow>
     (\<exists>us l vs. ls = us @ l # vs \<and> splits_badly l \<and> (\<forall>u\<in>set us. \<not> splits_badly u \<and> \<not> bump_key u))"
proof (induction ls)
  case Nil
  then show ?case by simp
next
  case (Cons a ls)
  have split: "(\<exists>us l vs. a # ls = us @ l # vs \<and> splits_badly l \<and> (\<forall>u\<in>set us. \<not> splits_badly u \<and> \<not> bump_key u))
    \<longleftrightarrow> splits_badly a \<or> (\<not> bump_key a \<and> (\<exists>us l vs. ls = us @ l # vs \<and> splits_badly l \<and>
          (\<forall>u\<in>set us. \<not> splits_badly u \<and> \<not> bump_key u)))" (is "?L \<longleftrightarrow> _ \<or> _ \<and> ?R")
  proof
    assume ?L
    then obtain us l vs where *: "a # ls = us @ l # vs" "splits_badly l"
      "\<forall>u\<in>set us. \<not> splits_badly u \<and> \<not> bump_key u" by blast
    then show "splits_badly a \<or> \<not> bump_key a \<and> ?R" by (cases us) auto
  next
    assume *: "splits_badly a \<or> \<not> bump_key a \<and> ?R"
    show ?L
    proof (cases "splits_badly a")
      case True
      then show ?thesis by (intro exI [of _ "[]"] exI [of _ a] exI [of _ ls]) auto
    next
      case False
      with * obtain us l vs where "ls = us @ l # vs" "splits_badly l"
        "\<forall>u\<in>set us. \<not> splits_badly u \<and> \<not> bump_key u" "\<not> bump_key a" by blast
      with False show ?thesis by (intro exI [of _ "a # us"] exI [of _ l] exI [of _ vs]) auto
    qed
  qed
  show ?case unfolding split by (simp add: strip_bump Cons.IH)
qed

lemma parse_bump_loop_ok:
  "\<forall>l\<in>set ls. \<not> splits_badly l \<Longrightarrow>
   parse_bump_loop ls =
     Inr (case find bump_key ls of
            None \<Rightarrow> Minor
          | Some l \<Rightarrow> (case parse_level (trim (drop 5 l)) of None \<Rightarrow> Minor | Some b \<Rightarrow> b))"
  by (induction ls) (auto simp: strip_bump default_bump_def split: option.splits)

section \<open>Properties\<close>

text \<open>
  Bump negotiation. A memory that was never published gets 0.1.0 whatever the intent; an
  unparsable current version is an error; otherwise the next version is strictly above the
  current one in the order of its numbers exactly when the incremented field is not at the
  64-bit maximum (then it wraps), every lower field is 0, and no pre-release or build
  metadata remains.
\<close>

theorem negotiate_next_version_spec:
  "negotiate_next_version version_parse None intent = Inr (version_new 0 1 0)
   \<and> (version_parse raw = Inl e \<longrightarrow> negotiate_next_version version_parse (Some raw) intent = Inl e)
   \<and> (version_parse raw = Inr v \<longrightarrow>
        (\<exists>w. negotiate_next_version version_parse (Some raw) intent = Inr w
           \<and> (core_less v w \<longleftrightarrow> bumped_field intent v \<noteq> u64_max)
           \<and> bumped_field intent w = bumped_field intent v + 1
           \<and> (intent \<noteq> Patch \<longrightarrow> vpatch w = 0) \<and> (intent = Major \<longrightarrow> vminor w = 0)
           \<and> (intent \<noteq> Major \<longrightarrow> vmajor w = vmajor v) \<and> (intent = Patch \<longrightarrow> vminor w = vminor v)
           \<and> vpre w = [] \<and> vbuild w = []))"
proof -
  have "core_less v (apply_bump intent v) \<longleftrightarrow> bumped_field intent v \<noteq> u64_max"
    by (cases intent)
      (auto simp: core_less_def apply_bump_def version_new_def bumped_field_def word_less_Suc_iff)
  then show ?thesis
    by (cases intent)
      (auto simp: negotiate_next_version_def apply_bump_def version_new_def bumped_field_def)
qed

theorem negotiate_next_version_witness:
  "\<exists>w. negotiate_next_version (\<lambda>_. Inr (version_new 1 2 7) :: unit + version) (Some ''1.2.7'') Minor = Inr w
     \<and> vminor w = 3 \<and> vpatch w = 0"
  using negotiate_next_version_spec
    [where version_parse = "\<lambda>_. Inr (version_new 1 2 7) :: unit + version" and raw = "''1.2.7''"
       and intent = Minor and v = "version_new 1 2 7" and e = "()"]
  by (auto simp: bumped_field_def version_new_def)

text \<open>
  The trailer scanner panics exactly when, going up from the end of the message through
  its last paragraph, it meets a line of at least five bytes whose fifth byte is inside a
  multi-byte character before it meets a line that starts with the bump key.
\<close>

theorem parse_bump_intent_panics_iff:
  "parse_bump_intent message = Inl Panic \<longleftrightarrow>
     (\<exists>us l vs. trailer_block message = us @ l # vs \<and> 5 \<le> length l \<and> \<not> is_char_boundary l 5 \<and>
        (\<forall>u\<in>set us. (5 \<le> length u \<longrightarrow> is_char_boundary u 5) \<and> \<not> bump_key u))"
  unfolding parse_bump_intent_def parse_bump_loop_panic splits_badly_def by blast

text \<open>A commit message of two three-byte characters is such a message.\<close>

definition cjk_message :: string where
  "cjk_message = map char_of [0xE4, 0xBF, 0xAE, 0xE5, 0xA4, 0x8D :: nat]"

theorem parse_bump_intent_panics_iff_witness:
  "parse_bump_intent cjk_message = Inl Panic"
proof -
  have "trailer_block cjk_message = [cjk_message]" by code_simp
  then show ?thesis
    unfolding parse_bump_intent_panics_iff
    by (intro exI [of _ "[]"] exI [of _ cjk_message]) (simp add: cjk_message_def is_char_boundary_def byte_def)
qed

lemma ascii_no_bad_split: "\<forall>c\<in>set l. byte c < 128 \<Longrightarrow> \<not> splits_badly l"
proof -
  assume *: "\<forall>c\<in>set l. byte c < 128"
  show ?thesis
  proof (cases "5 < length l")
    case True
    then have "l ! 5 \<in> set l" by simp
    with * have "byte (l ! 5) < 128" by blast
    with True show ?thesis by (simp add: splits_badly_def is_char_boundary_def)
  next
    case False
    then show ?thesis by (auto simp: splits_badly_def is_char_boundary_def)
  qed
qed

lemma set_trailer_loop: "l \<in> set (trailer_loop ls) \<Longrightarrow> \<exists>m\<in>set ls. set l \<subseteq> set m"
proof (induction ls)
  case Nil
  then show ?case by simp
next
  case (Cons a ls)
  have "set (trim_end a) \<subseteq> set a" by (metis trim_end_prefix set_append Un_upper1)
  with Cons show ?case by (auto simp: Let_def split: if_splits)
qed

lemma set_lines: "m \<in> set (lines s) \<Longrightarrow> set m \<subseteq> set s"
proof -
  note pieces = set_split_on [where c = newline and xs = s]
  have cr: "set (strip_cr p) \<subseteq> set p" for p
    by (cases "strip_suffix p [carriage_return]") (auto simp: strip_cr_def strip_suffix_Some)
  assume "m \<in> set (lines s)"
  then consider p where "p \<in> set (split_on newline s)" "m = strip_cr p"
    | "m = last (split_on newline s)"
    by (auto simp: lines_def Let_def dest: in_set_takeD split: if_splits)
  then show ?thesis
  proof cases
    case 1
    with pieces cr show ?thesis by blast
  next
    case 2
    with pieces show ?thesis by (metis last_in_set split_on_not_Nil)
  qed
qed

text \<open>
  On a message of ASCII bytes the scanner returns: the level of the bump line nearest the
  end of the last paragraph, and Minor when there is none or its level is not known.
\<close>

theorem parse_bump_intent_ascii:
  assumes "\<forall>c\<in>set message. byte c < 128"
  shows "parse_bump_intent message =
     Inr (case find bump_key (takeWhile (\<lambda>l. l \<noteq> []) (map trim_end (rev (lines message)))) of
            None \<Rightarrow> Minor
          | Some l \<Rightarrow> (case parse_level (trim (drop 5 l)) of None \<Rightarrow> Minor | Some b \<Rightarrow> b))"
proof -
  have "\<forall>l\<in>set (trailer_block message). \<not> splits_badly l"
  proof
    fix l
    assume "l \<in> set (trailer_block message)"
    then obtain m where "m \<in> set (lines message)" "set l \<subseteq> set m"
      unfolding trailer_block_def using set_trailer_loop by force
    then have "set l \<subseteq> set message" using set_lines by blast
    with assms show "\<not> splits_badly l" by (intro ascii_no_bad_split) blast
  qed
  then show ?thesis
    by (simp add: parse_bump_intent_def parse_bump_loop_ok trailer_block_def trailer_loop_takeWhile)
qed

definition two_trailers :: string where
  "two_trailers = ''subject'' @ [newline, newline] @ ''bump: patch'' @ [newline] @ ''Bump:  MAJOR '' @ [newline]"

theorem parse_bump_intent_ascii_witness:
  "parse_bump_intent two_trailers = Inr Major"
proof -
  have ascii: "\<forall>c\<in>set two_trailers. byte c < 128" by (simp add: two_trailers_def byte_def)
  show ?thesis unfolding parse_bump_intent_ascii [OF ascii] by code_simp
qed

text \<open>
  The key must be the first byte of the line: only the end of a line is trimmed, so an
  indented trailer is not seen, and a blank last line ends the trailer block before it starts.
\<close>

lemma indented_trailer_ignored: "parse_bump_intent ''  bump: major'' = Inr Minor"
  by code_simp

lemma trailing_blank_line_hides_trailer:
  "parse_bump_intent (''bump: major'' @ [newline, newline]) = Inr Minor"
  by code_simp

end
