(* ===== verification/Frontmatter.thy ===== *)
theory Frontmatter
  imports Kinds Versions
begin

text \<open>
  The typed frontmatter of a memory and what validates it: commit-pinned references
  (\<open>memory/refs.rs\<close>), the parsers of cross-reference arguments (\<open>memory/xrefs.rs\<close>), the
  tracker blocks and their supersede invariant (\<open>memory/feature.rs\<close>, \<open>memory/issue.rs\<close>,
  \<open>memory/milestone.rs\<close>), the frontmatter record and its builder
  (\<open>memory/frontmatter.rs\<close>), the field bounds (\<open>memory/limits.rs\<close>) and the response
  envelope (\<open>memory/response_budget.rs\<close>). \<open>Uuid::parse_str\<close> is not part of the repository:
  it is the parameter \<open>parse_uuid\<close>.
\<close>

type_synonym uuid = "128 word"

section \<open>References\<close>

record memory_ref =
  rtarget :: uuid
  rcommit :: string

definition memory_ref_new :: "uuid \<Rightarrow> string \<Rightarrow> memory_ref" where
  "memory_ref_new target commit = \<lparr> rtarget = target, rcommit = commit \<rparr>"

datatype invalid_commit = InvalidCommit string

definition validate_commit_shape :: "string \<Rightarrow> invalid_commit + unit" where
  "validate_commit_shape commit =
     (if length commit \<noteq> 40 \<or> \<not> list_all (\<lambda>c. is_ascii_hexdigit c \<and> \<not> is_ascii_uppercase c) commit
      then Inl (InvalidCommit commit)
      else Inr ())"

definition invalid_commit_display :: "invalid_commit \<Rightarrow> string" where
  "invalid_commit_display e =
     (case e of InvalidCommit input \<Rightarrow>
        ''invalid commit sha '' @ [CHR 0x27] @ input @ [CHR 0x27] @
        '': expected 40 lowercase hex characters'')"

definition COMMIT_SHA_HEX_LEN :: nat where
  "COMMIT_SHA_HEX_LEN = 40"

definition looks_like_commit_sha :: "string \<Rightarrow> bool" where
  "looks_like_commit_sha s \<longleftrightarrow> length s = COMMIT_SHA_HEX_LEN \<and> list_all is_ascii_hexdigit s"

section \<open>Parsing of cross-reference arguments\<close>

record memory_ref_input =
  itarget :: string
  icommit :: string

datatype xref_error =
    InvalidCrossRef (xfield: string) (xvalue: string)
  | InvalidMemoryRef (xfield: string) (xdetail: string)

definition parse_cross_refs ::
  "(string \<Rightarrow> uuid option) \<Rightarrow> string list \<Rightarrow> string \<Rightarrow> xref_error + uuid list" where
  "parse_cross_refs parse_uuid values field =
     collect_res (\<lambda>raw. ok_or (InvalidCrossRef field raw) (parse_uuid raw)) values"

definition parse_memory_ref ::
  "(string \<Rightarrow> uuid option) \<Rightarrow> string \<Rightarrow> memory_ref_input \<Rightarrow> xref_error + memory_ref" where
  "parse_memory_ref parse_uuid field raw =
     bind_res
       (ok_or (InvalidMemoryRef field
                 (''target '' @ [CHR 0x27] @ itarget raw @ [CHR 0x27] @ '' is not a valid UUID''))
              (parse_uuid (itarget raw)))
       (\<lambda>target.
          bind_res
            (map_err (\<lambda>e. InvalidMemoryRef field (invalid_commit_display e))
                     (validate_commit_shape (icommit raw)))
            (\<lambda>_. Inr (memory_ref_new target (icommit raw))))"

definition parse_memory_refs ::
  "(string \<Rightarrow> uuid option) \<Rightarrow> memory_ref_input list \<Rightarrow> string \<Rightarrow> xref_error + memory_ref list" where
  "parse_memory_refs parse_uuid values field = collect_res (parse_memory_ref parse_uuid field) values"

section \<open>Tracker blocks\<close>

record feature_metadata =
  fstatus :: feature_status
  fnumber :: "32 word option"
  fdepends_on :: "uuid list"
  fblocks :: "uuid list"
  fsuperseded_by :: "memory_ref option"
  fmilestone :: "uuid option"

datatype supersede_error =
    MissingSupersededBy
  | UnexpectedSupersededBy feature_status

definition validate_supersede_invariant :: "feature_metadata \<Rightarrow> supersede_error + unit" where
  "validate_supersede_invariant self =
     (case (fstatus self, fsuperseded_by self \<noteq> None) of
        (FSuperseded, True) \<Rightarrow> Inr ()
      | (FSuperseded, False) \<Rightarrow> Inl MissingSupersededBy
      | (other, True) \<Rightarrow> Inl (UnexpectedSupersededBy other)
      | (_, False) \<Rightarrow> Inr ())"

record issue_metadata =
  istatus :: issue_status
  inumber :: "32 word option"
  idepends_on :: "uuid list"
  iblocks :: "uuid list"
  isuperseded_by :: "memory_ref option"

datatype issue_supersede_error =
    IMissingSupersededBy
  | IUnexpectedSupersededBy issue_status

definition validate_issue_supersede_invariant :: "issue_metadata \<Rightarrow> issue_supersede_error + unit" where
  "validate_issue_supersede_invariant self =
     (case (istatus self, isuperseded_by self \<noteq> None) of
        (ISuperseded, True) \<Rightarrow> Inr ()
      | (ISuperseded, False) \<Rightarrow> Inl IMissingSupersededBy
      | (other, True) \<Rightarrow> Inl (IUnexpectedSupersededBy other)
      | (_, False) \<Rightarrow> Inr ())"

record milestone_metadata =
  mstatus :: milestone_status

section \<open>The frontmatter record\<close>

record frontmatter =
  fm_id :: "uuid option"
  fm_name :: string
  fm_description :: string
  fm_kind :: memory_kind
  fm_mandatory :: bool
  fm_version :: "version option"
  fm_tags :: "string list"
  fm_bump_intent :: "bump_intent option"
  fm_feature :: "feature_metadata option"
  fm_issue :: "issue_metadata option"
  fm_milestone :: "milestone_metadata option"
  fm_refs :: "memory_ref list"
  fm_source :: "uuid option"

definition frontmatter_new :: "string \<Rightarrow> string \<Rightarrow> memory_kind \<Rightarrow> frontmatter" where
  "frontmatter_new name description kind =
     \<lparr> fm_id = None, fm_name = name, fm_description = description, fm_kind = kind,
       fm_mandatory = False, fm_version = None, fm_tags = [], fm_bump_intent = None,
       fm_feature = None, fm_issue = None, fm_milestone = None, fm_refs = [], fm_source = None \<rparr>"

definition with_refs :: "frontmatter \<Rightarrow> memory_ref list \<Rightarrow> frontmatter" where
  "with_refs self refs = self\<lparr> fm_refs := refs \<rparr>"

definition with_source :: "frontmatter \<Rightarrow> uuid option \<Rightarrow> frontmatter" where
  "with_source self src = self\<lparr> fm_source := src \<rparr>"

definition with_id :: "frontmatter \<Rightarrow> uuid \<Rightarrow> frontmatter" where
  "with_id self i = self\<lparr> fm_id := Some i \<rparr>"

definition with_mandatory :: "frontmatter \<Rightarrow> bool \<Rightarrow> frontmatter" where
  "with_mandatory self b = self\<lparr> fm_mandatory := b \<rparr>"

definition with_tags :: "frontmatter \<Rightarrow> string list \<Rightarrow> frontmatter" where
  "with_tags self tags = self\<lparr> fm_tags := tags \<rparr>"

definition with_feature :: "frontmatter \<Rightarrow> feature_metadata \<Rightarrow> frontmatter" where
  "with_feature self f = self\<lparr> fm_feature := Some f \<rparr>"

definition with_issue :: "frontmatter \<Rightarrow> issue_metadata \<Rightarrow> frontmatter" where
  "with_issue self i = self\<lparr> fm_issue := Some i \<rparr>"

definition with_milestone :: "frontmatter \<Rightarrow> milestone_metadata \<Rightarrow> frontmatter" where
  "with_milestone self m = self\<lparr> fm_milestone := Some m \<rparr>"

definition with_version :: "frontmatter \<Rightarrow> version option \<Rightarrow> frontmatter" where
  "with_version self v = self\<lparr> fm_version := v \<rparr>"

definition with_bump_intent :: "frontmatter \<Rightarrow> bump_intent option \<Rightarrow> frontmatter" where
  "with_bump_intent self b = self\<lparr> fm_bump_intent := b \<rparr>"

lemmas builder_defs = frontmatter_new_def with_refs_def with_source_def with_id_def
  with_mandatory_def with_tags_def with_feature_def with_issue_def with_milestone_def
  with_version_def with_bump_intent_def

declare builder_defs [guard_simps]

section \<open>Field bounds\<close>

definition MAX_NAME_LENGTH :: nat where "MAX_NAME_LENGTH = 256"
definition MAX_DESCRIPTION_LENGTH :: nat where "MAX_DESCRIPTION_LENGTH = 2048"
definition MAX_TAG_LENGTH :: nat where "MAX_TAG_LENGTH = 64"
definition MAX_TAG_COUNT :: nat where "MAX_TAG_COUNT = 32"
definition MAX_BODY_LENGTH :: nat where "MAX_BODY_LENGTH = 512 * 1024"
definition MAX_MESSAGE_LENGTH :: nat where "MAX_MESSAGE_LENGTH = 4096"

datatype field_length_error =
    TooLong (lfield: string) (lmax: nat) (lactual: nat)
  | TooMany (lfield: string) (lmax: nat) (lactual: nat)

definition validate_field_length :: "string \<Rightarrow> string \<Rightarrow> nat \<Rightarrow> field_length_error + unit" where
  "validate_field_length field val mx =
     (let actual = length val in if actual > mx then Inl (TooLong field mx actual) else Inr ())"

fun validate_tag_loop :: "string list \<Rightarrow> field_length_error + unit" where
  "validate_tag_loop [] = Inr ()"
| "validate_tag_loop (tag # tags) =
     bind_res (validate_field_length ''tag'' tag MAX_TAG_LENGTH) (\<lambda>_. validate_tag_loop tags)"

definition validate_tags :: "string list \<Rightarrow> field_length_error + unit" where
  "validate_tags tags =
     (if length tags > MAX_TAG_COUNT then Inl (TooMany ''tags'' MAX_TAG_COUNT (length tags))
      else validate_tag_loop tags)"

definition validate_frontmatter_lengths :: "frontmatter \<Rightarrow> field_length_error + unit" where
  "validate_frontmatter_lengths fm =
     bind_res (validate_field_length ''name'' (fm_name fm) MAX_NAME_LENGTH) (\<lambda>_.
     bind_res (validate_field_length ''description'' (fm_description fm) MAX_DESCRIPTION_LENGTH) (\<lambda>_.
       validate_tags (fm_tags fm)))"

definition validate_body_length :: "string \<Rightarrow> field_length_error + unit" where
  "validate_body_length body = validate_field_length ''body'' body MAX_BODY_LENGTH"

definition validate_message_length :: "string \<Rightarrow> field_length_error + unit" where
  "validate_message_length message = validate_field_length ''message'' message MAX_MESSAGE_LENGTH"

section \<open>The response envelope\<close>

record response_envelope =
  re_truncated :: bool
  re_total :: nat
  re_returned :: nat
  re_next_offset :: "nat option"

definition response_envelope_new :: "nat \<Rightarrow> nat \<Rightarrow> nat option \<Rightarrow> response_envelope" where
  "response_envelope_new tot returned next_offset =
     \<lparr> re_truncated = (returned < tot), re_total = tot, re_returned = returned,
       re_next_offset = next_offset \<rparr>"

section \<open>Lemmas\<close>

lemma validate_field_length_ok [simp]:
  "validate_field_length f v m = Inr () \<longleftrightarrow> length v \<le> m"
  by (simp add: validate_field_length_def Let_def)

lemma validate_field_length_err:
  "validate_field_length f v m = Inl e \<longleftrightarrow> m < length v \<and> e = TooLong f m (length v)"
  by (auto simp: validate_field_length_def Let_def)

lemma validate_tag_loop_ok: "validate_tag_loop tags = Inr () \<longleftrightarrow> (\<forall>t\<in>set tags. length t \<le> MAX_TAG_LENGTH)"
  by (induction tags) (auto simp: bind_res_eq_Inr)

lemma validate_commit_shape_ok:
  "validate_commit_shape c = Inr () \<longleftrightarrow>
     length c = 40 \<and> (\<forall>x\<in>set c. is_ascii_digit x \<or> (97 \<le> byte x \<and> byte x \<le> 102))"
proof -
  have "is_ascii_hexdigit x \<and> \<not> is_ascii_uppercase x \<longleftrightarrow>
      is_ascii_digit x \<or> (97 \<le> byte x \<and> byte x \<le> 102)" for x
    by (auto simp: is_ascii_hexdigit_def is_ascii_uppercase_def is_ascii_digit_def)
  then show ?thesis by (auto simp: validate_commit_shape_def list_all_iff)
qed

lemma validate_commit_shape_looks:
  "validate_commit_shape c = Inr () \<Longrightarrow> looks_like_commit_sha c"
  by (auto simp: validate_commit_shape_ok looks_like_commit_sha_def COMMIT_SHA_HEX_LEN_def list_all_iff
      is_ascii_hexdigit_def)

lemma parse_memory_ref_ok:
  "parse_memory_ref parse_uuid field raw = Inr r \<longleftrightarrow>
     parse_uuid (itarget raw) = Some (rtarget r) \<and> rcommit r = icommit raw
     \<and> validate_commit_shape (icommit raw) = Inr ()"
  by (cases r) (auto simp: parse_memory_ref_def bind_res_eq_Inr memory_ref_new_def)

lemma parse_memory_ref_err_field:
  "parse_memory_ref parse_uuid field raw = Inl e \<Longrightarrow> \<exists>d. e = InvalidMemoryRef field d"
  by (auto simp: parse_memory_ref_def bind_res_eq_Inl ok_or_def map_err_def split: option.splits sum.splits)

section \<open>Properties\<close>

text \<open>
  The supersede invariant: a feature block is accepted exactly when its status is
  superseded iff it carries the back-link, the error tells which half is missing; and the
  issue block has the same contract.
\<close>

theorem supersede_invariant_iff:
  "(validate_supersede_invariant f = Inr () \<longleftrightarrow> (fstatus f = FSuperseded \<longleftrightarrow> fsuperseded_by f \<noteq> None))
   \<and> (validate_supersede_invariant f = Inl MissingSupersededBy \<longleftrightarrow>
        fstatus f = FSuperseded \<and> fsuperseded_by f = None)
   \<and> (validate_supersede_invariant f = Inl (UnexpectedSupersededBy s) \<longleftrightarrow>
        fstatus f = s \<and> s \<noteq> FSuperseded \<and> fsuperseded_by f \<noteq> None)
   \<and> (validate_issue_supersede_invariant i = Inr () \<longleftrightarrow>
        (istatus i = ISuperseded \<longleftrightarrow> isuperseded_by i \<noteq> None))
   \<and> (validate_issue_supersede_invariant i = Inl IMissingSupersededBy \<longleftrightarrow>
        istatus i = ISuperseded \<and> isuperseded_by i = None)
   \<and> (validate_issue_supersede_invariant i = Inl (IUnexpectedSupersededBy t) \<longleftrightarrow>
        istatus i = t \<and> t \<noteq> ISuperseded \<and> isuperseded_by i \<noteq> None)"
  by (intro conjI)
    (auto simp: validate_supersede_invariant_def validate_issue_supersede_invariant_def
      split: feature_status.splits issue_status.splits bool.splits)

text \<open>
  References come out of the parser only commit-pinned: the parser succeeds exactly when
  every entry has a parsable target and a 40-character lowercase hex commit, it keeps order and
  length, and its error names the field and belongs to the first bad entry.
\<close>

theorem parse_memory_refs_spec:
  "(parse_memory_refs parse_uuid values field = Inr refs \<longleftrightarrow>
      list_all2 (\<lambda>raw r. parse_uuid (itarget raw) = Some (rtarget r) \<and> rcommit r = icommit raw
        \<and> length (icommit raw) = 40
        \<and> (\<forall>x\<in>set (icommit raw). is_ascii_digit x \<or> (97 \<le> byte x \<and> byte x \<le> 102)))
        values refs)
   \<and> (parse_memory_refs parse_uuid values field = Inl e \<longrightarrow>
      (\<exists>us raw vs d. values = us @ raw # vs \<and> e = InvalidMemoryRef field d
        \<and> parse_memory_refs parse_uuid us field \<noteq> Inl e
        \<and> (parse_uuid (itarget raw) = None \<or> validate_commit_shape (icommit raw) \<noteq> Inr ())))"
proof (intro conjI impI)
  show "parse_memory_refs parse_uuid values field = Inr refs \<longleftrightarrow>
      list_all2 (\<lambda>raw r. parse_uuid (itarget raw) = Some (rtarget r) \<and> rcommit r = icommit raw
        \<and> length (icommit raw) = 40
        \<and> (\<forall>x\<in>set (icommit raw). is_ascii_digit x \<or> (97 \<le> byte x \<and> byte x \<le> 102)))
        values refs"
    by (simp add: parse_memory_refs_def collect_res_Inr_iff parse_memory_ref_ok validate_commit_shape_ok)
next
  assume err: "parse_memory_refs parse_uuid values field = Inl e"
  then obtain us raw vs where *: "values = us @ raw # vs" "parse_memory_ref parse_uuid field raw = Inl e"
    "\<forall>u\<in>set us. \<exists>y. parse_memory_ref parse_uuid field u = Inr y"
    unfolding parse_memory_refs_def collect_res_first_error by blast
  from parse_memory_ref_err_field [OF *(2)] obtain d where "e = InvalidMemoryRef field d" by blast
  moreover have "parse_memory_refs parse_uuid us field \<noteq> Inl e"
  proof
    assume "parse_memory_refs parse_uuid us field = Inl e"
    then obtain u where "u \<in> set us" "parse_memory_ref parse_uuid field u = Inl e"
      unfolding parse_memory_refs_def collect_res_first_error by (metis in_set_conv_decomp)
    with *(3) show False by fastforce
  qed
  moreover have "parse_uuid (itarget raw) = None \<or> validate_commit_shape (icommit raw) \<noteq> Inr ()"
    using *(2) by (auto simp: parse_memory_ref_def)
  ultimately show "\<exists>us raw vs d. values = us @ raw # vs \<and> e = InvalidMemoryRef field d
        \<and> parse_memory_refs parse_uuid us field \<noteq> Inl e
        \<and> (parse_uuid (itarget raw) = None \<or> validate_commit_shape (icommit raw) \<noteq> Inr ())"
    using *(1) by blast
qed

theorem parse_memory_refs_witness:
  "\<exists>us raw vs d. [\<lparr> itarget = ''t'', icommit = ''HEAD'' \<rparr>] = us @ raw # vs
     \<and> InvalidMemoryRef ''refs'' (invalid_commit_display (InvalidCommit ''HEAD'')) = InvalidMemoryRef ''refs'' d"
proof -
  have "parse_memory_refs (\<lambda>_. Some 1) [\<lparr> itarget = ''t'', icommit = ''HEAD'' \<rparr>] ''refs''
      = Inl (InvalidMemoryRef ''refs'' (invalid_commit_display (InvalidCommit ''HEAD'')))"
    by (simp add: parse_memory_refs_def parse_memory_ref_def validate_commit_shape_def)
  then show ?thesis using parse_memory_refs_spec by blast
qed

text \<open>
  A frontmatter passes the length check exactly when its name, its description, the number
  of its tags and each tag are within their maximum; otherwise the error is that of the first
  field in this order that is too large, the first such tag for the tags, with its real size.
\<close>

theorem validate_frontmatter_lengths_iff:
  "(validate_frontmatter_lengths fm = Inr () \<longleftrightarrow>
      length (fm_name fm) \<le> 256 \<and> length (fm_description fm) \<le> 2048 \<and> length (fm_tags fm) \<le> 32
      \<and> list_all (\<lambda>t. length t \<le> 64) (fm_tags fm))
   \<and> validate_frontmatter_lengths fm =
      (if 256 < length (fm_name fm) then Inl (TooLong ''name'' 256 (length (fm_name fm)))
       else if 2048 < length (fm_description fm)
       then Inl (TooLong ''description'' 2048 (length (fm_description fm)))
       else if 32 < length (fm_tags fm) then Inl (TooMany ''tags'' 32 (length (fm_tags fm)))
       else (case find (\<lambda>t. 64 < length t) (fm_tags fm) of
               None \<Rightarrow> Inr () | Some t \<Rightarrow> Inl (TooLong ''tag'' 64 (length t))))"
proof
  have tags: "validate_tag_loop ts = (case find (\<lambda>t. 64 < length t) ts of
      None \<Rightarrow> Inr () | Some t \<Rightarrow> Inl (TooLong ''tag'' 64 (length t)))" for ts
    by (induction ts) (auto simp: validate_field_length_def MAX_TAG_LENGTH_def)
  show "validate_frontmatter_lengths fm = Inr () \<longleftrightarrow>
      length (fm_name fm) \<le> 256 \<and> length (fm_description fm) \<le> 2048 \<and> length (fm_tags fm) \<le> 32
      \<and> list_all (\<lambda>t. length t \<le> 64) (fm_tags fm)"
    by (auto simp: validate_frontmatter_lengths_def bind_res_eq_Inr validate_tags_def validate_tag_loop_ok list_all_iff
        MAX_NAME_LENGTH_def MAX_DESCRIPTION_LENGTH_def MAX_TAG_COUNT_def MAX_TAG_LENGTH_def)
  show "validate_frontmatter_lengths fm =
      (if 256 < length (fm_name fm) then Inl (TooLong ''name'' 256 (length (fm_name fm)))
       else if 2048 < length (fm_description fm)
       then Inl (TooLong ''description'' 2048 (length (fm_description fm)))
       else if 32 < length (fm_tags fm) then Inl (TooMany ''tags'' 32 (length (fm_tags fm)))
       else (case find (\<lambda>t. 64 < length t) (fm_tags fm) of
               None \<Rightarrow> Inr () | Some t \<Rightarrow> Inl (TooLong ''tag'' 64 (length t))))"
    by (simp add: validate_frontmatter_lengths_def validate_tags_def validate_field_length_def tags
        MAX_NAME_LENGTH_def MAX_DESCRIPTION_LENGTH_def MAX_TAG_COUNT_def)
qed

end
