(* ===== verification/Memory_File.thy ===== *)
theory Memory_File
  imports Frontmatter
begin

text \<open>
  Memory files (\<open>mmcp-core\<close>, \<open>memory/parser.rs\<close>): detection of the frontmatter format,
  the full parser, the frontmatter-only parser and the renderer. The serialisation
  libraries (\<open>gray_matter\<close>, \<open>toml\<close>, \<open>serde_yaml\<close>, \<open>serde_json\<close>) are not part of the
  repository: the record \<open>serde\<close> holds the functions the code calls, with the
  \<open>Display\<close> text of their errors. \<open>fence_contract\<close> is what the code relies on in
  \<open>gray_matter\<close>, as its comments state it.
\<close>

section \<open>Data\<close>

datatype frontmatter_format = TomlPlus | Yaml | Json | TomlDash

datatype engine = TOML | YAML | JSON

record memory_file =
  mf_frontmatter :: frontmatter
  mf_body :: string
  mf_format :: frontmatter_format

datatype memory_parse_error =
    NoFrontmatter
  | Deserialize string
  | Render string

record 'pod serde =
  sd_matter :: "engine \<Rightarrow> string \<Rightarrow> string \<Rightarrow> string + (frontmatter option \<times> string)"
  sd_engine :: "engine \<Rightarrow> string \<Rightarrow> string + 'pod"
  sd_deserialize :: "'pod \<Rightarrow> string + frontmatter"
  sd_serialize :: "engine \<Rightarrow> frontmatter \<Rightarrow> string + string"

definition format_debug :: "frontmatter_format \<Rightarrow> string" where
  "format_debug fmt =
     (case fmt of TomlPlus \<Rightarrow> ''TomlPlus'' | Yaml \<Rightarrow> ''Yaml'' | Json \<Rightarrow> ''Json'' | TomlDash \<Rightarrow> ''TomlDash'')"

definition byte_order_mark :: string where
  "byte_order_mark = [CHR 0xEF, CHR 0xBB, CHR 0xBF]"

definition plus_fence :: string where "plus_fence = ''+++''"
definition dash_fence :: string where "dash_fence = ''---''"

section \<open>Parsing\<close>

definition parse_with ::
  "'pod serde \<Rightarrow> engine \<Rightarrow> string \<Rightarrow> string \<Rightarrow> frontmatter_format \<Rightarrow> memory_parse_error + memory_file" where
  "parse_with sd e input delimiter fmt =
     bind_res (map_err (\<lambda>m. Deserialize (format_debug fmt @ '': '' @ m)) (sd_matter sd e delimiter input))
       (\<lambda>(data, content).
          bind_res (ok_or (Deserialize (format_debug fmt @ '': no frontmatter data found'')) data)
            (\<lambda>fm. Inr \<lparr> mf_frontmatter = fm, mf_body = content, mf_format = fmt \<rparr>))"

definition strip_bom :: "string \<Rightarrow> string" where
  "strip_bom source = (case strip_prefix source byte_order_mark of Some s \<Rightarrow> s | None \<Rightarrow> source)"

definition after_fence :: "string \<Rightarrow> string" where
  "after_fence trimmed =
     (case strip_prefix trimmed dash_fence of
        None \<Rightarrow> []
      | Some s \<Rightarrow>
          (case strip_prefix s [newline] of
             Some r \<Rightarrow> r
           | None \<Rightarrow> (case strip_prefix s [carriage_return, newline] of Some r \<Rightarrow> r | None \<Rightarrow> [])))"

definition parse_memory_file :: "'pod serde \<Rightarrow> string \<Rightarrow> memory_parse_error + memory_file" where
  "parse_memory_file sd source =
     (let input = strip_bom source; trimmed = trim_start input in
      if starts_with trimmed plus_fence then parse_with sd TOML input plus_fence TomlPlus
      else if starts_with trimmed dash_fence then
        (let yaml_or_toml =
           (case parse_with sd YAML input dash_fence Yaml of
              Inr file \<Rightarrow> Inr file
            | Inl _ \<Rightarrow> parse_with sd TOML input dash_fence TomlDash) in
         if starts_with (trim_start (after_fence trimmed)) ''{'' then
           (case parse_with sd JSON input dash_fence Json of
              Inr file \<Rightarrow> Inr file
            | Inl _ \<Rightarrow> yaml_or_toml)
         else yaml_or_toml)
      else Inl NoFrontmatter)"

fun extract_loop :: "string \<Rightarrow> string list \<Rightarrow> string \<Rightarrow> string option" where
  "extract_loop delimiter [] acc = None"
| "extract_loop delimiter (line # ls) acc =
     (if trim_end line = delimiter then
        (let matter = trim acc in if matter = [] then None else Some matter)
      else extract_loop delimiter ls (acc @ [newline] @ line))"

definition extract_frontmatter_block :: "string \<Rightarrow> string \<Rightarrow> string option" where
  "extract_frontmatter_block input delimiter =
     (if input = [] \<or> length input \<le> length delimiter then None
      else
        (case split_once newline input of
           None \<Rightarrow> None
         | Some (first_line, rest) \<Rightarrow>
             if trim_end first_line \<noteq> delimiter then None
             else extract_loop delimiter (lines rest) []))"

definition parse_frontmatter_with ::
  "'pod serde \<Rightarrow> engine \<Rightarrow> string \<Rightarrow> string \<Rightarrow> frontmatter_format \<Rightarrow> memory_parse_error + frontmatter" where
  "parse_frontmatter_with sd e input delimiter fmt =
     bind_res
       (ok_or (Deserialize (format_debug fmt @ '': no frontmatter data found''))
              (extract_frontmatter_block input delimiter))
       (\<lambda>matter.
          bind_res (map_err (\<lambda>m. Deserialize (format_debug fmt @ '': '' @ m)) (sd_engine sd e matter))
            (\<lambda>pod. map_err (\<lambda>m. Deserialize (format_debug fmt @ '': '' @ m)) (sd_deserialize sd pod)))"

definition parse_frontmatter :: "'pod serde \<Rightarrow> string \<Rightarrow> memory_parse_error + frontmatter" where
  "parse_frontmatter sd source =
     (let input = strip_bom source; trimmed = trim_start input in
      if starts_with trimmed plus_fence then parse_frontmatter_with sd TOML input plus_fence TomlPlus
      else if starts_with trimmed dash_fence then
        (let yaml_or_toml =
           (case parse_frontmatter_with sd YAML input dash_fence Yaml of
              Inr fm \<Rightarrow> Inr fm
            | Inl _ \<Rightarrow> parse_frontmatter_with sd TOML input dash_fence TomlDash) in
         if starts_with (trim_start (after_fence trimmed)) ''{'' then
           (case parse_frontmatter_with sd JSON input dash_fence Json of
              Inr fm \<Rightarrow> Inr fm
            | Inl _ \<Rightarrow> yaml_or_toml)
         else yaml_or_toml)
      else Inl NoFrontmatter)"

section \<open>Rendering\<close>

definition render :: "'pod serde \<Rightarrow> memory_file \<Rightarrow> string \<Rightarrow> engine \<Rightarrow> memory_parse_error + string" where
  "render sd self delimiter e =
     bind_res (map_err Render (sd_serialize sd e (mf_frontmatter self)))
       (\<lambda>front. Inr (delimiter @ [newline] @ front
          @ (if ends_with front [newline] then [] else [newline])
          @ delimiter @ [newline] @ mf_body self))"

definition memory_file_to_string :: "'pod serde \<Rightarrow> memory_file \<Rightarrow> memory_parse_error + string" where
  "memory_file_to_string sd self =
     (case mf_format self of
        TomlPlus \<Rightarrow> render sd self plus_fence TOML
      | Yaml \<Rightarrow> render sd self dash_fence YAML
      | Json \<Rightarrow> render sd self dash_fence JSON
      | TomlDash \<Rightarrow> render sd self dash_fence TOML)"

definition to_toml_string :: "'pod serde \<Rightarrow> memory_file \<Rightarrow> memory_parse_error + string" where
  "to_toml_string sd self = render sd self plus_fence TOML"

definition normalize :: "memory_file \<Rightarrow> memory_file" where
  "normalize self = self\<lparr> mf_format := TomlPlus \<rparr>"

section \<open>What the code relies on in the parsing library\<close>

text \<open>
  \<open>gray_matter\<close> leaves its data unset when there is no fenced block or when it is blank,
  and otherwise deserialises the trimmed block with the engine; either error is reported.
\<close>

definition fence_contract :: "'pod serde \<Rightarrow> bool" where
  "fence_contract sd \<longleftrightarrow>
     (\<forall>e d input.
        case extract_frontmatter_block input d of
          None \<Rightarrow> (\<exists>content. sd_matter sd e d input = Inr (None, content))
        | Some m \<Rightarrow>
            (case bind_res (sd_engine sd e m) (sd_deserialize sd) of
               Inl err \<Rightarrow> sd_matter sd e d input = Inl err
             | Inr fm \<Rightarrow> (\<exists>content. sd_matter sd e d input = Inr (Some fm, content))))"

lemma fence_contract_cases:
  assumes "fence_contract sd"
  shows "case extract_frontmatter_block input d of
          None \<Rightarrow> (\<exists>content. sd_matter sd e d input = Inr (None, content))
        | Some m \<Rightarrow>
            (case bind_res (sd_engine sd e m) (sd_deserialize sd) of
               Inl err \<Rightarrow> sd_matter sd e d input = Inl err
             | Inr fm \<Rightarrow> (\<exists>content. sd_matter sd e d input = Inr (Some fm, content)))"
  using assms unfolding fence_contract_def by blast

lemma parse_with_frontmatter:
  assumes "fence_contract sd"
  shows "parse_frontmatter_with sd e input d fmt = map_ok mf_frontmatter (parse_with sd e input d fmt)"
proof (cases "extract_frontmatter_block input d")
  case None
  with fence_contract_cases [OF assms, where input = input and d = d and e = e] show ?thesis
    by (auto simp: parse_frontmatter_with_def parse_with_def)
next
  case (Some m)
  show ?thesis
  proof (cases "bind_res (sd_engine sd e m) (sd_deserialize sd)")
    case (Inl err)
    with fence_contract_cases [OF assms, where input = input and d = d and e = e] Some show ?thesis
      by (auto simp: parse_frontmatter_with_def parse_with_def bind_res_eq_Inl)
  next
    case (Inr fm)
    with fence_contract_cases [OF assms, where input = input and d = d and e = e] Some show ?thesis
      by (auto simp: parse_frontmatter_with_def parse_with_def bind_res_eq_Inr)
  qed
qed

lemma map_ok_case: "map_ok f (case r of Inl e \<Rightarrow> s | Inr a \<Rightarrow> Inr a) =
    (case map_ok f r of Inl e \<Rightarrow> map_ok f s | Inr a \<Rightarrow> Inr a)"
  by (cases r) auto

section \<open>The fenced block of a rendered file\<close>

lemma extract_loop_skip:
  "\<forall>l\<in>set us. trim_end l \<noteq> d \<Longrightarrow>
   extract_loop d (us @ ls) acc = extract_loop d ls (acc @ concat (map (\<lambda>l. newline # l) us))"
  by (induction us arbitrary: acc) simp_all

definition plain_front :: "string \<Rightarrow> string \<Rightarrow> bool" where
  "plain_front d front \<longleftrightarrow>
     carriage_return \<notin> set front \<and> trim front \<noteq> []
     \<and> list_all (\<lambda>l. trim_end l \<noteq> d) (split_on newline front)"

lemma extract_rendered:
  assumes d: "d = plus_fence \<or> d = dash_fence"
    and front: "plain_front d front"
  shows "extract_frontmatter_block
     (d @ [newline] @ front @ (if ends_with front [newline] then [] else [newline]) @ d @ [newline] @ body) d
     = Some (trim front)" (is "extract_frontmatter_block ?input d = _")
proof -
  obtain f0 where f0: "front @ (if ends_with front [newline] then [] else [newline]) = f0 @ [newline]"
    and cases: "front = f0 \<or> front = f0 @ [newline]"
  proof (cases "ends_with front [newline]")
    case True
    then obtain t where "front = t @ [newline]" by (auto simp: ends_with_iff)
    with that True show ?thesis by simp
  qed (use that in auto)
  have fence: "newline \<notin> set d" "trim_end d = d" "strip_cr d = d"
    using d by (auto simp: plus_fence_def dash_fence_def; code_simp)+
  have no_cr: "carriage_return \<notin> set f0" and lines: "\<forall>l\<in>set (split_on newline f0). trim_end l \<noteq> d"
    using front cases by (auto simp: plain_front_def list_all_iff split_on_append)
  have pieces: "map strip_cr (split_on newline f0) = split_on newline f0"
    using no_cr set_split_on [of _ newline f0] by (intro map_idI strip_cr_id) blast
  have "lines (f0 @ [newline] @ d @ [newline] @ body) = split_on newline f0 @ d # lines body"
    using fence by (simp add: lines_append pieces split_on_none)
  then have "extract_loop d (lines (f0 @ [newline] @ d @ [newline] @ body)) []
      = (let m = trim (newline # f0) in if m = [] then None else Some m)"
    using lines fence by (simp add: extract_loop_skip concat_split_on)
  moreover have "trim (newline # f0) = trim front" using cases by auto
  moreover have "split_once newline ?input = Some (d, f0 @ [newline] @ d @ [newline] @ body)"
    using fence f0 by (simp add: split_once_Some)
  ultimately show ?thesis
    using front fence by (simp add: extract_frontmatter_block_def plain_front_def)
qed

section \<open>Properties\<close>


text \<open>A library whose engine reads any block as one fixed frontmatter.\<close>

definition const_serde :: "frontmatter \<Rightarrow> unit serde" where
  "const_serde fm =
     \<lparr> sd_matter = (\<lambda>e d input. case extract_frontmatter_block input d of
                       None \<Rightarrow> Inr (None, input) | Some m \<Rightarrow> Inr (Some fm, [])),
       sd_engine = (\<lambda>e m. Inr ()),
       sd_deserialize = (\<lambda>_. Inr fm),
       sd_serialize = (\<lambda>e f. Inr ''name = 1'') \<rparr>"

lemma const_serde_contract: "fence_contract (const_serde fm)"
  by (simp add: fence_contract_def const_serde_def split: option.split)

definition ex_frontmatter :: frontmatter where
  "ex_frontmatter = frontmatter_new ''n'' ''d'' Rule"

definition ex_source :: string where
  "ex_source = ''+++'' @ [newline] @ ''name = 1'' @ [newline] @ ''+++'' @ [newline] @ ''body''"


lemma parse_frontmatter_plus:
  assumes "starts_with s plus_fence"
  shows "parse_frontmatter sd s = parse_frontmatter_with sd TOML s plus_fence TomlPlus"
    and "parse_memory_file sd s = parse_with sd TOML s plus_fence TomlPlus"
proof -
  from assms obtain t where t: "s = plus_fence @ t" by (auto simp: starts_with_iff)
  then have "strip_prefix s byte_order_mark = None"
    by (simp add: plus_fence_def byte_order_mark_def strip_prefix_None)
  then have bom: "strip_bom s = s" by (simp add: strip_bom_def)
  moreover have "trim_start s = s"
    by (rule trim_start_fix) (simp add: t plus_fence_def ws_len_def byte_def)
  ultimately show "parse_frontmatter sd s = parse_frontmatter_with sd TOML s plus_fence TomlPlus"
    "parse_memory_file sd s = parse_with sd TOML s plus_fence TomlPlus"
    using assms by (simp_all add: parse_frontmatter_def parse_memory_file_def Let_def)
qed

lemma toml_reads_back:
  assumes ser: "sd_serialize sd TOML (mf_frontmatter f) = Inr front"
    and plain: "plain_front plus_fence front"
    and reads: "bind_res (sd_engine sd TOML (trim front)) (sd_deserialize sd) = Inr (mf_frontmatter f)"
    and contract: "fence_contract sd"
  shows "\<exists>s g. to_toml_string sd f = Inr s \<and> parse_frontmatter sd s = Inr (mf_frontmatter f)
    \<and> parse_memory_file sd s = Inr g \<and> mf_frontmatter g = mf_frontmatter f \<and> mf_format g = TomlPlus"
proof -
  define s where "s = plus_fence @ [newline] @ front @ (if ends_with front [newline] then [] else [newline])
    @ plus_fence @ [newline] @ mf_body f"
  have render: "to_toml_string sd f = Inr s" by (simp add: to_toml_string_def render_def ser s_def)
  have start: "starts_with s plus_fence" by (auto simp: starts_with_iff s_def)
  have "parse_frontmatter_with sd TOML s plus_fence TomlPlus = Inr (mf_frontmatter f)"
    using extract_rendered [OF disjI1 [OF refl] plain, of "mf_body f"] reads
    by (auto simp: parse_frontmatter_with_def s_def bind_res_eq_Inr)
  then have fm: "parse_frontmatter sd s = Inr (mf_frontmatter f)" by (simp add: parse_frontmatter_plus [OF start])
  then have "map_ok mf_frontmatter (parse_with sd TOML s plus_fence TomlPlus) = Inr (mf_frontmatter f)"
    by (simp only: parse_frontmatter_plus [OF start] parse_with_frontmatter [OF contract])
  then obtain g where "parse_with sd TOML s plus_fence TomlPlus = Inr g" "mf_frontmatter g = mf_frontmatter f"
    by (auto simp: map_ok_def bind_res_eq_Inr)
  moreover from this(1) have "mf_format g = TomlPlus"
    by (auto simp: parse_with_def bind_res_eq_Inr split: prod.splits)
  ultimately show ?thesis using render fm parse_frontmatter_plus [OF start] by metis
qed

definition ex_file :: memory_file where
  "ex_file = \<lparr> mf_frontmatter = ex_frontmatter, mf_body = ''body'', mf_format = Yaml \<rparr>"

text \<open>
  A file rendered in the default format reads back: when the serialised frontmatter has no
  fence line of its own and the engine reads back what the serialiser wrote, both parsers
  recover the frontmatter from the rendered text, whatever the body.
\<close>

theorem toml_render_parse:
  assumes ser: "sd_serialize sd TOML (mf_frontmatter f) = Inr front"
    and plain: "plain_front plus_fence front"
    and reads: "bind_res (sd_engine sd TOML (trim front)) (sd_deserialize sd) = Inr (mf_frontmatter f)"
    and contract: "fence_contract sd"
  shows "\<exists>s g. to_toml_string sd f = Inr s \<and> parse_frontmatter sd s = Inr (mf_frontmatter f)
    \<and> parse_memory_file sd s = Inr g \<and> mf_frontmatter g = mf_frontmatter f \<and> mf_format g = TomlPlus"
  by (rule toml_reads_back [OF assms])

theorem toml_render_parse_witness:
  "\<exists>s g. to_toml_string (const_serde ex_frontmatter) ex_file = Inr s
     \<and> parse_memory_file (const_serde ex_frontmatter) s = Inr g \<and> mf_frontmatter g = ex_frontmatter"
proof -
  have "plain_front plus_fence ''name = 1''" by code_simp
  from toml_render_parse [OF _ this _ const_serde_contract, of ex_frontmatter ex_file] show ?thesis
    by (auto simp: const_serde_def ex_file_def)
qed

end
