(* ===== verification/Body.thy ===== *)
theory Body
  imports Rust_Str
begin

text \<open>
  The section parser and renderer of memory bodies (\<open>mmcp-core\<close>, \<open>memory/body.rs\<close>). The
  CommonMark parser (\<open>pulldown_cmark\<close>) and the slug function (\<open>slug\<close>) are not part of the
  repository: the record \<open>markdown\<close> holds the stream of events with their byte ranges and
  the slug function. Everything the module computes from them is modelled: the scan of the
  events, the resolution of byte offsets to lines, the section tree with its path ids, and
  the renderer. Line and byte offsets are \<open>usize\<close> values bounded by the length of the body,
  so they are naturals.
\<close>

section \<open>Data\<close>

datatype md_event =
    StartBlockQuote | StartItem | EndBlockQuote | EndItem
  | StartHeading nat | EndHeading
  | EText string | ECode string | EOther

record markdown =
  md_events :: "string \<Rightarrow> (md_event \<times> nat \<times> nat) list"
  md_slugify :: "string \<Rightarrow> string"

record sect =
  s_path :: string
  s_level :: nat
  s_heading :: string
  s_line_start :: nat
  s_line_end :: nat
  s_heading_line_end :: nat
  s_container_depth :: nat

definition PREAMBLE_PATH :: string where "PREAMBLE_PATH = ''preamble''"

datatype body_parse_error = OffsetOutOfRange nat nat

record heading_scan =
  hs_start :: nat
  hs_end :: nat
  hs_level :: nat
  hs_text :: string
  hs_depth :: nat

record heading_lines =
  hl_line :: nat
  hl_heading_line_end :: nat
  hl_level :: nat
  hl_text :: string
  hl_depth :: nat

section \<open>Lines\<close>

definition split_lines :: "string \<Rightarrow> string list" where
  "split_lines body =
     (if body = [] then []
      else let out = split_on newline body
           in if ends_with body [newline] then butlast out else out)"

fun newline_starts :: "nat \<Rightarrow> string \<Rightarrow> nat list" where
  "newline_starts i [] = []"
| "newline_starts i (b # bs) =
     (if b = newline then (i + 1) # newline_starts (i + 1) bs else newline_starts (i + 1) bs)"

definition compute_line_starts :: "string \<Rightarrow> nat list" where
  "compute_line_starts body = 0 # newline_starts 0 body"

text \<open>\<open>slice::binary_search\<close> on a sorted slice without duplicates.\<close>

definition binary_search :: "nat list \<Rightarrow> nat \<Rightarrow> nat + nat" where
  "binary_search xs x =
     (let k = length (takeWhile (\<lambda>s. s < x) xs)
      in if k < length xs \<and> xs ! k = x then Inr k else Inl k)"

definition line_index_for_offset :: "nat list \<Rightarrow> nat \<Rightarrow> nat \<Rightarrow> body_parse_error + nat" where
  "line_index_for_offset line_starts off total_bytes =
     (if off > total_bytes then Inl (OffsetOutOfRange off total_bytes)
      else Inr (case binary_search line_starts off of Inr k \<Rightarrow> k | Inl ins \<Rightarrow> ins - 1))"

section \<open>The scan of the event stream\<close>

record scan_state =
  sc_headings :: "heading_scan list"
  sc_current :: "heading_scan option"
  sc_depth :: nat

fun scan_event :: "scan_state \<Rightarrow> md_event \<times> nat \<times> nat \<Rightarrow> scan_state" where
  "scan_event st (StartBlockQuote, _, _) = st\<lparr> sc_depth := sc_depth st + 1 \<rparr>"
| "scan_event st (StartItem, _, _) = st\<lparr> sc_depth := sc_depth st + 1 \<rparr>"
| "scan_event st (EndBlockQuote, _, _) = st\<lparr> sc_depth := sc_depth st - 1 \<rparr>"
| "scan_event st (EndItem, _, _) = st\<lparr> sc_depth := sc_depth st - 1 \<rparr>"
| "scan_event st (StartHeading level, rs, re) =
     st\<lparr> sc_current := Some \<lparr> hs_start = rs, hs_end = re, hs_level = level, hs_text = [],
                             hs_depth = sc_depth st \<rparr> \<rparr>"
| "scan_event st (EndHeading, _, _) =
     (case sc_current st of
        Some h \<Rightarrow> st\<lparr> sc_headings := sc_headings st @ [h], sc_current := None \<rparr>
      | None \<Rightarrow> st)"
| "scan_event st (EText t, _, _) =
     (case sc_current st of
        Some h \<Rightarrow> st\<lparr> sc_current := Some (h\<lparr> hs_text := hs_text h @ t \<rparr>) \<rparr>
      | None \<Rightarrow> st)"
| "scan_event st (ECode t, _, _) =
     (case sc_current st of
        Some h \<Rightarrow> st\<lparr> sc_current := Some (h\<lparr> hs_text := hs_text h @ t \<rparr>) \<rparr>
      | None \<Rightarrow> st)"
| "scan_event st (EOther, _, _) = st"

definition scan_headings :: "(md_event \<times> nat \<times> nat) list \<Rightarrow> heading_scan list" where
  "scan_headings evs =
     sc_headings (foldl scan_event \<lparr> sc_headings = [], sc_current = None, sc_depth = 0 \<rparr> evs)"

definition resolve_heading :: "string \<Rightarrow> heading_scan \<Rightarrow> body_parse_error + heading_lines" where
  "resolve_heading body scan =
     bind_res (line_index_for_offset (compute_line_starts body) (hs_start scan) (length body)) (\<lambda>line.
     bind_res (line_index_for_offset (compute_line_starts body)
                 (max (hs_end scan - 1) (hs_start scan)) (length body)) (\<lambda>last_line.
       Inr \<lparr> hl_line = line, hl_heading_line_end = last_line + 1, hl_level = hs_level scan,
             hl_text = trim (hs_text scan), hl_depth = hs_depth scan \<rparr>))"

section \<open>The sections\<close>

definition slugify_heading :: "(string \<Rightarrow> string) \<Rightarrow> string \<Rightarrow> string" where
  "slugify_heading slugify txt =
     (let base = slugify (trim txt) in if base = [] then ''section'' else base)"

text \<open>
  The loop over the headings. The stack of open headings is kept with its top first; the
  counts are the occurrences of a slug under a parent trail.
\<close>

type_synonym heading_stack = "(nat \<times> string) list"
type_synonym sibling_counts = "string list \<times> string \<Rightarrow> nat"

definition pop_stack :: "heading_lines \<Rightarrow> heading_stack \<Rightarrow> heading_stack" where
  "pop_stack h stack =
     (if hl_depth h = 0 then dropWhile (\<lambda>(top_level, _). top_level \<ge> hl_level h) stack else stack)"

definition heading_segment :: "string \<Rightarrow> nat \<Rightarrow> string" where
  "heading_segment slug_base n = (if n = 1 then slug_base else slug_base @ ''-'' @ dec n)"

fun build_sections ::
  "(string \<Rightarrow> string) \<Rightarrow> nat \<Rightarrow> heading_lines list \<Rightarrow> heading_stack \<Rightarrow> sibling_counts \<Rightarrow> sect list" where
  "build_sections slugify total_lines [] stack counts = []"
| "build_sections slugify total_lines (h # hs) stack counts =
     (let stack1 = pop_stack h stack;
          slug_base = slugify_heading slugify (hl_text h);
          parent_key = map snd (rev stack1);
          n = counts (parent_key, slug_base) + 1;
          segment = heading_segment slug_base n;
          line_end = (case hs of [] \<Rightarrow> total_lines | next # _ \<Rightarrow> hl_line next)
      in \<lparr> s_path = join_with ''.'' (parent_key @ [segment]), s_level = hl_level h,
           s_heading = hl_text h, s_line_start = hl_line h, s_line_end = line_end,
           s_heading_line_end = hl_heading_line_end h, s_container_depth = hl_depth h \<rparr>
         # build_sections slugify total_lines hs
             (if hl_depth h = 0 then (hl_level h, segment) # stack1 else stack1)
             (counts((parent_key, slug_base) := n)))"

definition preamble_section :: "nat \<Rightarrow> sect" where
  "preamble_section preamble_end =
     \<lparr> s_path = PREAMBLE_PATH, s_level = 0, s_heading = [], s_line_start = 0,
       s_line_end = preamble_end, s_heading_line_end = 0, s_container_depth = 0 \<rparr>"

definition parse_sections :: "markdown \<Rightarrow> string \<Rightarrow> body_parse_error + sect list" where
  "parse_sections md body =
     (let total_lines = length (split_lines body) in
      bind_res (collect_res (resolve_heading body) (scan_headings (md_events md body))) (\<lambda>hls.
        Inr (preamble_section (case hls of [] \<Rightarrow> total_lines | h # _ \<Rightarrow> hl_line h)
             # build_sections (md_slugify md) total_lines hls [] (\<lambda>_. 0))))"

section \<open>Rendering\<close>

fun render_span :: "string list \<Rightarrow> nat list \<Rightarrow> string" where
  "render_span ls [] = []"
| "render_span ls (i # is) =
     (case get_opt ls i of Some l \<Rightarrow> l @ [newline] | None \<Rightarrow> []) @ render_span ls is"

fun render_loop :: "string \<Rightarrow> string list \<Rightarrow> sect list \<Rightarrow> string \<Rightarrow> string" where
  "render_loop raw ls [] out = out"
| "render_loop raw ls (s # ss) out =
     (let out1 = out @ render_span ls [s_line_start s ..< s_line_end s];
          out2 = (if ss = [] \<and> \<not> ends_with raw [newline] then butlast out1 else out1)
      in render_loop raw ls ss out2)"

definition render_sections :: "string \<Rightarrow> sect list \<Rightarrow> string" where
  "render_sections raw secs = render_loop raw (split_lines raw) secs []"

section \<open>Offsets and lines\<close>

lemma newline_starts_sorted: "sorted_wrt (<) (newline_starts i body) \<and> (\<forall>s\<in>set (newline_starts i body). i < s)"
proof (induction body arbitrary: i)
  case Nil
  then show ?case by simp
next
  case (Cons b bs)
  from Cons [of "i + 1"] show ?case by auto
qed

lemma sorted_line_starts: "sorted_wrt (<) (compute_line_starts body)"
  using newline_starts_sorted [of 0 body] by (auto simp: compute_line_starts_def)

lemma binary_search_count:
  "sorted_wrt (<) xs \<Longrightarrow>
   (case binary_search xs x of Inr k \<Rightarrow> Suc k | Inl k \<Rightarrow> k) = length (filter (\<lambda>s. s \<le> x) xs)"
proof (induction xs)
  case Nil
  then show ?case by (simp add: binary_search_def)
next
  case (Cons a xs)
  have IH: "(case binary_search xs x of Inr k \<Rightarrow> Suc k | Inl k \<Rightarrow> k) = length (filter (\<lambda>s. s \<le> x) xs)"
    using Cons by simp
  show ?case
  proof (cases "a < x")
    case True
    then have "binary_search (a # xs) x = (case binary_search xs x of Inr k \<Rightarrow> Inr (Suc k) | Inl k \<Rightarrow> Inl (Suc k))"
      by (simp add: binary_search_def Let_def)
    with IH True show ?thesis by (auto split: sum.splits)
  next
    case False
    have "filter (\<lambda>s. s \<le> x) xs = []" using Cons.prems False by (auto simp: filter_empty_conv)
    with False show ?thesis by (auto simp: binary_search_def)
  qed
qed

lemma filter_newline_starts:
  "length (filter (\<lambda>s. s \<le> x) (newline_starts i body)) = count_list (take (x - i) body) newline"
proof (induction body arbitrary: i)
  case Nil
  then show ?case by simp
next
  case (Cons b bs)
  show ?case
  proof (cases "x \<le> i")
    case True
    have "filter (\<lambda>s. s \<le> x) (newline_starts i (b # bs)) = []"
      using newline_starts_sorted [of i "b # bs"] True unfolding filter_empty_conv
      by (meson leD le_less_trans order.strict_trans2)
    with True show ?thesis by simp
  next
    case False
    then obtain n where n: "x - i = Suc n" "n = x - (i + 1)"
      by (metis Suc_diff_Suc add.commute not_le plus_1_eq_Suc)
    then show ?thesis using Cons.IH [of "i + 1"] False by simp
  qed
qed

lemma line_index_count:
  "line_index_for_offset (compute_line_starts body) off (length body) =
     (if off \<le> length body then Inr (count_list (take off body) newline)
      else Inl (OffsetOutOfRange off (length body)))"
proof -
  have "length (filter (\<lambda>s. s \<le> off) (compute_line_starts body)) = Suc (count_list (take off body) newline)"
    using filter_newline_starts [of off 0 body] by (simp add: compute_line_starts_def)
  then have "(case binary_search (compute_line_starts body) off of Inr k \<Rightarrow> Suc k | Inl k \<Rightarrow> k)
      = Suc (count_list (take off body) newline)"
    using binary_search_count [OF sorted_line_starts] by simp
  then show ?thesis
    by (auto simp: line_index_for_offset_def split: sum.splits)
qed

lemma length_split_lines:
  "length (split_lines body) =
     (if body = [] then 0
      else if ends_with body [newline] then count_list body newline else Suc (count_list body newline))"
  by (simp add: split_lines_def Let_def length_split_on)

lemma count_take_mono: "a \<le> b \<Longrightarrow> count_list (take a xs) c \<le> count_list (take b xs) c"
proof -
  assume "a \<le> b"
  then have "take b xs = take a xs @ take (b - a) (drop a xs)"
    by (metis le_add_diff_inverse take_add)
  then show ?thesis by simp
qed

lemma count_take_le: "count_list (take a xs) c \<le> count_list xs c"
  by (metis append_take_drop_id count_list_append le_add1)

lemma resolve_heading_Inr:
  assumes "resolve_heading body sc = Inr h"
  shows "hs_start sc \<le> length body" "hl_line h = count_list (take (hs_start sc) body) newline"
    "hl_line h < hl_heading_line_end h" "hl_heading_line_end h \<le> Suc (count_list body newline)"
    "hl_level h = hs_level sc" "hl_depth h = hs_depth sc"
proof -
  let ?e = "max (hs_end sc - 1) (hs_start sc)"
  from assms have *: "hs_start sc \<le> length body" "?e \<le> length body"
    "h = \<lparr> hl_line = count_list (take (hs_start sc) body) newline,
           hl_heading_line_end = count_list (take ?e body) newline + 1,
           hl_level = hs_level sc, hl_text = trim (hs_text sc), hl_depth = hs_depth sc \<rparr>"
    by (auto simp: resolve_heading_def line_index_count bind_res_eq_Inr split: if_splits)
  have "count_list (take (hs_start sc) body) newline \<le> count_list (take ?e body) newline"
    by (rule count_take_mono) simp
  with * count_take_le [of ?e body newline]
  show "hs_start sc \<le> length body" "hl_line h = count_list (take (hs_start sc) body) newline"
    "hl_line h < hl_heading_line_end h" "hl_heading_line_end h \<le> Suc (count_list body newline)"
    "hl_level h = hs_level sc" "hl_depth h = hs_depth sc"
    by simp_all
qed

lemma heading_line_le_total:
  "resolve_heading body sc = Inr h \<Longrightarrow> hl_line h \<le> length (split_lines body)"
  using resolve_heading_Inr(1,2) [of body sc h] count_take_le [of "hs_start sc" body newline]
  by (auto simp: length_split_lines)

definition headings_in_order :: "markdown \<Rightarrow> string \<Rightarrow> bool" where
  "headings_in_order md body \<longleftrightarrow> sorted (map hs_start (scan_headings (md_events md body)))"

lemma resolved_lines_sorted:
  assumes "collect_res (resolve_heading body) scs = Inr hls" "sorted (map hs_start scs)"
  shows "sorted (map hl_line hls) \<and> (\<forall>h\<in>set hls. hl_line h \<le> length (split_lines body))"
  using assms
proof (induction scs arbitrary: hls)
  case Nil
  then show ?case by simp
next
  case (Cons sc scs)
  then obtain h hs where h: "resolve_heading body sc = Inr h"
    "collect_res (resolve_heading body) scs = Inr hs" "hls = h # hs"
    by (auto simp: bind_res_eq_Inr)
  have rest: "sorted (map hl_line hs) \<and> (\<forall>h\<in>set hs. hl_line h \<le> length (split_lines body))"
    using Cons h by simp
  have "hl_line h \<le> hl_line k" if k: "k \<in> set hs" for k
  proof -
    from k obtain i where i: "i < length hs" "hs ! i = k" by (auto simp: in_set_conv_nth)
    with h(2) have "i < length scs" "resolve_heading body (scs ! i) = Inr k"
      by (auto simp: collect_res_Inr_iff list_all2_conv_all_nth)
    then obtain sk where sk: "sk \<in> set scs" "resolve_heading body sk = Inr k"
      using nth_mem by blast
    have "hs_start sc \<le> hs_start sk" using Cons.prems(2) sk(1) by simp
    then show ?thesis
      using resolve_heading_Inr(2) [OF h(1)] resolve_heading_Inr(2) [OF sk(2)] count_take_mono by simp
  qed
  with rest h heading_line_le_total [OF h(1)] show ?case by simp
qed

text \<open>
  What the module relies on in the CommonMark parser: heading spans lie within the text, come
  in document order, and a heading ends on an earlier line than the next one starts (headings
  are leaf blocks with lines of their own).
\<close>

definition heading_last_line :: "string \<Rightarrow> heading_scan \<Rightarrow> nat" where
  "heading_last_line body sc = count_list (take (max (hs_end sc - 1) (hs_start sc)) body) newline"

definition heading_first_line :: "string \<Rightarrow> heading_scan \<Rightarrow> nat" where
  "heading_first_line body sc = count_list (take (hs_start sc) body) newline"

definition heading_spans_ok :: "string \<Rightarrow> heading_scan list \<Rightarrow> bool" where
  "heading_spans_ok body scs \<longleftrightarrow>
     list_all (\<lambda>sc. hs_start sc \<le> length body \<and> hs_end sc - 1 \<le> length body) scs
     \<and> sorted_wrt (\<lambda>a b. heading_last_line body a < heading_first_line body b) scs"

definition markdown_contract :: "markdown \<Rightarrow> bool" where
  "markdown_contract md \<longleftrightarrow> (\<forall>body. heading_spans_ok body (scan_headings (md_events md body)))"

lemma resolve_heading_eq:
  "\<lbrakk> hs_start sc \<le> length body; hs_end sc - 1 \<le> length body \<rbrakk> \<Longrightarrow>
   resolve_heading body sc = Inr \<lparr> hl_line = heading_first_line body sc,
     hl_heading_line_end = heading_last_line body sc + 1, hl_level = hs_level sc,
     hl_text = trim (hs_text sc), hl_depth = hs_depth sc \<rparr>"
  by (simp add: resolve_heading_def line_index_count heading_first_line_def heading_last_line_def)

lemma heading_line_le: "heading_first_line body sc \<le> heading_last_line body sc"
  unfolding heading_first_line_def heading_last_line_def by (rule count_take_mono) simp

lemma resolve_in_order:
  "heading_spans_ok body scs \<Longrightarrow> \<exists>hls. collect_res (resolve_heading body) scs = Inr hls
     \<and> list_all2 (\<lambda>sc h. hl_line h = heading_first_line body sc
          \<and> hl_heading_line_end h = heading_last_line body sc + 1) scs hls
     \<and> sorted_wrt (\<lambda>a b. hl_heading_line_end a \<le> hl_line b \<and> hl_line a \<le> hl_line b) hls"
proof (induction scs)
  case Nil
  then show ?case by simp
next
  case (Cons sc scs)
  then have sc: "hs_start sc \<le> length body" "hs_end sc - 1 \<le> length body"
    and later: "\<forall>b\<in>set scs. heading_last_line body sc < heading_first_line body b"
    and rest: "heading_spans_ok body scs"
    by (simp_all add: heading_spans_ok_def)
  from Cons.IH [OF rest] obtain hls where hls: "collect_res (resolve_heading body) scs = Inr hls"
    "list_all2 (\<lambda>sc h. hl_line h = heading_first_line body sc
          \<and> hl_heading_line_end h = heading_last_line body sc + 1) scs hls"
    "sorted_wrt (\<lambda>a b. hl_heading_line_end a \<le> hl_line b \<and> hl_line a \<le> hl_line b) hls" by blast
  have "heading_last_line body sc < hl_line b" if "b \<in> set hls" for b
  proof -
    from that obtain i where "i < length hls" "hls ! i = b" by (auto simp: in_set_conv_nth)
    with hls(2) have "scs ! i \<in> set scs" "hl_line b = heading_first_line body (scs ! i)"
      by (auto simp: list_all2_conv_all_nth)
    with later show ?thesis by auto
  qed
  moreover have "heading_first_line body sc \<le> heading_last_line body sc" by (rule heading_line_le)
  ultimately show ?case using hls by (force simp: resolve_heading_eq [OF sc])
qed

definition sections_in_order :: "sect list \<Rightarrow> bool" where
  "sections_in_order secs \<longleftrightarrow>
     sorted_wrt (\<lambda>a b. s_heading_line_end a \<le> s_line_start b \<and> s_line_start a \<le> s_line_start b) secs"

lemma build_sections_lines:
  "map (\<lambda>s. (s_line_start s, s_heading_line_end s)) (build_sections slg n hls st cnt)
     = map (\<lambda>h. (hl_line h, hl_heading_line_end h)) hls"
  by (induction hls arbitrary: st cnt) (simp_all add: Let_def)

lemma parse_in_order:
  assumes "markdown_contract md"
  shows "\<exists>secs. parse_sections md body = Inr secs \<and> sections_in_order secs"
proof -
  from assms have "heading_spans_ok body (scan_headings (md_events md body))"
    by (simp add: markdown_contract_def)
  from resolve_in_order [OF this] obtain hls where hls:
    "collect_res (resolve_heading body) (scan_headings (md_events md body)) = Inr hls"
    "sorted_wrt (\<lambda>a b. hl_heading_line_end a \<le> hl_line b \<and> hl_line a \<le> hl_line b) hls" by blast
  define ss where "ss = build_sections (md_slugify md) (length (split_lines body)) hls [] (\<lambda>_. 0)"
  have m: "map (\<lambda>s. (s_line_start s, s_heading_line_end s)) ss = map (\<lambda>h. (hl_line h, hl_heading_line_end h)) hls"
    unfolding ss_def by (rule build_sections_lines)
  let ?P = "\<lambda>(a, b) (c, d). b \<le> c \<and> a \<le> (c :: nat)"
  have "sorted_wrt ?P (map (\<lambda>h. (hl_line h, hl_heading_line_end h)) hls)"
    using hls(2) by (simp add: sorted_wrt_map)
  then have "sorted_wrt ?P (map (\<lambda>s. (s_line_start s, s_heading_line_end s)) ss)" by (simp only: m)
  then have "sections_in_order (preamble_section e # ss)" for e
    by (simp add: sorted_wrt_map sections_in_order_def preamble_section_def)
  then show ?thesis by (simp add: parse_sections_def Let_def hls(1) ss_def)
qed

section \<open>The sections tile the lines\<close>

fun tiles :: "nat \<Rightarrow> sect list \<Rightarrow> nat \<Rightarrow> bool" where
  "tiles a [] b \<longleftrightarrow> a = b"
| "tiles a (s # ss) b \<longleftrightarrow> s_line_start s = a \<and> a \<le> s_line_end s \<and> tiles (s_line_end s) ss b"

lemma build_tiles:
  assumes "sorted (map hl_line hls)" "\<forall>h\<in>set hls. hl_line h \<le> n"
  shows "tiles (case hls of [] \<Rightarrow> n | h # _ \<Rightarrow> hl_line h) (build_sections slg n hls st cnt) n"
  using assms
proof (induction hls arbitrary: st cnt)
  case Nil
  then show ?case by simp
next
  case (Cons h hs)
  let ?next = "case hs of [] \<Rightarrow> n | k # _ \<Rightarrow> hl_line k"
  obtain s st1 cnt1 where b: "build_sections slg n (h # hs) st cnt = s # build_sections slg n hs st1 cnt1"
    and s: "s_line_start s = hl_line h" "s_line_end s = ?next"
    by (auto simp: Let_def)
  have "hl_line h \<le> ?next" using Cons.prems by (cases hs) simp_all
  moreover have "tiles ?next (build_sections slg n hs st1 cnt1) n" using Cons by simp
  ultimately show ?case unfolding b by (simp add: s)
qed

lemma parse_sections_tiles:
  assumes "parse_sections md body = Inr secs" "headings_in_order md body"
  shows "tiles 0 secs (length (split_lines body))"
proof -
  let ?n = "length (split_lines body)"
  from assms(1) obtain hls where hls:
    "collect_res (resolve_heading body) (scan_headings (md_events md body)) = Inr hls"
    "secs = preamble_section (case hls of [] \<Rightarrow> ?n | h # _ \<Rightarrow> hl_line h)
       # build_sections (md_slugify md) ?n hls [] (\<lambda>_. 0)"
    by (auto simp: parse_sections_def Let_def bind_res_eq_Inr)
  from resolved_lines_sorted [OF hls(1)] assms(2)
  have "sorted (map hl_line hls)" "\<forall>h\<in>set hls. hl_line h \<le> ?n"
    by (simp_all add: headings_in_order_def)
  from build_tiles [OF this] show ?thesis by (simp add: hls(2) preamble_section_def)
qed

lemma parse_sections_head:
  "parse_sections md body = Inr secs \<Longrightarrow> \<exists>e ss. secs = preamble_section e # ss"
  by (auto simp: parse_sections_def Let_def bind_res_eq_Inr)

section \<open>Rendering a tiling\<close>

lemma render_span_append: "render_span ls (xs @ ys) = render_span ls xs @ render_span ls ys"
  by (induction xs) simp_all

lemma render_span_all: "render_span ls [0..<length ls] = concat (map (\<lambda>l. l @ [newline]) ls)"
proof -
  have "render_span ls is = concat (map (\<lambda>i. ls ! i @ [newline]) is)" if "\<forall>i\<in>set is. i < length ls" for "is"
    using that by (induction "is") simp_all
  then have "render_span ls [0..<length ls] = concat (map (\<lambda>l. l @ [newline]) (map ((!) ls) [0..<length ls]))"
    by (simp add: comp_def)
  then show ?thesis by (simp only: map_nth)
qed

lemma render_loop_tiles:
  "\<lbrakk> tiles a ss b; ss \<noteq> [] \<rbrakk> \<Longrightarrow>
   render_loop raw ls ss out =
     (if ends_with raw [newline] then out @ render_span ls [a..<b]
      else butlast (out @ render_span ls [a..<b]))"
proof (induction ss arbitrary: a out)
  case Nil
  then show ?case by simp
next
  case (Cons s ss)
  show ?case
  proof (cases "ss = []")
    case True
    with Cons.prems show ?thesis by (simp add: Let_def)
  next
    case False
    have le: "a \<le> s_line_end s" "s_line_end s \<le> b" "s_line_start s = a"
    proof -
      have "tiles x ts y \<Longrightarrow> x \<le> y" for x ts y
        by (induction ts arbitrary: x) (auto intro: order_trans)
      with Cons.prems(1) show "a \<le> s_line_end s" "s_line_end s \<le> b" "s_line_start s = a" by auto
    qed
    have "[a..<b] = [a..<s_line_end s] @ [s_line_end s..<b]"
      using le by (metis le_add_diff_inverse upt_add_eq_append)
    with Cons.IH [of "s_line_end s"] Cons.prems False le show ?thesis
      by (simp add: Let_def render_span_append)
  qed
qed

lemma concat_split_on_suffix: "concat (map (\<lambda>l. l @ [c]) (split_on c s)) = s @ [c]"
proof (induction s)
  case Nil
  then show ?case by simp
next
  case (Cons x s)
  then show ?case by (cases "split_on c s") auto
qed

lemma concat_split_lines:
  "concat (map (\<lambda>l. l @ [newline]) (split_lines body)) =
     (if body = [] \<or> ends_with body [newline] then body else body @ [newline])"
proof (cases "ends_with body [newline]")
  case True
  then obtain t where "body = t @ [newline]" by (auto simp: ends_with_iff)
  with True show ?thesis
    by (simp add: split_lines_def Let_def split_on_append butlast_append concat_split_on_suffix)
next
  case False
  then show ?thesis by (simp add: split_lines_def concat_split_on_suffix)
qed

lemma render_tiles:
  assumes "tiles 0 secs (length (split_lines raw))" "secs \<noteq> []"
  shows "render_sections raw secs = raw"
  unfolding render_sections_def render_loop_tiles [OF assms] render_span_all concat_split_lines by auto

section \<open>Path ids\<close>

text \<open>
  The section a heading hangs from: the nearest earlier outline heading of a smaller level,
  or, for a heading inside a container, the nearest earlier outline heading.
\<close>

definition hangs_from :: "sect \<Rightarrow> sect \<Rightarrow> bool" where
  "hangs_from s p \<longleftrightarrow>
     s_container_depth p = 0 \<and> (s_container_depth s = 0 \<longrightarrow> s_level p < s_level s)"

fun path_trail :: "(string \<Rightarrow> string) \<Rightarrow> sect list \<Rightarrow> sect list \<Rightarrow> bool" where
  "path_trail slugify earlier [] \<longleftrightarrow> True"
| "path_trail slugify earlier (s # ss) \<longleftrightarrow>
     (\<exists>n\<ge>1. s_path s =
        (case find (hangs_from s) earlier of None \<Rightarrow> [] | Some p \<Rightarrow> s_path p @ ''.'')
        @ heading_segment (slugify_heading slugify (s_heading s)) n)
     \<and> path_trail slugify (s # earlier) ss"

definition cut_stack :: "nat option \<Rightarrow> heading_stack \<Rightarrow> heading_stack" where
  "cut_stack lim stack =
     (case lim of None \<Rightarrow> stack | Some l \<Rightarrow> dropWhile (\<lambda>(top_level, _). top_level \<ge> l) stack)"

definition outlines_below :: "nat option \<Rightarrow> sect \<Rightarrow> bool" where
  "outlines_below lim p \<longleftrightarrow>
     s_container_depth p = 0 \<and> (case lim of None \<Rightarrow> True | Some l \<Rightarrow> s_level p < l)"

definition stack_path :: "heading_stack \<Rightarrow> string" where
  "stack_path stack = join_with ''.'' (map snd (rev stack))"

definition stack_ok :: "heading_stack \<Rightarrow> sect list \<Rightarrow> bool" where
  "stack_ok stack earlier \<longleftrightarrow>
     (\<forall>lim. case find (outlines_below lim) earlier of
        None \<Rightarrow> cut_stack lim stack = []
      | Some p \<Rightarrow> cut_stack lim stack \<noteq> [] \<and> s_path p = stack_path (cut_stack lim stack))"

lemma join_with_snoc: "xs \<noteq> [] \<Longrightarrow> join_with sep (xs @ [y]) = join_with sep xs @ sep @ y"
  by (induction sep xs rule: join_with.induct) (simp_all add: join_with_Cons)

lemma stack_path_Cons:
  "stack_path ((l, seg) # st) = (if st = [] then seg else stack_path st @ ''.'' @ seg)"
  by (simp add: stack_path_def join_with_snoc)

lemma cut_cut: "j \<le> l \<Longrightarrow> cut_stack (Some j) (cut_stack (Some l) st) = cut_stack (Some j) st"
  unfolding cut_stack_def by (induction st) auto

definition limit_of :: "heading_lines \<Rightarrow> nat option" where
  "limit_of h = (if hl_depth h = 0 then Some (hl_level h) else None)"

lemma pop_stack_cut: "pop_stack h st = cut_stack (limit_of h) st"
  by (simp add: pop_stack_def cut_stack_def limit_of_def)

lemma stack_ok_step:
  assumes ok: "stack_ok st earlier"
    and s: "s_level s = hl_level h" "s_container_depth s = hl_depth h"
      "s_path s = stack_path ((hl_level h, seg) # pop_stack h st)"
  shows "stack_ok (if hl_depth h = 0 then (hl_level h, seg) # pop_stack h st else pop_stack h st) (s # earlier)"
proof (cases "hl_depth h = 0")
  case False
  then have "pop_stack h st = st" "\<not> outlines_below lim s" for lim
    using s by (simp_all add: pop_stack_def outlines_below_def)
  with ok False show ?thesis by (simp add: stack_ok_def)
next
  case True
  define st1 where "st1 = (hl_level h, seg) # pop_stack h st"
  have "case find (outlines_below lim) (s # earlier) of None \<Rightarrow> cut_stack lim st1 = []
      | Some p \<Rightarrow> cut_stack lim st1 \<noteq> [] \<and> s_path p = stack_path (cut_stack lim st1)" for lim
  proof (cases "outlines_below lim s")
    case True
    then have "cut_stack lim st1 = st1"
      using s by (auto simp: outlines_below_def cut_stack_def st1_def split: option.splits)
    with True s st1_def show ?thesis by simp
  next
    case False
    then obtain l where l: "lim = Some l" "l \<le> hl_level h"
      using s True by (auto simp: outlines_below_def split: option.splits)
    have "cut_stack lim st1 = cut_stack lim st"
      using l True cut_cut [OF l(2), of st]
      by (simp add: st1_def pop_stack_cut limit_of_def) (simp add: cut_stack_def)
    with ok [unfolded stack_ok_def, rule_format, of lim] False show ?thesis
      by (cases "find (outlines_below lim) earlier") simp_all
  qed
  then have "stack_ok st1 (s # earlier)" unfolding stack_ok_def by blast
  with True show ?thesis by (simp add: st1_def)
qed

lemma hangs_from_below:
  "\<lbrakk> s_level s = hl_level h; s_container_depth s = hl_depth h \<rbrakk> \<Longrightarrow> hangs_from s = outlines_below (limit_of h)"
  by (auto simp: fun_eq_iff hangs_from_def outlines_below_def limit_of_def)

lemma build_path_trail:
  "stack_ok st earlier \<Longrightarrow> path_trail slg earlier (build_sections slg n hls st cnt)"
proof (induction hls arbitrary: st cnt earlier)
  case Nil
  then show ?case by simp
next
  case (Cons h hs)
  define st1 where "st1 = pop_stack h st"
  define k where "k = cnt (map snd (rev st1), slugify_heading slg (hl_text h)) + 1"
  define seg where "seg = heading_segment (slugify_heading slg (hl_text h)) k"
  define s where "s = \<lparr> s_path = join_with ''.'' (map snd (rev st1) @ [seg]), s_level = hl_level h,
           s_heading = hl_text h, s_line_start = hl_line h,
           s_line_end = (case hs of [] \<Rightarrow> n | next # _ \<Rightarrow> hl_line next),
           s_heading_line_end = hl_heading_line_end h, s_container_depth = hl_depth h \<rparr>"
  have build: "build_sections slg n (h # hs) st cnt = s # build_sections slg n hs
      (if hl_depth h = 0 then (hl_level h, seg) # st1 else st1)
      (cnt((map snd (rev st1), slugify_heading slg (hl_text h)) := k))"
    by (simp add: Let_def s_def st1_def k_def seg_def)
  have fields: "s_level s = hl_level h" "s_container_depth s = hl_depth h"
    "s_path s = stack_path ((hl_level h, seg) # pop_stack h st)" "s_heading s = hl_text h"
    by (simp_all add: s_def stack_path_def st1_def)
  have "s_path s = (case find (hangs_from s) earlier of None \<Rightarrow> [] | Some p \<Rightarrow> s_path p @ ''.'') @ seg"
    using Cons.prems fields(3) unfolding hangs_from_below [OF fields(1,2)] stack_path_Cons
    by (auto simp: stack_ok_def pop_stack_cut split: option.splits dest: spec [of _ "limit_of h"])
  moreover have "1 \<le> k" by (simp add: k_def)
  moreover have "path_trail slg (s # earlier) (build_sections slg n hs
      (if hl_depth h = 0 then (hl_level h, seg) # st1 else st1)
      (cnt((map snd (rev st1), slugify_heading slg (hl_text h)) := k)))"
    unfolding st1_def by (intro Cons.IH stack_ok_step [OF Cons.prems fields(1-3)])
  ultimately show ?case unfolding build by (auto simp: seg_def fields(4))
qed

lemma stack_ok_Nil: "stack_ok [] []"
  by (simp add: stack_ok_def cut_stack_def split: option.split)

section \<open>Properties\<close>

text \<open>
  Parsing succeeds exactly when the heading spans lie within the body, and a heading that
  starts past the end is reported with its offset: the only failure is a bad event stream.
\<close>

theorem parse_sections_total:
  "(\<exists>secs. parse_sections md body = Inr secs) \<longleftrightarrow>
     list_all (\<lambda>sc. hs_start sc \<le> length body \<and> hs_end sc - 1 \<le> length body)
       (scan_headings (md_events md body))"
proof -
  have one: "(\<exists>h. resolve_heading body sc = Inr h) \<longleftrightarrow> hs_start sc \<le> length body \<and> hs_end sc - 1 \<le> length body" for sc
    by (auto simp: resolve_heading_def line_index_count)
  have "(\<exists>hls. collect_res (resolve_heading body) scs = Inr hls) \<longleftrightarrow>
      (\<forall>sc\<in>set scs. \<exists>h. resolve_heading body sc = Inr h)" for scs
    by (induction scs) (auto simp: bind_res_eq_Inr)
  then show ?thesis
    by (simp add: parse_sections_def Let_def bind_res_eq_Inr list_all_iff one)
qed

text \<open>
  C34. The sections tile the lines of the body: the first starts at line 0, each ends where the
  next one starts, the last ends with the body; and rendering them gives back the body byte
  for byte, whatever its line terminators and whether or not its last line is terminated.
\<close>

theorem parse_render_roundtrip:
  assumes "parse_sections md body = Inr secs" and "headings_in_order md body"
  shows "tiles 0 secs (length (split_lines body)) \<and> render_sections body secs = body"
  using parse_sections_tiles [OF assms] parse_sections_head [OF assms(1)] render_tiles by blast

definition ex_body :: string where
  "ex_body = ''a'' @ [newline] @ ''# T'' @ [newline] @ ''x''"

definition ex_markdown :: markdown where
  "ex_markdown = \<lparr> md_events = (\<lambda>body. if body = ex_body
        then [(StartHeading 1, 2, 6), (EText ''T'', 4, 5), (EndHeading, 2, 6)] else []),
     md_slugify = (\<lambda>s. s) \<rparr>"

theorem parse_render_roundtrip_witness:
  "\<exists>secs. parse_sections ex_markdown ex_body = Inr secs \<and> length secs = 2 \<and> render_sections ex_body secs = ex_body"
proof -
  have "(case parse_sections ex_markdown ex_body of Inr secs \<Rightarrow> length secs = 2 | Inl _ \<Rightarrow> False)
      \<and> headings_in_order ex_markdown ex_body" by code_simp
  then obtain secs where "parse_sections ex_markdown ex_body = Inr secs" "length secs = 2"
    "headings_in_order ex_markdown ex_body" by (auto split: sum.splits)
  with parse_render_roundtrip [of ex_markdown ex_body] show ?thesis by blast
qed

text \<open>
  Path ids follow the outline: the path of every heading is its own segment (its slug, with
  an occurrence number from 2 on), below the path of the nearest earlier top-level heading of
  a smaller level; a heading inside a quote or a list item hangs from the nearest earlier
  top-level heading and never becomes a parent.
\<close>

theorem parse_sections_paths:
  assumes "parse_sections md body = Inr secs"
  shows "\<exists>e ss. secs = preamble_section e # ss \<and> path_trail (md_slugify md) [] ss"
  using assms build_path_trail [OF stack_ok_Nil]
  by (auto simp: parse_sections_def Let_def bind_res_eq_Inr)

theorem parse_sections_paths_witness:
  "\<exists>e ss. (case parse_sections ex_markdown ex_body of Inr secs \<Rightarrow> secs = preamble_section e # ss | Inl _ \<Rightarrow> False)
     \<and> path_trail (md_slugify ex_markdown) [] ss"
proof -
  have "(case parse_sections ex_markdown ex_body of Inr secs \<Rightarrow> True | Inl _ \<Rightarrow> False)" by code_simp
  then obtain secs where "parse_sections ex_markdown ex_body = Inr secs" by (auto split: sum.splits)
  with parse_sections_paths [OF this] show ?thesis by auto
qed

text \<open>
  Paths are not unique: the occurrence number of a repeated heading can collide with a later
  heading that ends in that number, and a heading can be named like the preamble.
\<close>

definition dup_body :: string where
  "dup_body = ''# a'' @ [newline] @ ''# a'' @ [newline] @ ''# a-2'' @ [newline] @ ''# preamble''"

definition dup_markdown :: markdown where
  "dup_markdown = \<lparr> md_events = (\<lambda>_.
       [(StartHeading 1, 0, 4), (EText ''a'', 2, 3), (EndHeading, 0, 4),
        (StartHeading 1, 4, 8), (EText ''a'', 6, 7), (EndHeading, 4, 8),
        (StartHeading 1, 8, 14), (EText ''a-2'', 10, 13), (EndHeading, 8, 14),
        (StartHeading 1, 14, 24), (EText ''preamble'', 16, 24), (EndHeading, 14, 24)]),
     md_slugify = (\<lambda>s. s) \<rparr>"

lemma section_paths_collide:
  "map_ok (map s_path) (parse_sections dup_markdown dup_body)
     = Inr [''preamble'', ''a'', ''a-2'', ''a-2'', ''preamble'']"
  by code_simp

end
