(* ===== verification/Splice.thy ===== *)
theory Splice
  imports Body
begin

text \<open>
  The seam-preserving splice of memory bodies (\<open>mmcp-core\<close>, \<open>memory/splice.rs\<close>): rng
  validation, the prevailing line terminator, the heading seams of a text, the separator
  pushed at each seam, and the closing of the document. A \<open>&mut String\<close> argument is the
  returned string.
\<close>

section \<open>Definitions\<close>

datatype splice_error =
    InvertedRange nat nat
  | OutOfBounds nat nat
  | NotCharBoundary nat
  | SpliceParse body_parse_error

definition check_offset :: "string \<Rightarrow> nat \<Rightarrow> splice_error + unit" where
  "check_offset body off =
     (if off > length body then Inl (OutOfBounds off (length body))
      else if \<not> is_char_boundary body off then Inl (NotCharBoundary off)
      else Inr ())"

definition validate_range :: "string \<Rightarrow> nat \<times> nat \<Rightarrow> splice_error + unit" where
  "validate_range body rng =
     (case rng of (rs, re) \<Rightarrow>
        if rs > re then Inl (InvertedRange rs re)
        else bind_res (check_offset body rs) (\<lambda>_. check_offset body re))"

definition terminate_line :: "string \<Rightarrow> string \<Rightarrow> string" where
  "terminate_line out terminator =
     (if ends_with out [newline] then out
      else if ends_with out [carriage_return] then out @ [newline]
      else out @ terminator)"

definition ends_with_blank_line :: "string \<Rightarrow> bool" where
  "ends_with_blank_line txt =
     (case strip_suffix txt [newline] of
        None \<Rightarrow> False
      | Some head \<Rightarrow>
          (let head1 = (case strip_suffix head [carriage_return] of Some h \<Rightarrow> h | None \<Rightarrow> head)
           in head1 = [] \<or> ends_with head1 [newline]))"

definition push_seam :: "string \<Rightarrow> bool \<Rightarrow> string \<Rightarrow> string" where
  "push_seam out blank_line terminator =
     (if out = [] then out
      else let out1 = terminate_line out terminator
           in if blank_line \<and> \<not> ends_with_blank_line out1 then out1 @ terminator else out1)"

definition close_document :: "string \<Rightarrow> string \<Rightarrow> string" where
  "close_document out terminator = (if out \<noteq> [] then terminate_line out terminator else out)"

text \<open>The counting loop: the previous byte, the two counters.\<close>

fun count_terminators :: "char option \<Rightarrow> string \<Rightarrow> nat \<Rightarrow> nat \<Rightarrow> nat \<times> nat" where
  "count_terminators prev [] crlf lf = (crlf, lf)"
| "count_terminators prev (b # bs) crlf lf =
     (if b \<noteq> newline then count_terminators (Some b) bs crlf lf
      else if prev = Some carriage_return then count_terminators (Some b) bs (crlf + 1) lf
      else count_terminators (Some b) bs crlf (lf + 1))"

definition line_terminator :: "string \<Rightarrow> string" where
  "line_terminator txt =
     (case count_terminators None txt 0 0 of (crlf, lf) \<Rightarrow>
        if crlf > 0 \<and> crlf \<ge> lf then [carriage_return, newline] else [newline])"

fun line_start_loop :: "nat \<Rightarrow> string \<Rightarrow> nat list" where
  "line_start_loop i [] = []"
| "line_start_loop i (b # bs) =
     (if b = newline \<and> bs \<noteq> [] then (i + 1) # line_start_loop (i + 1) bs else line_start_loop (i + 1) bs)"

definition line_start_offsets :: "string \<Rightarrow> nat list" where
  "line_start_offsets txt = 0 # line_start_loop 0 txt"

definition last_line_start :: "string \<Rightarrow> nat option" where
  "last_line_start txt =
     (if txt = [] then None
      else let without_terminator = (case strip_suffix txt [newline] of Some h \<Rightarrow> h | None \<Rightarrow> txt)
           in Some (case rfind newline without_terminator of Some i \<Rightarrow> i + 1 | None \<Rightarrow> 0))"

record heading_seams =
  seam_opens :: "nat list"
  seam_closes :: "nat list"

fun seam_loop :: "nat list \<Rightarrow> sect list \<Rightarrow> heading_seams \<Rightarrow> heading_seams" where
  "seam_loop offs [] seams = seams"
| "seam_loop offs (s # ss) seams =
     (if s_level s > 0 \<and> s_container_depth s = 0 then
        (let seams1 = (case get_opt offs (s_line_start s) of
                         Some off \<Rightarrow> seams\<lparr> seam_opens := seam_opens seams @ [off] \<rparr>
                       | None \<Rightarrow> seams);
             seams2 = (case get_opt offs (s_heading_line_end s - 1) of
                         Some off \<Rightarrow> seams1\<lparr> seam_closes := seam_closes seams1 @ [off] \<rparr>
                       | None \<Rightarrow> seams1)
         in seam_loop offs ss seams2)
      else seam_loop offs ss seams)"

definition scan_seams :: "markdown \<Rightarrow> string \<Rightarrow> splice_error + heading_seams" where
  "scan_seams md txt =
     bind_res (map_err SpliceParse (parse_sections md txt)) (\<lambda>secs.
       Inr (seam_loop (line_start_offsets txt) secs \<lparr> seam_opens = [], seam_closes = [] \<rparr>))"

definition closes_at :: "heading_seams \<Rightarrow> nat option \<Rightarrow> bool" where
  "closes_at seams line_start =
     (case line_start of Some off \<Rightarrow> off \<in> set (seam_closes seams) | None \<Rightarrow> False)"

definition splice :: "markdown \<Rightarrow> string \<Rightarrow> nat \<times> nat \<Rightarrow> string \<Rightarrow> splice_error + string" where
  "splice md body rng fragment =
     bind_res (validate_range body rng) (\<lambda>_.
     let terminator = line_terminator body in
     bind_res (scan_seams md body) (\<lambda>body_headings.
     bind_res (scan_seams md fragment) (\<lambda>fragment_headings.
       let pre = take (fst rng) body;
           tail = drop (snd rng) body;
           prefix_closes = closes_at body_headings (last_line_start pre);
           tail_opens = snd rng \<in> set (seam_opens body_headings);
           fragment_opens = 0 \<in> set (seam_opens fragment_headings);
           fragment_closes = closes_at fragment_headings (last_line_start fragment);
           out1 = (if fragment \<noteq> []
                   then push_seam pre (prefix_closes \<or> fragment_opens) terminator @ fragment
                   else pre);
           left_closes = (if fragment = [] then prefix_closes else fragment_closes);
           out2 = (if tail \<noteq> [] then push_seam out1 (left_closes \<or> tail_opens) terminator @ tail
                   else out1)
       in Inr (close_document out2 terminator))))"

section \<open>Seams\<close>

definition terminator_ok :: "string \<Rightarrow> bool" where
  "terminator_ok t \<longleftrightarrow> t = [newline] \<or> t = [carriage_return, newline]"

lemma line_terminator_ok [simp]: "terminator_ok (line_terminator txt)"
  by (simp add: line_terminator_def terminator_ok_def split: prod.split)

lemma terminator_ok_cases:
  assumes "terminator_ok t"
  obtains "t = [newline]" | "t = [carriage_return, newline]"
  using assms by (auto simp: terminator_ok_def)

definition line_end_bytes :: "string \<Rightarrow> bool" where
  "line_end_bytes w \<longleftrightarrow> set w \<subseteq> {carriage_return, newline}"

lemma terminate_line_ends: "terminator_ok t \<Longrightarrow> ends_with (terminate_line out t) [newline]"
  by (erule terminator_ok_cases) (auto simp: terminate_line_def ends_with_iff)

lemma terminate_line_append:
  "terminator_ok t \<Longrightarrow> \<exists>w. terminate_line out t = out @ w \<and> line_end_bytes w \<and> length w \<le> 2"
  by (erule terminator_ok_cases) (auto simp: terminate_line_def line_end_bytes_def)

lemma terminate_line_idem [simp]: "ends_with out [newline] \<Longrightarrow> terminate_line out t = out"
  by (simp add: terminate_line_def)

lemma blank_line_after:
  assumes "ends_with out [newline]" "terminator_ok t"
  shows "ends_with_blank_line (out @ t)"
proof -
  obtain h where h: "out = h @ [newline]" using assms(1) by (auto simp: ends_with_iff)
  from assms(2) show ?thesis
  proof (cases rule: terminator_ok_cases)
    case 1
    have "strip_suffix out [carriage_return] = None" by (auto simp: strip_suffix_None h)
    with 1 assms(1) show ?thesis by (simp add: ends_with_blank_line_def)
  next
    case 2
    have "strip_suffix (out @ [carriage_return, newline]) [newline] = Some (out @ [carriage_return])"
      by (simp add: strip_suffix_Some)
    with 2 assms(1) show ?thesis by (simp add: ends_with_blank_line_def)
  qed
qed

lemma push_seam_append:
  assumes "terminator_ok t"
  shows "\<exists>w. push_seam out b t = out @ w \<and> line_end_bytes w \<and> length w \<le> 4 \<and> (out = [] \<longrightarrow> w = [])"
proof -
  obtain w where "terminate_line out t = out @ w" "line_end_bytes w" "length w \<le> 2"
    using terminate_line_append [OF assms] by blast
  with assms show ?thesis
    by (auto elim!: terminator_ok_cases simp: push_seam_def Let_def line_end_bytes_def)
qed

lemma push_seam_ends:
  assumes "terminator_ok t" "out \<noteq> []"
  shows "ends_with (push_seam out b t) [newline]" "b \<Longrightarrow> ends_with_blank_line (push_seam out b t)"
proof -
  have *: "ends_with (terminate_line out t) [newline]" by (rule terminate_line_ends [OF assms(1)])
  then have "ends_with (terminate_line out t @ t) [newline]"
    using assms(1) by (auto elim!: terminator_ok_cases simp: ends_with_iff)
  with * show "ends_with (push_seam out b t) [newline]" by (simp add: push_seam_def assms(2) Let_def)
  show "ends_with_blank_line (push_seam out b t)" if b
    using that blank_line_after [OF * assms(1)] assms(2) by (simp add: push_seam_def Let_def)
qed

lemma push_seam_fix:
  "\<lbrakk> ends_with out [newline]; b \<Longrightarrow> ends_with_blank_line out \<rbrakk> \<Longrightarrow> push_seam out b t = out"
  by (auto simp: push_seam_def)

lemma push_seam_idem:
  "terminator_ok t \<Longrightarrow> push_seam (push_seam out b t) b t = push_seam out b t"
  by (cases "out = []") (simp_all add: push_seam_fix push_seam_ends, simp add: push_seam_def)

lemma close_document_append:
  "terminator_ok t \<Longrightarrow> \<exists>w. close_document out t = out @ w \<and> line_end_bytes w \<and> length w \<le> 2"
  using terminate_line_append [of t out] by (auto simp: close_document_def line_end_bytes_def)

lemma close_document_ends:
  "terminator_ok t \<Longrightarrow> close_document out t = [] \<or> ends_with (close_document out t) [newline]"
  using terminate_line_ends by (auto simp: close_document_def)

section \<open>Shape of a result\<close>

lemma validate_range_ok:
  "validate_range body (rs, re) = Inr () \<longleftrightarrow>
     rs \<le> re \<and> re \<le> length body \<and> is_char_boundary body rs \<and> is_char_boundary body re"
  by (auto simp: validate_range_def check_offset_def bind_res_eq_Inr)

lemma splice_parts:
  assumes "splice md body (rs, re) fragment = Inr out"
  obtains bh fh where "validate_range body (rs, re) = Inr ()"
    "scan_seams md body = Inr bh" "scan_seams md fragment = Inr fh"
    "out = (let t = line_terminator body;
            pre_closes = closes_at bh (last_line_start (take rs body));
            out1 = (if fragment \<noteq> []
                    then push_seam (take rs body) (pre_closes \<or> 0 \<in> set (seam_opens fh)) t @ fragment
                    else take rs body);
            left_closes = (if fragment = [] then pre_closes
                           else closes_at fh (last_line_start fragment));
            out2 = (if drop re body \<noteq> []
                    then push_seam out1 (left_closes \<or> re \<in> set (seam_opens bh)) t @ drop re body
                    else out1)
       in close_document out2 t)"
  using assms unfolding splice_def by (auto simp: bind_res_eq_Inr Let_def)

lemma line_end_bytes_Nil [simp]: "line_end_bytes []"
  by (simp add: line_end_bytes_def)

text \<open>The two seams of a splice, as the bytes added at each.\<close>

lemma splice_seam_bytes:
  assumes "splice md body (rs, re) fragment = Inr out"
    and bh: "scan_seams md body = Inr bh" and fh: "scan_seams md fragment = Inr fh"
  shows "\<exists>w1 w2 w3. out = take rs body @ w1 @ fragment @ w2 @ drop re body @ w3
     \<and> line_end_bytes w1 \<and> line_end_bytes w2 \<and> line_end_bytes w3
     \<and> length w1 \<le> 4 \<and> length w2 \<le> 4 \<and> length w3 \<le> 2
     \<and> (fragment \<noteq> [] \<and> take rs body \<noteq> [] \<longrightarrow>
          ends_with (take rs body @ w1) [newline]
          \<and> (closes_at bh (last_line_start (take rs body)) \<or> 0 \<in> set (seam_opens fh) \<longrightarrow>
               ends_with_blank_line (take rs body @ w1)))
     \<and> (drop re body \<noteq> [] \<and> take rs body @ fragment \<noteq> [] \<longrightarrow>
          ends_with (take rs body @ w1 @ fragment @ w2) [newline]
          \<and> (re \<in> set (seam_opens bh)
              \<or> closes_at fh (last_line_start fragment)
              \<or> (fragment = [] \<and> closes_at bh (last_line_start (take rs body)))
              \<longrightarrow> ends_with_blank_line (take rs body @ w1 @ fragment @ w2)))"
proof -
  define t where "t = line_terminator body"
  have t: "terminator_ok t" by (simp add: t_def)
  define pc where "pc = closes_at bh (last_line_start (take rs body))"
  define b1 where "b1 = (pc \<or> 0 \<in> set (seam_opens fh))"
  define lc where "lc = (if fragment = [] then pc else closes_at fh (last_line_start fragment))"
  define b2 where "b2 = (lc \<or> re \<in> set (seam_opens bh))"
  define out1 where "out1 = (if fragment \<noteq> [] then push_seam (take rs body) b1 t @ fragment else take rs body)"
  define out2 where "out2 = (if drop re body \<noteq> [] then push_seam out1 b2 t @ drop re body else out1)"
  have out: "out = close_document out2 t"
    using assms(1) by (elim splice_parts)
      (simp add: bh fh Let_def t_def pc_def b1_def lc_def b2_def out1_def out2_def)
  obtain v1 where v1: "push_seam (take rs body) b1 t = take rs body @ v1" "line_end_bytes v1" "length v1 \<le> 4"
    using push_seam_append [OF t] by blast
  define w1 where "w1 = (if fragment \<noteq> [] then v1 else [])"
  have o1: "out1 = take rs body @ w1 @ fragment" by (simp add: out1_def w1_def v1)
  obtain v2 where v2: "push_seam out1 b2 t = out1 @ v2" "line_end_bytes v2" "length v2 \<le> 4"
    using push_seam_append [OF t] by blast
  define w2 where "w2 = (if drop re body \<noteq> [] then v2 else [])"
  have o2: "out2 = out1 @ w2 @ drop re body" by (simp add: out2_def w2_def v2)
  obtain w3 where w3: "close_document out2 t = out2 @ w3" "line_end_bytes w3" "length w3 \<le> 2"
    using close_document_append [OF t] by blast
  have seam1: "ends_with (take rs body @ w1) [newline] \<and> (b1 \<longrightarrow> ends_with_blank_line (take rs body @ w1))"
    if "fragment \<noteq> []" "take rs body \<noteq> []"
    using push_seam_ends [OF t that(2), of b1] that by (cases b1) (simp_all add: w1_def v1(1) [symmetric])
  have seam2: "ends_with (out1 @ w2) [newline] \<and> (b2 \<longrightarrow> ends_with_blank_line (out1 @ w2))"
    if "drop re body \<noteq> []" "take rs body @ fragment \<noteq> []"
  proof -
    have "out1 \<noteq> []" using that(2) by (auto simp: o1)
    from push_seam_ends [OF t this, of b2] that show ?thesis
      by (cases b2) (simp_all add: w2_def v2(1) [symmetric])
  qed
  have no_heading: "\<not> closes_at fh (last_line_start fragment)" if "fragment = []"
    using that by (simp add: closes_at_def last_line_start_def)
  show ?thesis
  proof (intro exI conjI)
    show "out = take rs body @ w1 @ fragment @ w2 @ drop re body @ w3"
      by (simp only: out w3(1)) (simp only: o2 o1 append_assoc)
    show "line_end_bytes w1" "line_end_bytes w2" "line_end_bytes w3"
      "length w1 \<le> 4" "length w2 \<le> 4" "length w3 \<le> 2"
      using v1 v2 w3 by (simp_all add: w1_def w2_def)
    show "fragment \<noteq> [] \<and> take rs body \<noteq> [] \<longrightarrow>
          ends_with (take rs body @ w1) [newline]
          \<and> (closes_at bh (last_line_start (take rs body)) \<or> 0 \<in> set (seam_opens fh) \<longrightarrow>
               ends_with_blank_line (take rs body @ w1))"
      using seam1 by (auto simp: b1_def pc_def)
    show "drop re body \<noteq> [] \<and> take rs body @ fragment \<noteq> [] \<longrightarrow>
          ends_with (take rs body @ w1 @ fragment @ w2) [newline]
          \<and> (re \<in> set (seam_opens bh)
              \<or> closes_at fh (last_line_start fragment)
              \<or> (fragment = [] \<and> closes_at bh (last_line_start (take rs body)))
              \<longrightarrow> ends_with_blank_line (take rs body @ w1 @ fragment @ w2))"
      using seam2 no_heading
      by (cases "fragment = []") (auto simp: b2_def lc_def pc_def o1)
  qed
qed

lemma splice_scans:
  "splice md body (rs, re) fragment = Inr out \<Longrightarrow> \<exists>bh fh. scan_seams md body = Inr bh \<and> scan_seams md fragment = Inr fh"
  by (elim splice_parts) blast

lemma splice_ends:
  "splice md body (rs, re) fragment = Inr out \<Longrightarrow> out = [] \<or> ends_with out [newline]"
  by (elim splice_parts) (simp add: Let_def close_document_ends)

lemma scan_seams_ok: "(\<exists>s. scan_seams md txt = Inr s) \<longleftrightarrow> (\<exists>secs. parse_sections md txt = Inr secs)"
  by (auto simp: scan_seams_def bind_res_eq_Inr)

lemma splice_ok_iff:
  "(\<exists>out. splice md body (rs, re) fragment = Inr out) \<longleftrightarrow>
     validate_range body (rs, re) = Inr ()
     \<and> (\<exists>secs. parse_sections md body = Inr secs) \<and> (\<exists>secs. parse_sections md fragment = Inr secs)"
  (is "?L \<longleftrightarrow> ?R")
proof
  assume ?L
  then show ?R by (metis splice_parts scan_seams_ok)
next
  assume ?R
  then obtain bh fh where "validate_range body (rs, re) = Inr ()"
    "scan_seams md body = Inr bh" "scan_seams md fragment = Inr fh"
    by (auto simp: scan_seams_ok [symmetric])
  then show ?L by (simp add: splice_def Let_def)
qed

section \<open>Properties\<close>

text \<open>
  C5. A splice keeps every byte outside the range and every byte of the fragment, in order:
  the result is the prefix, the fragment and the tail with nothing between them but line-end
  bytes, at most four at a seam and two at the end; and the result is empty or its last line
  is terminated.
\<close>

theorem splice_preserves_content:
  assumes "splice md body (rs, re) fragment = Inr out"
  shows "(\<exists>w1 w2 w3. out = take rs body @ w1 @ fragment @ w2 @ drop re body @ w3
       \<and> set w1 \<union> set w2 \<union> set w3 \<subseteq> {carriage_return, newline}
       \<and> length w1 \<le> 4 \<and> length w2 \<le> 4 \<and> length w3 \<le> 2)
     \<and> (out = [] \<or> last out = newline)"
proof
  from splice_scans [OF assms] obtain bh fh where "scan_seams md body = Inr bh" "scan_seams md fragment = Inr fh"
    by blast
  from splice_seam_bytes [OF assms this] obtain w1 w2 w3 where
    "out = take rs body @ w1 @ fragment @ w2 @ drop re body @ w3"
    "line_end_bytes w1" "line_end_bytes w2" "line_end_bytes w3"
    "length w1 \<le> 4" "length w2 \<le> 4" "length w3 \<le> 2" by blast
  then show "\<exists>w1 w2 w3. out = take rs body @ w1 @ fragment @ w2 @ drop re body @ w3
       \<and> set w1 \<union> set w2 \<union> set w3 \<subseteq> {carriage_return, newline}
       \<and> length w1 \<le> 4 \<and> length w2 \<le> 4 \<and> length w3 \<le> 2"
    unfolding line_end_bytes_def by (intro exI [of _ w1] exI [of _ w2] exI [of _ w3]) simp
  show "out = [] \<or> last out = newline"
    using splice_ends [OF assms] by (auto simp: ends_with_singleton)
qed

theorem splice_preserves_content_witness:
  "\<exists>out. splice ex_markdown ex_body (2, 2) ''y'' = Inr out
     \<and> (\<exists>w1 w2 w3. out = ''a'' @ [newline] @ w1 @ ''y'' @ w2 @ ''# T'' @ [newline] @ ''x'' @ w3)
     \<and> last out = newline"
proof -
  have "(case splice ex_markdown ex_body (2, 2) ''y'' of Inr out \<Rightarrow> out \<noteq> [] | Inl _ \<Rightarrow> False)" by code_simp
  then obtain out where out: "splice ex_markdown ex_body (2, 2) ''y'' = Inr out" "out \<noteq> []"
    by (auto split: sum.splits)
  have "take 2 ex_body = ''a'' @ [newline]" "drop 2 ex_body = ''# T'' @ [newline] @ ''x''"
    by (simp_all add: ex_body_def)
  with splice_preserves_content [OF out(1)] out show ?thesis by auto
qed

text \<open>
  Seam rules: a fragment never shares a line with the text before it, the tail never shares
  a line with the text before it, and wherever a top-level heading closes or opens at a seam
  the seam holds a blank line.
\<close>

theorem splice_seams:
  assumes "splice md body (rs, re) fragment = Inr out"
    and "scan_seams md body = Inr bh" and "scan_seams md fragment = Inr fh"
  shows "\<exists>pre mid post. out = pre @ mid @ post
     \<and> line_end_bytes (drop rs pre) \<and> take rs pre = take rs body
     \<and> (fragment = [] \<or> take rs body = [] \<or>
          ends_with pre [newline]
          \<and> (closes_at bh (last_line_start (take rs body)) \<or> 0 \<in> set (seam_opens fh) \<longrightarrow>
               ends_with_blank_line pre))
     \<and> (drop re body = [] \<or> take rs body @ fragment = [] \<or>
          ends_with (pre @ mid) [newline]
          \<and> (re \<in> set (seam_opens bh) \<or> closes_at fh (last_line_start fragment) \<longrightarrow>
               ends_with_blank_line (pre @ mid)))
     \<and> take (length fragment) mid = fragment \<and> take (length (drop re body)) post = drop re body"
proof -
  from splice_seam_bytes [OF assms] obtain w1 w2 w3 where w:
    "out = take rs body @ w1 @ fragment @ w2 @ drop re body @ w3" "line_end_bytes w1"
    "fragment \<noteq> [] \<and> take rs body \<noteq> [] \<longrightarrow> ends_with (take rs body @ w1) [newline]
      \<and> (closes_at bh (last_line_start (take rs body)) \<or> 0 \<in> set (seam_opens fh) \<longrightarrow>
           ends_with_blank_line (take rs body @ w1))"
    "drop re body \<noteq> [] \<and> take rs body @ fragment \<noteq> [] \<longrightarrow>
      ends_with (take rs body @ w1 @ fragment @ w2) [newline]
      \<and> (re \<in> set (seam_opens bh) \<or> closes_at fh (last_line_start fragment)
          \<or> (fragment = [] \<and> closes_at bh (last_line_start (take rs body)))
          \<longrightarrow> ends_with_blank_line (take rs body @ w1 @ fragment @ w2))"
    by blast
  have rs: "rs \<le> length body"
    using assms(1) by (elim splice_parts) (simp add: validate_range_ok)
  define pre where "pre = take rs body @ w1"
  define mid where "mid = fragment @ w2"
  define post where "post = drop re body @ w3"
  have "drop rs pre = w1" "take rs pre = take rs body" "take (length fragment) mid = fragment"
    "take (length (drop re body)) post = drop re body"
    using rs by (simp_all add: pre_def mid_def post_def)
  moreover have "out = pre @ mid @ post" "pre @ mid = take rs body @ w1 @ fragment @ w2"
    by (simp_all add: w(1) pre_def mid_def post_def)
  moreover note w(2) w(3,4) [folded pre_def]
  ultimately show ?thesis
    by (intro exI [of _ pre] exI [of _ mid] exI [of _ post]) (simp only:, blast)
qed

theorem splice_seams_witness:
  "\<exists>pre mid post. map_ok (\<lambda>_. ()) (splice ex_markdown ex_body (2, 2) ''y'') = Inr ()
     \<and> splice ex_markdown ex_body (2, 2) ''y'' = Inr (pre @ mid @ post)
     \<and> ends_with pre [newline] \<and> ends_with_blank_line (pre @ mid)"
proof -
  have eval: "(case (splice ex_markdown ex_body (2, 2) ''y'', scan_seams ex_markdown ex_body, scan_seams ex_markdown ''y'') of
      (Inr out, Inr bh, Inr fh) \<Rightarrow> 2 \<in> set (seam_opens bh) | _ \<Rightarrow> False)" by code_simp
  then obtain out bh fh where *: "splice ex_markdown ex_body (2, 2) ''y'' = Inr out"
    "scan_seams ex_markdown ex_body = Inr bh" "scan_seams ex_markdown ''y'' = Inr fh" "2 \<in> set (seam_opens bh)"
    by (auto split: sum.splits)
  have "take 2 ex_body \<noteq> []" "drop 2 ex_body \<noteq> []" by (simp_all add: ex_body_def)
  with splice_seams [OF *(1-3)] *(4) obtain pre mid post where
    "out = pre @ mid @ post" "ends_with pre [newline]" "ends_with_blank_line (pre @ mid)" by auto
  with *(1) show ?thesis by auto
qed

text \<open>
  A splice fails exactly when its range is reversed, past the end or inside a character, or
  when the body or the fragment does not parse into sections.
\<close>

theorem splice_succeeds_iff:
  "(\<exists>out. splice md body (rs, re) fragment = Inr out) \<longleftrightarrow>
     rs \<le> re \<and> re \<le> length body \<and> is_char_boundary body rs \<and> is_char_boundary body re
     \<and> (\<exists>secs. parse_sections md body = Inr secs) \<and> (\<exists>secs. parse_sections md fragment = Inr secs)"
  unfolding splice_ok_iff validate_range_ok by blast

end
