(* ===== verification/Section_Ops.thy ===== *)
theory Section_Ops
  imports Splice "HOL-Library.Multiset"
begin

text \<open>
  Section-level and line-level edits of a memory body (\<open>mmcp-store\<close>, \<open>memory_ops.rs\<close>):
  the ten operations, the batch that applies them, and the range arithmetic they share. Line
  arguments are \<open>u32\<close>, so 32-bit words, and a line count is truncated to \<open>u32\<close> as the code
  does; heading levels are only compared, so they are naturals.
\<close>

section \<open>Operations and errors\<close>

datatype edit_op =
    UpsertSection string nat string string
  | DeleteSection string
  | InsertSectionBefore string nat string string
  | InsertSectionAfter string nat string string
  | MoveSectionBefore string string
  | MoveSectionAfter string string
  | ReplaceSectionBody string string
  | InsertAtLine "32 word" string
  | ReplaceLines "32 word" "32 word" string
  | DeleteLines "32 word" "32 word"

datatype edit_error =
    SectionNotFound string
  | MoveWouldLoop string string
  | LevelOutOfRange nat
  | InvalidLineRange "32 word" "32 word" "32 word"
  | LinePastEof "32 word" "32 word"
  | EditParse body_parse_error
  | EditSplice splice_error
  | PreambleNotUpsertable
  | UpsertPathUnreachable string string
  | UpsertSectionNotSelfContained string

definition PREAMBLE_LEVEL :: nat where "PREAMBLE_LEVEL = 0"

section \<open>Helpers\<close>

definition require_level :: "nat \<Rightarrow> edit_error + unit" where
  "require_level level = (if 1 \<le> level \<and> level \<le> 6 then Inr () else Inl (LevelOutOfRange level))"

definition render_new_section :: "nat \<Rightarrow> string \<Rightarrow> string \<Rightarrow> string \<Rightarrow> string" where
  "render_new_section level heading section_body terminator =
     (let body = trim_matches newline section_body
      in replicate level CHR 0x23 @ '' '' @ trim heading
         @ (if body \<noteq> [] then terminator @ terminator @ body else []))"

definition byte_offset_of_line :: "string list \<Rightarrow> nat \<Rightarrow> nat" where
  "byte_offset_of_line ls line = sum_list (map length (take line ls))"

text \<open>The loop of \<open>subtree_end_idx\<close> from a given index on.\<close>

fun subtree_loop :: "nat \<Rightarrow> nat \<Rightarrow> sect list \<Rightarrow> nat" where
  "subtree_loop root_level off [] = off"
| "subtree_loop root_level off (s # ss) =
     (if s_container_depth s > 0 then subtree_loop root_level (off + 1) ss
      else if s_level s \<le> root_level then off
      else subtree_loop root_level (off + 1) ss)"

definition subtree_end_idx :: "sect list \<Rightarrow> nat \<Rightarrow> nat" where
  "subtree_end_idx secs idx =
     (let root = secs ! idx in
      if s_level root = PREAMBLE_LEVEL \<or> s_container_depth root > 0 then min (idx + 1) (length secs)
      else subtree_loop (s_level root) (idx + 1) (drop (idx + 1) secs))"

definition section_byte_range :: "string \<Rightarrow> sect list \<Rightarrow> nat \<Rightarrow> nat \<times> nat" where
  "section_byte_range body secs idx =
     (let ls = split_inclusive newline body;
          end_idx = subtree_end_idx secs idx;
          end_line = (if end_idx < length secs then s_line_start (secs ! end_idx) else length ls)
      in (byte_offset_of_line ls (s_line_start (secs ! idx)), byte_offset_of_line ls end_line))"

definition drop_one_trailing_blank_line :: "string \<Rightarrow> string" where
  "drop_one_trailing_blank_line txt =
     (case strip_suffix txt [newline] of
        None \<Rightarrow> txt
      | Some head \<Rightarrow>
          (let head1 = (case strip_suffix head [carriage_return] of Some h \<Rightarrow> h | None \<Rightarrow> head) in
           if \<not> (head1 = [] \<or> ends_with head1 [newline]) then txt
           else let n = (if ends_with txt [carriage_return, newline] then 2 else 1)
                in take (length txt - n) txt))"

definition find_section :: "sect list \<Rightarrow> string \<Rightarrow> edit_error + nat" where
  "find_section secs path = ok_or (SectionNotFound path) (position (\<lambda>s. s_path s = path) secs)"

section \<open>Section operations\<close>

text \<open>The check of the rewritten body that closes \<open>upsert_section\<close>.\<close>

definition upsert_verify ::
  "markdown \<Rightarrow> string \<Rightarrow> string \<Rightarrow> string \<Rightarrow> nat \<Rightarrow> edit_error + string" where
  "upsert_verify md path rendered spliced written_idx =
     bind_res (map_err EditParse (parse_sections md spliced)) (\<lambda>sections_after.
       case get_opt sections_after written_idx of
         None \<Rightarrow> Inl (UpsertSectionNotSelfContained path)
       | Some written \<Rightarrow>
           if s_path written \<noteq> path then Inl (UpsertPathUnreachable path (s_path written))
           else
             (let subtree_end = subtree_end_idx sections_after written_idx;
                  total_lines = length (split_inclusive newline spliced);
                  span_end = (case get_opt sections_after subtree_end of
                                Some s \<Rightarrow> s_line_start s | None \<Rightarrow> total_lines);
                  rendered_lines = count_list rendered newline + 1
              in if span_end - s_line_start written < rendered_lines
                 then Inl (UpsertSectionNotSelfContained path)
                 else Inr spliced))"

definition upsert_section ::
  "markdown \<Rightarrow> string \<Rightarrow> string \<Rightarrow> nat \<Rightarrow> string \<Rightarrow> string \<Rightarrow> edit_error + string" where
  "upsert_section md body path level heading section_body =
     bind_res (require_level level) (\<lambda>_.
     if path = PREAMBLE_PATH then Inl PreambleNotUpsertable
     else
       let rendered = render_new_section level heading section_body (line_terminator body) in
       bind_res (map_err EditParse (parse_sections md body)) (\<lambda>secs.
       bind_res
         (case position (\<lambda>s. s_path s = path) secs of
            Some idx \<Rightarrow>
              map_ok (\<lambda>spliced. (spliced, idx))
                (map_err EditSplice (splice md body (section_byte_range body secs idx) rendered))
          | None \<Rightarrow>
              map_ok (\<lambda>spliced. (spliced, length secs))
                (map_err EditSplice (splice md body (length body, length body) rendered)))
         (\<lambda>(spliced, written_idx). upsert_verify md path rendered spliced written_idx)))"

definition delete_section :: "markdown \<Rightarrow> string \<Rightarrow> string \<Rightarrow> edit_error + string" where
  "delete_section md body path =
     bind_res (map_err EditParse (parse_sections md body)) (\<lambda>secs.
     bind_res (find_section secs path) (\<lambda>idx.
       map_err EditSplice (splice md body (section_byte_range body secs idx) [])))"

definition insert_relative ::
  "markdown \<Rightarrow> string \<Rightarrow> string \<Rightarrow> nat \<Rightarrow> string \<Rightarrow> string \<Rightarrow> bool \<Rightarrow> edit_error + string" where
  "insert_relative md body anchor_path level heading section_body before =
     bind_res (require_level level) (\<lambda>_.
     bind_res (map_err EditParse (parse_sections md body)) (\<lambda>secs.
     bind_res (find_section secs anchor_path) (\<lambda>idx.
       let rendered = render_new_section level heading section_body (line_terminator body);
           anchor = section_byte_range body secs idx;
           point = (if before then fst anchor else snd anchor)
       in map_err EditSplice (splice md body (point, point) rendered))))"

text \<open>The second half of \<open>move_section\<close>: the body without the target is parsed again.\<close>

definition reinsert_section ::
  "markdown \<Rightarrow> string \<Rightarrow> string \<Rightarrow> bool \<Rightarrow> string \<Rightarrow> edit_error + string" where
  "reinsert_section md without_target anchor_path before extracted =
     bind_res (map_err EditParse (parse_sections md without_target)) (\<lambda>new_sections.
     bind_res (find_section new_sections anchor_path) (\<lambda>anchor_idx.
       let anchor = section_byte_range without_target new_sections anchor_idx;
           point = (if before then fst anchor else snd anchor)
       in map_err EditSplice (splice md without_target (point, point) extracted)))"

definition move_section ::
  "markdown \<Rightarrow> string \<Rightarrow> string \<Rightarrow> string \<Rightarrow> bool \<Rightarrow> edit_error + string" where
  "move_section md body target_path anchor_path before =
     (if target_path = anchor_path then Inl (MoveWouldLoop target_path anchor_path)
      else
        bind_res (map_err EditParse (parse_sections md body)) (\<lambda>secs.
        bind_res (find_section secs target_path) (\<lambda>target_idx.
        bind_res (find_section secs anchor_path) (\<lambda>anchor_idx.
        if anchor_idx > target_idx \<and> anchor_idx < subtree_end_idx secs target_idx
        then Inl (MoveWouldLoop target_path anchor_path)
        else
          let target = section_byte_range body secs target_idx;
              extracted = take (snd target - fst target) (drop (fst target) body);
              removal_reached_eof = (snd target = length body)
          in
          bind_res (map_err EditSplice (splice md body target [])) (\<lambda>without.
          let without_target = (if removal_reached_eof then drop_one_trailing_blank_line without else without) in
          reinsert_section md without_target anchor_path before extracted)))))"

definition replace_section_body :: "markdown \<Rightarrow> string \<Rightarrow> string \<Rightarrow> string \<Rightarrow> edit_error + string" where
  "replace_section_body md body path new_section_body =
     bind_res (map_err EditParse (parse_sections md body)) (\<lambda>secs.
     bind_res (find_section secs path) (\<lambda>idx.
       let s = secs ! idx;
           ls = split_inclusive newline body;
           subtree_end = subtree_end_idx secs idx;
           subtree_end_line = (case get_opt secs subtree_end of
                                 Some next_sec \<Rightarrow> s_line_start next_sec | None \<Rightarrow> length ls);
           own_body_end =
             (case find (\<lambda>child. s_container_depth child = 0 \<and> s_level child > s_level s)
                     (take (subtree_end - (idx + 1)) (drop (idx + 1) secs)) of
                Some child \<Rightarrow> s_line_start child | None \<Rightarrow> subtree_end_line)
       in map_err EditSplice
            (splice md body
               (byte_offset_of_line ls (s_heading_line_end s), byte_offset_of_line ls own_body_end)
               (trim_matches newline new_section_body))))"

section \<open>Line operations\<close>

definition u32_line_count :: "string list \<Rightarrow> 32 word" where
  "u32_line_count ls = of_nat (length ls)"

definition insert_at_line :: "markdown \<Rightarrow> string \<Rightarrow> 32 word \<Rightarrow> string \<Rightarrow> edit_error + string" where
  "insert_at_line md body line content =
     (let ls = split_inclusive newline body; line_count = u32_line_count ls in
      if line > line_count then Inl (LinePastEof line line_count)
      else let point = byte_offset_of_line ls (unat line)
           in map_err EditSplice (splice md body (point, point) content))"

definition replace_lines ::
  "markdown \<Rightarrow> string \<Rightarrow> 32 word \<Rightarrow> 32 word \<Rightarrow> string \<Rightarrow> edit_error + string" where
  "replace_lines md body start end_line content =
     (let ls = split_inclusive newline body; line_count = u32_line_count ls in
      if end_line < start \<or> end_line > line_count then Inl (InvalidLineRange start end_line line_count)
      else map_err EditSplice
             (splice md body
                (byte_offset_of_line ls (unat start), byte_offset_of_line ls (unat end_line)) content))"

section \<open>The batch\<close>

definition apply_one :: "markdown \<Rightarrow> string \<Rightarrow> edit_op \<Rightarrow> edit_error + string" where
  "apply_one md body op =
     (case op of
        UpsertSection path level heading section_body \<Rightarrow> upsert_section md body path level heading section_body
      | DeleteSection path \<Rightarrow> delete_section md body path
      | InsertSectionBefore anchor level heading section_body \<Rightarrow>
          insert_relative md body anchor level heading section_body True
      | InsertSectionAfter anchor level heading section_body \<Rightarrow>
          insert_relative md body anchor level heading section_body False
      | MoveSectionBefore target anchor \<Rightarrow> move_section md body target anchor True
      | MoveSectionAfter target anchor \<Rightarrow> move_section md body target anchor False
      | ReplaceSectionBody path new \<Rightarrow> replace_section_body md body path new
      | InsertAtLine line content \<Rightarrow> insert_at_line md body line content
      | ReplaceLines start end_line content \<Rightarrow> replace_lines md body start end_line content
      | DeleteLines start end_line \<Rightarrow> replace_lines md body start end_line [])"

fun apply_ops :: "markdown \<Rightarrow> string \<Rightarrow> edit_op list \<Rightarrow> edit_error + string" where
  "apply_ops md current [] = Inr current"
| "apply_ops md current (op # ops) = bind_res (apply_one md current op) (\<lambda>next. apply_ops md next ops)"

section \<open>Range arithmetic\<close>

lemma byte_offset_concat: "byte_offset_of_line ls k = length (concat (take k ls))"
  by (simp add: byte_offset_of_line_def length_concat)

lemma byte_offset_mono: "j \<le> k \<Longrightarrow> byte_offset_of_line ls j \<le> byte_offset_of_line ls k"
proof -
  assume "j \<le> k"
  then have "take k ls = take j ls @ take (k - j) (drop j ls)"
    by (metis le_add_diff_inverse take_add)
  then show ?thesis by (simp add: byte_offset_of_line_def)
qed

lemma byte_offset_le: "byte_offset_of_line (split_inclusive c body) k \<le> length body"
proof -
  have "body = concat (take k (split_inclusive c body)) @ concat (drop k (split_inclusive c body))"
    by (metis append_take_drop_id concat_append concat_split_inclusive)
  then show ?thesis unfolding byte_offset_concat by (metis length_append le_add1)
qed

lemma byte_offset_boundary:
  assumes "str_wf body"
  shows "is_char_boundary body (byte_offset_of_line (split_inclusive newline body) k)"
proof -
  let ?ls = "split_inclusive newline body"
  let ?p = "concat (take k ?ls)"
  have body: "body = ?p @ concat (drop k ?ls)"
    by (metis append_take_drop_id concat_append concat_split_inclusive)
  show ?thesis
  proof (cases "k < length ?ls")
    case False
    then have "byte_offset_of_line ?ls k = length body" by (simp add: byte_offset_concat)
    then show ?thesis by (simp add: is_char_boundary_def)
  next
    case True
    have "?p = [] \<or> last ?p = newline" by (rule split_inclusive_prefix [OF True])
    then have "length ?p = 0 \<or> body ! (length ?p - 1) = newline"
      by (metis body last_conv_nth length_0_conv nth_append diff_less length_greater_0_conv zero_less_one)
    moreover have "length ?p \<le> length body" using body by (metis le_add1 length_append)
    ultimately show ?thesis unfolding byte_offset_concat using boundary_after_newline [OF assms] by blast
  qed
qed

lemma byte_offset_range:
  assumes "str_wf body" "j \<le> k"
  shows "validate_range body (byte_offset_of_line (split_inclusive newline body) j,
           byte_offset_of_line (split_inclusive newline body) k) = Inr ()"
  using assms by (simp add: validate_range_ok byte_offset_mono byte_offset_le byte_offset_boundary)

lemma byte_offset_full: "byte_offset_of_line (split_inclusive c body) (length (split_inclusive c body)) = length body"
  by (simp add: byte_offset_concat)

section \<open>Subtrees\<close>

definition outline :: "sect \<Rightarrow> bool" where
  "outline s \<longleftrightarrow> s_level s \<noteq> PREAMBLE_LEVEL \<and> s_container_depth s = 0"

lemma subtree_loop_position:
  "subtree_loop r off ss =
     off + (case position (\<lambda>s. s_container_depth s = 0 \<and> s_level s \<le> r) ss of
              Some k \<Rightarrow> k | None \<Rightarrow> length ss)"
  by (induction ss arbitrary: off) (auto split: option.splits)

lemma subtree_end_cases:
  assumes "idx < length secs"
  shows "idx < subtree_end_idx secs idx" "subtree_end_idx secs idx \<le> length secs"
    and "outline (secs ! idx) \<Longrightarrow>
      (\<forall>j. idx < j \<and> j < subtree_end_idx secs idx \<longrightarrow>
         s_container_depth (secs ! j) > 0 \<or> s_level (secs ! j) > s_level (secs ! idx))
      \<and> (subtree_end_idx secs idx < length secs \<longrightarrow>
          s_container_depth (secs ! subtree_end_idx secs idx) = 0
          \<and> s_level (secs ! subtree_end_idx secs idx) \<le> s_level (secs ! idx))"
proof -
  let ?P = "\<lambda>s. s_container_depth s = 0 \<and> s_level s \<le> s_level (secs ! idx)"
  let ?ss = "drop (Suc idx) secs"
  have len: "Suc idx + length ?ss = length secs" using assms by simp
  consider (leaf) "\<not> outline (secs ! idx)" "subtree_end_idx secs idx = Suc idx"
    | (tree) "outline (secs ! idx)" "subtree_end_idx secs idx = Suc idx +
        (case position ?P ?ss of Some k \<Rightarrow> k | None \<Rightarrow> length ?ss)"
    using assms by (auto simp: subtree_end_idx_def outline_def Let_def subtree_loop_position)
  then have all: "idx < subtree_end_idx secs idx \<and> subtree_end_idx secs idx \<le> length secs
    \<and> (outline (secs ! idx) \<longrightarrow>
      (\<forall>j. idx < j \<and> j < subtree_end_idx secs idx \<longrightarrow> \<not> ?P (secs ! j))
      \<and> (subtree_end_idx secs idx < length secs \<longrightarrow> ?P (secs ! subtree_end_idx secs idx)))"
  proof cases
    case leaf
    with assms show ?thesis by simp
  next
    case tree
    show ?thesis
    proof (cases "position ?P ?ss")
      case None
      have "\<not> ?P (secs ! j)" if "idx < j" "j < length secs" for j
      proof -
        have "secs ! j = ?ss ! (j - Suc idx)" "j - Suc idx < length ?ss" using that by simp_all
        then have "secs ! j \<in> set ?ss" by (metis nth_mem)
        with None show ?thesis unfolding position_None by blast
      qed
      moreover have "subtree_end_idx secs idx = length secs"
        using tree(2) len unfolding None option.case(1) by (simp only:)
      ultimately show ?thesis using assms by simp
    next
      case (Some k)
      from position_Some [OF this] have k: "k < length ?ss" "?P (?ss ! k)" "\<forall>j<k. \<not> ?P (?ss ! j)" by auto
      have "\<not> ?P (secs ! j)" if "idx < j" "j < Suc idx + k" for j
      proof -
        have "secs ! j = ?ss ! (j - Suc idx)" "j - Suc idx < k" using that k(1) by auto
        with k(3) show ?thesis by metis
      qed
      with Some tree k show ?thesis by simp
    qed
  qed
  then show "idx < subtree_end_idx secs idx" "subtree_end_idx secs idx \<le> length secs" by auto
  from all show "outline (secs ! idx) \<Longrightarrow>
      (\<forall>j. idx < j \<and> j < subtree_end_idx secs idx \<longrightarrow>
         s_container_depth (secs ! j) > 0 \<or> s_level (secs ! j) > s_level (secs ! idx))
      \<and> (subtree_end_idx secs idx < length secs \<longrightarrow>
          s_container_depth (secs ! subtree_end_idx secs idx) = 0
          \<and> s_level (secs ! subtree_end_idx secs idx) \<le> s_level (secs ! idx))"
    by (metis not_less neq0_conv)
qed

section \<open>Ranges are valid\<close>

lemma in_order_nth:
  "\<lbrakk> sections_in_order secs; i < j; j < length secs \<rbrakk> \<Longrightarrow>
   s_heading_line_end (secs ! i) \<le> s_line_start (secs ! j) \<and> s_line_start (secs ! i) \<le> s_line_start (secs ! j)"
  by (auto simp: sections_in_order_def sorted_wrt_iff_nth_less)

lemma offset_range_ok:
  assumes "str_wf body" "j \<le> k \<or> length (split_inclusive newline body) \<le> k"
  shows "validate_range body (byte_offset_of_line (split_inclusive newline body) j,
           byte_offset_of_line (split_inclusive newline body) k) = Inr ()"
proof -
  have "byte_offset_of_line (split_inclusive newline body) j \<le> byte_offset_of_line (split_inclusive newline body) k"
    using assms(2)
  proof
    assume "length (split_inclusive newline body) \<le> k"
    then have "byte_offset_of_line (split_inclusive newline body) k = length body"
      by (simp add: byte_offset_concat)
    then show ?thesis by (simp add: byte_offset_le)
  qed (rule byte_offset_mono)
  with assms(1) show ?thesis by (simp add: validate_range_ok byte_offset_le byte_offset_boundary)
qed

lemma section_range_ok:
  assumes "str_wf body" "sections_in_order secs" "idx < length secs"
  shows "validate_range body (section_byte_range body secs idx) = Inr ()"
proof -
  let ?e = "subtree_end_idx secs idx"
  have "?e < length secs \<Longrightarrow> s_line_start (secs ! idx) \<le> s_line_start (secs ! ?e)"
    using in_order_nth [OF assms(2) subtree_end_cases(1) [OF assms(3)]] by blast
  then show ?thesis
    unfolding section_byte_range_def Let_def by (intro offset_range_ok [OF assms(1)]) auto
qed

lemma section_range_boundary:
  assumes "str_wf body"
  shows "is_char_boundary body (fst (section_byte_range body secs idx))"
    "is_char_boundary body (snd (section_byte_range body secs idx))"
    "fst (section_byte_range body secs idx) \<le> length body"
    "snd (section_byte_range body secs idx) \<le> length body"
  unfolding section_byte_range_def Let_def
  by (simp_all add: byte_offset_boundary [OF assms] byte_offset_le)

lemma splice_never_fails:
  assumes "markdown_contract md" "validate_range body rng = Inr ()"
  shows "\<exists>out. splice md body rng fragment = Inr out"
  using assms parse_in_order [OF assms(1)] by (cases rng) (simp only: splice_ok_iff, blast)

definition internal_error :: "edit_error + 'a \<Rightarrow> bool" where
  "internal_error r \<longleftrightarrow> (\<exists>e. r = Inl (EditParse e)) \<or> (\<exists>e. r = Inl (EditSplice e))"

lemma internal_error_simps [simp]:
  "\<not> internal_error (Inr x)" "\<not> internal_error (Inl (SectionNotFound p))"
  "\<not> internal_error (Inl (MoveWouldLoop p q))" "\<not> internal_error (Inl (LevelOutOfRange l))"
  "\<not> internal_error (Inl (InvalidLineRange a b c))" "\<not> internal_error (Inl (LinePastEof a b))"
  "\<not> internal_error (Inl PreambleNotUpsertable)" "\<not> internal_error (Inl (UpsertPathUnreachable p q))"
  "\<not> internal_error (Inl (UpsertSectionNotSelfContained p))"
  by (simp_all add: internal_error_def)

lemma internal_error_bind:
  "\<lbrakk> \<not> internal_error r; \<And>a. r = Inr a \<Longrightarrow> \<not> internal_error (f a) \<rbrakk> \<Longrightarrow> \<not> internal_error (bind_res r f)"
  by (cases r) (auto simp: internal_error_def)

lemma find_section_cases:
  obtains "find_section secs path = Inl (SectionNotFound path)" "\<forall>s\<in>set secs. s_path s \<noteq> path"
  | idx where "find_section secs path = Inr idx" "idx < length secs" "s_path (secs ! idx) = path"
    "\<forall>j<idx. s_path (secs ! j) \<noteq> path"
proof (cases "position (\<lambda>s. s_path s = path) secs")
  case None
  with that(1) show ?thesis by (simp add: find_section_def position_None)
next
  case (Some idx)
  with that(2) position_Some [OF Some] show ?thesis by (simp add: find_section_def)
qed

lemma find_SomeD: "find p xs = Some x \<Longrightarrow> x \<in> set xs \<and> p x"
  by (metis find_Some_iff nth_mem)

lemma parse_no_error:
  assumes "markdown_contract md"
  obtains secs where "map_err EditParse (parse_sections md body) = Inr secs"
    "parse_sections md body = Inr secs" "sections_in_order secs"
  using parse_in_order [OF assms, of body] by (auto simp: map_err_def)

lemma splice_no_error:
  "\<lbrakk> markdown_contract md; validate_range body rng = Inr () \<rbrakk> \<Longrightarrow>
   \<not> internal_error (map_err EditSplice (splice md body rng fragment))"
  using splice_never_fails [of md body rng fragment] by auto

lemma find_no_error: "\<not> internal_error (find_section secs path)"
  by (rule find_section_cases [of secs path]) auto

lemma find_section_less: "find_section secs path = Inr idx \<Longrightarrow> idx < length secs"
  by (rule find_section_cases [of secs path]) auto

lemma point_range_ok:
  "\<lbrakk> is_char_boundary body p; p \<le> length body \<rbrakk> \<Longrightarrow> validate_range body (p, p) = Inr ()"
  by (simp add: validate_range_ok)

lemma anchor_range_ok:
  assumes "str_wf body"
  shows "validate_range body
    (if before then fst (section_byte_range body secs idx) else snd (section_byte_range body secs idx),
     if before then fst (section_byte_range body secs idx) else snd (section_byte_range body secs idx)) = Inr ()"
  by (cases before) (simp_all add: point_range_ok section_range_boundary [OF assms])

lemma upsert_verify_no_error:
  assumes md: "markdown_contract md"
  shows "\<not> internal_error (upsert_verify md path rendered spliced i)"
proof -
  obtain secs where "map_err EditParse (parse_sections md spliced) = Inr secs"
    by (rule parse_no_error [OF md, of spliced]) auto
  then show ?thesis by (simp add: upsert_verify_def Let_def split: option.split)
qed

lemma upsert_no_error:
  assumes md: "markdown_contract md" and wf: "str_wf body"
  shows "\<not> internal_error (upsert_section md body path level heading section_body)"
proof -
  obtain secs where secs: "map_err EditParse (parse_sections md body) = Inr secs" "sections_in_order secs"
    by (rule parse_no_error [OF md, of body]) auto
  define rendered where "rendered = render_new_section level heading section_body (line_terminator body)"
  have sp: "\<exists>spliced i. (case position (\<lambda>s. s_path s = path) secs of
            Some idx \<Rightarrow> map_ok (\<lambda>spliced. (spliced, idx))
                (map_err EditSplice (splice md body (section_byte_range body secs idx) rendered))
          | None \<Rightarrow> map_ok (\<lambda>spliced. (spliced, length secs))
                (map_err EditSplice (splice md body (length body, length body) rendered))) = Inr (spliced, i)"
  proof (cases "position (\<lambda>s. s_path s = path) secs")
    case None
    have "validate_range body (length body, length body) = Inr ()"
      by (rule point_range_ok) (simp_all add: is_char_boundary_def)
    from splice_never_fails [OF md this, of rendered] None show ?thesis by auto
  next
    case (Some idx)
    from splice_never_fails [OF md section_range_ok [OF wf secs(2) position_less [OF Some]], of rendered] Some
    show ?thesis by auto
  qed
  have "\<not> internal_error (require_level level)" by (simp add: require_level_def)
  then show ?thesis
    unfolding upsert_section_def rendered_def [symmetric] Let_def secs(1) bind_res_Inr
    using sp by (elim internal_error_bind) (auto simp: upsert_verify_no_error [OF md])
qed

lemma delete_no_error:
  assumes md: "markdown_contract md" and wf: "str_wf body"
  shows "\<not> internal_error (delete_section md body path)"
proof -
  obtain secs where secs: "map_err EditParse (parse_sections md body) = Inr secs" "sections_in_order secs"
    by (rule parse_no_error [OF md, of body]) auto
  show ?thesis unfolding delete_section_def secs(1) bind_res_Inr
    by (rule internal_error_bind [OF find_no_error])
      (intro splice_no_error [OF md] section_range_ok [OF wf secs(2)] find_section_less)
qed

lemma insert_no_error:
  assumes md: "markdown_contract md" and wf: "str_wf body"
  shows "\<not> internal_error (insert_relative md body anchor level heading section_body before)"
proof -
  obtain secs where secs: "map_err EditParse (parse_sections md body) = Inr secs" "sections_in_order secs"
    by (rule parse_no_error [OF md, of body]) auto
  have "\<not> internal_error (require_level level)" by (simp add: require_level_def)
  then show ?thesis unfolding insert_relative_def secs(1) bind_res_Inr Let_def
    by (elim internal_error_bind) (rule internal_error_bind [OF find_no_error],
      rule splice_no_error [OF md anchor_range_ok [OF wf]])
qed

lemma replace_lines_no_error:
  assumes md: "markdown_contract md" and wf: "str_wf body"
  shows "\<not> internal_error (replace_lines md body start end_line content)"
proof (cases "end_line < start")
  case False
  then have "unat start \<le> unat end_line" by (simp add: word_le_nat_alt not_less)
  then have "validate_range body
     (byte_offset_of_line (split_inclusive newline body) (unat start),
      byte_offset_of_line (split_inclusive newline body) (unat end_line)) = Inr ()"
    by (intro offset_range_ok [OF wf]) simp
  then show ?thesis
    unfolding replace_lines_def Let_def by (simp add: splice_no_error [OF md])
qed (simp add: replace_lines_def)

lemma insert_at_line_no_error:
  assumes md: "markdown_contract md" and wf: "str_wf body"
  shows "\<not> internal_error (insert_at_line md body line content)"
  unfolding insert_at_line_def Let_def
  by (auto intro!: splice_no_error [OF md] point_range_ok byte_offset_boundary [OF wf] byte_offset_le)

lemma replace_body_no_error:
  assumes md: "markdown_contract md" and wf: "str_wf body"
  shows "\<not> internal_error (replace_section_body md body path new)"
proof -
  obtain secs where secs: "map_err EditParse (parse_sections md body) = Inr secs" "sections_in_order secs"
    by (rule parse_no_error [OF md, of body]) auto
  let ?ls = "split_inclusive newline body"
  show ?thesis unfolding replace_section_body_def secs(1) bind_res_Inr Let_def
  proof (rule internal_error_bind [OF find_no_error], rule splice_no_error [OF md], rule offset_range_ok [OF wf])
    fix idx
    assume "find_section secs path = Inr idx"
    then have idx: "idx < length secs" by (rule find_section_less)
    let ?e = "subtree_end_idx secs idx"
    let ?subtree = "take (?e - (idx + 1)) (drop (idx + 1) secs)"
    have later: "s_heading_line_end (secs ! idx) \<le> s_line_start c" if "c \<in> set ?subtree" for c
    proof -
      from that have "c \<in> set (drop (idx + 1) secs)" by (rule in_set_takeD)
      then obtain j where "j < length (drop (idx + 1) secs)" "drop (idx + 1) secs ! j = c"
        by (meson in_set_conv_nth)
      then have "c = secs ! (idx + 1 + j)" "idx + 1 + j < length secs" by auto
      with in_order_nth [OF secs(2), of idx "idx + 1 + j"] show ?thesis by simp
    qed
    have "(case get_opt secs ?e of Some next_sec \<Rightarrow> s_line_start next_sec | None \<Rightarrow> length ?ls)
        \<ge> s_heading_line_end (secs ! idx)
      \<or> length ?ls \<le> (case get_opt secs ?e of Some next_sec \<Rightarrow> s_line_start next_sec | None \<Rightarrow> length ?ls)"
      using in_order_nth [OF secs(2) subtree_end_cases(1) [OF idx]]
      by (cases "?e < length secs") auto
    with later show "s_heading_line_end (secs ! idx) \<le>
        (case find (\<lambda>child. s_container_depth child = 0 \<and> s_level (secs ! idx) < s_level child) ?subtree of
           None \<Rightarrow> (case get_opt secs ?e of None \<Rightarrow> length ?ls | Some next_sec \<Rightarrow> s_line_start next_sec)
         | Some child \<Rightarrow> s_line_start child)
      \<or> length ?ls \<le>
        (case find (\<lambda>child. s_container_depth child = 0 \<and> s_level (secs ! idx) < s_level child) ?subtree of
           None \<Rightarrow> (case get_opt secs ?e of None \<Rightarrow> length ?ls | Some next_sec \<Rightarrow> s_line_start next_sec)
         | Some child \<Rightarrow> s_line_start child)"
      by (cases "find (\<lambda>child. s_container_depth child = 0 \<and> s_level (secs ! idx) < s_level child) ?subtree")
        (auto dest: find_SomeD)
  qed
qed

section \<open>Edits keep the text well formed\<close>

lemma line_end_bytes_wf: "line_end_bytes w \<Longrightarrow> str_wf w"
  by (rule str_wf_ascii) (auto simp: line_end_bytes_def byte_def)

lemma splice_content:
  assumes "splice md body rng fragment = Inr out"
  obtains w1 w2 w3 where "out = take (fst rng) body @ w1 @ fragment @ w2 @ drop (snd rng) body @ w3"
    "line_end_bytes w1" "line_end_bytes w2" "line_end_bytes w3"
    "fst rng \<le> snd rng" "snd rng \<le> length body"
    "is_char_boundary body (fst rng)" "is_char_boundary body (snd rng)"
proof -
  obtain rs re where rng: "rng = (rs, re)" by (cases rng)
  from assms rng have sp: "splice md body (rs, re) fragment = Inr out" by simp
  from splice_scans [OF sp] obtain bh fh where h: "scan_seams md body = Inr bh" "scan_seams md fragment = Inr fh"
    by blast
  have "validate_range body (rs, re) = Inr ()" using sp by (elim splice_parts)
  with splice_seam_bytes [OF sp h] that show thesis by (auto simp: rng validate_range_ok)
qed

lemma splice_wf:
  assumes "splice md body rng fragment = Inr out" "str_wf body" "str_wf fragment"
  shows "str_wf out"
proof -
  from splice_content [OF assms(1)] obtain w1 w2 w3 where
    out: "out = take (fst rng) body @ w1 @ fragment @ w2 @ drop (snd rng) body @ w3"
    and w: "line_end_bytes w1" "line_end_bytes w2" "line_end_bytes w3"
    and re: "is_char_boundary body (snd rng)" by metis
  from w have "str_wf w1" "str_wf w2" "str_wf w3" by (simp_all add: line_end_bytes_wf)
  with assms(2,3) re show ?thesis
    unfolding out by (simp only: str_wf_append str_wf_take str_wf_drop)
qed

lemma drop_blank_wf: "str_wf t \<Longrightarrow> str_wf (drop_one_trailing_blank_line t)"
  by (auto simp: drop_one_trailing_blank_line_def Let_def str_wf_take split: option.split)

lemma reinsert_no_error:
  assumes md: "markdown_contract md" and wf: "str_wf t"
  shows "\<not> internal_error (reinsert_section md t anchor before extracted)"
proof -
  obtain secs where secs: "map_err EditParse (parse_sections md t) = Inr secs"
    by (rule parse_no_error [OF md, of t]) auto
  show ?thesis unfolding reinsert_section_def secs bind_res_Inr Let_def
    by (rule internal_error_bind [OF find_no_error], rule splice_no_error [OF md anchor_range_ok [OF wf]])
qed

lemma move_no_error:
  assumes md: "markdown_contract md" and wf: "str_wf body"
  shows "\<not> internal_error (move_section md body target anchor before)"
proof -
  obtain secs where secs: "map_err EditParse (parse_sections md body) = Inr secs" "sections_in_order secs"
    by (rule parse_no_error [OF md, of body]) auto
  have tail: "\<not> internal_error
      (bind_res (map_err EditSplice (splice md body (section_byte_range body secs i) [])) (\<lambda>without.
         reinsert_section md (if c then drop_one_trailing_blank_line without else without) anchor before x))"
    if "i < length secs" for i c x
  proof (rule internal_error_bind)
    show "\<not> internal_error (map_err EditSplice (splice md body (section_byte_range body secs i) []))"
      by (rule splice_no_error [OF md section_range_ok [OF wf secs(2) that]])
    show "\<not> internal_error
        (reinsert_section md (if c then drop_one_trailing_blank_line a else a) anchor before x)"
      if "map_err EditSplice (splice md body (section_byte_range body secs i) []) = Inr a" for a
    proof -
      have "str_wf a" using that splice_wf [OF _ wf str_wf_Nil] by simp
      then show ?thesis by (cases c) (simp_all add: reinsert_no_error [OF md] drop_blank_wf)
    qed
  qed
  show ?thesis
  proof (cases "target = anchor")
    case False
    show ?thesis
      unfolding move_section_def secs(1) bind_res_Inr Let_def if_not_P [OF False]
    proof (intro internal_error_bind find_no_error)
      fix i j
      assume "find_section secs target = Inr i"
      then have "i < length secs" by (rule find_section_less)
      from tail [OF this] show "\<not> internal_error
        (if j > i \<and> j < subtree_end_idx secs i then Inl (MoveWouldLoop target anchor)
         else bind_res (map_err EditSplice (splice md body (section_byte_range body secs i) [])) (\<lambda>without.
           reinsert_section md
             (if snd (section_byte_range body secs i) = length body
              then drop_one_trailing_blank_line without else without) anchor before
             (take (snd (section_byte_range body secs i) - fst (section_byte_range body secs i))
               (drop (fst (section_byte_range body secs i)) body))))"
        by simp
    qed
  qed (simp add: move_section_def)
qed

lemma apply_one_no_error:
  "\<lbrakk> markdown_contract md; str_wf body \<rbrakk> \<Longrightarrow> \<not> internal_error (apply_one md body op)"
  by (cases op) (simp_all add: apply_one_def upsert_no_error delete_no_error insert_no_error
    move_no_error replace_body_no_error insert_at_line_no_error replace_lines_no_error)

text \<open>An operation whose text arguments are well formed.\<close>

definition op_wf :: "edit_op \<Rightarrow> bool" where
  "op_wf op =
     (case op of
        UpsertSection p l h b \<Rightarrow> str_wf h \<and> str_wf b
      | InsertSectionBefore p l h b \<Rightarrow> str_wf h \<and> str_wf b
      | InsertSectionAfter p l h b \<Rightarrow> str_wf h \<and> str_wf b
      | ReplaceSectionBody p b \<Rightarrow> str_wf b
      | InsertAtLine l c \<Rightarrow> str_wf c
      | ReplaceLines s e c \<Rightarrow> str_wf c
      | _ \<Rightarrow> True)"

lemma wf_after_trim:
  assumes "str_wf h"
  shows "wf_after False (trim h)"
proof -
  obtain w where w: "h = w @ trim_start h" using trim_start_suffix by blast
  obtain v where v: "trim_start h = trim h @ v" using trim_end_prefix unfolding trim_def by blast
  from w v have "h = w @ trim h @ v" by simp
  with assms have "wf_after True (w @ trim h @ v)" by (simp add: str_wf_def)
  then have "wf_after (if w = [] then True else last w = newline) (trim h)"
    by (simp only: wf_after_append)
  then show ?thesis by (cases "trim h") (auto split: if_splits)
qed

lemma render_new_section_wf:
  assumes "str_wf heading" "str_wf section_body" "terminator_ok t"
  shows "str_wf (render_new_section level heading section_body t)"
proof -
  have t: "str_wf t" using assms(3) by (auto elim!: terminator_ok_cases intro!: str_wf_ascii simp: byte_def)
  have pre: "str_wf (replicate level CHR 0x23 @ '' '')" by (rule str_wf_ascii) (auto simp: byte_def)
  have "str_wf ((replicate level CHR 0x23 @ '' '') @ trim heading)"
    using pre wf_after_trim [OF assms(1)] by (simp add: str_wf_def wf_after_append)
  moreover have "str_wf (if trim_matches newline section_body \<noteq> []
      then t @ t @ trim_matches newline section_body else [])"
    using t trim_matches_newline_wf [OF assms(2)] by (auto intro!: str_wf_append)
  ultimately show ?thesis
    unfolding render_new_section_def Let_def append_assoc [symmetric] by (rule str_wf_append)
qed

section \<open>Shape of a successful edit\<close>

lemma delete_section_Inr:
  assumes "delete_section md body path = Inr out"
  obtains secs idx where "parse_sections md body = Inr secs" "find_section secs path = Inr idx"
    "splice md body (section_byte_range body secs idx) [] = Inr out"
  using assms unfolding delete_section_def by (auto simp: bind_res_eq_Inr)

lemma insert_relative_Inr:
  assumes "insert_relative md body anchor level heading section_body before = Inr out"
  obtains secs idx p where "parse_sections md body = Inr secs" "find_section secs anchor = Inr idx"
    "p = (if before then fst (section_byte_range body secs idx) else snd (section_byte_range body secs idx))"
    "splice md body (p, p) (render_new_section level heading section_body (line_terminator body)) = Inr out"
    "1 \<le> level" "level \<le> 6"
  using assms unfolding insert_relative_def
  by (auto simp: bind_res_eq_Inr Let_def require_level_def split: if_splits)

lemma upsert_section_Inr:
  assumes "upsert_section md body path level heading section_body = Inr out"
  obtains secs rng i rendered where "parse_sections md body = Inr secs"
    "rendered = render_new_section level heading section_body (line_terminator body)"
    "splice md body rng rendered = Inr out"
    "(i = length secs \<and> position (\<lambda>s. s_path s = path) secs = None \<and> rng = (length body, length body))
     \<or> (position (\<lambda>s. s_path s = path) secs = Some i \<and> rng = section_byte_range body secs i)"
    "upsert_verify md path rendered out i = Inr out" "path \<noteq> PREAMBLE_PATH" "1 \<le> level" "level \<le> 6"
proof -
  define rendered where "rendered = render_new_section level heading section_body (line_terminator body)"
  from assms obtain secs spliced i where lvl: "1 \<le> level" "level \<le> 6" "path \<noteq> PREAMBLE_PATH"
    and secs: "parse_sections md body = Inr secs"
    and sp: "(case position (\<lambda>s. s_path s = path) secs of
            Some idx \<Rightarrow> map_ok (\<lambda>spliced. (spliced, idx))
                (map_err EditSplice (splice md body (section_byte_range body secs idx) rendered))
          | None \<Rightarrow> map_ok (\<lambda>spliced. (spliced, length secs))
                (map_err EditSplice (splice md body (length body, length body) rendered))) = Inr (spliced, i)"
    and ver: "upsert_verify md path rendered spliced i = Inr out"
    unfolding upsert_section_def Let_def rendered_def
    by (auto simp: bind_res_eq_Inr require_level_def split: if_splits)
  have eq: "spliced = out"
    using ver by (auto simp: upsert_verify_def bind_res_eq_Inr Let_def split: option.splits if_splits)
  show thesis
  proof (cases "position (\<lambda>s. s_path s = path) secs")
    case None
    with sp eq have "splice md body (length body, length body) rendered = Inr out" "i = length secs"
      by (auto simp: map_ok_def bind_res_eq_Inr)
    with None secs lvl ver eq show thesis by (intro that [of secs rendered "(length body, length body)" i]) (auto simp: rendered_def)
  next
    case (Some idx)
    with sp eq have "splice md body (section_byte_range body secs idx) rendered = Inr out" "i = idx"
      by (auto simp: map_ok_def bind_res_eq_Inr)
    with Some secs lvl ver eq show thesis by (intro that [of secs rendered "section_byte_range body secs idx" i]) (auto simp: rendered_def)
  qed
qed

lemma reinsert_section_Inr:
  assumes "reinsert_section md t anchor before extracted = Inr out"
  obtains p where "splice md t (p, p) extracted = Inr out"
  using assms unfolding reinsert_section_def by (auto simp: bind_res_eq_Inr Let_def)

lemma move_section_Inr:
  assumes "move_section md body target anchor before = Inr out"
  obtains secs idx rng mid c where "target \<noteq> anchor" "parse_sections md body = Inr secs"
    "find_section secs target = Inr idx" "rng = section_byte_range body secs idx"
    "splice md body rng [] = Inr mid"
    "reinsert_section md (if c then drop_one_trailing_blank_line mid else mid) anchor before
       (take (snd rng - fst rng) (drop (fst rng) body)) = Inr out"
proof -
  have ne: "target \<noteq> anchor" using assms by (auto simp: move_section_def)
  from assms obtain secs i j where *: "parse_sections md body = Inr secs" "find_section secs target = Inr i"
    "(if j > i \<and> j < subtree_end_idx secs i then Inl (MoveWouldLoop target anchor)
      else bind_res (map_err EditSplice (splice md body (section_byte_range body secs i) [])) (\<lambda>without.
           reinsert_section md
             (if snd (section_byte_range body secs i) = length body
              then drop_one_trailing_blank_line without else without) anchor before
             (take (snd (section_byte_range body secs i) - fst (section_byte_range body secs i))
               (drop (fst (section_byte_range body secs i)) body)))) = Inr out"
    unfolding move_section_def Let_def if_not_P [OF ne] bind_res_eq_Inr map_err_eq_Inr by blast
  define rng where "rng = section_byte_range body secs i"
  from *(3) obtain mid where "splice md body rng [] = Inr mid"
    "reinsert_section md (if snd rng = length body then drop_one_trailing_blank_line mid else mid) anchor before
       (take (snd rng - fst rng) (drop (fst rng) body)) = Inr out"
    unfolding rng_def [symmetric] by (auto simp: bind_res_eq_Inr split: if_splits)
  with ne *(1,2) rng_def that show thesis by metis
qed

lemma replace_section_body_Inr:
  assumes "replace_section_body md body path new = Inr out"
  obtains secs idx e where "parse_sections md body = Inr secs" "find_section secs path = Inr idx"
    "splice md body (byte_offset_of_line (split_inclusive newline body) (s_heading_line_end (secs ! idx)), e)
       (trim_matches newline new) = Inr out"
  using assms unfolding replace_section_body_def by (auto simp: bind_res_eq_Inr Let_def)

lemma insert_at_line_Inr:
  assumes "insert_at_line md body line content = Inr out"
  obtains p where "p = byte_offset_of_line (split_inclusive newline body) (unat line)"
    "splice md body (p, p) content = Inr out"
  using assms unfolding insert_at_line_def by (auto simp: Let_def split: if_splits)

lemma replace_lines_Inr:
  assumes "replace_lines md body start end_line content = Inr out"
  shows "splice md body (byte_offset_of_line (split_inclusive newline body) (unat start),
      byte_offset_of_line (split_inclusive newline body) (unat end_line)) content = Inr out"
    "start \<le> end_line" "end_line \<le> u32_line_count (split_inclusive newline body)"
  using assms unfolding replace_lines_def by (auto simp: Let_def split: if_splits)

lemma move_wf:
  assumes "move_section md body target anchor before = Inr out" "str_wf body"
  shows "str_wf out"
proof -
  from move_section_Inr [OF assms(1)] obtain secs idx rng mid c where
    m: "rng = section_byte_range body secs idx" "splice md body rng [] = Inr mid"
    "reinsert_section md (if c then drop_one_trailing_blank_line mid else mid) anchor before
       (take (snd rng - fst rng) (drop (fst rng) body)) = Inr out" by metis
  have "str_wf mid" by (rule splice_wf [OF m(2) assms(2) str_wf_Nil])
  then have "str_wf (if c then drop_one_trailing_blank_line mid else mid)" by (simp add: drop_blank_wf)
  moreover have "str_wf (take (snd rng - fst rng) (drop (fst rng) body))"
    unfolding m(1) by (intro str_wf_take str_wf_drop assms(2) section_range_boundary)
  ultimately show ?thesis
    using m(3) by (elim reinsert_section_Inr) (rule splice_wf)
qed

lemma apply_one_wf:
  assumes "apply_one md body op = Inr out" "str_wf body" "op_wf op"
  shows "str_wf out"
  using assms(1,3)
  by (cases op)
    (auto simp: apply_one_def op_wf_def
      elim!: upsert_section_Inr delete_section_Inr insert_relative_Inr replace_section_body_Inr
        insert_at_line_Inr
      dest!: replace_lines_Inr(1) intro: move_wf [OF _ assms(2)] splice_wf [OF _ assms(2)]
      intro!: render_new_section_wf trim_matches_newline_wf)

section \<open>Content\<close>

text \<open>The bytes of a text that are not line ends.\<close>

definition content_bytes :: "string \<Rightarrow> string" where
  "content_bytes s = filter (\<lambda>c. c \<noteq> carriage_return \<and> c \<noteq> newline) s"

lemma content_append [simp]: "content_bytes (a @ b) = content_bytes a @ content_bytes b"
  by (simp add: content_bytes_def)

lemma content_line_end: "line_end_bytes w \<Longrightarrow> content_bytes w = []"
  by (auto simp: content_bytes_def line_end_bytes_def filter_empty_conv)

lemma splice_content_bytes:
  assumes "splice md body rng fragment = Inr out"
  shows "content_bytes out = content_bytes (take (fst rng) body) @ content_bytes fragment
      @ content_bytes (drop (snd rng) body)"
  using assms by (rule splice_content) (simp add: content_line_end)

lemma content_drop_blank: "content_bytes (drop_one_trailing_blank_line t) = content_bytes t"
proof (cases "strip_suffix t [newline]")
  case None
  then show ?thesis by (simp add: drop_one_trailing_blank_line_def)
next
  case (Some h)
  then have t: "t = h @ [newline]" by (simp add: strip_suffix_Some)
  have "drop_one_trailing_blank_line t = t
      \<or> (ends_with t [carriage_return, newline] \<and> drop_one_trailing_blank_line t = take (length t - 2) t)
      \<or> drop_one_trailing_blank_line t = take (length t - 1) t"
    by (simp add: drop_one_trailing_blank_line_def Let_def Some)
  then consider "drop_one_trailing_blank_line t = t"
    | "ends_with t [carriage_return, newline]" "drop_one_trailing_blank_line t = take (length t - 2) t"
    | "drop_one_trailing_blank_line t = take (length t - 1) t" by blast
  then show ?thesis
  proof cases
    case 2
    from 2(1) obtain g where "t = g @ [carriage_return, newline]" by (auto simp: ends_with_iff)
    then show ?thesis unfolding 2(2) by (simp add: content_bytes_def)
  next
    case 3
    show ?thesis unfolding 3 by (simp add: t content_bytes_def)
  qed simp
qed

lemma split_at_offset:
  "concat (take k (split_inclusive c body)) = take (byte_offset_of_line (split_inclusive c body) k) body"
  "concat (drop k (split_inclusive c body)) = drop (byte_offset_of_line (split_inclusive c body) k) body"
proof -
  have "body = concat (take k (split_inclusive c body)) @ concat (drop k (split_inclusive c body))"
    by (metis append_take_drop_id concat_append concat_split_inclusive)
  then show "concat (take k (split_inclusive c body)) = take (byte_offset_of_line (split_inclusive c body) k) body"
    "concat (drop k (split_inclusive c body)) = drop (byte_offset_of_line (split_inclusive c body) k) body"
    unfolding byte_offset_concat by (metis append_eq_conv_conj)+
qed

lemma apply_ops_append: "apply_ops md body (us @ vs) = bind_res (apply_ops md body us) (\<lambda>b. apply_ops md b vs)"
proof (induction us arbitrary: body)
  case (Cons op us)
  then show ?case by (cases "apply_one md body op") simp_all
qed simp

section \<open>Properties\<close>

text \<open>
  A batch is the composition of its operations: it succeeds when each operation succeeds
  on the result of the previous ones, and otherwise fails with the error of the first
  operation that fails, so no later operation runs and the caller keeps its input.
\<close>

theorem apply_ops_sequential:
  "apply_ops md body (us @ vs) = bind_res (apply_ops md body us) (\<lambda>b. apply_ops md b vs)
   \<and> (apply_ops md body ops = Inl e \<longleftrightarrow>
       (\<exists>us op vs b. ops = us @ op # vs \<and> apply_ops md body us = Inr b \<and> apply_one md b op = Inl e))"
proof
  show "apply_ops md body (us @ vs) = bind_res (apply_ops md body us) (\<lambda>b. apply_ops md b vs)"
    by (rule apply_ops_append)
  show "apply_ops md body ops = Inl e \<longleftrightarrow>
       (\<exists>us op vs b. ops = us @ op # vs \<and> apply_ops md body us = Inr b \<and> apply_one md b op = Inl e)"
    (is "?L \<longleftrightarrow> ?R")
  proof
    show "?L \<Longrightarrow> ?R"
    proof (induction ops arbitrary: body)
      case (Cons op ops)
      show ?case
      proof (cases "apply_one md body op")
        case (Inl d)
        with Cons.prems show ?thesis by (intro exI [of _ "[]"]) auto
      next
        case (Inr b)
        with Cons.prems have "apply_ops md b ops = Inl e" by simp
        from Cons.IH [OF this] obtain us op' vs b' where "ops = us @ op' # vs" "apply_ops md b us = Inr b'"
          "apply_one md b' op' = Inl e" by blast
        with Inr show ?thesis by (intro exI [of _ "op # us"]) auto
      qed
    qed simp
    show "?R \<Longrightarrow> ?L" by (elim exE conjE) (simp add: apply_ops_append)
  qed
qed


lemma ex_markdown_contract: "markdown_contract ex_markdown"
proof -
  have "heading_spans_ok ex_body (scan_headings (md_events ex_markdown ex_body))" by code_simp
  moreover have "scan_headings (md_events ex_markdown body) = []" if "body \<noteq> ex_body" for body
    using that by (simp add: ex_markdown_def scan_headings_def)
  ultimately show ?thesis
    unfolding markdown_contract_def
  proof (intro allI)
    fix body
    assume *: "heading_spans_ok ex_body (scan_headings (md_events ex_markdown ex_body))"
      "\<And>body. body \<noteq> ex_body \<Longrightarrow> scan_headings (md_events ex_markdown body) = []"
    show "heading_spans_ok body (scan_headings (md_events ex_markdown body))"
    proof (cases "body = ex_body")
      case True
      with *(1) show ?thesis by simp
    next
      case False
      show ?thesis unfolding *(2) [OF False] by (simp add: heading_spans_ok_def)
    qed
  qed
qed


text \<open>
  The span of a section is its subtree: it ends at the first later top-level heading of the
  same or a smaller level (a heading inside a quote or list never ends it), and the preamble
  and a contained heading own only their own entry.
\<close>

theorem subtree_end_spec:
  assumes "idx < length secs"
  shows "idx < subtree_end_idx secs idx \<and> subtree_end_idx secs idx \<le> length secs
    \<and> (if outline (secs ! idx) then
         (\<forall>j\<in>{idx <..< subtree_end_idx secs idx}.
            s_container_depth (secs ! j) > 0 \<or> s_level (secs ! j) > s_level (secs ! idx))
         \<and> (subtree_end_idx secs idx = length secs
             \<or> (s_container_depth (secs ! subtree_end_idx secs idx) = 0
                \<and> s_level (secs ! subtree_end_idx secs idx) \<le> s_level (secs ! idx)))
       else subtree_end_idx secs idx = idx + 1)"
proof (cases "outline (secs ! idx)")
  case True
  with subtree_end_cases [OF assms] show ?thesis by auto
next
  case False
  with assms subtree_end_cases(1,2) [OF assms] show ?thesis
    by (auto simp: subtree_end_idx_def outline_def Let_def)
qed

definition ex_sections :: "sect list" where
  "ex_sections = [preamble_section 1, (preamble_section 2)\<lparr> s_level := 1 \<rparr>, (preamble_section 3)\<lparr> s_level := 2 \<rparr>]"

theorem subtree_end_spec_witness:
  "subtree_end_idx ex_sections 1 \<le> 3 \<and> subtree_end_idx ex_sections 0 = 1"
proof -
  have "length ex_sections = 3" "\<not> outline (ex_sections ! 0)" by code_simp+
  with subtree_end_spec [of 1 ex_sections] subtree_end_spec [of 0 ex_sections] show ?thesis by auto
qed

text \<open>
  C31. Moving a section loses and duplicates nothing: the bytes of the result other than line
  ends are a permutation of those of the body, and a move onto itself is refused.
\<close>

theorem move_section_permutes:
  assumes "move_section md body target anchor before = Inr out"
  shows "mset (content_bytes out) = mset (content_bytes body) \<and> target \<noteq> anchor"
proof -
  from move_section_Inr [OF assms] obtain secs idx rng mid c where ne: "target \<noteq> anchor"
    and mid: "splice md body rng [] = Inr mid"
    and out: "reinsert_section md (if c then drop_one_trailing_blank_line mid else mid) anchor before
       (take (snd rng - fst rng) (drop (fst rng) body)) = Inr out" by metis
  define t where "t = (if c then drop_one_trailing_blank_line mid else mid)"
  define x where "x = take (snd rng - fst rng) (drop (fst rng) body)"
  from out obtain p where p: "splice md t (p, p) x = Inr out"
    unfolding t_def [symmetric] x_def [symmetric] by (rule reinsert_section_Inr)
  have t: "content_bytes t = content_bytes (take (fst rng) body) @ content_bytes (drop (snd rng) body)"
    using splice_content_bytes [OF mid] by (simp add: t_def content_drop_blank) (simp add: content_bytes_def)
  have le: "fst rng \<le> snd rng" using mid by (rule splice_content)
  have body: "body = take (fst rng) body @ x @ drop (snd rng) body"
  proof -
    have "drop (snd rng) body = drop (snd rng - fst rng) (drop (fst rng) body)" using le by simp
    then have "x @ drop (snd rng) body = drop (fst rng) body" by (simp only: x_def append_take_drop_id)
    then show ?thesis by (simp only: append_take_drop_id)
  qed
  have "mset (content_bytes out) = mset (content_bytes t) + mset (content_bytes x)"
  proof -
    have "content_bytes t = content_bytes (take p t) @ content_bytes (drop p t)"
      by (metis append_take_drop_id content_append)
    with splice_content_bytes [OF p] show ?thesis by simp
  qed
  also have "\<dots> = mset (content_bytes (take (fst rng) body @ x @ drop (snd rng) body))" by (simp add: t)
  also have "\<dots> = mset (content_bytes body)" by (simp only: body [symmetric])
  finally show ?thesis using ne by simp
qed

text \<open>
  An event stream for examples: every line that opens with one to six hashes and a space is a
  heading. It reads any text, so that an example can run through several edits.
\<close>

fun atx_loop :: "nat \<Rightarrow> string list \<Rightarrow> (md_event \<times> nat \<times> nat) list" where
  "atx_loop off [] = []"
| "atx_loop off (l # ls) =
     (let n = length (takeWhile (\<lambda>c. c = CHR 0x23) l); e = off + length l in
      (if 1 \<le> n \<and> n \<le> 6 \<and> get_opt l n = Some CHR 0x20
       then [(StartHeading n, off, e), (EText (trim_matches newline (drop (n + 1) l)), off, e), (EndHeading, off, e)]
       else []) @ atx_loop e ls)"

definition atx_markdown :: markdown where
  "atx_markdown = \<lparr> md_events = (\<lambda>body. atx_loop 0 (split_inclusive newline body)), md_slugify = (\<lambda>s. s) \<rparr>"

definition text_lines :: "string list \<Rightarrow> string" where
  "text_lines ls = concat (map (\<lambda>l. l @ [newline]) ls)"

definition two_sections :: string where
  "two_sections = text_lines [''# a'', ''x'', [], ''# b'', ''y'']"

theorem move_section_permutes_witness:
  "\<exists>out. move_section atx_markdown two_sections ''a'' ''b'' False = Inr out
     \<and> out = text_lines [''# b'', ''y'', [], ''# a'', ''x'', []]
     \<and> mset (content_bytes out) = mset (content_bytes two_sections)"
proof -
  have "move_section atx_markdown two_sections ''a'' ''b'' False
      = Inr (text_lines [''# b'', ''y'', [], ''# a'', ''x'', []])" by code_simp
  with move_section_permutes [OF this] show ?thesis by blast
qed

text \<open>
  Deleting a section removes exactly its subtree: it fails with section-not-found exactly
  when no section has the path, and otherwise the first section with the path is the one
  removed, everything before its first line and from the line of the next outline section on
  being kept, with line-end bytes only in between.
\<close>

theorem delete_section_exact:
  assumes "parse_sections md body = Inr secs"
  shows "(delete_section md body path = Inl (SectionNotFound path) \<longleftrightarrow> path \<notin> s_path ` set secs)
    \<and> (\<forall>out. delete_section md body path = Inr out \<longrightarrow>
        (\<exists>idx w1 w2. idx < length secs \<and> s_path (secs ! idx) = path \<and> (\<forall>j<idx. s_path (secs ! j) \<noteq> path)
           \<and> line_end_bytes w1 \<and> line_end_bytes w2
           \<and> out = concat (take (s_line_start (secs ! idx)) (split_inclusive newline body)) @ w1
                 @ (if subtree_end_idx secs idx < length secs
                    then concat (drop (s_line_start (secs ! subtree_end_idx secs idx)) (split_inclusive newline body))
                    else []) @ w2))"
proof (intro conjI allI impI)
  have del: "delete_section md body path = bind_res (find_section secs path)
      (\<lambda>idx. map_err EditSplice (splice md body (section_byte_range body secs idx) []))"
    by (simp add: delete_section_def assms)
  show "delete_section md body path = Inl (SectionNotFound path) \<longleftrightarrow> path \<notin> s_path ` set secs"
  proof (rule find_section_cases [of secs path])
    assume "find_section secs path = Inl (SectionNotFound path)" "\<forall>s\<in>set secs. s_path s \<noteq> path"
    then show ?thesis by (auto simp: del)
  next
    fix idx
    assume *: "find_section secs path = Inr idx" "idx < length secs" "s_path (secs ! idx) = path"
    then have "path \<in> s_path ` set secs" by (metis image_eqI nth_mem)
    moreover have "delete_section md body path \<noteq> Inl (SectionNotFound path)"
      by (cases "splice md body (section_byte_range body secs idx) []") (simp_all add: del *)
    ultimately show ?thesis by simp
  qed
  fix out
  assume out: "delete_section md body path = Inr out"
  then obtain idx where idx: "find_section secs path = Inr idx"
    and sp: "splice md body (section_byte_range body secs idx) [] = Inr out"
    by (rule delete_section_Inr) (use assms in simp)
  have found: "idx < length secs \<and> s_path (secs ! idx) = path \<and> (\<forall>j<idx. s_path (secs ! j) \<noteq> path)"
    by (rule find_section_cases [of secs path]) (use idx in auto)
  let ?ls = "split_inclusive newline body"
  have rng: "fst (section_byte_range body secs idx) = byte_offset_of_line ?ls (s_line_start (secs ! idx))"
    "snd (section_byte_range body secs idx) =
       (if subtree_end_idx secs idx < length secs
        then byte_offset_of_line ?ls (s_line_start (secs ! subtree_end_idx secs idx)) else length body)"
    by (simp_all add: section_byte_range_def Let_def byte_offset_full)
  from sp obtain w1 w2 w3 where w: "out = take (fst (section_byte_range body secs idx)) body @ w1 @ [] @ w2
      @ drop (snd (section_byte_range body secs idx)) body @ w3"
    "line_end_bytes w1" "line_end_bytes w2" "line_end_bytes w3"
    by (rule splice_content)
  have "line_end_bytes (w1 @ w2)" using w by (simp add: line_end_bytes_def)
  with found w show "\<exists>idx w1 w2. idx < length secs \<and> s_path (secs ! idx) = path \<and> (\<forall>j<idx. s_path (secs ! j) \<noteq> path)
           \<and> line_end_bytes w1 \<and> line_end_bytes w2
           \<and> out = concat (take (s_line_start (secs ! idx)) ?ls) @ w1
                 @ (if subtree_end_idx secs idx < length secs
                    then concat (drop (s_line_start (secs ! subtree_end_idx secs idx)) ?ls)
                    else []) @ w2"
    by (intro exI [of _ idx] exI [of _ "w1 @ w2"] exI [of _ w3]) (simp add: rng split_at_offset)
qed

theorem delete_section_exact_witness:
  "delete_section atx_markdown two_sections ''c'' = Inl (SectionNotFound ''c'')"
proof -
  have "case parse_sections atx_markdown two_sections of Inr secs \<Rightarrow> ''c'' \<notin> s_path ` set secs | Inl _ \<Rightarrow> False"
    by code_simp
  then obtain secs where "parse_sections atx_markdown two_sections = Inr secs" "''c'' \<notin> s_path ` set secs"
    by (auto split: sum.splits)
  with delete_section_exact [OF this(1)] show ?thesis by blast
qed

text \<open>
  A successful upsert leaves a section addressable at the requested path, at a level of 1
  to 6 and never at the preamble, whose subtree spans every line rendered for it; so a second
  upsert of the path finds a section to replace instead of appending another.
\<close>

theorem upsert_section_addressable:
  assumes "upsert_section md body path level heading section_body = Inr out"
  shows "\<exists>secs i. parse_sections md out = Inr secs \<and> i < length secs \<and> s_path (secs ! i) = path
    \<and> position (\<lambda>s. s_path s = path) secs \<noteq> None
    \<and> path \<noteq> PREAMBLE_PATH \<and> 1 \<le> level \<and> level \<le> 6
    \<and> s_line_start (secs ! i)
        + count_list (render_new_section level heading section_body (line_terminator body)) newline + 1
      \<le> (if subtree_end_idx secs i < length secs then s_line_start (secs ! subtree_end_idx secs i)
         else length (split_inclusive newline out))"
proof -
  from upsert_section_Inr [OF assms] obtain i rendered where
    r: "rendered = render_new_section level heading section_body (line_terminator body)"
    and v: "upsert_verify md path rendered out i = Inr out"
    and lvl: "path \<noteq> PREAMBLE_PATH" "1 \<le> level" "level \<le> 6" by metis
  from v obtain secs where secs: "parse_sections md out = Inr secs" "i < length secs" "s_path (secs ! i) = path"
    "\<not> (case get_opt secs (subtree_end_idx secs i) of
           Some s \<Rightarrow> s_line_start s | None \<Rightarrow> length (split_inclusive newline out))
         - s_line_start (secs ! i) < count_list rendered newline + 1"
    by (auto simp: upsert_verify_def bind_res_eq_Inr Let_def get_opt_def split: if_splits)
  have "secs ! i \<in> set secs" using secs(2) by simp
  then have "position (\<lambda>s. s_path s = path) secs \<noteq> None"
    using secs(3) unfolding position_None by blast
  with secs lvl r show ?thesis
    by (intro exI [of _ secs] exI [of _ i]) (auto simp: get_opt_def split: if_splits)
qed

theorem upsert_section_addressable_witness:
  "\<exists>out secs. upsert_section atx_markdown two_sections ''c'' 1 ''c'' ''z'' = Inr out
     \<and> parse_sections atx_markdown out = Inr secs \<and> position (\<lambda>s. s_path s = ''c'') secs \<noteq> None"
proof -
  have "case upsert_section atx_markdown two_sections ''c'' 1 ''c'' ''z'' of Inr _ \<Rightarrow> True | Inl _ \<Rightarrow> False"
    by code_simp
  then obtain out where "upsert_section atx_markdown two_sections ''c'' 1 ''c'' ''z'' = Inr out"
    by (auto split: sum.splits)
  with upsert_section_addressable [OF this] show ?thesis by blast
qed

text \<open>
  Replacing lines is exact: the range is refused when it is reversed or past the last line,
  and otherwise the lines before its start and from its end on are kept byte for byte around
  the new content, with line-end bytes only in between.
\<close>

theorem replace_lines_exact:
  "(replace_lines md body start end_line content = Inl (InvalidLineRange start end_line n) \<longleftrightarrow>
      n = of_nat (length (split_inclusive newline body)) \<and> (end_line < start \<or> n < end_line))
   \<and> (replace_lines md body start end_line content = Inr out \<longrightarrow>
      (\<exists>w1 w2 w3. line_end_bytes w1 \<and> line_end_bytes w2 \<and> line_end_bytes w3
         \<and> out = concat (take (unat start) (split_inclusive newline body)) @ w1 @ content @ w2
                 @ concat (drop (unat end_line) (split_inclusive newline body)) @ w3))"
proof (intro conjI impI)
  show "replace_lines md body start end_line content = Inl (InvalidLineRange start end_line n) \<longleftrightarrow>
      n = of_nat (length (split_inclusive newline body)) \<and> (end_line < start \<or> n < end_line)"
    by (auto simp: replace_lines_def Let_def u32_line_count_def map_err_def split: sum.splits)
next
  assume "replace_lines md body start end_line content = Inr out"
  from replace_lines_Inr(1) [OF this]
  show "\<exists>w1 w2 w3. line_end_bytes w1 \<and> line_end_bytes w2 \<and> line_end_bytes w3
         \<and> out = concat (take (unat start) (split_inclusive newline body)) @ w1 @ content @ w2
                 @ concat (drop (unat end_line) (split_inclusive newline body)) @ w3"
    by (rule splice_content) (auto simp: split_at_offset)
qed

theorem replace_lines_exact_witness:
  "\<exists>out w1 w2 w3. replace_lines atx_markdown two_sections 1 2 ''z'' = Inr out
     \<and> out = concat (take 1 (split_inclusive newline two_sections)) @ w1 @ ''z'' @ w2
          @ concat (drop 2 (split_inclusive newline two_sections)) @ w3"
proof -
  have "case replace_lines atx_markdown two_sections 1 2 ''z'' of Inr _ \<Rightarrow> True | Inl _ \<Rightarrow> False"
    by code_simp
  then obtain out where out: "replace_lines atx_markdown two_sections 1 2 ''z'' = Inr out"
    by (auto split: sum.splits)
  have "unat (1 :: 32 word) = 1" "unat (2 :: 32 word) = 2" by simp_all
  with replace_lines_exact [of atx_markdown two_sections 1 2 "''z''" 0 out] out show ?thesis by metis
qed

end
