(* ===== verification/Slugs.thy ===== *)
theory Slugs
  imports Memory_File
begin

text \<open>
  Slugs and in-repo paths: the path conventions and the listing filter (\<open>mmcp-core\<close>,
  \<open>conventions.rs\<close>), and from \<open>mmcp-store\<close>, \<open>memory.rs\<close>: slug validation, the derivation of
  automatic slugs with its cap, the kind parsers, the path projections and the check of the
  filename id against the frontmatter id. The \<open>uuid\<close> crate and \<open>slug::slugify\<close> are
  parameters. Environment and user configuration are read by I/O code that is not modelled:
  the values read are arguments.
\<close>

section \<open>Path conventions\<close>

definition MEMORIES_DIR :: string where "MEMORIES_DIR = ''memories''"
definition MEMORY_EXTENSION :: string where "MEMORY_EXTENSION = ''.md''"

record uuids =
  uu_parse :: "string \<Rightarrow> uuid option"
  uu_show :: "uuid \<Rightarrow> string"

text \<open>
  What the code relies on in the \<open>uuid\<close> crate: a printed id parses back and its text is
  neither empty nor has a path separator; it is ASCII.
\<close>

definition uuid_contract :: "uuids \<Rightarrow> bool" where
  "uuid_contract uu \<longleftrightarrow> (\<forall>i. uu_parse uu (uu_show uu i) = Some i \<and> uu_show uu i \<noteq> [] \<and> CHR ''/'' \<notin> set (uu_show uu i)
     \<and> list_all (\<lambda>c. byte c < 128) (uu_show uu i))"

definition memory_path :: "uuids \<Rightarrow> string \<Rightarrow> uuid \<Rightarrow> string" where
  "memory_path uu slug i = MEMORIES_DIR @ ''/'' @ slug @ ''/'' @ uu_show uu i @ MEMORY_EXTENSION"

datatype slug_recursion = Recursive | AnchorAndImmediateChildren

definition slug_matches_filter :: "string \<Rightarrow> string option \<Rightarrow> slug_recursion \<Rightarrow> bool" where
  "slug_matches_filter slug pfx recursion =
     (let depth =
        (if pfx = None \<or> pfx = Some [] \<or> pfx = Some ''/'' then Some (length (split_on CHR ''/'' slug))
         else
           (let p = the pfx in
            if slug = p then Some 0
            else
              (case strip_prefix slug p of
                 None \<Rightarrow> None
               | Some rest \<Rightarrow>
                   (case strip_prefix rest ''/'' of
                      None \<Rightarrow> None
                    | Some below \<Rightarrow> Some (length (split_on CHR ''/'' below))))))
      in case depth of
           None \<Rightarrow> False
         | Some d \<Rightarrow> (case recursion of Recursive \<Rightarrow> True | AnchorAndImmediateChildren \<Rightarrow> d \<le> 1))"

section \<open>Slug validation\<close>

datatype slug_error = InvalidSlug string

definition MAX_SLUG_SEGMENTS :: nat where "MAX_SLUG_SEGMENTS = 8"
definition MAX_SLUG_LENGTH :: nat where "MAX_SLUG_LENGTH = 256"

fun contains_str :: "string \<Rightarrow> string \<Rightarrow> bool" where
  "contains_str [] p \<longleftrightarrow> p = []"
| "contains_str (c # s) p \<longleftrightarrow> starts_with (c # s) p \<or> contains_str s p"

definition slug_char :: "char \<Rightarrow> bool" where
  "slug_char ch \<longleftrightarrow> is_ascii_lowercase ch \<or> is_ascii_digit ch \<or> ch = CHR ''-''"

definition validate_slug_segment :: "string \<Rightarrow> slug_error + unit" where
  "validate_slug_segment segment =
     (if segment = [] then Inl (InvalidSlug segment)
      else if starts_with segment ''-'' \<or> ends_with segment ''-'' then Inl (InvalidSlug segment)
      else if \<not> list_all slug_char segment then Inl (InvalidSlug segment)
      else if contains_str segment ''--'' then Inl (InvalidSlug segment)
      else Inr ())"

fun validate_segments :: "string \<Rightarrow> string list \<Rightarrow> slug_error + unit" where
  "validate_segments slug [] = Inr ()"
| "validate_segments slug (segment # rest) =
     (if segment = ''..'' \<or> segment = ''.'' then Inl (InvalidSlug slug)
      else bind_res (map_err (\<lambda>_. InvalidSlug slug) (validate_slug_segment segment))
             (\<lambda>_. validate_segments slug rest))"

definition validate_memory_slug :: "string \<Rightarrow> slug_error + unit" where
  "validate_memory_slug slug =
     (if slug = [] \<or> length slug > MAX_SLUG_LENGTH then Inl (InvalidSlug slug)
      else if starts_with slug ''/'' \<or> ends_with slug ''/'' then Inl (InvalidSlug slug)
      else
        (let segments = split_on CHR ''/'' slug in
         if segments = [] \<or> length segments > MAX_SLUG_SEGMENTS then Inl (InvalidSlug slug)
         else validate_segments slug segments))"

section \<open>Automatic slugs\<close>

definition DEFAULT_MAX_AUTO_SLUG_LENGTH :: nat where "DEFAULT_MAX_AUTO_SLUG_LENGTH = 64"

definition ADOC_EXTENSIONS :: "string list" where "ADOC_EXTENSIONS = [''adoc'', ''asciidoc'']"

text \<open>\<open>str::parse::<usize>\<close>: an optional plus sign and digits, within 64 bits.\<close>

fun digits_value :: "nat \<Rightarrow> string \<Rightarrow> nat" where
  "digits_value n [] = n"
| "digits_value n (c # cs) = digits_value (10 * n + (byte c - 48)) cs"

definition parse_usize :: "string \<Rightarrow> nat option" where
  "parse_usize raw =
     (let ds = (case strip_prefix raw ''+'' of Some r \<Rightarrow> r | None \<Rightarrow> raw) in
      if ds = [] \<or> \<not> list_all is_ascii_digit ds \<or> digits_value 0 ds \<ge> 2 ^ 64 then None
      else Some (digits_value 0 ds))"

definition parse_env_auto_slug_length :: "string option \<Rightarrow> nat option" where
  "parse_env_auto_slug_length raw = Option.bind raw parse_usize"

text \<open>One tier: a positive value wins, zero or absent falls through.\<close>

definition tier :: "nat option \<Rightarrow> nat \<Rightarrow> nat" where
  "tier v fallback = (case v of Some n \<Rightarrow> if n > 0 then n else fallback | None \<Rightarrow> fallback)"

definition resolve_from_tiers :: "nat option \<Rightarrow> nat option \<Rightarrow> nat option \<Rightarrow> nat" where
  "resolve_from_tiers override_len env_len config_len =
     tier override_len (tier env_len (tier config_len DEFAULT_MAX_AUTO_SLUG_LENGTH))"

definition resolve_max_auto_slug_length :: "nat option \<Rightarrow> string option \<Rightarrow> nat option \<Rightarrow> nat" where
  "resolve_max_auto_slug_length override_len env_raw config_len =
     resolve_from_tiers override_len (parse_env_auto_slug_length env_raw) config_len"

definition truncate_slug_at_hyphen_boundary :: "string \<Rightarrow> nat \<Rightarrow> string" where
  "truncate_slug_at_hyphen_boundary slug max_len =
     (if length slug \<le> max_len then slug
      else let truncated = take max_len slug
           in case rfind CHR ''-'' truncated of Some boundary \<Rightarrow> take boundary truncated | None \<Rightarrow> truncated)"

definition strip_known_import_extension :: "string \<Rightarrow> string" where
  "strip_known_import_extension filename =
     (case rsplit_once CHR ''.'' filename of
        None \<Rightarrow> filename
      | Some (stem, ext) \<Rightarrow>
          if stem = [] \<or> ext = [] then filename
          else
            (let ext_lower = to_ascii_lowercase ext;
                 md_ext = to_ascii_lowercase (trim_start_matches CHR ''.'' MEMORY_EXTENSION)
             in if ext_lower = md_ext then stem
                else if ext_lower \<in> set ADOC_EXTENSIONS then stem
                else filename))"

definition slugify_filename_with_cap ::
  "(string \<Rightarrow> string) \<Rightarrow> string option \<Rightarrow> nat option \<Rightarrow> string \<Rightarrow> nat option \<Rightarrow> string" where
  "slugify_filename_with_cap slugify env_raw config_len filename override_max_len =
     (let stem = strip_known_import_extension filename;
          slug = slugify stem;
          max_len = resolve_max_auto_slug_length override_max_len env_raw config_len
      in truncate_slug_at_hyphen_boundary slug max_len)"

definition slugify_filename :: "(string \<Rightarrow> string) \<Rightarrow> string option \<Rightarrow> nat option \<Rightarrow> string \<Rightarrow> string" where
  "slugify_filename slugify env_raw config_len filename =
     slugify_filename_with_cap slugify env_raw config_len filename None"

section \<open>Kinds a plain write may create\<close>

datatype kind_policy_error = UnknownKind kind_parse_error | NotACreatableKind string

definition CREATABLE_KINDS :: "memory_kind list" where
  "CREATABLE_KINDS = [Rule, Snapshot, Log, Reference, Scratch]"

definition parse_kind :: "string \<Rightarrow> kind_policy_error + memory_kind" where
  "parse_kind s = map_err UnknownKind (kind_from_str s)"

definition parse_creatable_kind :: "string \<Rightarrow> kind_policy_error + memory_kind" where
  "parse_creatable_kind s =
     bind_res (parse_kind s) (\<lambda>kind.
       if kind \<in> set CREATABLE_KINDS then Inr kind else Inl (NotACreatableKind (kind_as_str kind)))"

section \<open>Ids in paths\<close>

definition filename_uuid_from_path :: "uuids \<Rightarrow> string \<Rightarrow> uuid option" where
  "filename_uuid_from_path uu path =
     Option.bind (strip_suffix (last (split_on CHR ''/'' path)) MEMORY_EXTENSION) (uu_parse uu)"

definition slug_from_memory_path :: "string \<Rightarrow> string option" where
  "slug_from_memory_path path =
     Option.bind (strip_prefix path MEMORIES_DIR) (\<lambda>r.
     Option.bind (strip_prefix r ''/'') (\<lambda>rest.
       map_option fst (rsplit_once CHR ''/'' rest)))"

definition parse_frontmatter_id :: "'pod serde \<Rightarrow> string \<Rightarrow> uuid option" where
  "parse_frontmatter_id sd bytes =
     (if \<not> utf8_ok bytes then None
      else case parse_memory_file sd bytes of
             Inl _ \<Rightarrow> None
           | Inr file \<Rightarrow> fm_id (mf_frontmatter file))"

datatype addressing_mode = ByFilename | ByFrontmatter | BySlugOnly

datatype id_validation =
    IdMatch
  | MismatchAccepted uuid uuid
  | MismatchForced uuid uuid

datatype id_mismatch_error = IdMismatchOnFilenameWrite string uuid uuid

definition validate_id_mismatch ::
  "'pod serde \<Rightarrow> uuids \<Rightarrow> string \<Rightarrow> string \<Rightarrow> addressing_mode \<Rightarrow> bool \<Rightarrow> id_mismatch_error + id_validation" where
  "validate_id_mismatch sd uu path rendered mode force =
     (case (filename_uuid_from_path uu path, parse_frontmatter_id sd rendered) of
        (Some filename, Some front) \<Rightarrow>
          if filename = front then Inr IdMatch
          else
            (case mode of
               ByFilename \<Rightarrow>
                 if \<not> force then Inl (IdMismatchOnFilenameWrite path filename front)
                 else Inr (MismatchForced filename front)
             | _ \<Rightarrow> Inr (MismatchAccepted filename front))
      | _ \<Rightarrow> Inr IdMatch)"

section \<open>Lemmas\<close>

lemma contains_str_iff: "contains_str s p \<longleftrightarrow> (\<exists>u v. s = u @ p @ v)"
proof (induction s)
  case Nil
  then show ?case by auto
next
  case (Cons c s)
  show ?case
  proof
    assume "contains_str (c # s) p"
    then consider "starts_with (c # s) p" | "contains_str s p" by auto
    then show "\<exists>u v. c # s = u @ p @ v"
    proof cases
      case 1
      then show ?thesis by (metis append_Nil starts_with_iff)
    next
      case 2
      then show ?thesis unfolding Cons.IH by (metis append_Cons)
    qed
  next
    assume "\<exists>u v. c # s = u @ p @ v"
    then obtain u v where *: "c # s = u @ p @ v" by blast
    show "contains_str (c # s) p"
    proof (cases u)
      case Nil
      with * have "starts_with (c # s) p" by (auto simp: starts_with_iff)
      then show ?thesis by simp
    next
      case (Cons a w)
      with * have "s = w @ p @ v" by simp
      then show ?thesis using Cons.IH by auto
    qed
  qed
qed

text \<open>A valid segment: lowercase letters, digits and single inner hyphens.\<close>

definition segment_ok :: "string \<Rightarrow> bool" where
  "segment_ok seg \<longleftrightarrow>
     seg \<noteq> [] \<and> hd seg \<noteq> CHR ''-'' \<and> last seg \<noteq> CHR ''-'' \<and> list_all slug_char seg
     \<and> \<not> contains_str seg ''--''"

lemma starts_with_singleton: "starts_with s [c] \<longleftrightarrow> s \<noteq> [] \<and> hd s = c"
  by (cases s) (auto simp: starts_with_def)

lemma validate_slug_segment_ok: "validate_slug_segment seg = Inr () \<longleftrightarrow> segment_ok seg"
  by (auto simp: validate_slug_segment_def segment_ok_def starts_with_singleton ends_with_singleton)

lemma segment_ok_chars: "segment_ok seg \<Longrightarrow> c \<in> set seg \<Longrightarrow> slug_char c"
  by (auto simp: segment_ok_def list_all_iff)

lemma slug_char_not: "\<not> slug_char CHR ''/''" "\<not> slug_char CHR ''.''"
  by (simp_all add: slug_char_def is_ascii_lowercase_def is_ascii_digit_def byte_def)

lemma segment_ok_not_dots: "segment_ok seg \<Longrightarrow> seg \<noteq> ''..'' \<and> seg \<noteq> ''.''"
  using slug_char_not by (auto simp: segment_ok_def)

lemma validate_segments_ok: "validate_segments slug segs = Inr () \<longleftrightarrow> list_all segment_ok segs"
  using segment_ok_not_dots
  by (induction segs) (auto simp: bind_res_eq_Inr validate_slug_segment_ok)

lemma split_hd_Nil: "starts_with s [c] \<Longrightarrow> hd (split_on c s) = []"
  by (cases s) (auto simp: starts_with_singleton)

lemma split_last_Nil: "ends_with s [c] \<Longrightarrow> last (split_on c s) = []"
  by (auto simp: ends_with_iff split_on_append)

lemma validate_memory_slug_ok:
  "validate_memory_slug slug = Inr () \<longleftrightarrow>
     length slug \<le> MAX_SLUG_LENGTH \<and> length (split_on CHR ''/'' slug) \<le> MAX_SLUG_SEGMENTS
     \<and> list_all segment_ok (split_on CHR ''/'' slug)"
proof -
  have "list_all segment_ok (split_on CHR ''/'' slug) \<Longrightarrow>
      slug \<noteq> [] \<and> \<not> starts_with slug ''/'' \<and> \<not> ends_with slug ''/''"
  proof -
    assume ok: "list_all segment_ok (split_on CHR ''/'' slug)"
    then have "segment_ok (hd (split_on CHR ''/'' slug))" "segment_ok (last (split_on CHR ''/'' slug))"
      by (simp_all add: list_all_iff)
    then show ?thesis using split_hd_Nil split_last_Nil by (auto simp: segment_ok_def)
  qed
  then show ?thesis
    by (auto simp: validate_memory_slug_def Let_def validate_segments_ok)
qed

lemma validate_memory_slug_err:
  "validate_memory_slug slug = Inl e \<Longrightarrow> e = InvalidSlug slug"
proof -
  have "validate_segments slug segs = Inl e \<Longrightarrow> e = InvalidSlug slug" for segs
    by (induction segs) (auto simp: bind_res_eq_Inl map_err_def split: sum.splits if_splits)
  then show "validate_memory_slug slug = Inl e \<Longrightarrow> e = InvalidSlug slug"
    by (auto simp: validate_memory_slug_def Let_def split: if_splits)
qed

lemma valid_slug_no_dotdot:
  "validate_memory_slug slug = Inr () \<Longrightarrow> seg \<in> set (split_on CHR ''/'' slug) \<Longrightarrow>
   seg \<noteq> [] \<and> seg \<noteq> ''..'' \<and> seg \<noteq> ''.'' \<and> (\<forall>c\<in>set seg. slug_char c)"
  using segment_ok_not_dots segment_ok_chars
  by (auto simp: validate_memory_slug_ok list_all_iff segment_ok_def)

lemma utf8_ok_step:
  assumes "utf8_ok (a # s)"
  shows "\<exists>w t. s = w @ t \<and> utf8_ok t \<and> (\<forall>c\<in>set w. 128 \<le> byte c) \<and> \<not> continuation_byte a
    \<and> (w = [] \<or> 128 \<le> byte a)"
proof -
  consider (one) "byte a < 0x80" | (two) "\<not> byte a < 0x80" "cont_in 0xC2 0xDF a"
    | (three) "\<not> byte a < 0x80" "\<not> cont_in 0xC2 0xDF a" "cont_in 0xE0 0xEF a"
    | (four) "\<not> byte a < 0x80" "\<not> cont_in 0xC2 0xDF a" "\<not> cont_in 0xE0 0xEF a" "cont_in 0xF0 0xF4 a"
    using assms by (simp split: if_splits)
  then show ?thesis
  proof cases
    case one
    with assms show ?thesis
      by (intro exI [of _ "[]"] exI [of _ s]) (simp add: continuation_byte_def)
  next
    case two
    then obtain b t where s: "s = b # t" using assms by (cases s) simp_all
    with assms two have "cont_in 0x80 0xBF b" "utf8_ok t" by simp_all
    with two s show ?thesis
      by (intro exI [of _ "[b]"] exI [of _ t]) (simp add: continuation_byte_def cont_in_def)
  next
    case three
    then obtain b c t where s: "s = b # c # t" using assms by (auto split: list.splits)
    with assms three have "128 \<le> byte b" "cont_in 0x80 0xBF c" "utf8_ok t"
      by (simp_all add: cont_in_def split: if_splits)
    with three s show ?thesis
      by (intro exI [of _ "[b, c]"] exI [of _ t]) (simp add: continuation_byte_def cont_in_def)
  next
    case four
    then obtain b c d t where s: "s = b # c # d # t" using assms by (auto split: list.splits)
    with assms four have "128 \<le> byte b" "cont_in 0x80 0xBF c" "cont_in 0x80 0xBF d" "utf8_ok t"
      by (simp_all add: cont_in_def split: if_splits)
    with four s show ?thesis
      by (intro exI [of _ "[b, c, d]"] exI [of _ t]) (simp add: continuation_byte_def cont_in_def)
  qed
qed

lemma wf_after_high: "\<lbrakk> \<forall>c\<in>set w. 128 \<le> byte c; wf_after True t \<rbrakk> \<Longrightarrow> wf_after False (w @ t)"
proof (induction w)
  case Nil
  then show ?case by (simp add: wf_after_weaken)
next
  case (Cons c w)
  then have "c \<noteq> newline" by (auto simp: byte_def)
  with Cons show ?case by simp
qed

text \<open>What the line arithmetic of the editor needs holds of every \<open>&str\<close>.\<close>

lemma utf8_ok_str_wf: "utf8_ok s \<Longrightarrow> str_wf s"
  unfolding str_wf_def
proof (induction s rule: length_induct)
  case (1 s)
  show ?case
  proof (cases s)
    case (Cons a r)
    with "1.prems" obtain w t where r: "r = w @ t" "utf8_ok t" "\<forall>c\<in>set w. 128 \<le> byte c"
      "\<not> continuation_byte a" "w = [] \<or> 128 \<le> byte a"
      using utf8_ok_step by blast
    have t: "wf_after True t" using "1.IH" r(1,2) Cons by simp
    have "wf_after (a = newline) r"
    proof (cases "a = newline")
      case True
      then have "w = []" using r(5) by (auto simp: byte_def)
      with t r(1) show ?thesis by (simp add: wf_after_weaken)
    next
      case False
      with wf_after_high [OF r(3) t] r(1) show ?thesis by simp
    qed
    with Cons r(4) show ?thesis by simp
  qed simp
qed

section \<open>Properties\<close>

lemma split_on_append_none: "c \<notin> set ys \<Longrightarrow> split_on c (xs @ c # ys) = split_on c xs @ [ys]"
  by (simp add: split_on_append split_on_none)

lemma memory_path_split:
  assumes "uuid_contract uu" "validate_memory_slug slug = Inr ()"
  shows "split_on CHR ''/'' (memory_path uu slug i)
      = MEMORIES_DIR # split_on CHR ''/'' slug @ [uu_show uu i @ MEMORY_EXTENSION]"
    and "\<forall>seg\<in>set (split_on CHR ''/'' (memory_path uu slug i)). seg \<noteq> [] \<and> seg \<noteq> ''.'' \<and> seg \<noteq> ''..''"
proof -
  let ?f = "uu_show uu i @ MEMORY_EXTENSION"
  have "CHR ''/'' \<notin> set (uu_show uu i)" using assms(1) by (simp add: uuid_contract_def)
  then have f: "CHR ''/'' \<notin> set ?f" by (simp add: MEMORY_EXTENSION_def)
  have path: "memory_path uu slug i = MEMORIES_DIR @ CHR ''/'' # (slug @ CHR ''/'' # ?f)"
    by (simp add: memory_path_def)
  have "split_on CHR ''/'' MEMORIES_DIR = [MEMORIES_DIR]" by (simp add: MEMORIES_DIR_def)
  then show split: "split_on CHR ''/'' (memory_path uu slug i) = MEMORIES_DIR # split_on CHR ''/'' slug @ [?f]"
    unfolding path split_on_append using f by (simp add: split_on_none)
  have "length ?f > 2" by (simp add: MEMORY_EXTENSION_def)
  then have "?f \<noteq> []" "?f \<noteq> ''.''" "?f \<noteq> ''..''"
    by (auto simp del: length_append dest!: arg_cong [of _ _ length])
  with valid_slug_no_dotdot [OF assms(2)]
  show "\<forall>seg\<in>set (split_on CHR ''/'' (memory_path uu slug i)). seg \<noteq> [] \<and> seg \<noteq> ''.'' \<and> seg \<noteq> ''..''"
    unfolding split by (auto simp: MEMORIES_DIR_def)
qed

lemma memory_path_slug:
  assumes "uuid_contract uu"
  shows "slug_from_memory_path (memory_path uu slug i) = Some slug"
proof -
  let ?f = "uu_show uu i @ MEMORY_EXTENSION"
  have "CHR ''/'' \<notin> set ?f" using assms by (simp add: uuid_contract_def MEMORY_EXTENSION_def)
  then have "rsplit_once CHR ''/'' (slug @ CHR ''/'' # ?f) = Some (slug, ?f)" by (simp add: rsplit_once_Some)
  moreover have "strip_prefix (memory_path uu slug i) MEMORIES_DIR = Some (CHR ''/'' # (slug @ CHR ''/'' # ?f))"
    by (simp add: memory_path_def)
  ultimately show ?thesis by (simp add: slug_from_memory_path_def)
qed

lemma memory_path_uuid:
  assumes "uuid_contract uu" "validate_memory_slug slug = Inr ()"
  shows "filename_uuid_from_path uu (memory_path uu slug i) = Some i"
  using assms(1) by (simp add: filename_uuid_from_path_def memory_path_split(1) [OF assms] uuid_contract_def)

text \<open>
  C39. A valid slug always names a file inside the memories directory: the path of a memory
  splits into \<open>memories\<close>, the segments of the slug and the id file, none of them empty or a
  dot segment, and the slug and the id can be read back from it, so distinct memories have
  distinct paths.
\<close>

theorem memory_path_roundtrip:
  assumes "uuid_contract uu" and "validate_memory_slug slug = Inr ()"
  shows "split_on CHR ''/'' (memory_path uu slug i)
      = MEMORIES_DIR # split_on CHR ''/'' slug @ [uu_show uu i @ MEMORY_EXTENSION]
    \<and> list_all (\<lambda>seg. seg \<noteq> [] \<and> seg \<noteq> ''.'' \<and> seg \<noteq> ''..'') (split_on CHR ''/'' (memory_path uu slug i))
    \<and> slug_from_memory_path (memory_path uu slug i) = Some slug
    \<and> filename_uuid_from_path uu (memory_path uu slug i) = Some i"
  using memory_path_split [OF assms, of i] memory_path_slug [OF assms(1)] memory_path_uuid [OF assms]
  by (simp add: list_all_iff)

text \<open>An id printer for examples: one letter per unit.\<close>

definition unary_uuids :: uuids where
  "unary_uuids = \<lparr> uu_parse = (\<lambda>s. if s \<noteq> [] \<and> list_all (\<lambda>c. c = CHR ''u'') s
        then Some (of_nat (length s - 1)) else None),
     uu_show = (\<lambda>i. replicate (Suc (unat i)) CHR ''u'') \<rparr>"

lemma unary_uuids_contract: "uuid_contract unary_uuids"
  by (simp add: uuid_contract_def unary_uuids_def list_all_iff byte_def)

theorem memory_path_roundtrip_witness:
  "filename_uuid_from_path unary_uuids (memory_path unary_uuids ''feedback/git'' 2) = Some 2"
proof -
  have "validate_memory_slug ''feedback/git'' = Inr ()" by code_simp
  with memory_path_roundtrip [OF unary_uuids_contract] show ?thesis by blast
qed

text \<open>
  The check of a write: two readable ids that differ are refused exactly for a write
  addressed by its file name without the force flag; they are otherwise reported, never
  dropped, with which kind of acceptance it was, and equal or missing ids pass silently.
\<close>

theorem validate_id_mismatch_spec:
  "validate_id_mismatch sd uu path rendered mode force =
     (case (filename_uuid_from_path uu path, parse_frontmatter_id sd rendered) of
        (Some f, Some g) \<Rightarrow>
          (if f = g then Inr IdMatch
           else if mode \<noteq> ByFilename then Inr (MismatchAccepted f g)
           else if force then Inr (MismatchForced f g)
           else Inl (IdMismatchOnFilenameWrite path f g))
      | _ \<Rightarrow> Inr IdMatch)"
  by (auto simp: validate_id_mismatch_def split: option.splits addressing_mode.splits)

text \<open>
  A listing filter keeps a slug exactly when it is the anchor or lies below it, and without
  recursion at most one level below; an empty or root prefix anchors at the root.
\<close>

theorem slug_matches_filter_spec:
  "slug_matches_filter slug pfx recursion \<longleftrightarrow>
     (if pfx \<in> {None, Some [], Some ''/''} then recursion = Recursive \<or> CHR ''/'' \<notin> set slug
      else slug = the pfx
        \<or> (\<exists>below. slug = the pfx @ ''/'' @ below \<and> (recursion = Recursive \<or> CHR ''/'' \<notin> set below)))"
proof -
  have depth: "length (split_on c s) \<le> 1 \<longleftrightarrow> c \<notin> set s" for c :: char and s
    by (simp add: length_split_on count_list_0_iff)
  show ?thesis
  proof (cases "pfx \<in> {None, Some [], Some ''/''}")
    case True
    then have "slug_matches_filter slug pfx recursion \<longleftrightarrow>
        recursion = Recursive \<or> length (split_on CHR ''/'' slug) \<le> 1"
      by (auto simp: slug_matches_filter_def Let_def split: slug_recursion.splits)
    with True show ?thesis by (simp only: depth if_True)
  next
    case False
    then obtain p where p: "pfx = Some p" "p \<noteq> []" "p \<noteq> ''/''" by auto
    have "slug_matches_filter slug pfx recursion \<longleftrightarrow> slug = p
        \<or> (\<exists>rest below. strip_prefix slug p = Some rest \<and> strip_prefix rest ''/'' = Some below
             \<and> (recursion = Recursive \<or> length (split_on CHR ''/'' below) \<le> 1))"
      using p by (cases "slug = p"; cases recursion)
        (auto simp: slug_matches_filter_def Let_def split: slug_recursion.splits option.splits)
    also have "\<dots> \<longleftrightarrow> slug = p \<or> (\<exists>below. slug = p @ ''/'' @ below
        \<and> (recursion = Recursive \<or> CHR ''/'' \<notin> set below))"
      unfolding strip_prefix_Some depth by auto
    finally show ?thesis using False p by simp
  qed
qed

theorem slug_matches_filter_spec_witness:
  "slug_matches_filter ''a/b'' (Some ''a'') AnchorAndImmediateChildren
   \<and> \<not> slug_matches_filter ''a/b/c'' (Some ''a'') AnchorAndImmediateChildren"
  unfolding slug_matches_filter_spec by simp

lemma segment_ok_take:
  assumes "segment_ok s" "0 < n" "take n s ! (length (take n s) - 1) \<noteq> CHR ''-''"
  shows "segment_ok (take n s)"
proof -
  have ne: "take n s \<noteq> []" using assms(1,2) by (auto simp: segment_ok_def)
  have "s = take n s @ drop n s" by simp
  then have "\<not> contains_str (take n s) ''--''"
    using assms(1) unfolding segment_ok_def contains_str_iff by (metis append_assoc)
  moreover have "list_all slug_char (take n s)"
    using assms(1) by (auto simp: segment_ok_def list_all_iff dest: in_set_takeD)
  moreover have "hd (take n s) = hd s" using assms(2) ne by (cases s; cases n) auto
  ultimately show ?thesis
    using assms ne by (simp add: segment_ok_def last_conv_nth)
qed

text \<open>
  Capping a valid automatic slug gives a valid slug segment within the cap that is a
  prefix of the original and never ends in a hyphen.
\<close>

theorem truncate_slug_valid:
  assumes "segment_ok slug" and "0 < max_len"
  shows "segment_ok (truncate_slug_at_hyphen_boundary slug max_len)
    \<and> length (truncate_slug_at_hyphen_boundary slug max_len) \<le> max_len
    \<and> (\<exists>rest. slug = truncate_slug_at_hyphen_boundary slug max_len @ rest)"
proof (cases "length slug \<le> max_len")
  case True
  with assms show ?thesis by (simp add: truncate_slug_at_hyphen_boundary_def)
next
  case False
  let ?t = "take max_len slug"
  have t: "?t \<noteq> []" "length ?t = max_len" using False assms by auto
  show ?thesis
  proof (cases "rfind CHR ''-'' ?t")
    case None
    then have "CHR ''-'' \<notin> set ?t" by (simp add: rfind_None)
    then have "?t ! (length ?t - 1) \<noteq> CHR ''-''" using t by (metis diff_less length_greater_0_conv nth_mem zero_less_one)
    from segment_ok_take [OF assms this] False None show ?thesis
      by (simp add: truncate_slug_at_hyphen_boundary_def) (metis append_take_drop_id)
  next
    case (Some k)
    then have k: "k < length ?t" "?t ! k = CHR ''-''" by (auto simp: rfind_Some)
    have res: "truncate_slug_at_hyphen_boundary slug max_len = take k slug"
      using False Some k(1) by (simp add: truncate_slug_at_hyphen_boundary_def)
    have k_len: "k < max_len" "slug ! k = CHR ''-''" "k < length slug" using k t False by auto
    have "hd slug \<noteq> CHR ''-''" "slug \<noteq> []" using assms(1) by (auto simp: segment_ok_def)
    with k_len have pos: "0 < k" by (cases k) (auto simp: hd_conv_nth)
    have "slug ! (k - 1) \<noteq> CHR ''-''"
    proof
      assume "slug ! (k - 1) = CHR ''-''"
      moreover have "slug = take (k - 1) slug @ slug ! (k - 1) # slug ! k # drop (Suc k) slug"
        using k_len pos by (metis Cons_nth_drop_Suc Suc_pred' append_take_drop_id less_imp_diff_less)
      ultimately have "slug = take (k - 1) slug @ ''--'' @ drop (Suc k) slug" using k_len(2) by simp
      then have "contains_str slug ''--''" unfolding contains_str_iff by blast
      with assms(1) show False by (simp add: segment_ok_def)
    qed
    then have "take k slug ! (length (take k slug) - 1) \<noteq> CHR ''-''" using k_len pos by simp
    from segment_ok_take [OF assms(1) pos this] k_len show ?thesis
      unfolding res by (simp add: less_imp_le) (metis append_take_drop_id)
  qed
qed

theorem truncate_slug_valid_witness:
  "segment_ok (truncate_slug_at_hyphen_boundary ''abc-def-ghi'' 7)
   \<and> truncate_slug_at_hyphen_boundary ''abc-def-ghi'' 7 = ''abc''"
proof -
  have "segment_ok ''abc-def-ghi''" by code_simp
  with truncate_slug_valid [of "''abc-def-ghi''" 7]
  have "segment_ok (truncate_slug_at_hyphen_boundary ''abc-def-ghi'' 7)" by simp
  moreover have "truncate_slug_at_hyphen_boundary ''abc-def-ghi'' 7 = ''abc''" by code_simp
  ultimately show ?thesis ..
qed

end
