(* ===== verification/Git_Tree.thy ===== *)
theory Git_Tree
  imports Slugs "HOL-Library.List_Lexorder" "HOL-Library.Char_ord"
begin

text \<open>
  Git trees as \<open>mmcp-git\<close> reads them (\<open>native/repo_ops.rs\<close>): the lookup of one entry by
  binary search in git's own order of tree entries, and the walk from a root tree to a blob,
  with the cache of decoded trees that a batch of reads shares. The object database is a map
  from object ids to decoded objects: hashing, encoding and transport belong to \<open>gix\<close>.
\<close>

section \<open>Ordering\<close>

text \<open>\<open>std::cmp::Ordering\<close>, with the comparison of byte slices and of \<open>Option<&u8>\<close>.\<close>

datatype ordering = Less | Equal | Greater

fun cmp_bytes :: "string \<Rightarrow> string \<Rightarrow> ordering" where
  "cmp_bytes [] [] = Equal"
| "cmp_bytes [] (b # bs) = Less"
| "cmp_bytes (a # as) [] = Greater"
| "cmp_bytes (a # as) (b # bs) =
     (if byte a < byte b then Less else if byte b < byte a then Greater else cmp_bytes as bs)"

fun cmp_opt :: "char option \<Rightarrow> char option \<Rightarrow> ordering" where
  "cmp_opt None None = Equal"
| "cmp_opt None (Some b) = Less"
| "cmp_opt (Some a) None = Greater"
| "cmp_opt (Some a) (Some b) =
     (if byte a < byte b then Less else if byte b < byte a then Greater else Equal)"

definition then_with :: "ordering \<Rightarrow> ordering \<Rightarrow> ordering" where
  "then_with a b = (case a of Equal \<Rightarrow> b | _ \<Rightarrow> a)"

lemma then_with_simps [simp]: "then_with Less b = Less" "then_with Equal b = b" "then_with Greater b = Greater"
  by (simp_all add: then_with_def)

lemma char_less_byte: "c < d \<longleftrightarrow> byte c < byte d"
  by (simp add: less_char_def byte_def)

lemma cmp_bytes_Equal [simp]: "cmp_bytes a b = Equal \<longleftrightarrow> a = b"
  by (induction a b rule: cmp_bytes.induct) (auto simp: not_less)

lemma cmp_bytes_Less [simp]: "cmp_bytes a b = Less \<longleftrightarrow> a < b"
  by (induction a b rule: cmp_bytes.induct) (auto simp: char_less_byte not_less)

lemma cmp_bytes_Greater [simp]: "cmp_bytes a b = Greater \<longleftrightarrow> b < a"
  by (induction a b rule: cmp_bytes.induct) (auto simp: char_less_byte not_less)

text \<open>
  \<open>slice::binary_search_by\<close> as the standard library runs it: halve the window until one
  element is left, then compare that one.
\<close>

function bs_loop :: "('a \<Rightarrow> ordering) \<Rightarrow> 'a list \<Rightarrow> nat \<Rightarrow> nat \<Rightarrow> nat" where
  "bs_loop f xs base sz =
     (if sz \<le> 1 then base
      else
        (let half = sz div 2; mid = base + half
         in bs_loop f xs (if f (xs ! mid) = Greater then base else mid) (sz - half)))"
  by pat_completeness auto
termination by (relation "measure (\<lambda>(_, _, _, sz). sz)") auto

declare bs_loop.simps [simp del]

definition binary_search_by :: "('a \<Rightarrow> ordering) \<Rightarrow> 'a list \<Rightarrow> nat option" where
  "binary_search_by f xs =
     (if xs = [] then None
      else let base = bs_loop f xs 0 (length xs) in if f (xs ! base) = Equal then Some base else None)"

lemma bs_loop_bound: "0 < sz \<Longrightarrow> bs_loop f xs base sz < base + sz"
proof (induction f xs base sz rule: bs_loop.induct)
  case (1 f xs base sz)
  show ?case
  proof (cases "sz \<le> 1")
    case True
    with 1 show ?thesis by (simp add: bs_loop.simps)
  next
    case False
    with "1.IH" [OF False refl refl] show ?thesis
      by (subst bs_loop.simps) (auto simp: Let_def split: if_splits)
  qed
qed

lemma bs_loop_finds:
  assumes "base \<le> k" "k < base + sz" "base + sz \<le> length xs"
    and "\<And>i. i < k \<Longrightarrow> f (xs ! i) \<noteq> Greater" and "f (xs ! k) \<noteq> Greater"
    and "\<And>i. \<lbrakk> k < i; i < length xs \<rbrakk> \<Longrightarrow> f (xs ! i) = Greater"
  shows "bs_loop f xs base sz = k"
  using assms
proof (induction f xs base sz rule: bs_loop.induct)
  case (1 f xs base sz)
  show ?case
  proof (cases "sz \<le> 1")
    case True
    with 1 show ?thesis by (simp add: bs_loop.simps)
  next
    case False
    define mid where "mid = base + sz div 2"
    have mid: "mid < base + sz" "base < mid" using False by (auto simp: mid_def)
    have step: "bs_loop f xs base sz
        = bs_loop f xs (if f (xs ! mid) = Greater then base else mid) (sz - sz div 2)"
      using False by (subst bs_loop.simps) (simp add: Let_def mid_def)
    show ?thesis
    proof (cases "f (xs ! mid) = Greater")
      case True
      then have "k < mid" using "1.prems"(4,5) by (metis linorder_neqE_nat)
      then have "k < base + (sz - sz div 2)" using mid_def by simp
      with "1.IH" [OF False refl refl] "1.prems" True step show ?thesis by (simp add: mid_def)
    next
      case f: False
      then have "mid \<le> k" using "1.prems"(3,6) mid by (metis less_le_trans not_le)
      with "1.IH" [OF False refl refl] "1.prems" f step show ?thesis
        by (simp add: mid_def)
    qed
  qed
qed

lemma binary_search_by_Some:
  "binary_search_by f xs = Some i \<Longrightarrow> i < length xs \<and> f (xs ! i) = Equal"
  using bs_loop_bound [of "length xs" f xs 0] by (auto simp: binary_search_by_def Let_def split: if_splits)

lemma binary_search_by_finds:
  assumes "k < length xs" "f (xs ! k) = Equal"
    and "\<And>i. i < k \<Longrightarrow> f (xs ! i) \<noteq> Greater"
    and "\<And>i. \<lbrakk> k < i; i < length xs \<rbrakk> \<Longrightarrow> f (xs ! i) = Greater"
  shows "binary_search_by f xs = Some k"
proof -
  have "bs_loop f xs 0 (length xs) = k" by (rule bs_loop_finds) (use assms in auto)
  with assms show ?thesis by (auto simp: binary_search_by_def)
qed

section \<open>Tree entries\<close>

text \<open>\<open>gix::ObjectId\<close>, a string of bytes.\<close>

type_synonym oid = string

datatype entry_kind = KTree | KBlob | KBlobExecutable | KLink | KCommit

record tree_entry =
  te_mode :: entry_kind
  te_filename :: string
  te_oid :: oid

definition is_tree :: "tree_entry \<Rightarrow> bool" where
  "is_tree e \<longleftrightarrow> te_mode e = KTree"

definition is_blob_kind :: "entry_kind \<Rightarrow> bool" where
  "is_blob_kind k \<longleftrightarrow> k = KBlob \<or> k = KBlobExecutable"

definition entry_cmp :: "tree_entry \<Rightarrow> string \<Rightarrow> bool \<Rightarrow> ordering" where
  "entry_cmp entry name expect_tree =
     (let common = min (length (te_filename entry)) (length name);
          entry_tail = (case get_opt (te_filename entry) common of
                          Some c \<Rightarrow> Some c
                        | None \<Rightarrow> if is_tree entry then Some CHR ''/'' else None);
          name_tail = (case get_opt name common of
                         Some c \<Rightarrow> Some c
                       | None \<Rightarrow> if expect_tree then Some CHR ''/'' else None)
      in then_with (cmp_bytes (take common (te_filename entry)) (take common name))
           (cmp_opt entry_tail name_tail))"

definition find_tree_entry :: "tree_entry list \<Rightarrow> string \<Rightarrow> bool \<Rightarrow> tree_entry option" where
  "find_tree_entry entries name expect_tree =
     map_option (\<lambda>i. entries ! i) (binary_search_by (\<lambda>entry. entry_cmp entry name expect_tree) entries)"

text \<open>
  Git's order compares the names with a directory's name ending in a separator. A tree of the
  object database is sorted by it, and its names are distinct and single components.
\<close>

definition slash_if :: "bool \<Rightarrow> string" where
  "slash_if b = (if b then ''/'' else [])"

definition entry_key :: "tree_entry \<Rightarrow> string" where
  "entry_key e = te_filename e @ slash_if (is_tree e)"

definition component_ok :: "string \<Rightarrow> bool" where
  "component_ok c \<longleftrightarrow> c \<noteq> [] \<and> CHR ''/'' \<notin> set c"

definition tree_ok :: "tree_entry list \<Rightarrow> bool" where
  "tree_ok es \<longleftrightarrow> sorted_wrt (\<lambda>a b. entry_key a < entry_key b) es
     \<and> distinct (map te_filename es) \<and> list_all (\<lambda>e. component_ok (te_filename e)) es"

lemma cmp_bytes_same_prefix [simp]: "cmp_bytes (xs @ ys) (xs @ zs) = cmp_bytes ys zs"
  by (induction xs) auto

lemma entry_cmp_key:
  assumes "CHR ''/'' \<notin> set (te_filename e)" "CHR ''/'' \<notin> set name"
  shows "entry_cmp e name t = cmp_bytes (entry_key e) (name @ slash_if t)"
proof -
  have "then_with (cmp_bytes (take (min (length f) (length n)) f) (take (min (length f) (length n)) n))
      (cmp_opt
        (case get_opt f (min (length f) (length n)) of Some c \<Rightarrow> Some c
         | None \<Rightarrow> if is_tree e then Some CHR ''/'' else None)
        (case get_opt n (min (length f) (length n)) of Some c \<Rightarrow> Some c
         | None \<Rightarrow> if t then Some CHR ''/'' else None))
      = cmp_bytes (f @ slash_if (is_tree e)) (n @ slash_if t)"
    if "CHR ''/'' \<notin> set f" "CHR ''/'' \<notin> set n" for f n
    using that
  proof (induction f n rule: cmp_bytes.induct)
    case (4 a as b bs)
    then show ?case by (auto simp: get_opt_def)
  qed (auto simp: get_opt_def slash_if_def)
  from this [OF assms] show ?thesis by (simp add: entry_cmp_def entry_key_def)
qed

lemma entry_key_eq:
  assumes "CHR ''/'' \<notin> set (te_filename e)" "CHR ''/'' \<notin> set name"
  shows "entry_key e = name @ slash_if t \<longleftrightarrow> te_filename e = name \<and> is_tree e = t"
proof
  assume *: "entry_key e = name @ slash_if t"
  then have "CHR ''/'' \<in> set (entry_key e) \<longleftrightarrow> t" using assms(2) by (auto simp: slash_if_def)
  then have "is_tree e = t" using assms(1) by (auto simp: entry_key_def slash_if_def)
  with * show "te_filename e = name \<and> is_tree e = t" by (simp add: entry_key_def)
qed (simp add: entry_key_def)

lemma find_tree_entry_iff:
  assumes "tree_ok es" "CHR ''/'' \<notin> set name"
  shows "find_tree_entry es name t = Some e \<longleftrightarrow> e \<in> set es \<and> te_filename e = name \<and> is_tree e = t"
proof -
  let ?f = "\<lambda>entry. entry_cmp entry name t"
  have slash: "x \<in> set es \<Longrightarrow> CHR ''/'' \<notin> set (te_filename x)" for x
    using assms(1) by (auto simp: tree_ok_def list_all_iff component_ok_def)
  have f: "x \<in> set es \<Longrightarrow> ?f x = cmp_bytes (entry_key x) (name @ slash_if t)" for x
    using slash assms(2) by (simp add: entry_cmp_key)
  have eq: "x \<in> set es \<Longrightarrow> ?f x = Equal \<longleftrightarrow> te_filename x = name \<and> is_tree x = t" for x
    using f slash entry_key_eq assms(2) by simp
  have sorted: "\<lbrakk> i < j; j < length es \<rbrakk> \<Longrightarrow> entry_key (es ! i) < entry_key (es ! j)" for i j
    using assms(1) by (simp add: tree_ok_def sorted_wrt_iff_nth_less)
  show ?thesis
  proof
    assume "find_tree_entry es name t = Some e"
    then obtain i where "binary_search_by ?f es = Some i" "e = es ! i"
      by (auto simp: find_tree_entry_def)
    with binary_search_by_Some [of ?f es i] eq [of e] show "e \<in> set es \<and> te_filename e = name \<and> is_tree e = t"
      by auto
  next
    assume *: "e \<in> set es \<and> te_filename e = name \<and> is_tree e = t"
    then obtain k where k: "k < length es" "es ! k = e" by (auto simp: in_set_conv_nth)
    have key: "entry_key e = name @ slash_if t" using * slash entry_key_eq assms(2) by simp
    have "binary_search_by ?f es = Some k"
    proof (rule binary_search_by_finds)
      show "?f (es ! k) = Equal" using eq [of e] * k by simp
      show "?f (es ! i) \<noteq> Greater" if "i < k" for i
        using sorted [OF that k(1)] f [of "es ! i"] that k key by simp
      show "?f (es ! i) = Greater" if "k < i" "i < length es" for i
        using sorted [OF that] f [of "es ! i"] that k key by simp
    qed (rule k(1))
    then show "find_tree_entry es name t = Some e" by (simp add: find_tree_entry_def k(2))
  qed
qed

section \<open>Repositories\<close>

record signature =
  sig_name :: string
  sig_email :: string
  sig_time :: int

record git_commit =
  cm_tree :: oid
  cm_parents :: "oid list"
  cm_author :: signature
  cm_committer :: signature
  cm_message :: string

datatype git_object = BlobObj string | TreeObj "tree_entry list" | CommitObj git_commit

text \<open>
  \<open>HEAD\<close> names a ref or, detached, a commit. \<open>g_encode\<close> is the stored encoding of the objects
  that are not blobs.
\<close>

datatype git_head = SymbolicHead string | DetachedHead oid

record repo =
  g_head :: git_head
  g_refs :: "string \<Rightarrow> oid option"
  g_objects :: "oid \<Rightarrow> git_object option"
  g_encode :: "git_object \<Rightarrow> string"

text \<open>
  \<open>GitError\<close>. The sources of the wrapped errors are texts. \<open>TaskJoin\<close> is what a caller of
  the backend sees when the blocking task panics: \<open>into_commit\<close> and \<open>into_tree\<close> of \<open>gix\<close>
  panic on an object of another kind.
\<close>

datatype git_error =
    RepoNotFound string
  | PathNotFound string
  | RevNotFound string
  | GitIo string
  | OpenRepo string string
  | ResolveRev string
  | ReadBlob string
  | CommitError string
  | RefUpdate string string
  | ManifestError string string
  | TaskJoin string
  | Unsupported string
  | Transport string string string
  | TimeoutError string string nat
  | Utf8Error

definition find_object :: "repo \<Rightarrow> oid \<Rightarrow> (string \<Rightarrow> git_error) \<Rightarrow> git_error + git_object" where
  "find_object r i err = ok_or (err ''object not found'') (g_objects r i)"

definition into_tree :: "git_object \<Rightarrow> git_error + tree_entry list" where
  "into_tree obj = (case obj of TreeObj es \<Rightarrow> Inr es | _ \<Rightarrow> Inl (TaskJoin ''not a tree''))"

definition into_commit :: "git_object \<Rightarrow> git_error + git_commit" where
  "into_commit obj = (case obj of CommitObj c \<Rightarrow> Inr c | _ \<Rightarrow> Inl (TaskJoin ''not a commit''))"

definition path_components :: "string \<Rightarrow> string list" where
  "path_components path = filter (\<lambda>c. c \<noteq> []) (split_on CHR ''/'' path)"

section \<open>From a root tree to a blob\<close>

type_synonym tree_cache = "oid \<Rightarrow> tree_entry list option"

definition load_tree :: "repo \<Rightarrow> tree_cache \<Rightarrow> oid \<Rightarrow> (git_error + tree_entry list) \<times> tree_cache" where
  "load_tree r cache i =
     (case cache i of
        Some es \<Rightarrow> (Inr es, cache)
      | None \<Rightarrow>
          (case bind_res (find_object r i ReadBlob) into_tree of
             Inl e \<Rightarrow> (Inl e, cache)
           | Inr es \<Rightarrow> (Inr es, cache(i \<mapsto> es))))"

fun find_blob_loop ::
  "repo \<Rightarrow> tree_cache \<Rightarrow> oid \<Rightarrow> string list \<Rightarrow> (git_error + oid option) \<times> tree_cache" where
  "find_blob_loop r cache current [] = (Inr None, cache)"
| "find_blob_loop r cache current (name # rest) =
     (case load_tree r cache current of
        (Inl e, cache1) \<Rightarrow> (Inl e, cache1)
      | (Inr es, cache1) \<Rightarrow>
          let is_last = (rest = []) in
          (case find_tree_entry es name (\<not> is_last) of
             None \<Rightarrow> (Inr None, cache1)
           | Some entry \<Rightarrow>
               if is_blob_kind (te_mode entry) \<and> is_last then (Inr (Some (te_oid entry)), cache1)
               else if te_mode entry = KTree \<and> \<not> is_last then find_blob_loop r cache1 (te_oid entry) rest
               else (Inr None, cache1)))"

definition find_blob_in_tree_cached ::
  "repo \<Rightarrow> tree_cache \<Rightarrow> oid \<Rightarrow> string \<Rightarrow> (git_error + oid option) \<times> tree_cache" where
  "find_blob_in_tree_cached r cache root path =
     (let components = path_components path
      in if components = [] then (Inr None, cache) else find_blob_loop r cache root components)"

definition find_blob_in_tree :: "repo \<Rightarrow> oid \<Rightarrow> string \<Rightarrow> git_error + oid option" where
  "find_blob_in_tree r root path = fst (find_blob_in_tree_cached r Map.empty root path)"

fun resolve_prefix_loop :: "repo \<Rightarrow> oid \<Rightarrow> string list \<Rightarrow> git_error + oid option" where
  "resolve_prefix_loop r current [] = Inr (Some current)"
| "resolve_prefix_loop r current (name # rest) =
     bind_res (find_object r current ReadBlob) (\<lambda>obj.
     bind_res (into_tree obj) (\<lambda>es.
       case find_tree_entry es name True of
         None \<Rightarrow> Inr None
       | Some entry \<Rightarrow>
           if te_mode entry = KTree then resolve_prefix_loop r (te_oid entry) rest else Inr None))"

definition resolve_tree_prefix :: "repo \<Rightarrow> oid \<Rightarrow> string \<Rightarrow> git_error + oid option" where
  "resolve_tree_prefix r root path_prefix = resolve_prefix_loop r root (path_components path_prefix)"

definition blob_bytes :: "repo \<Rightarrow> oid \<Rightarrow> git_error + string" where
  "blob_bytes r i =
     bind_res (find_object r i ReadBlob) (\<lambda>obj.
       case obj of BlobObj b \<Rightarrow> Inr b | _ \<Rightarrow> Inr (g_encode r obj))"

section \<open>The cache changes nothing\<close>

text \<open>A cache is sound when it only holds trees of the object database.\<close>

definition cache_ok :: "repo \<Rightarrow> tree_cache \<Rightarrow> bool" where
  "cache_ok r cache \<longleftrightarrow> (\<forall>i es. cache i = Some es \<longrightarrow> g_objects r i = Some (TreeObj es))"

lemma cache_ok_empty [simp]: "cache_ok r Map.empty"
  by (simp add: cache_ok_def)

definition tree_at :: "repo \<Rightarrow> oid \<Rightarrow> git_error + tree_entry list" where
  "tree_at r i = bind_res (find_object r i ReadBlob) into_tree"

lemma tree_at_Some [simp]: "g_objects r i = Some (TreeObj es) \<Longrightarrow> tree_at r i = Inr es"
  by (simp add: tree_at_def find_object_def into_tree_def)

lemma tree_at_Inr: "tree_at r i = Inr es \<longleftrightarrow> g_objects r i = Some (TreeObj es)"
  by (cases "g_objects r i") (auto simp: tree_at_def find_object_def into_tree_def split: git_object.splits)

lemma load_tree_sound:
  assumes "cache_ok r cache"
  shows "fst (load_tree r cache i) = tree_at r i \<and> cache_ok r (snd (load_tree r cache i))"
proof (cases "cache i")
  case None
  show ?thesis
  proof (cases "tree_at r i")
    case (Inr es)
    then have "g_objects r i = Some (TreeObj es)" by (simp add: tree_at_Inr)
    with assms Inr None show ?thesis
      by (auto simp: load_tree_def tree_at_def cache_ok_def split: if_splits)
  next
    case (Inl e)
    with assms None show ?thesis by (simp add: load_tree_def tree_at_def)
  qed
next
  case (Some es)
  with assms show ?thesis by (simp add: load_tree_def cache_ok_def)
qed

text \<open>The walk without a cache.\<close>

fun walk_blob :: "repo \<Rightarrow> oid \<Rightarrow> string list \<Rightarrow> git_error + oid option" where
  "walk_blob r current [] = Inr None"
| "walk_blob r current (name # rest) =
     bind_res (tree_at r current) (\<lambda>es.
       case find_tree_entry es name (rest \<noteq> []) of
         None \<Rightarrow> Inr None
       | Some entry \<Rightarrow>
           if is_blob_kind (te_mode entry) \<and> rest = [] then Inr (Some (te_oid entry))
           else if te_mode entry = KTree \<and> rest \<noteq> [] then walk_blob r (te_oid entry) rest
           else Inr None)"

lemma find_blob_loop_walk:
  assumes "cache_ok r cache"
  shows "fst (find_blob_loop r cache current cs) = walk_blob r current cs
    \<and> cache_ok r (snd (find_blob_loop r cache current cs))"
  using assms
proof (induction cs arbitrary: cache current)
  case Nil
  then show ?case by simp
next
  case (Cons name rest)
  obtain res cache1 where load: "load_tree r cache current = (res, cache1)" by fastforce
  have t: "tree_at r current = res" and c: "cache_ok r cache1"
    using load_tree_sound [OF Cons.prems, of current] load by simp_all
  show ?case
  proof (cases res)
    case (Inl e)
    with load t c show ?thesis by simp
  next
    case (Inr es)
    show ?thesis
    proof (cases "find_tree_entry es name (rest \<noteq> [])")
      case None
      with load t c Inr show ?thesis by simp
    next
      case (Some entry)
      from Cons.IH [OF c, of "te_oid entry"] load t c Inr Some show ?thesis by auto
    qed
  qed
qed

lemma find_blob_in_tree_cached_walk:
  assumes "cache_ok r cache"
  shows "fst (find_blob_in_tree_cached r cache root path) = walk_blob r root (path_components path)
    \<and> cache_ok r (snd (find_blob_in_tree_cached r cache root path))"
  using find_blob_loop_walk [OF assms, of root "path_components path"] assms
  by (cases "path_components path") (auto simp: find_blob_in_tree_cached_def Let_def)

lemma find_blob_in_tree_walk: "find_blob_in_tree r root path = walk_blob r root (path_components path)"
  using find_blob_in_tree_cached_walk [OF cache_ok_empty] by (simp add: find_blob_in_tree_def)

section \<open>What the walk finds\<close>

text \<open>
  The entry at a list of components, by name and without any order: the specification of the
  walk on a well-formed database, where every tree is in order and every entry leads to an
  object of its kind.
\<close>

definition entry_named :: "tree_entry list \<Rightarrow> string \<Rightarrow> tree_entry option" where
  "entry_named es name = find (\<lambda>e. te_filename e = name) es"

fun entry_at :: "repo \<Rightarrow> oid \<Rightarrow> string list \<Rightarrow> tree_entry option" where
  "entry_at r root [] = None"
| "entry_at r root (name # rest) =
     (case g_objects r root of
        Some (TreeObj es) \<Rightarrow>
          (case entry_named es name of
             None \<Rightarrow> None
           | Some e \<Rightarrow>
               if rest = [] then Some e
               else if is_tree e then entry_at r (te_oid e) rest else None)
      | _ \<Rightarrow> None)"

definition blob_at :: "repo \<Rightarrow> oid \<Rightarrow> string list \<Rightarrow> oid option" where
  "blob_at r root cs =
     (case entry_at r root cs of
        Some e \<Rightarrow> if is_blob_kind (te_mode e) then Some (te_oid e) else None
      | None \<Rightarrow> None)"

lemma entry_named_Cons [simp]:
  "entry_named (e # es) n = (if te_filename e = n then Some e else entry_named es n)"
  by (simp add: entry_named_def)

definition entry_sound :: "repo \<Rightarrow> tree_entry \<Rightarrow> bool" where
  "entry_sound r e \<longleftrightarrow>
     (is_tree e \<longrightarrow> (\<exists>es. g_objects r (te_oid e) = Some (TreeObj es)))
     \<and> (is_blob_kind (te_mode e) \<longrightarrow> (\<exists>b. g_objects r (te_oid e) = Some (BlobObj b)))"

definition objects_ok :: "repo \<Rightarrow> bool" where
  "objects_ok r \<longleftrightarrow>
     (\<forall>i es. g_objects r i = Some (TreeObj es) \<longrightarrow> tree_ok es \<and> list_all (entry_sound r) es)"

lemma objects_okD:
  "\<lbrakk> objects_ok r; g_objects r i = Some (TreeObj es) \<rbrakk> \<Longrightarrow> tree_ok es"
  "\<lbrakk> objects_ok r; g_objects r i = Some (TreeObj es); e \<in> set es \<rbrakk> \<Longrightarrow> entry_sound r e"
  by (auto simp: objects_ok_def list_all_iff)

lemma entry_named_Some:
  "distinct (map te_filename es) \<Longrightarrow> entry_named es name = Some e \<longleftrightarrow> e \<in> set es \<and> te_filename e = name"
proof (induction es)
  case (Cons a es)
  then show ?case by (force simp: entry_named_def)
qed (simp add: entry_named_def)

lemma find_tree_entry_named:
  assumes "tree_ok es" "component_ok name"
  shows "find_tree_entry es name t =
     (case entry_named es name of None \<Rightarrow> None | Some e \<Rightarrow> if is_tree e = t then Some e else None)"
proof -
  have d: "distinct (map te_filename es)" "CHR ''/'' \<notin> set name"
    using assms by (auto simp: tree_ok_def component_ok_def)
  show ?thesis
  proof (cases "find_tree_entry es name t")
    case (Some e)
    then have "entry_named es name = Some e" "is_tree e = t"
      using find_tree_entry_iff [OF assms(1) d(2), of t e] entry_named_Some [OF d(1), of name e] by auto
    with Some show ?thesis by simp
  next
    case None
    have "is_tree e \<noteq> t" if "entry_named es name = Some e" for e
      using that None find_tree_entry_iff [OF assms(1) d(2), of t e] entry_named_Some [OF d(1)] by auto
    with None show ?thesis by (auto split: option.split)
  qed
qed

lemma walk_blob_spec:
  assumes "objects_ok r" "g_objects r root = Some (TreeObj es)" "list_all component_ok cs"
  shows "walk_blob r root cs = Inr (blob_at r root cs)"
  using assms(2,3)
proof (induction cs arbitrary: root es)
  case Nil
  then show ?case by (simp add: blob_at_def)
next
  case (Cons name rest)
  note found = find_tree_entry_named [OF objects_okD(1) [OF assms(1) Cons.prems(1)], of name "rest \<noteq> []"]
  show ?case
  proof (cases "entry_named es name")
    case None
    with Cons.prems found show ?thesis by (simp add: blob_at_def tree_at_def find_object_def into_tree_def)
  next
    case (Some e)
    then have e: "e \<in> set es" by (auto simp: entry_named_def find_Some_iff)
    have t: "tree_at r root = Inr es" using Cons.prems(1) by simp
    show ?thesis
    proof (cases "is_tree e \<and> rest \<noteq> []")
      case True
      then obtain es' where "g_objects r (te_oid e) = Some (TreeObj es')"
        using objects_okD(2) [OF assms(1) Cons.prems(1) e] by (auto simp: entry_sound_def)
      from Cons.IH [OF this] True Cons.prems Some found t show ?thesis
        by (simp add: blob_at_def is_tree_def is_blob_kind_def)
    next
      case False
      with Cons.prems(1) Some have "blob_at r root (name # rest)
          = (if rest = [] \<and> is_blob_kind (te_mode e) then Some (te_oid e) else None)"
        by (simp add: blob_at_def)
      moreover have "walk_blob r root (name # rest)
          = Inr (if rest = [] \<and> is_blob_kind (te_mode e) then Some (te_oid e) else None)"
        using False Cons.prems(2) Some found t
        by (cases "te_mode e"; cases rest) (simp_all add: is_tree_def is_blob_kind_def)
      ultimately show ?thesis by simp
    qed
  qed
qed

lemma path_components_ok: "list_all component_ok (path_components path)"
  using split_on_no_sep [of "CHR ''/''" path] by (auto simp: path_components_def list_all_iff component_ok_def)

lemma find_blob_in_tree_spec:
  assumes "objects_ok r" "g_objects r root = Some (TreeObj es)"
  shows "find_blob_in_tree r root path = Inr (blob_at r root (path_components path))"
  by (simp add: find_blob_in_tree_walk walk_blob_spec [OF assms path_components_ok])

end
