(* ===== verification/Git_Repo.thy ===== *)
theory Git_Repo
  imports Git_Tree
begin

text \<open>
  The operations of the native git backend on an open repository (\<open>mmcp-git\<close>,
  \<open>native/repo_ops.rs\<close> and \<open>types.rs\<close>): resolution of revisions, reads, listings, commits,
  fast-forward, history and the parts of a push that run before the \<open>git\<close> subprocess.
  What \<open>gix\<close> computes (hex ids, tree traversal, the tree editor, object and ref writes, merge
  bases, the revision walk) is the record \<open>gix\<close>; \<open>gix_backend\<close> names the behaviour of it the
  code relies on.
\<close>

section \<open>Values\<close>

definition MAIN_BRANCH :: string where "MAIN_BRANCH = ''main''"

datatype rev = Branch string | Tag string | Commit string | Head

definition rev_main :: rev where "rev_main = Branch MAIN_BRANCH"

definition rev_canonical :: "rev \<Rightarrow> string" where
  "rev_canonical rv =
     (case rv of Branch name \<Rightarrow> ''refs/heads/'' @ name | Tag name \<Rightarrow> ''refs/tags/'' @ name
      | Commit i \<Rightarrow> i | Head \<Rightarrow> ''HEAD'')"

record ref_spec =
  rs_local :: string
  rs_remote :: string
  rs_force :: bool

definition ref_spec_new :: "string \<Rightarrow> string \<Rightarrow> ref_spec" where
  "ref_spec_new l r = \<lparr> rs_local = l, rs_remote = r, rs_force = False \<rparr>"

definition forced :: "ref_spec \<Rightarrow> ref_spec" where
  "forced s = s\<lparr> rs_force := True \<rparr>"

record commit_spec =
  cs_branch :: string
  cs_author_name :: string
  cs_author_email :: string
  cs_message :: string
  cs_files :: "(string \<times> string option) list"

definition mmcp_commit :: "string \<Rightarrow> (string \<times> string option) list \<Rightarrow> string \<Rightarrow> string \<Rightarrow> commit_spec" where
  "mmcp_commit message files author_name author_email =
     \<lparr> cs_branch = MAIN_BRANCH, cs_author_name = author_name, cs_author_email = author_email,
       cs_message = message, cs_files = files \<rparr>"

datatype ff_outcome =
    AlreadyAt string
  | Advanced "string option" string
  | NotFastForward string string

record push_report =
  pr_updated :: "(string \<times> string) list"
  pr_rejected :: "(string \<times> string) list"

record commit_meta =
  me_id :: string
  me_subject :: string
  me_message :: string
  me_author_name :: string
  me_author_email :: string
  me_timestamp :: int

record 'ed gix =
  gx_from_hex :: "string \<Rightarrow> oid option"
  gx_to_hex :: "oid \<Rightarrow> string"
  gx_ref_err :: "string \<Rightarrow> string"
  gx_files :: "repo \<Rightarrow> oid \<Rightarrow> (entry_kind \<times> string) list option"
  gx_lookup :: "repo \<Rightarrow> oid \<Rightarrow> string list \<Rightarrow> string + entry_kind option"
  gx_empty_tree :: oid
  gx_edit_tree :: "repo \<Rightarrow> oid \<Rightarrow> 'ed option"
  gx_get :: "'ed \<Rightarrow> string list \<Rightarrow> entry_kind option"
  gx_upsert :: "'ed \<Rightarrow> string list \<Rightarrow> entry_kind \<Rightarrow> oid \<Rightarrow> 'ed option"
  gx_remove :: "'ed \<Rightarrow> string list \<Rightarrow> 'ed option"
  gx_write_tree :: "repo \<Rightarrow> 'ed \<Rightarrow> (repo \<times> oid) option"
  gx_write_object :: "repo \<Rightarrow> git_object \<Rightarrow> (repo \<times> oid) option"
  gx_update_ref :: "repo \<Rightarrow> string \<Rightarrow> oid \<Rightarrow> string + repo"
  gx_merge_base :: "repo \<Rightarrow> oid \<Rightarrow> oid \<Rightarrow> string + oid option"
  gx_rev_walk :: "repo \<Rightarrow> oid \<Rightarrow> oid list option"

section \<open>Revisions\<close>

definition find_reference :: "repo \<Rightarrow> string \<Rightarrow> oid option" where
  "find_reference r name = g_refs r name"

definition head_id :: "repo \<Rightarrow> oid option" where
  "head_id r = (case g_head r of SymbolicHead name \<Rightarrow> g_refs r name | DetachedHead i \<Rightarrow> Some i)"

definition branch_ref :: "string \<Rightarrow> string" where
  "branch_ref name = ''refs/heads/'' @ name"

definition resolve_head :: "repo \<Rightarrow> git_error + oid" where
  "resolve_head r =
     (case head_id r of
        Some i \<Rightarrow> Inr i
      | None \<Rightarrow>
          (case find_reference r (branch_ref MAIN_BRANCH) of
             Some i \<Rightarrow> Inr i
           | None \<Rightarrow> ok_or (RevNotFound ''HEAD'') (find_reference r (branch_ref ''master''))))"

definition resolve_rev :: "'ed gix \<Rightarrow> repo \<Rightarrow> rev \<Rightarrow> git_error + oid" where
  "resolve_rev g r rv =
     (case rv of
        Branch name \<Rightarrow> (let full = branch_ref name in ok_or (RevNotFound full) (find_reference r full))
      | Tag name \<Rightarrow> (let full = ''refs/tags/'' @ name in ok_or (RevNotFound full) (find_reference r full))
      | Commit hex \<Rightarrow> ok_or (RevNotFound hex) (gx_from_hex g hex)
      | Head \<Rightarrow> resolve_head r)"

definition commit_at :: "repo \<Rightarrow> oid \<Rightarrow> (string \<Rightarrow> git_error) \<Rightarrow> git_error + git_commit" where
  "commit_at r i err = bind_res (find_object r i err) into_commit"

definition root_tree_id :: "'ed gix \<Rightarrow> repo \<Rightarrow> rev \<Rightarrow> git_error + oid" where
  "root_tree_id g r rv =
     bind_res (resolve_rev g r rv) (\<lambda>commit_id. map_ok cm_tree (commit_at r commit_id ResolveRev))"

definition commit_meta_of :: "'ed gix \<Rightarrow> oid \<Rightarrow> git_commit \<Rightarrow> commit_meta" where
  "commit_meta_of g i c =
     \<lparr> me_id = gx_to_hex g i,
       me_subject = (case lines (cm_message c) of [] \<Rightarrow> [] | l # _ \<Rightarrow> l),
       me_message = cm_message c,
       me_author_name = sig_name (cm_author c),
       me_author_email = sig_email (cm_author c),
       me_timestamp = sig_time (cm_author c) \<rparr>"

definition tip_commit :: "'ed gix \<Rightarrow> repo \<Rightarrow> rev \<Rightarrow> git_error + commit_meta" where
  "tip_commit g r rv =
     bind_res (resolve_rev g r rv) (\<lambda>i. map_ok (commit_meta_of g i) (commit_at r i ResolveRev))"

section \<open>Reads\<close>

definition read_blob_at_tree :: "repo \<Rightarrow> oid \<Rightarrow> string \<Rightarrow> git_error + string" where
  "read_blob_at_tree r root path =
     bind_res (find_blob_in_tree r root path) (\<lambda>found.
     bind_res (ok_or (PathNotFound path) found) (blob_bytes r))"

definition read_file :: "'ed gix \<Rightarrow> repo \<Rightarrow> string \<Rightarrow> rev \<Rightarrow> git_error + string" where
  "read_file g r path rv = bind_res (root_tree_id g r rv) (\<lambda>root. read_blob_at_tree r root path)"

type_synonym batch = "(string \<times> (git_error + string)) list"

fun read_batch :: "repo \<Rightarrow> tree_cache \<Rightarrow> oid \<Rightarrow> string list \<Rightarrow> batch" where
  "read_batch r cache root [] = []"
| "read_batch r cache root (path # paths) =
     (let (found, cache1) = find_blob_in_tree_cached r cache root path
      in (path, bind_res found (\<lambda>b. bind_res (ok_or (PathNotFound path) b) (blob_bytes r)))
         # read_batch r cache1 root paths)"

definition read_files :: "'ed gix \<Rightarrow> repo \<Rightarrow> string list \<Rightarrow> rev \<Rightarrow> git_error + batch" where
  "read_files g r paths rv =
     bind_res (root_tree_id g r rv) (\<lambda>root. Inr (read_batch r Map.empty root paths))"

lemma read_batch_each:
  "cache_ok r cache \<Longrightarrow> read_batch r cache root paths = map (\<lambda>p. (p, read_blob_at_tree r root p)) paths"
proof (induction paths arbitrary: cache)
  case (Cons p paths)
  obtain found cache1 where f: "find_blob_in_tree_cached r cache root p = (found, cache1)" by fastforce
  with find_blob_in_tree_cached_walk [OF Cons.prems, of root p]
  have "found = find_blob_in_tree r root p" "cache_ok r cache1" by (simp_all add: find_blob_in_tree_walk)
  with f Cons.IH [of cache1] show ?case by (simp add: read_blob_at_tree_def)
qed simp

lemma read_files_map:
  "read_files g r paths rv =
     map_ok (\<lambda>root. map (\<lambda>p. (p, read_blob_at_tree r root p)) paths) (root_tree_id g r rv)"
  by (cases "root_tree_id g r rv") (simp_all add: read_files_def read_batch_each)

text \<open>
  A batch of reads returns, in request order, exactly what reading each path on its own
  returns: the cache of decoded trees it shares, left behind also by failing paths, changes
  no outcome and one bad path never affects another.
\<close>

theorem read_files_each:
  "read_files g r paths rv =
     bind_res (root_tree_id g r rv) (\<lambda>_. Inr (map (\<lambda>p. (p, read_file g r p rv)) paths))"
  by (cases "root_tree_id g r rv") (simp_all add: read_files_map read_file_def)

section \<open>Listings\<close>

definition prefix_tree :: "'ed gix \<Rightarrow> repo \<Rightarrow> string \<Rightarrow> rev \<Rightarrow> git_error + oid option" where
  "prefix_tree g r path_prefix rv =
     (case resolve_rev g r rv of
        Inl (RevNotFound s) \<Rightarrow> Inr None
      | Inl e \<Rightarrow> Inl e
      | Inr commit_id \<Rightarrow>
          bind_res (commit_at r commit_id ResolveRev) (\<lambda>c. resolve_tree_prefix r (cm_tree c) path_prefix))"

definition list_entries :: "(entry_kind \<Rightarrow> bool) \<Rightarrow> repo \<Rightarrow> oid \<Rightarrow> git_error + string list" where
  "list_entries p r i =
     bind_res (find_object r i ReadBlob) (\<lambda>obj.
     bind_res (into_tree obj) (\<lambda>es.
       Inr (sort (map (\<lambda>e. utf8_lossy (te_filename e)) (filter (\<lambda>e. p (te_mode e)) es)))))"

definition list_tree :: "'ed gix \<Rightarrow> repo \<Rightarrow> string \<Rightarrow> rev \<Rightarrow> git_error + string list" where
  "list_tree g r path_prefix rv =
     bind_res (prefix_tree g r path_prefix rv) (\<lambda>target.
       case target of None \<Rightarrow> Inr [] | Some i \<Rightarrow> list_entries is_blob_kind r i)"

definition list_subtrees :: "'ed gix \<Rightarrow> repo \<Rightarrow> string \<Rightarrow> rev \<Rightarrow> git_error + string list" where
  "list_subtrees g r path_prefix rv =
     bind_res (prefix_tree g r path_prefix rv) (\<lambda>target.
       case target of None \<Rightarrow> Inr [] | Some i \<Rightarrow> list_entries (\<lambda>k. k = KTree) r i)"

text \<open>
  The map from directories to names is kept in the order of first insertion; the order of the
  hash map's iteration is unspecified, and the callers sort.
\<close>

type_synonym dir_list = "(string \<times> string list) list"

definition dir_touch :: "string \<Rightarrow> dir_list \<Rightarrow> dir_list" where
  "dir_touch d dirs = (if d \<in> fst ` set dirs then dirs else dirs @ [(d, [])])"

definition dir_push :: "string \<Rightarrow> string \<Rightarrow> dir_list \<Rightarrow> dir_list" where
  "dir_push d n dirs = map (\<lambda>(k, v). (k, if k = d then v @ [n] else v)) (dir_touch d dirs)"

definition add_entry :: "entry_kind \<times> string \<Rightarrow> dir_list \<Rightarrow> dir_list" where
  "add_entry entry dirs =
     (let (kind, filepath) = entry; path = utf8_lossy filepath
      in if kind = KTree then dir_touch path dirs
         else if is_blob_kind kind then
           (case rsplit_once CHR ''/'' path of
              Some (dir, name) \<Rightarrow> dir_push dir name dirs
            | None \<Rightarrow> dir_push [] path dirs)
         else dirs)"

definition list_tree_recursive :: "'ed gix \<Rightarrow> repo \<Rightarrow> string \<Rightarrow> rev \<Rightarrow> git_error + dir_list" where
  "list_tree_recursive g r path_prefix rv =
     bind_res (prefix_tree g r path_prefix rv) (\<lambda>target.
       case target of
         None \<Rightarrow> Inr []
       | Some i \<Rightarrow>
           bind_res (find_object r i ReadBlob) (\<lambda>obj.
           bind_res (into_tree obj) (\<lambda>_.
           bind_res (ok_or (ReadBlob ''traverse'') (gx_files g r i)) (\<lambda>entries.
             Inr (map (\<lambda>(d, names). (d, sort names)) (fold add_entry entries [([], [])]))))))"

section \<open>Commits\<close>

text \<open>
  The operations below change the repository even when they fail, by leaving unreferenced
  objects behind, so each returns the new repository beside its result.
\<close>

definition commit_err :: "string \<Rightarrow> git_error" where
  "commit_err = CommitError"

definition collision_text :: "string \<Rightarrow> string" where
  "collision_text path = ''path component collides with an existing blob: '' @ path"

definition prefix_is_tree :: "'ed gix \<Rightarrow> repo \<Rightarrow> 'ed \<Rightarrow> oid \<Rightarrow> string list \<Rightarrow> git_error + bool" where
  "prefix_is_tree g r editor root pre =
     (case gx_get g editor pre of
        Some k \<Rightarrow> Inr (k = KTree)
      | None \<Rightarrow>
          bind_res (map_err commit_err (gx_lookup g r root pre)) (\<lambda>entry.
            Inr (case entry of Some k \<Rightarrow> k = KTree | None \<Rightarrow> True)))"

fun reject_loop :: "'ed gix \<Rightarrow> repo \<Rightarrow> 'ed \<Rightarrow> oid \<Rightarrow> string \<Rightarrow> string list list \<Rightarrow> git_error + unit" where
  "reject_loop g r editor root path [] = Inr ()"
| "reject_loop g r editor root path (pre # ps) =
     bind_res (prefix_is_tree g r editor root pre) (\<lambda>tree.
       if \<not> tree then Inl (commit_err (collision_text path)) else reject_loop g r editor root path ps)"

definition reject_blob_directory_collision ::
  "'ed gix \<Rightarrow> repo \<Rightarrow> 'ed \<Rightarrow> oid \<Rightarrow> string \<Rightarrow> string list \<Rightarrow> git_error + unit" where
  "reject_blob_directory_collision g r editor root path components =
     reject_loop g r editor root path (map (\<lambda>depth. take depth components) [1..<length components])"

definition edit_file ::
  "'ed gix \<Rightarrow> oid \<Rightarrow> repo \<Rightarrow> 'ed \<Rightarrow> string \<times> string option \<Rightarrow> (git_error + 'ed) \<times> repo" where
  "edit_file g root r editor f =
     (let (path, contents) = f; components = path_components path in
      if components = [] then (Inl (PathNotFound path), r)
      else
        (case reject_blob_directory_collision g r editor root path components of
           Inl e \<Rightarrow> (Inl e, r)
         | Inr _ \<Rightarrow>
             (case contents of
                Some bytes \<Rightarrow>
                  (case gx_write_object g r (BlobObj bytes) of
                     None \<Rightarrow> (Inl (commit_err ''write blob''), r)
                   | Some (r1, blob_id) \<Rightarrow>
                       (ok_or (commit_err ''upsert'') (gx_upsert g editor components KBlob blob_id), r1))
              | None \<Rightarrow> (ok_or (commit_err ''remove'') (gx_remove g editor components), r))))"

fun edit_files ::
  "'ed gix \<Rightarrow> oid \<Rightarrow> repo \<Rightarrow> 'ed \<Rightarrow> (string \<times> string option) list \<Rightarrow> (git_error + 'ed) \<times> repo" where
  "edit_files g root r editor [] = (Inr editor, r)"
| "edit_files g root r editor (f # fs) =
     (case edit_file g root r editor f of
        (Inl e, r1) \<Rightarrow> (Inl e, r1)
      | (Inr editor1, r1) \<Rightarrow> edit_files g root r1 editor1 fs)"

definition build_tree ::
  "'ed gix \<Rightarrow> repo \<Rightarrow> oid option \<Rightarrow> (string \<times> string option) list \<Rightarrow> (git_error + oid) \<times> repo" where
  "build_tree g r parent_tree files =
     (let root = (case parent_tree of Some i \<Rightarrow> i | None \<Rightarrow> gx_empty_tree g) in
      case gx_edit_tree g r root of
        None \<Rightarrow> (Inl (commit_err ''edit tree''), r)
      | Some editor \<Rightarrow>
          (case edit_files g root r editor files of
             (Inl e, r1) \<Rightarrow> (Inl e, r1)
           | (Inr editor1, r1) \<Rightarrow>
               (case gx_write_tree g r1 editor1 of
                  None \<Rightarrow> (Inl (commit_err ''write tree''), r1)
                | Some (r2, i) \<Rightarrow> (Inr i, r2))))"

definition branch_parent :: "repo \<Rightarrow> string \<Rightarrow> git_error + (oid \<times> oid) option" where
  "branch_parent r name =
     (case find_reference r name of
        Some i \<Rightarrow> map_ok (\<lambda>c. Some (i, cm_tree c)) (commit_at r i commit_err)
      | None \<Rightarrow> Inr None)"

text \<open>The commit object, and its publication on the branch.\<close>

definition new_commit :: "int \<Rightarrow> commit_spec \<Rightarrow> (oid \<times> oid) option \<Rightarrow> oid \<Rightarrow> git_commit" where
  "new_commit now spec parent tree =
     (let sg = \<lparr> sig_name = cs_author_name spec, sig_email = cs_author_email spec, sig_time = now \<rparr>
      in \<lparr> cm_tree = tree, cm_parents = (case parent of Some (i, _) \<Rightarrow> [i] | None \<Rightarrow> []),
           cm_author = sg, cm_committer = sg, cm_message = cs_message spec \<rparr>)"

definition publish_commit ::
  "'ed gix \<Rightarrow> repo \<Rightarrow> string \<Rightarrow> git_commit \<Rightarrow> (git_error + string) \<times> repo" where
  "publish_commit g r name c =
     (case gx_write_object g r (CommitObj c) of
        None \<Rightarrow> (Inl (commit_err ''write object''), r)
      | Some (r1, commit_id) \<Rightarrow>
          (case gx_update_ref g r1 name commit_id of
             Inl e \<Rightarrow> (Inl (RefUpdate name e), r1)
           | Inr r2 \<Rightarrow> (Inr (gx_to_hex g commit_id), r2)))"

text \<open>The two halves of a commit: build it on the tip the branch has now, then move the branch to it.\<close>

definition prepare_commit ::
  "'ed gix \<Rightarrow> int \<Rightarrow> repo \<Rightarrow> commit_spec \<Rightarrow> (git_error + git_commit) \<times> repo" where
  "prepare_commit g now r spec =
     (case branch_parent r (branch_ref (cs_branch spec)) of
        Inl e \<Rightarrow> (Inl e, r)
      | Inr parent \<Rightarrow>
          (case build_tree g r (map_option snd parent) (cs_files spec) of
             (Inl e, r1) \<Rightarrow> (Inl e, r1)
           | (Inr tree, r1) \<Rightarrow> (Inr (new_commit now spec parent tree), r1)))"

definition write_commit ::
  "'ed gix \<Rightarrow> int \<Rightarrow> repo \<Rightarrow> commit_spec \<Rightarrow> (git_error + string) \<times> repo" where
  "write_commit g now r spec =
     (case prepare_commit g now r spec of
        (Inl e, r1) \<Rightarrow> (Inl e, r1)
      | (Inr c, r1) \<Rightarrow> publish_commit g r1 (branch_ref (cs_branch spec)) c)"

definition tag :: "'ed gix \<Rightarrow> repo \<Rightarrow> string \<Rightarrow> string \<Rightarrow> (git_error + unit) \<times> repo" where
  "tag g r name target_hex =
     (case gx_from_hex g target_hex of
        None \<Rightarrow> (Inl (RevNotFound target_hex), r)
      | Some target \<Rightarrow>
          let refname = ''refs/tags/'' @ name in
          (case gx_update_ref g r refname target of
             Inl e \<Rightarrow> (Inl (RefUpdate refname e), r)
           | Inr r1 \<Rightarrow> (Inr (), r1)))"

section \<open>Fast-forward\<close>

definition is_ancestor :: "'ed gix \<Rightarrow> repo \<Rightarrow> oid \<Rightarrow> oid \<Rightarrow> git_error + bool" where
  "is_ancestor g r ancestor descendant =
     (if ancestor = descendant then Inr True
      else
        (case gx_merge_base g r ancestor descendant of
           Inl e \<Rightarrow> Inl (ResolveRev e)
         | Inr None \<Rightarrow> Inr False
         | Inr (Some base) \<Rightarrow> Inr (base = ancestor)))"

definition move_ref ::
  "'ed gix \<Rightarrow> repo \<Rightarrow> string \<Rightarrow> oid \<Rightarrow> ff_outcome \<Rightarrow> (git_error + ff_outcome) \<times> repo" where
  "move_ref g r name i outcome =
     (case gx_update_ref g r name i of
        Inl e \<Rightarrow> (Inl (RefUpdate name e), r)
      | Inr r1 \<Rightarrow> (Inr outcome, r1))"

definition fast_forward :: "'ed gix \<Rightarrow> repo \<Rightarrow> string \<Rightarrow> string \<Rightarrow> (git_error + ff_outcome) \<times> repo" where
  "fast_forward g r local_ref target_ref =
     (case find_reference r target_ref of
        None \<Rightarrow> (Inl (RevNotFound (target_ref @ '': '' @ gx_ref_err g target_ref)), r)
      | Some target \<Rightarrow>
          (case find_reference r local_ref of
             None \<Rightarrow> move_ref g r local_ref target (Advanced None (gx_to_hex g target))
           | Some local_id \<Rightarrow>
               if local_id = target then (Inr (AlreadyAt (gx_to_hex g target)), r)
               else
                 (case is_ancestor g r local_id target of
                    Inl e \<Rightarrow> (Inl e, r)
                  | Inr True \<Rightarrow>
                      move_ref g r local_ref target
                        (Advanced (Some (gx_to_hex g local_id)) (gx_to_hex g target))
                  | Inr False \<Rightarrow>
                      (Inr (NotFastForward (gx_to_hex g local_id) (gx_to_hex g target)), r))))"

section \<open>History\<close>

type_synonym blob_cache = "oid \<Rightarrow> oid option option"

text \<open>The blob of a commit at the path, from the cache or by descending into its tree.\<close>

definition cached_blob ::
  "repo \<Rightarrow> blob_cache \<Rightarrow> oid \<Rightarrow> (git_error + oid) \<Rightarrow> string \<Rightarrow> (git_error + oid option) \<times> blob_cache" where
  "cached_blob r cache i tree path =
     (case cache i of
        Some b \<Rightarrow> (Inr b, cache)
      | None \<Rightarrow>
          (case bind_res tree (\<lambda>t. find_blob_in_tree r t path) of
             Inl e \<Rightarrow> (Inl e, cache)
           | Inr b \<Rightarrow> (Inr b, cache(i \<mapsto> b))))"

fun parent_loop ::
  "repo \<Rightarrow> string \<Rightarrow> oid \<Rightarrow> oid list \<Rightarrow> blob_cache \<Rightarrow> (git_error + bool) \<times> blob_cache" where
  "parent_loop r path current_blob [] cache = (Inr False, cache)"
| "parent_loop r path current_blob (p # ps) cache =
     (case cached_blob r cache p (map_ok cm_tree (commit_at r p ResolveRev)) path of
        (Inl e, cache1) \<Rightarrow> (Inl e, cache1)
      | (Inr b, cache1) \<Rightarrow>
          if b = Some current_blob then (Inr True, cache1)
          else parent_loop r path current_blob ps cache1)"

fun history_loop ::
  "'ed gix \<Rightarrow> repo \<Rightarrow> string \<Rightarrow> nat option \<Rightarrow> oid list \<Rightarrow> blob_cache \<Rightarrow> commit_meta list
    \<Rightarrow> git_error + commit_meta list" where
  "history_loop g r path limit [] cache out = Inr out"
| "history_loop g r path limit (i # is) cache out =
     (if (case limit of Some n \<Rightarrow> n \<le> length out | None \<Rightarrow> False) then Inr out
      else
        (case commit_at r i ResolveRev of
           Inl e \<Rightarrow> Inl e
         | Inr c \<Rightarrow>
             (case cached_blob r cache i (Inr (cm_tree c)) path of
                (Inl e, cache1) \<Rightarrow> Inl e
              | (Inr None, cache1) \<Rightarrow> history_loop g r path limit is cache1 out
              | (Inr (Some current_blob), cache1) \<Rightarrow>
                  (case parent_loop r path current_blob (cm_parents c) cache1 of
                     (Inl e, cache2) \<Rightarrow> Inl e
                   | (Inr True, cache2) \<Rightarrow> history_loop g r path limit is cache2 out
                   | (Inr False, cache2) \<Rightarrow>
                       history_loop g r path limit is cache2 (out @ [commit_meta_of g i c])))))"

definition walk_history ::
  "'ed gix \<Rightarrow> repo \<Rightarrow> string \<Rightarrow> nat option \<Rightarrow> git_error + commit_meta list" where
  "walk_history g r path limit =
     (case resolve_rev g r Head of
        Inl (RevNotFound s) \<Rightarrow> Inr []
      | Inl e \<Rightarrow> Inl e
      | Inr head \<Rightarrow>
          bind_res (ok_or (ResolveRev ''rev walk'') (gx_rev_walk g r head)) (\<lambda>walk.
            history_loop g r path limit walk Map.empty []))"

text \<open>
  What the walk keeps: the commits with a blob at the path that no parent has there. On a
  repository whose commits all read, the caches and the limit only save work.
\<close>

definition commit_blob :: "repo \<Rightarrow> string \<Rightarrow> oid \<Rightarrow> git_error + oid option" where
  "commit_blob r path i =
     bind_res (map_ok cm_tree (commit_at r i ResolveRev)) (\<lambda>t. find_blob_in_tree r t path)"

definition modifies :: "repo \<Rightarrow> string \<Rightarrow> oid \<Rightarrow> bool" where
  "modifies r path i =
     (case commit_at r i ResolveRev of
        Inl e \<Rightarrow> False
      | Inr c \<Rightarrow>
          (case commit_blob r path i of
             Inr (Some b) \<Rightarrow> list_all (\<lambda>p. commit_blob r path p \<noteq> Inr (Some b)) (cm_parents c)
           | _ \<Rightarrow> False))"

definition history_meta :: "'ed gix \<Rightarrow> repo \<Rightarrow> oid \<Rightarrow> commit_meta list" where
  "history_meta g r i =
     (case commit_at r i ResolveRev of Inr c \<Rightarrow> [commit_meta_of g i c] | Inl e \<Rightarrow> [])"

definition history_of :: "'ed gix \<Rightarrow> repo \<Rightarrow> string \<Rightarrow> oid list \<Rightarrow> commit_meta list" where
  "history_of g r path walk = concat (map (history_meta g r) (filter (modifies r path) walk))"

definition readable :: "repo \<Rightarrow> string \<Rightarrow> oid \<Rightarrow> bool" where
  "readable r path i \<longleftrightarrow> (\<exists>b. commit_blob r path i = Inr b)"

definition history_reads :: "repo \<Rightarrow> string \<Rightarrow> oid list \<Rightarrow> bool" where
  "history_reads r path walk \<longleftrightarrow>
     list_all (\<lambda>i. case commit_at r i ResolveRev of
         Inl e \<Rightarrow> False
       | Inr c \<Rightarrow> readable r path i \<and> list_all (readable r path) (cm_parents c)) walk"

definition up_to :: "nat option \<Rightarrow> 'a list \<Rightarrow> 'a list" where
  "up_to limit xs = (case limit of Some n \<Rightarrow> take n xs | None \<Rightarrow> xs)"

definition blob_cache_ok :: "repo \<Rightarrow> string \<Rightarrow> blob_cache \<Rightarrow> bool" where
  "blob_cache_ok r path cache \<longleftrightarrow> (\<forall>i b. cache i = Some b \<longrightarrow> commit_blob r path i = Inr b)"

lemma cached_blob_sound:
  assumes "blob_cache_ok r path cache" "commit_blob r path i = Inr b"
    and "bind_res tree (\<lambda>t. find_blob_in_tree r t path) = commit_blob r path i"
  shows "\<exists>cache1. cached_blob r cache i tree path = (Inr b, cache1) \<and> blob_cache_ok r path cache1"
proof (cases "cache i")
  case None
  with assms show ?thesis by (simp add: cached_blob_def blob_cache_ok_def)
next
  case (Some b')
  with assms have "b' = b" by (simp add: blob_cache_ok_def)
  with assms Some show ?thesis by (simp add: cached_blob_def)
qed

lemma parent_loop_sound:
  assumes "blob_cache_ok r path cache" "list_all (readable r path) ps"
  shows "\<exists>cache1. parent_loop r path b ps cache
      = (Inr (\<not> list_all (\<lambda>p. commit_blob r path p \<noteq> Inr (Some b)) ps), cache1) \<and> blob_cache_ok r path cache1"
  using assms
proof (induction ps arbitrary: cache)
  case (Cons p ps)
  then obtain bp where bp: "commit_blob r path p = Inr bp" by (auto simp: readable_def)
  from cached_blob_sound [OF Cons.prems(1) bp, of "map_ok cm_tree (commit_at r p ResolveRev)"]
  obtain c1 where c1: "cached_blob r cache p (map_ok cm_tree (commit_at r p ResolveRev)) path = (Inr bp, c1)"
    "blob_cache_ok r path c1" by (auto simp: commit_blob_def)
  from Cons.IH [OF c1(2)] Cons.prems(2) c1 bp show ?case by auto
qed simp

lemma history_loop_spec:
  assumes "blob_cache_ok r path cache" "history_reads r path walk"
    and "case limit of Some n \<Rightarrow> length out \<le> n | None \<Rightarrow> True"
  shows "history_loop g r path limit walk cache out = Inr (up_to limit (out @ history_of g r path walk))"
  using assms
proof (induction walk arbitrary: cache out)
  case Nil
  then show ?case by (auto simp: up_to_def history_of_def split: option.splits)
next
  case (Cons i walk)
  show ?case
  proof (cases "case limit of Some n \<Rightarrow> n \<le> length out | None \<Rightarrow> False")
    case True
    with Cons.prems(3) show ?thesis by (auto simp: up_to_def split: option.splits)
  next
    case False
    obtain c where c: "commit_at r i ResolveRev = Inr c" "readable r path i"
      "list_all (readable r path) (cm_parents c)" "history_reads r path walk"
      using Cons.prems(2) by (auto simp: history_reads_def split: sum.splits)
    then obtain b where b: "commit_blob r path i = Inr b" by (auto simp: readable_def)
    have "bind_res (Inr (cm_tree c)) (\<lambda>t. find_blob_in_tree r t path) = commit_blob r path i"
      by (simp add: commit_blob_def c(1))
    from cached_blob_sound [OF Cons.prems(1) b this] obtain c1 where
      c1: "cached_blob r cache i (Inr (cm_tree c)) path = (Inr b, c1)" "blob_cache_ok r path c1" by blast
    show ?thesis
    proof (cases b)
      case None
      with False c c1 b Cons.IH [OF c1(2) c(4) Cons.prems(3)] show ?thesis
        by (simp add: history_of_def modifies_def)
    next
      case (Some bi)
      from parent_loop_sound [OF c1(2) c(3), of bi] obtain c2 where
        c2: "parent_loop r path bi (cm_parents c) c1
          = (Inr (\<not> list_all (\<lambda>p. commit_blob r path p \<noteq> Inr (Some bi)) (cm_parents c)), c2)"
          "blob_cache_ok r path c2" by blast
      show ?thesis
      proof (cases "list_all (\<lambda>p. commit_blob r path p \<noteq> Inr (Some bi)) (cm_parents c)")
        case True
        have "case limit of Some n \<Rightarrow> length (out @ [commit_meta_of g i c]) \<le> n | None \<Rightarrow> True"
          using False by (auto split: option.splits)
        from Cons.IH [OF c2(2) c(4) this] False c c1 c2 b Some True show ?thesis
          by (simp add: history_of_def modifies_def history_meta_def)
      next
        case f: False
        with Cons.IH [OF c2(2) c(4) Cons.prems(3)] False c c1 c2 b Some show ?thesis
          by (simp add: history_of_def modifies_def)
      qed
    qed
  qed
qed

text \<open>
  C38. The history of a path is, in walk order, exactly the commits that hold a blob there
  which no parent holds at that path, cut at the limit: neither the cache nor the early stop
  changes the answer. A commit that only deletes the file is not part of it.
\<close>

theorem walk_history_spec:
  assumes "resolve_rev g r Head = Inr head" and "gx_rev_walk g r head = Some walk"
    and "history_reads r path walk"
  shows "walk_history g r path limit = Inr (up_to limit (history_of g r path walk))"
  using history_loop_spec [OF _ assms(3), where cache = Map.empty and limit = limit and out = "[]"] assms(1,2)
  by (cases limit) (simp_all add: walk_history_def blob_cache_ok_def)

section \<open>What the commits rely on\<close>

text \<open>
  One repository extends another when it has every object of it and agrees on refs and
  \<open>HEAD\<close>; \<open>only_trees\<close> and \<open>only_adds\<close> bound what a write may have added.
\<close>

definition extends :: "repo \<Rightarrow> repo \<Rightarrow> bool" where
  "extends r r' \<longleftrightarrow> g_head r' = g_head r \<and> g_refs r' = g_refs r \<and> g_encode r' = g_encode r
     \<and> (\<forall>i obj. g_objects r i = Some obj \<longrightarrow> g_objects r' i = Some obj)"

definition commits_kept :: "repo \<Rightarrow> repo \<Rightarrow> bool" where
  "commits_kept r r' \<longleftrightarrow> (\<forall>i c. g_objects r' i = Some (CommitObj c) \<longrightarrow> g_objects r i = Some (CommitObj c))"

definition blobs_present :: "repo \<Rightarrow> (string list \<Rightarrow> oid option) \<Rightarrow> bool" where
  "blobs_present r v \<longleftrightarrow> (\<forall>cs i. v cs = Some i \<longrightarrow> (\<exists>b. g_objects r i = Some (BlobObj b)))"

lemma extends_refl [simp]: "extends r r"
  by (simp add: extends_def)

lemma extends_trans: "extends r r' \<Longrightarrow> extends r' r'' \<Longrightarrow> extends r r''"
  by (simp add: extends_def)

lemma extends_object: "extends r r' \<Longrightarrow> g_objects r i = Some obj \<Longrightarrow> g_objects r' i = Some obj"
  by (simp add: extends_def)

text \<open>
  The behaviour of \<open>gix\<close> that the commits rely on. \<open>view\<close> is the content of an editor, the
  blob at each path as a tree written now would have it, and \<open>base\<close> the content it was opened
  on. A write of an object or a tree adds objects only; an upsert puts its blob at the path and
  nothing else there or on the way to it; a removal empties the path and what lies below it;
  \<open>get\<close> may not see a path no edit has visited, and then answers nothing.
\<close>

definition parent_rel :: "repo \<Rightarrow> (oid \<times> oid) set" where
  "parent_rel r = {(p, i). \<exists>c. g_objects r i = Some (CommitObj c) \<and> p \<in> set (cm_parents c)}"

definition anc :: "repo \<Rightarrow> oid \<Rightarrow> oid \<Rightarrow> bool" where
  "anc r a d \<longleftrightarrow> (a, d) \<in> (parent_rel r)\<^sup>*"

locale gix_backend =
  fixes g :: "'ed gix" and view :: "'ed \<Rightarrow> string list \<Rightarrow> oid option"
    and base :: "'ed \<Rightarrow> string list \<Rightarrow> oid option"
  assumes hex_parses: "gx_from_hex g (gx_to_hex g i) = Some i"
    and lookup_law: "\<lbrakk> objects_ok r; gx_lookup g r root cs = Inr k \<rbrakk> \<Longrightarrow> k = map_option te_mode (entry_at r root cs)"
    and open_law: "\<lbrakk> objects_ok r; gx_edit_tree g r root = Some ed \<rbrakk>
        \<Longrightarrow> view ed = blob_at r root \<and> base ed = blob_at r root
            \<and> (root = gx_empty_tree g \<longrightarrow> blob_at r root = (\<lambda>cs. None))"
    and get_law: "gx_get g ed cs = k \<Longrightarrow>
        (case k of Some m \<Rightarrow> m = KTree \<longrightarrow> view ed cs = None
                 | None \<Rightarrow> view ed cs = None \<or> view ed cs = base ed cs)"
    and upsert_law: "\<lbrakk> cs \<noteq> []; list_all component_ok cs; gx_upsert g ed cs KBlob i = Some ed' \<rbrakk> \<Longrightarrow>
        base ed' = base ed \<and>
        view ed' = (\<lambda>q. if q = cs then Some i else if prefix cs q \<or> prefix q cs then None else view ed q)"
    and remove_law: "\<lbrakk> cs \<noteq> []; list_all component_ok cs; \<And>q. strict_prefix q cs \<Longrightarrow> view ed q = None;
          gx_remove g ed cs = Some ed' \<rbrakk> \<Longrightarrow>
        base ed' = base ed \<and> view ed' = (\<lambda>q. if prefix cs q then None else view ed q)"
    and write_tree_law: "\<lbrakk> objects_ok r; blobs_present r (view ed); gx_write_tree g r ed = Some (r', root) \<rbrakk> \<Longrightarrow>
        extends r r' \<and> objects_ok r' \<and> commits_kept r r'
        \<and> (\<exists>es. g_objects r' root = Some (TreeObj es)) \<and> blob_at r' root = view ed"
    and write_object_law: "gx_write_object g r obj = Some (r', i) \<Longrightarrow>
        extends r r' \<and> g_objects r' = (g_objects r)(i \<mapsto> obj)"
    and update_ref_law: "gx_update_ref g r name i = Inr r' \<Longrightarrow> r' = r\<lparr> g_refs := (g_refs r)(name \<mapsto> i) \<rparr>"
    and files_law: "\<lbrakk> objects_ok r; gx_files g r root = Some es \<rbrakk> \<Longrightarrow>
        distinct es \<and> set es = {(te_mode e, join_with ''/'' cs) |cs e. entry_at r root cs = Some e}"
    and merge_base_law: "gx_merge_base g r a d = Inr found \<Longrightarrow>
        (case found of
           Some b \<Rightarrow> anc r b a \<and> anc r b d \<and> (\<forall>c. anc r c a \<and> anc r c d \<and> anc r b c \<longrightarrow> c = b)
         | None \<Rightarrow> \<not> (\<exists>c. anc r c a \<and> anc r c d))"
begin

lemma is_ancestor_iff: "is_ancestor g r a d = Inr b \<Longrightarrow> b = anc r a d"
proof (cases "a = d")
  case False
  assume *: "is_ancestor g r a d = Inr b"
  with False obtain found where f: "gx_merge_base g r a d = Inr found"
    by (auto simp: is_ancestor_def split: sum.splits)
  show ?thesis
  proof (cases found)
    case None
    with merge_base_law [OF f] have "\<not> anc r a d" by (auto simp: anc_def)
    with * f None False show ?thesis by (simp add: is_ancestor_def)
  next
    case (Some m)
    with merge_base_law [OF f] have "m = a \<longleftrightarrow> anc r a d" by (auto simp: anc_def)
    with * f Some False show ?thesis by (simp add: is_ancestor_def)
  qed
qed (simp add: is_ancestor_def anc_def)

lemma fast_forward_cases:
  assumes "fast_forward g r l t = (res, r')"
  shows "(\<exists>e. res = Inl e) \<and> r' = r
    \<or> (\<exists>target. g_refs r t = Some target
        \<and> (case g_refs r l of
             None \<Rightarrow> res = Inr (Advanced None (gx_to_hex g target)) \<and> r' = r\<lparr> g_refs := (g_refs r)(l \<mapsto> target) \<rparr>
           | Some i \<Rightarrow>
               (if i = target then res = Inr (AlreadyAt (gx_to_hex g target)) \<and> r' = r
                else if anc r i target
                then res = Inr (Advanced (Some (gx_to_hex g i)) (gx_to_hex g target))
                     \<and> r' = r\<lparr> g_refs := (g_refs r)(l \<mapsto> target) \<rparr>
                else res = Inr (NotFastForward (gx_to_hex g i) (gx_to_hex g target)) \<and> r' = r)))"
proof (cases "g_refs r t")
  case None
  with assms show ?thesis by (auto simp: fast_forward_def find_reference_def)
next
  case t: (Some target)
  show ?thesis
  proof (cases "g_refs r l")
    case None
    with t assms show ?thesis
      by (auto simp: fast_forward_def find_reference_def move_ref_def split: sum.splits dest: update_ref_law)
  next
    case l: (Some i)
    show ?thesis
    proof (cases "i = target")
      case True
      with t l assms show ?thesis by (simp add: fast_forward_def find_reference_def)
    next
      case False
      show ?thesis
      proof (cases "is_ancestor g r i target")
        case (Inl e)
        with False t l assms show ?thesis by (auto simp: fast_forward_def find_reference_def)
      next
        case (Inr b)
        note anc = is_ancestor_iff [OF Inr]
        show ?thesis
        proof (cases b)
          case True
          with Inr anc False t l assms show ?thesis
            by (auto simp: fast_forward_def find_reference_def move_ref_def split: sum.splits dest: update_ref_law)
        next
          case f: False
          with Inr anc False t l assms show ?thesis by (simp add: fast_forward_def find_reference_def)
        qed
      qed
    qed
  qed
qed

end

text \<open>
  C37. Fast-forwarding never loses work: a ref moves only when it was missing or when its commit
  is an ancestor of the target, so every commit reachable from it before is reachable after;
  on divergence, on equality and on any error the repository is left as it was.
\<close>

theorem fast_forward_keeps_history:
  assumes "gix_backend g view base" and "fast_forward g r l t = (res, r')"
  shows "g_objects r' = g_objects r \<and> (\<forall>name. name \<noteq> l \<longrightarrow> g_refs r' name = g_refs r name)
    \<and> (case g_refs r l of
         None \<Rightarrow> g_refs r' l \<in> {None, g_refs r t}
       | Some i \<Rightarrow>
           (\<exists>j. g_refs r' l = Some j \<and> anc r' i j \<and> (j \<noteq> i \<longrightarrow> Some j = g_refs r t)))
    \<and> ((\<exists>e. res = Inl e) \<or> (\<exists>i. res = Inr (AlreadyAt i)) \<or> (\<exists>i j. res = Inr (NotFastForward i j)) \<longrightarrow> r' = r)
    \<and> (\<forall>i j. res = Inr (NotFastForward i j) \<longrightarrow>
         (\<exists>a b. g_refs r l = Some a \<and> g_refs r t = Some b \<and> \<not> anc r a b))"
  using gix_backend.fast_forward_cases [OF assms]
  by (elim disjE exE conjE) (auto simp: anc_def parent_rel_def split: option.splits if_splits)

section \<open>Commits, against a map of files\<close>

text \<open>
  The files of a tree as a map from components to contents, and what a list of edits does to
  such a map: a write replaces whatever stood at the path, a directory with everything below it
  included; an edit below a file is refused.
\<close>

type_synonym files = "string list \<Rightarrow> string option"

definition content_of :: "repo \<Rightarrow> oid \<Rightarrow> string option" where
  "content_of r i = (case g_objects r i of Some (BlobObj b) \<Rightarrow> Some b | _ \<Rightarrow> None)"

definition files_of :: "repo \<Rightarrow> (string list \<Rightarrow> oid option) \<Rightarrow> files" where
  "files_of r v = (\<lambda>cs. Option.bind (v cs) (content_of r))"

definition branch_files :: "repo \<Rightarrow> string \<Rightarrow> files" where
  "branch_files r name =
     (case g_refs r name of
        None \<Rightarrow> Map.empty
      | Some i \<Rightarrow>
          (case g_objects r i of
             Some (CommitObj c) \<Rightarrow> files_of r (blob_at r (cm_tree c))
           | _ \<Rightarrow> Map.empty))"

definition apply_edit :: "string \<times> string option \<Rightarrow> files \<Rightarrow> files option" where
  "apply_edit f fs =
     (let (path, contents) = f; cs = path_components path in
      if cs = [] \<or> list_ex (\<lambda>d. fs (take d cs) \<noteq> None) [1..<length cs] then None
      else Some (\<lambda>q. if q = cs then contents else if prefix cs q then None else fs q))"

fun apply_edits :: "(string \<times> string option) list \<Rightarrow> files \<Rightarrow> files option" where
  "apply_edits [] fs = Some fs"
| "apply_edits (f # edits) fs = Option.bind (apply_edit f fs) (apply_edits edits)"

definition repo_ok :: "repo \<Rightarrow> bool" where
  "repo_ok r \<longleftrightarrow> objects_ok r
     \<and> (\<forall>i c. g_objects r i = Some (CommitObj c) \<longrightarrow> (\<exists>es. g_objects r (cm_tree c) = Some (TreeObj es)))"

lemma entry_sound_extends: "extends r r' \<Longrightarrow> entry_sound r e \<Longrightarrow> entry_sound r' e"
  using extends_object by (fastforce simp: entry_sound_def)

lemma objects_ok_add:
  assumes "objects_ok r" "extends r r'" "g_objects r' = (g_objects r)(i \<mapsto> obj)" "\<And>es. obj \<noteq> TreeObj es"
  shows "objects_ok r'"
proof (unfold objects_ok_def, intro allI impI)
  fix j es
  assume "g_objects r' j = Some (TreeObj es)"
  then have "g_objects r j = Some (TreeObj es)" using assms(3,4) by (auto split: if_splits)
  then have "tree_ok es" "list_all (entry_sound r) es" using assms(1) by (auto simp: objects_ok_def)
  then show "tree_ok es \<and> list_all (entry_sound r') es"
    using entry_sound_extends [OF assms(2)] by (auto simp: list_all_iff)
qed

lemma entry_at_extends: "extends r r' \<Longrightarrow> entry_at r root cs = Some e \<Longrightarrow> entry_at r' root cs = Some e"
proof (induction cs arbitrary: root)
  case (Cons name rest)
  then show ?case
    by (auto split: option.splits git_object.splits if_splits dest: extends_object)
qed simp

lemma entry_at_extends_eq:
  assumes "objects_ok r" "extends r r'" "g_objects r root = Some (TreeObj es)"
  shows "entry_at r' root cs = entry_at r root cs"
  using assms(3)
proof (induction cs arbitrary: root es)
  case (Cons name rest)
  have r': "g_objects r' root = Some (TreeObj es)" by (rule extends_object [OF assms(2) Cons.prems])
  show ?case
  proof (cases "entry_named es name")
    case (Some e)
    then have "e \<in> set es" by (auto simp: entry_named_def find_Some_iff)
    then have e: "entry_sound r e" by (rule objects_okD(2) [OF assms(1) Cons.prems])
    show ?thesis
    proof (cases "is_tree e")
      case True
      with e obtain es' where "g_objects r (te_oid e) = Some (TreeObj es')" by (auto simp: entry_sound_def)
      from Cons.IH [OF this] r' Cons.prems Some show ?thesis by simp
    qed (simp add: r' Cons.prems Some)
  qed (simp add: r' Cons.prems)
qed simp

lemma blob_at_extends_eq:
  "\<lbrakk> objects_ok r; extends r r'; g_objects r root = Some (TreeObj es) \<rbrakk> \<Longrightarrow> blob_at r' root = blob_at r root"
  unfolding blob_at_def by (rule ext) (simp only: entry_at_extends_eq)

lemma files_of_extends:
  assumes "extends r r'" "blobs_present r v"
  shows "files_of r' v = files_of r v"
proof
  fix cs
  show "files_of r' v cs = files_of r v cs"
  proof (cases "v cs")
    case (Some i)
    with assms(2) obtain b where "g_objects r i = Some (BlobObj b)" by (auto simp: blobs_present_def)
    with extends_object [OF assms(1) this] Some show ?thesis by (simp add: files_of_def content_of_def)
  qed (simp add: files_of_def)
qed

lemma files_of_None:
  assumes "blobs_present r v"
  shows "files_of r v cs = None \<longleftrightarrow> v cs = None"
proof (cases "v cs")
  case (Some i)
  with assms obtain b where "g_objects r i = Some (BlobObj b)" by (auto simp: blobs_present_def)
  with Some show ?thesis by (simp add: files_of_def content_of_def)
qed (simp add: files_of_def)

lemma strict_prefix_take: "strict_prefix q cs \<Longrightarrow> \<exists>d. d < length cs \<and> q = take d cs"
proof -
  assume *: "strict_prefix q cs"
  then obtain ys where "cs = q @ ys" by (auto simp: strict_prefix_def prefix_def)
  with prefix_length_less [OF *] show ?thesis by (intro exI [of _ "length q"]) simp
qed

lemma blob_at_Nil [simp]: "blob_at r root [] = None"
  by (simp add: blob_at_def)

lemma entry_at_in_tree:
  assumes "objects_ok r" "entry_at r root cs = Some e"
  shows "entry_sound r e"
  using assms(2)
proof (induction cs arbitrary: root)
  case (Cons name rest)
  then obtain es e' where es: "g_objects r root = Some (TreeObj es)" "entry_named es name = Some e'"
    by (auto split: option.splits git_object.splits)
  then have "e' \<in> set es" by (auto simp: entry_named_def find_Some_iff)
  with objects_okD(2) [OF assms(1) es(1)] Cons es show ?case by (auto split: if_splits)
qed simp

lemma blobs_present_blob_at: "objects_ok r \<Longrightarrow> blobs_present r (blob_at r root)"
  using entry_at_in_tree by (fastforce simp: blobs_present_def blob_at_def entry_sound_def split: option.splits if_splits)

text \<open>The state of a batch of edits: the editor's content over a repository that only grew.\<close>

definition editing :: "repo \<Rightarrow> oid \<Rightarrow> repo \<Rightarrow> (string list \<Rightarrow> oid option) \<Rightarrow> (string list \<Rightarrow> oid option) \<Rightarrow> bool" where
  "editing r0 root r v bs \<longleftrightarrow> objects_ok r \<and> extends r0 r \<and> commits_kept r0 r \<and> blobs_present r v
     \<and> v [] = None \<and> bs = blob_at r0 root"

context gix_backend
begin

lemma prefix_is_tree_sound:
  assumes "editing r0 root r (view ed) (base ed)" "prefix_is_tree g r ed root pre = Inr True"
  shows "view ed pre = None"
proof (cases "gx_get g ed pre")
  case (Some k)
  with assms(2) have "k = KTree" by (simp add: prefix_is_tree_def)
  with get_law [OF Some] show ?thesis by simp
next
  case None
  show ?thesis
  proof (rule ccontr)
    assume "view ed pre \<noteq> None"
    with get_law [OF None] obtain i where i: "base ed pre = Some i" by auto
    then obtain e where e: "entry_at r0 root pre = Some e" "is_blob_kind (te_mode e)"
      using assms(1) by (auto simp: editing_def blob_at_def split: option.splits if_splits)
    have x: "extends r0 r" "objects_ok r" using assms(1) by (simp_all add: editing_def)
    from None assms(2) obtain k where k: "gx_lookup g r root pre = Inr k"
      "case k of Some m \<Rightarrow> m = KTree | None \<Rightarrow> True"
      by (auto simp: prefix_is_tree_def bind_res_eq_Inr)
    from lookup_law [OF x(2) k(1)] entry_at_extends [OF x(1) e(1)] k(2) e(2) show False
      by (simp add: is_blob_kind_def)
  qed
qed

lemma reject_loop_sound:
  assumes "editing r0 root r (view ed) (base ed)" "reject_loop g r ed root path ps = Inr ()" "p \<in> set ps"
  shows "view ed p = None"
  using assms(2,3)
proof (induction ps)
  case (Cons q ps)
  then have "prefix_is_tree g r ed root q = Inr True" "reject_loop g r ed root path ps = Inr ()"
    by (auto simp: bind_res_eq_Inr split: if_splits)
  with Cons prefix_is_tree_sound [OF assms(1)] show ?case by auto
qed simp

lemma edit_file_error:
  assumes "edit_file g root r ed f = (Inl e, r')"
  shows "r' = r \<or> (\<exists>bytes i. gx_write_object g r (BlobObj bytes) = Some (r', i))"
  using assms
  by (auto simp: edit_file_def Let_def split: prod.splits if_splits sum.splits option.splits)

lemma blob_write_editing:
  assumes "editing r0 root r v bs" "gx_write_object g r (BlobObj bytes) = Some (r', i)"
  shows "editing r0 root r' v bs \<and> extends r r' \<and> g_objects r' i = Some (BlobObj bytes)"
proof -
  have w: "extends r r'" "g_objects r' = (g_objects r)(i \<mapsto> BlobObj bytes)"
    using write_object_law [OF assms(2)] by simp_all
  have "objects_ok r'" using objects_ok_add [OF _ w] assms(1) by (simp add: editing_def)
  moreover have "commits_kept r0 r'" using assms(1) w(2) by (auto simp: editing_def commits_kept_def)
  moreover have "blobs_present r' v"
    using assms(1) extends_object [OF w(1)] by (fastforce simp: editing_def blobs_present_def)
  ultimately show ?thesis using assms(1) w extends_trans by (auto simp: editing_def)
qed

lemma edit_file_sound:
  assumes ed: "editing r0 root r (view ed) (base ed)" and res: "edit_file g root r ed f = (Inr ed', r')"
  shows "editing r0 root r' (view ed') (base ed') \<and> apply_edit f (files_of r (view ed)) = Some (files_of r' (view ed'))"
proof -
  obtain path contents where f: "f = (path, contents)" by fastforce
  define cs where "cs = path_components path"
  have ok: "list_all component_ok cs" by (simp add: cs_def path_components_ok)
  have cs: "cs \<noteq> []" and rej: "reject_blob_directory_collision g r ed root path cs = Inr ()"
    using res by (auto simp: edit_file_def f Let_def cs_def split: if_splits sum.splits)
  have free: "view ed (take d cs) = None" if "d < length cs" for d
    using that reject_loop_sound [OF ed rej [unfolded reject_blob_directory_collision_def], of "take d cs"] ed
    by (cases "d = 0") (auto simp: editing_def)
  have b: "blobs_present r (view ed)" using ed by (simp add: editing_def)
  have nocoll: "\<not> list_ex (\<lambda>d. files_of r (view ed) (take d cs) \<noteq> None) [1..<length cs]"
    using free files_of_None [OF b] by (auto simp: list_ex_iff)
  show ?thesis
  proof (cases contents)
    case None
    then have rm: "gx_remove g ed cs = Some ed'" "r' = r"
      using res cs rej by (auto simp: edit_file_def f Let_def cs_def split: option.splits)
    have "view ed q = None" if "strict_prefix q cs" for q
      using free strict_prefix_take [OF that] by auto
    from remove_law [OF cs ok this rm(1)]
    have law: "base ed' = base ed" "view ed' = (\<lambda>q. if prefix cs q then None else view ed q)" by simp_all
    have "editing r0 root r' (view ed') (base ed')"
      using ed law rm(2) by (auto simp: editing_def blobs_present_def split: if_splits)
    moreover have "apply_edit f (files_of r (view ed)) = Some (files_of r' (view ed'))"
      using cs nocoll None by (auto simp: apply_edit_def f Let_def cs_def law files_of_def rm(2))
    ultimately show ?thesis ..
  next
    case (Some bytes)
    then obtain i where w: "gx_write_object g r (BlobObj bytes) = Some (r', i)"
      and up: "gx_upsert g ed cs KBlob i = Some ed'"
      using res cs rej by (auto simp: edit_file_def f Let_def cs_def ok_or_def split: option.splits)
    note wr = blob_write_editing [OF ed w]
    from upsert_law [OF cs ok up] have law: "base ed' = base ed"
      "view ed' = (\<lambda>q. if q = cs then Some i else if prefix cs q \<or> prefix q cs then None else view ed q)" by simp_all
    have v: "view ed' q = (if q = cs then Some i else if prefix cs q then None else view ed q)" for q
    proof (cases "strict_prefix q cs")
      case True
      with free strict_prefix_take [OF True] have "view ed q = None" by auto
      with law(2) show ?thesis by simp
    next
      case False
      with law(2) show ?thesis by (simp add: strict_prefix_def)
    qed
    have "editing r0 root r' (view ed') (base ed')"
    proof -
      have "blobs_present r' (view ed')"
        using wr by (auto simp: editing_def blobs_present_def v)
      with wr cs law(1) show ?thesis by (simp add: editing_def v)
    qed
    moreover have "files_of r' (view ed') = (\<lambda>q. if q = cs then Some bytes else if prefix cs q then None else files_of r (view ed) q)"
    proof
      fix q
      have "files_of r' (view ed) q = files_of r (view ed) q"
        using files_of_extends [OF _ b] wr by metis
      then show "files_of r' (view ed') q = (if q = cs then Some bytes else if prefix cs q then None else files_of r (view ed) q)"
        using wr by (simp add: files_of_def v content_of_def)
    qed
    ultimately show ?thesis
      using cs nocoll unfolding apply_edit_def f Let_def prod.case cs_def [symmetric] Some by simp
  qed
qed

lemma edit_files_sound:
  assumes "editing r0 root r (view ed) (base ed)"
  shows "case edit_files g root r ed fs of
      (Inr ed', r') \<Rightarrow> editing r0 root r' (view ed') (base ed')
          \<and> apply_edits fs (files_of r (view ed)) = Some (files_of r' (view ed'))
    | (Inl e, r') \<Rightarrow> extends r0 r' \<and> objects_ok r' \<and> commits_kept r0 r'"
  using assms
proof (induction fs arbitrary: r ed)
  case Nil
  then show ?case by simp
next
  case (Cons f fs)
  obtain res r1 where step: "edit_file g root r ed f = (res, r1)" by fastforce
  show ?case
  proof (cases res)
    case (Inl e)
    from edit_file_error [OF step [unfolded Inl]] blob_write_editing [OF Cons.prems] Cons.prems
    have "editing r0 root r1 (view ed) (base ed)" by blast
    with step Inl show ?thesis by (simp add: editing_def)
  next
    case (Inr ed1)
    from edit_file_sound [OF Cons.prems step [unfolded Inr]] Cons.IH [of r1 ed1] step Inr show ?thesis
      by (auto split: sum.splits prod.splits)
  qed
qed

lemma commits_kept_trans: "commits_kept r r' \<Longrightarrow> commits_kept r' r'' \<Longrightarrow> commits_kept r r''"
  by (simp add: commits_kept_def)

lemma build_tree_sound:
  assumes "objects_ok r"
  shows "case build_tree g r parent fs of
      (Inr i, r') \<Rightarrow> extends r r' \<and> objects_ok r' \<and> commits_kept r r'
          \<and> (\<exists>es. g_objects r' i = Some (TreeObj es))
          \<and> apply_edits fs (case parent of Some t \<Rightarrow> files_of r (blob_at r t) | None \<Rightarrow> Map.empty)
             = Some (files_of r' (blob_at r' i))
    | (Inl e, r') \<Rightarrow> extends r r' \<and> objects_ok r' \<and> commits_kept r r'"
proof -
  define root where "root = (case parent of Some t \<Rightarrow> t | None \<Rightarrow> gx_empty_tree g)"
  show ?thesis
  proof (cases "gx_edit_tree g r root")
    case None
    with assms show ?thesis by (simp add: build_tree_def root_def [symmetric] commits_kept_def)
  next
    case (Some ed)
    from open_law [OF assms Some] have law: "view ed = blob_at r root" "base ed = blob_at r root"
      "root = gx_empty_tree g \<longrightarrow> blob_at r root = (\<lambda>cs. None)" by simp_all
    have start_files: "files_of r (view ed) = (case parent of Some t \<Rightarrow> files_of r (blob_at r t) | None \<Rightarrow> Map.empty)"
      using law by (auto simp: root_def files_of_def split: option.splits)
    have start: "editing r root r (view ed) (base ed)"
      using assms blobs_present_blob_at by (simp add: editing_def law commits_kept_def)
    obtain res r1 where step: "edit_files g root r ed fs = (res, r1)" by fastforce
    show ?thesis
    proof (cases res)
      case (Inl e)
      with edit_files_sound [OF start, of fs] step Some show ?thesis
        by (simp add: build_tree_def root_def [symmetric])
    next
      case (Inr ed1)
      with edit_files_sound [OF start, of fs] step
      have e1: "editing r root r1 (view ed1) (base ed1)"
        "apply_edits fs (files_of r (view ed)) = Some (files_of r1 (view ed1))" by simp_all
      then have x: "extends r r1" "objects_ok r1" "commits_kept r r1" "blobs_present r1 (view ed1)"
        by (simp_all add: editing_def)
      show ?thesis
      proof (cases "gx_write_tree g r1 ed1")
        case None
        with Some step Inr x show ?thesis by (simp add: build_tree_def root_def [symmetric])
      next
        case w: (Some p)
        obtain r2 i where p: "p = (r2, i)" by fastforce
        from write_tree_law [OF x(2) x(4) w [unfolded p]]
        have law2: "extends r1 r2" "objects_ok r2" "commits_kept r1 r2"
          "\<exists>es. g_objects r2 i = Some (TreeObj es)" "blob_at r2 i = view ed1" by simp_all
        from files_of_extends [OF law2(1) x(4)] e1(2) law2(5) start_files
        have "apply_edits fs (case parent of Some t \<Rightarrow> files_of r (blob_at r t) | None \<Rightarrow> Map.empty)
            = Some (files_of r2 (blob_at r2 i))" by simp
        with Some step Inr w p law2 extends_trans [OF x(1) law2(1)] commits_kept_trans [OF x(3) law2(3)]
        show ?thesis by (simp add: build_tree_def root_def [symmetric])
      qed
    qed
  qed
qed

end

lemma repo_okD:
  "repo_ok r \<Longrightarrow> objects_ok r"
  "\<lbrakk> repo_ok r; g_objects r i = Some (CommitObj c) \<rbrakk> \<Longrightarrow> \<exists>es. g_objects r (cm_tree c) = Some (TreeObj es)"
  by (simp_all add: repo_ok_def)

lemma repo_ok_extends:
  assumes "repo_ok r" "extends r r'" "objects_ok r'" "commits_kept r r'"
  shows "repo_ok r'"
  using assms extends_object [OF assms(2)] unfolding repo_ok_def commits_kept_def by blast

lemma branch_parent_Inr:
  assumes "branch_parent r name = Inr parent"
  shows "(g_refs r name = None \<and> parent = None)
    \<or> (\<exists>i c. g_refs r name = Some i \<and> g_objects r i = Some (CommitObj c) \<and> parent = Some (i, cm_tree c))"
proof (cases "g_refs r name")
  case (Some i)
  with assms obtain c where "commit_at r i commit_err = Inr c" "parent = Some (i, cm_tree c)"
    by (auto simp: branch_parent_def find_reference_def map_ok_def bind_res_eq_Inr)
  moreover from this(1) have "g_objects r i = Some (CommitObj c)"
    by (cases "g_objects r i")
      (auto simp: commit_at_def bind_res_eq_Inr find_object_def into_commit_def split: git_object.splits)
  ultimately show ?thesis using Some by simp
qed (use assms in \<open>simp add: branch_parent_def find_reference_def\<close>)

context gix_backend
begin

lemma publish_commit_cases:
  assumes ok: "repo_ok r" and tree: "g_objects r (cm_tree c) = Some (TreeObj es)"
    and res: "publish_commit g r name c = (res, r')"
  shows "(\<exists>e. res = Inl e) \<and> extends r r' \<and> repo_ok r'
    \<or> (\<exists>i r2. res = Inr (gx_to_hex g i) \<and> extends r r2 \<and> repo_ok r2
        \<and> r' = r2\<lparr> g_refs := (g_refs r)(name \<mapsto> i) \<rparr> \<and> g_objects r2 i = Some (CommitObj c)
        \<and> files_of r2 (blob_at r2 (cm_tree c)) = files_of r (blob_at r (cm_tree c)))"
proof (cases "gx_write_object g r (CommitObj c)")
  case None
  with res ok show ?thesis by (auto simp: publish_commit_def)
next
  case (Some p)
  obtain r2 i where p: "p = (r2, i)" by fastforce
  from write_object_law [OF Some [unfolded p]]
  have w: "extends r r2" "g_objects r2 = (g_objects r)(i \<mapsto> CommitObj c)" by simp_all
  have objs: "objects_ok r" by (rule repo_okD(1) [OF ok])
  have o2: "objects_ok r2" using objects_ok_add [OF objs w] by simp
  have ok2: "repo_ok r2"
    unfolding repo_ok_def using o2 repo_okD(2) [OF ok] tree w(2) extends_object [OF w(1)]
    by (metis fun_upd_apply git_object.inject(3) option.inject)
  have "blob_at r2 (cm_tree c) = blob_at r (cm_tree c)" by (rule blob_at_extends_eq [OF objs w(1) tree])
  then have files: "files_of r2 (blob_at r2 (cm_tree c)) = files_of r (blob_at r (cm_tree c))"
    using files_of_extends [OF w(1) blobs_present_blob_at [OF objs]] by simp
  show ?thesis
  proof (cases "gx_update_ref g r2 name i")
    case (Inl e)
    with res Some p w(1) ok2 show ?thesis by (auto simp: publish_commit_def)
  next
    case (Inr r3)
    have "r' = r2\<lparr> g_refs := (g_refs r)(name \<mapsto> i) \<rparr>" "res = Inr (gx_to_hex g i)"
      using res Some p Inr update_ref_law [OF Inr] w(1) by (auto simp: publish_commit_def extends_def)
    with w ok2 files show ?thesis by (intro disjI2 exI [of _ i] exI [of _ r2]) simp
  qed
qed

lemma prepare_commit_sound:
  assumes ok: "repo_ok r" and res: "prepare_commit g now r spec = (res, r')"
  shows "extends r r' \<and> repo_ok r' \<and>
    (case res of Inl e \<Rightarrow> True
     | Inr c \<Rightarrow> (\<exists>es. g_objects r' (cm_tree c) = Some (TreeObj es))
        \<and> cm_parents c = (case g_refs r (branch_ref (cs_branch spec)) of Some p \<Rightarrow> [p] | None \<Rightarrow> [])
        \<and> cm_message c = cs_message spec
        \<and> (\<forall>p. g_refs r (branch_ref (cs_branch spec)) = Some p \<longrightarrow> (\<exists>d. g_objects r p = Some (CommitObj d)))
        \<and> apply_edits (cs_files spec) (branch_files r (branch_ref (cs_branch spec)))
           = Some (files_of r' (blob_at r' (cm_tree c))))"
proof (cases "branch_parent r (branch_ref (cs_branch spec))")
  case (Inl e)
  with res ok show ?thesis by (auto simp: prepare_commit_def)
next
  case (Inr parent)
  note parent = branch_parent_Inr [OF Inr]
  note sound = build_tree_sound [OF repo_okD(1) [OF ok], where parent = "map_option snd parent" and fs = "cs_files spec"]
  obtain bres r1 where bt: "build_tree g r (map_option snd parent) (cs_files spec) = (bres, r1)" by fastforce
  with sound have x: "extends r r1" "objects_ok r1" "commits_kept r r1" by (auto split: sum.splits)
  show ?thesis
  proof (cases bres)
    case (Inl e)
    from res bt Inl \<open>branch_parent r _ = Inr parent\<close> have "res = Inl e" "r' = r1" by (simp_all add: prepare_commit_def)
    with x(1) repo_ok_extends [OF ok x] show ?thesis by simp
  next
    case t: (Inr tree)
    define c where "c = new_commit now spec parent tree"
    have c: "cm_tree c = tree" "cm_message c = cs_message spec"
      "cm_parents c = (case parent of Some (i, _) \<Rightarrow> [i] | None \<Rightarrow> [])"
      by (simp_all add: c_def new_commit_def Let_def)
    from res bt t Inr have "res = Inr c" "r' = r1" by (simp_all add: prepare_commit_def c_def)
    moreover from sound bt t obtain es where "g_objects r1 (cm_tree c) = Some (TreeObj es)"
      and "apply_edits (cs_files spec)
          (case map_option snd parent of Some t \<Rightarrow> files_of r (blob_at r t) | None \<Rightarrow> Map.empty)
         = Some (files_of r1 (blob_at r1 tree))" by (auto simp: c)
    moreover have "branch_files r (branch_ref (cs_branch spec))
        = (case map_option snd parent of Some t \<Rightarrow> files_of r (blob_at r t) | None \<Rightarrow> Map.empty)"
      using parent by (auto simp: branch_files_def)
    moreover have "cm_parents c = (case g_refs r (branch_ref (cs_branch spec)) of Some p \<Rightarrow> [p] | None \<Rightarrow> [])"
      using parent by (auto simp: c)
    ultimately show ?thesis using x(1) repo_ok_extends [OF ok x] c parent by auto
  qed
qed

lemma write_commit_cases:
  assumes ok: "repo_ok r" and res: "write_commit g now r spec = (res, r')"
  shows "(\<exists>e. res = Inl e) \<and> extends r r' \<and> repo_ok r'
    \<or> (\<exists>i c r2. res = Inr (gx_to_hex g i) \<and> extends r r2 \<and> repo_ok r2
        \<and> r' = r2\<lparr> g_refs := (g_refs r)(branch_ref (cs_branch spec) \<mapsto> i) \<rparr>
        \<and> g_objects r2 i = Some (CommitObj c)
        \<and> cm_parents c = (case g_refs r (branch_ref (cs_branch spec)) of Some p \<Rightarrow> [p] | None \<Rightarrow> [])
        \<and> cm_message c = cs_message spec
        \<and> apply_edits (cs_files spec) (branch_files r (branch_ref (cs_branch spec)))
           = Some (files_of r2 (blob_at r2 (cm_tree c))))"
proof -
  obtain pres r1 where p: "prepare_commit g now r spec = (pres, r1)" by fastforce
  note sound = prepare_commit_sound [OF ok p]
  show ?thesis
  proof (cases pres)
    case (Inl e)
    with sound p res show ?thesis by (auto simp: write_commit_def)
  next
    case (Inr c)
    with sound obtain es where x: "extends r r1" "repo_ok r1" "g_objects r1 (cm_tree c) = Some (TreeObj es)"
      and facts: "cm_parents c = (case g_refs r (branch_ref (cs_branch spec)) of Some p \<Rightarrow> [p] | None \<Rightarrow> [])"
        "cm_message c = cs_message spec"
        "apply_edits (cs_files spec) (branch_files r (branch_ref (cs_branch spec))) = Some (files_of r1 (blob_at r1 (cm_tree c)))"
      by auto
    have pub: "publish_commit g r1 (branch_ref (cs_branch spec)) c = (res, r')"
      using res p Inr by (simp add: write_commit_def)
    have refs: "g_refs r1 = g_refs r" using x(1) by (simp add: extends_def)
    from publish_commit_cases [OF x(2,3) pub] show ?thesis
    proof (elim disjE exE conjE)
      fix e assume "res = Inl e" "extends r1 r'" "repo_ok r'"
      with extends_trans [OF x(1)] show ?thesis by simp
    next
      fix i r2
      assume *: "res = Inr (gx_to_hex g i)" "extends r1 r2" "repo_ok r2"
        "r' = r2\<lparr> g_refs := (g_refs r1)(branch_ref (cs_branch spec) \<mapsto> i) \<rparr>"
        "g_objects r2 i = Some (CommitObj c)"
        "files_of r2 (blob_at r2 (cm_tree c)) = files_of r1 (blob_at r1 (cm_tree c))"
      show ?thesis
        by (intro disjI2 exI [of _ i] exI [of _ c] exI [of _ r2])
          (use * extends_trans [OF x(1) *(2)] facts refs in simp)
    qed
  qed
qed

end

text \<open>Refs do not matter for what trees and blobs hold.\<close>

lemma refs_irrelevant [simp]:
  "entry_sound (x\<lparr> g_refs := f \<rparr>) = entry_sound x"
  "objects_ok (x\<lparr> g_refs := f \<rparr>) = objects_ok x"
  "entry_at (x\<lparr> g_refs := f \<rparr>) = entry_at x"
  "blob_at (x\<lparr> g_refs := f \<rparr>) = blob_at x"
  "files_of (x\<lparr> g_refs := f \<rparr>) = files_of x"
proof -
  show sound: "entry_sound (x\<lparr> g_refs := f \<rparr>) = entry_sound x" by (simp add: entry_sound_def fun_eq_iff)
  then show "objects_ok (x\<lparr> g_refs := f \<rparr>) = objects_ok x" by (simp add: objects_ok_def)
  have "entry_at (x\<lparr> g_refs := f \<rparr>) root cs = entry_at x root cs" for root cs
    by (induction x root cs rule: entry_at.induct) (auto split: option.splits git_object.splits)
  then show at: "entry_at (x\<lparr> g_refs := f \<rparr>) = entry_at x" by (intro ext)
  show "blob_at (x\<lparr> g_refs := f \<rparr>) = blob_at x" unfolding blob_at_def at ..
  have "content_of (x\<lparr> g_refs := f \<rparr>) = content_of x" by (simp add: content_of_def fun_eq_iff)
  then show "files_of (x\<lparr> g_refs := f \<rparr>) = files_of x" unfolding files_of_def by (simp only:)
qed

lemma write_commit_ok:
  assumes "gix_backend g view base" "repo_ok r" "write_commit g now r spec = (Inr hex, r')"
  obtains i c where "repo_ok r'" "gx_from_hex g hex = Some i" "g_head r' = g_head r"
    "g_refs r' = (g_refs r)(branch_ref (cs_branch spec) \<mapsto> i)" "extends r (r'\<lparr> g_refs := g_refs r \<rparr>)"
    "g_objects r' i = Some (CommitObj c)" "cm_message c = cs_message spec"
    "cm_parents c = (case g_refs r (branch_ref (cs_branch spec)) of Some p \<Rightarrow> [p] | None \<Rightarrow> [])"
    "apply_edits (cs_files spec) (branch_files r (branch_ref (cs_branch spec)))
       = Some (branch_files r' (branch_ref (cs_branch spec)))"
  using gix_backend.write_commit_cases [OF assms]
proof (elim disjE exE conjE)
  fix i c r2
  assume *: "Inr hex = Inr (gx_to_hex g i)" "extends r r2" "repo_ok r2"
    "r' = r2\<lparr> g_refs := (g_refs r)(branch_ref (cs_branch spec) \<mapsto> i) \<rparr>"
    "g_objects r2 i = Some (CommitObj c)"
    "cm_parents c = (case g_refs r (branch_ref (cs_branch spec)) of Some p \<Rightarrow> [p] | None \<Rightarrow> [])"
    "cm_message c = cs_message spec"
    "apply_edits (cs_files spec) (branch_files r (branch_ref (cs_branch spec)))
       = Some (files_of r2 (blob_at r2 (cm_tree c)))"
  have "repo_ok r'" using * by (simp add: repo_ok_def)
  moreover have "branch_files r' (branch_ref (cs_branch spec)) = files_of r2 (blob_at r2 (cm_tree c))"
    using * by (simp add: branch_files_def)
  moreover have "extends r (r'\<lparr> g_refs := g_refs r \<rparr>)" using * by (simp add: extends_def)
  moreover have "gx_from_hex g hex = Some i" using * gix_backend.hex_parses [OF assms(1)] by simp
  moreover have "g_head r' = g_head r" using * by (auto simp: extends_def)
  ultimately show thesis using * that by auto
qed simp


text \<open>Reading is reading the file map.\<close>

lemma read_file_files:
  assumes "repo_ok r" "resolve_rev g r rv = Inr i" "g_objects r i = Some (CommitObj c)"
  shows "read_file g r path rv
    = ok_or (PathNotFound path) (files_of r (blob_at r (cm_tree c)) (path_components path))"
proof -
  from repo_okD(2) [OF assms(1,3)] obtain es where es: "g_objects r (cm_tree c) = Some (TreeObj es)" by blast
  have root: "root_tree_id g r rv = Inr (cm_tree c)"
    using assms(2,3) by (simp add: root_tree_id_def commit_at_def find_object_def into_commit_def)
  note found = find_blob_in_tree_spec [OF repo_okD(1) [OF assms(1)] es, of path]
  show ?thesis
  proof (cases "blob_at r (cm_tree c) (path_components path)")
    case None
    with root found show ?thesis by (simp add: read_file_def read_blob_at_tree_def files_of_def)
  next
    case (Some b)
    with blobs_present_blob_at [OF repo_okD(1) [OF assms(1)], of "cm_tree c"]
    obtain bytes where "g_objects r b = Some (BlobObj bytes)" by (auto simp: blobs_present_def)
    with Some root found show ?thesis
      by (simp add: read_file_def read_blob_at_tree_def files_of_def content_of_def blob_bytes_def find_object_def)
  qed
qed

text \<open>\<open>HEAD\<close> follows the branch the backend commits to, or is unborn and falls back to it.\<close>

definition head_follows_main :: "repo \<Rightarrow> bool" where
  "head_follows_main r \<longleftrightarrow> g_head r = SymbolicHead (branch_ref MAIN_BRANCH) \<or> head_id r = None"

definition head_ok :: "repo \<Rightarrow> bool" where
  "head_ok r \<longleftrightarrow> (case resolve_head r of Inl _ \<Rightarrow> True | Inr i \<Rightarrow> \<exists>c. g_objects r i = Some (CommitObj c))"

lemma resolve_head_after:
  assumes "head_follows_main r" "g_head r' = g_head r" "g_refs r' = (g_refs r)(branch_ref MAIN_BRANCH \<mapsto> i)"
  shows "resolve_head r' = Inr i"
  using assms
  by (auto simp: resolve_head_def head_follows_main_def head_id_def find_reference_def split: git_head.splits)

lemma resolve_head_other:
  assumes "\<not> head_follows_main r" "g_head r' = g_head r" "g_refs r' = (g_refs r)(branch_ref MAIN_BRANCH \<mapsto> i)"
  shows "\<exists>j. head_id r = Some j \<and> resolve_head r = Inr j \<and> resolve_head r' = Inr j"
  using assms
  by (auto simp: resolve_head_def head_follows_main_def head_id_def split: git_head.splits)

lemma read_after_commit:
  assumes "gix_backend g view base" "repo_ok r" "write_commit g now r spec = (Inr hex, r')"
    "cs_branch spec = MAIN_BRANCH" "head_follows_main r"
  obtains fs where "repo_ok r'"
    "apply_edits (cs_files spec) (branch_files r (branch_ref MAIN_BRANCH)) = Some fs"
    "\<And>path. read_file g r' path Head = ok_or (PathNotFound path) (fs (path_components path))"
proof (rule write_commit_ok [OF assms(1-3)])
  fix i c
  assume w: "repo_ok r'" "g_head r' = g_head r" "g_refs r' = (g_refs r)(branch_ref (cs_branch spec) \<mapsto> i)"
    "g_objects r' i = Some (CommitObj c)"
    "apply_edits (cs_files spec) (branch_files r (branch_ref (cs_branch spec)))
       = Some (branch_files r' (branch_ref (cs_branch spec)))"
  have "resolve_rev g r' Head = Inr i"
    using resolve_head_after [OF assms(5) w(2)] w(3) assms(4) by (simp add: resolve_rev_def)
  from read_file_files [OF w(1) this w(4)]
  have "read_file g r' path Head = ok_or (PathNotFound path) (branch_files r' (branch_ref MAIN_BRANCH) (path_components path))" for path
    using w(3,4) assms(4) by (simp add: branch_files_def)
  then show thesis using that w(1,5) assms(4) by simp
qed

lemma read_beside_commit:
  assumes "gix_backend g view base" "repo_ok r" "head_ok r" "write_commit g now r spec = (Inr hex, r')"
    "cs_branch spec = MAIN_BRANCH" "\<not> head_follows_main r"
  shows "read_file g r' path Head = read_file g r path Head"
proof (rule write_commit_ok [OF assms(1,2,4)])
  fix i
  assume w: "repo_ok r'" "g_head r' = g_head r" "g_refs r' = (g_refs r)(branch_ref (cs_branch spec) \<mapsto> i)"
    "extends r (r'\<lparr> g_refs := g_refs r \<rparr>)"
  from resolve_head_other [OF assms(6) w(2)] w(3) assms(5) obtain j where j: "resolve_head r = Inr j"
    "resolve_rev g r Head = Inr j" "resolve_rev g r' Head = Inr j" by (auto simp: resolve_rev_def)
  with assms(3) obtain d where d: "g_objects r j = Some (CommitObj d)" by (auto simp: head_ok_def)
  have d': "g_objects r' j = Some (CommitObj d)" using extends_object [OF w(4) d] by simp
  from repo_okD(2) [OF assms(2) d] obtain es where es: "g_objects r (cm_tree d) = Some (TreeObj es)" by blast
  note objs = repo_okD(1) [OF assms(2)]
  have "blob_at r' (cm_tree d) = blob_at r (cm_tree d)" using blob_at_extends_eq [OF objs w(4) es] by simp
  then have "files_of r' (blob_at r' (cm_tree d)) = files_of r (blob_at r (cm_tree d))"
    using files_of_extends [OF w(4) blobs_present_blob_at [OF objs]] by simp
  with read_file_files [OF assms(2) j(2) d] read_file_files [OF w(1) j(3) d'] show ?thesis by simp
qed

text \<open>
  C3. Reading back a commit. Every read at \<open>HEAD\<close> after a successful commit to the main branch
  sees the edited file map, provided \<open>HEAD\<close> follows that branch; on a clone whose \<open>HEAD\<close> names
  another existing branch no read at \<open>HEAD\<close> sees anything of it: commits always go to \<open>main\<close>.
\<close>

theorem commit_read_back:
  assumes "gix_backend g view base" and "repo_ok r" and "head_ok r"
    and "write_commit g now r spec = (Inr hex, r')" and "cs_branch spec = MAIN_BRANCH"
  shows "if head_follows_main r
    then (\<exists>fs. apply_edits (cs_files spec) (branch_files r (branch_ref MAIN_BRANCH)) = Some fs
           \<and> (\<forall>path. read_file g r' path Head = ok_or (PathNotFound path) (fs (path_components path))))
    else (\<forall>path. read_file g r' path Head = read_file g r path Head)"
proof (cases "head_follows_main r")
  case True
  from read_after_commit [OF assms(1,2,4,5) this] True show ?thesis by (simp, metis)
next
  case False
  with read_beside_commit [OF assms] show ?thesis by simp
qed

end
