(* ===== verification/Git_Remote.thy ===== *)
theory Git_Remote
  imports Git_Repo
begin

text \<open>
  The network side of the native git backend (\<open>mmcp-git\<close>, \<open>native/repo_ops.rs\<close>,
  \<open>native/defaults.rs\<close>, \<open>native/backend.rs\<close>, \<open>error.rs\<close>): the \<open>git\<close> commands it
  builds, the credentials and headless settings it puts on them, the bounds it runs them under,
  and how it reads their outcome. The subprocess itself is a parameter: a function from the
  command to what became of it.
\<close>

section \<open>Commands\<close>

datatype credentials = NoCredentials | BearerHttp string | SshCommand string

record command =
  cmd_args :: "string list"
  cmd_env :: "(string \<times> string) list"

definition git_command :: command where
  "git_command = \<lparr> cmd_args = [], cmd_env = [] \<rparr>"

definition arg :: "string \<Rightarrow> command \<Rightarrow> command" where
  "arg a c = c\<lparr> cmd_args := cmd_args c @ [a] \<rparr>"

definition args :: "string list \<Rightarrow> command \<Rightarrow> command" where
  "args as c = fold arg as c"

definition env :: "string \<Rightarrow> string \<Rightarrow> command \<Rightarrow> command" where
  "env k v c = c\<lparr> cmd_env := (k, v) # filter (\<lambda>(k', _). k' \<noteq> k) (cmd_env c) \<rparr>"

definition get_env :: "command \<Rightarrow> string \<Rightarrow> string option" where
  "get_env c k = map_of (cmd_env c) k"

lemma get_env_env [simp]: "get_env (env k v c) k' = (if k' = k then Some v else get_env c k')"
proof -
  have "map_of (filter (\<lambda>(k', _). k' \<noteq> k) es) k' = map_of es k'" if "k' \<noteq> k" for es :: "(string \<times> string) list"
    using that by (induction es) auto
  then show ?thesis by (auto simp: get_env_def env_def)
qed

lemma get_env_arg [simp]: "get_env (arg a c) k = get_env c k"
  by (simp add: get_env_def arg_def)

lemma cmd_args_simps [simp]:
  "cmd_args (arg a c) = cmd_args c @ [a]" "cmd_args (env k v c) = cmd_args c"
  "cmd_args (args as c) = cmd_args c @ as"
proof -
  show "cmd_args (arg a c) = cmd_args c @ [a]" "cmd_args (env k v c) = cmd_args c"
    by (simp_all add: arg_def env_def)
  show "cmd_args (args as c) = cmd_args c @ as"
    by (induction as arbitrary: c) (simp_all add: args_def arg_def)
qed

lemma get_env_args [simp]: "get_env (args as c) k = get_env c k"
  by (induction as arbitrary: c) (simp_all add: args_def)

definition FETCH_PUSH_TIMEOUT :: nat where "FETCH_PUSH_TIMEOUT = 5 * 60"
definition CLONE_TIMEOUT :: nat where "CLONE_TIMEOUT = 15 * 60"
definition LOCAL_GIT_OP_TIMEOUT :: nat where "LOCAL_GIT_OP_TIMEOUT = 30"
definition SSH_BATCH_MODE_FLAG :: string where "SSH_BATCH_MODE_FLAG = ''-o BatchMode=yes''"
definition DEFAULT_SSH_COMMAND_BATCH_MODE :: string where
  "DEFAULT_SSH_COMMAND_BATCH_MODE = ''ssh -o BatchMode=yes''"

section \<open>Errors that name a remote\<close>

fun split_once_str :: "string \<Rightarrow> string \<Rightarrow> (string \<times> string) option" where
  "split_once_str sep [] = (if sep = [] then Some ([], []) else None)"
| "split_once_str sep (c # s) =
     (case strip_prefix (c # s) sep of
        Some rest \<Rightarrow> Some ([], rest)
      | None \<Rightarrow> map_option (\<lambda>(a, b). (c # a, b)) (split_once_str sep s))"

definition redact_url :: "string \<Rightarrow> string" where
  "redact_url url =
     (case split_once_str ''://'' url of
        Some (scheme, rest) \<Rightarrow>
          (case split_once CHR ''@'' rest of
             Some (_, after) \<Rightarrow> scheme @ ''://<redacted>@'' @ after
           | None \<Rightarrow> url)
      | None \<Rightarrow> url)"

definition transport :: "string \<Rightarrow> string \<Rightarrow> string \<Rightarrow> git_error" where
  "transport op url stderr = Transport op (redact_url url) stderr"

definition timeout :: "string \<Rightarrow> string \<Rightarrow> nat \<Rightarrow> git_error" where
  "timeout op url bound = TimeoutError op (redact_url url) bound"

section \<open>Running a command\<close>

record git_output =
  out_success :: bool
  out_stdout :: string
  out_stderr :: string

datatype run_outcome = SpawnFailed string | WaitFailed string | TimedOut | Exited git_output

definition wait_with_timeout :: "run_outcome \<Rightarrow> nat \<Rightarrow> string \<Rightarrow> string \<Rightarrow> git_error + git_output" where
  "wait_with_timeout outcome bound op target =
     (case outcome of
        Exited out \<Rightarrow> Inr out
      | WaitFailed e \<Rightarrow> Inl (GitIo e)
      | SpawnFailed e \<Rightarrow> Inl (GitIo e)
      | TimedOut \<Rightarrow> Inl (timeout op target bound))"

type_synonym runner = "command \<Rightarrow> run_outcome"

definition run_git_subprocess ::
  "runner \<Rightarrow> command \<Rightarrow> nat \<Rightarrow> string \<Rightarrow> string \<Rightarrow> git_error + git_output" where
  "run_git_subprocess run cmd bound op target = wait_with_timeout (run cmd) bound op target"

section \<open>Headless credentials\<close>

definition build_core_ssh_command_query :: "string option \<Rightarrow> command" where
  "build_core_ssh_command_query repo_path =
     (case repo_path of
        Some path \<Rightarrow> args [''-C'', path, ''config'', ''--get'', ''core.sshCommand''] git_command
      | None \<Rightarrow> args [''config'', ''--get'', ''--global'', ''core.sshCommand''] git_command)"

definition trim_end_newlines :: "string \<Rightarrow> string" where
  "trim_end_newlines s = rev (dropWhile (\<lambda>c. c = newline \<or> c = carriage_return) (rev s))"

definition parse_core_ssh_command_output :: "bool \<Rightarrow> string \<Rightarrow> string option" where
  "parse_core_ssh_command_output success stdout =
     (if \<not> success then None
      else let trimmed = trim_end_newlines (utf8_lossy stdout)
           in if trimmed = [] then None else Some trimmed)"

definition read_core_ssh_command :: "runner \<Rightarrow> string option \<Rightarrow> string option" where
  "read_core_ssh_command run repo_path =
     (case run_git_subprocess run (build_core_ssh_command_query repo_path) LOCAL_GIT_OP_TIMEOUT
             ''config-get'' ''core.sshCommand'' of
        Inl e \<Rightarrow> None
      | Inr out \<Rightarrow> parse_core_ssh_command_output (out_success out) (out_stdout out))"

definition extend_with_batch_mode :: "string \<Rightarrow> string" where
  "extend_with_batch_mode v = v @ '' '' @ SSH_BATCH_MODE_FLAG"

fun first_nonempty :: "string option list \<Rightarrow> string option" where
  "first_nonempty [] = None"
| "first_nonempty (None # cs) = first_nonempty cs"
| "first_nonempty (Some c # cs) = (if c \<noteq> [] then Some c else first_nonempty cs)"

definition resolve_ssh_command :: "string option \<Rightarrow> string option \<Rightarrow> string" where
  "resolve_ssh_command ambient core_ssh_command =
     (case first_nonempty [ambient, core_ssh_command] of
        Some c \<Rightarrow> extend_with_batch_mode c
      | None \<Rightarrow> DEFAULT_SSH_COMMAND_BATCH_MODE)"

text \<open>\<open>ambient\<close> is the process's own \<open>GIT_SSH_COMMAND\<close>, read from the environment.\<close>

definition suppress_interactive_prompts ::
  "runner \<Rightarrow> string option \<Rightarrow> string option \<Rightarrow> command \<Rightarrow> command" where
  "suppress_interactive_prompts run ambient repo_path cmd =
     (let c = env ''GIT_ASKPASS'' [] (env ''GIT_TERMINAL_PROMPT'' ''0'' (args [''-c'', ''credential.helper=''] cmd)) in
      if get_env c ''GIT_SSH_COMMAND'' \<noteq> None then c
      else
        (let core = (if (case ambient of Some v \<Rightarrow> v \<noteq> [] | None \<Rightarrow> False) then None
                     else read_core_ssh_command run repo_path)
         in env ''GIT_SSH_COMMAND'' (resolve_ssh_command ambient core) c))"

definition apply_credentials ::
  "runner \<Rightarrow> string option \<Rightarrow> credentials \<Rightarrow> string option \<Rightarrow> command \<Rightarrow> command" where
  "apply_credentials run ambient creds repo_path cmd =
     suppress_interactive_prompts run ambient repo_path
       (case creds of
          NoCredentials \<Rightarrow> cmd
        | BearerHttp token \<Rightarrow>
            env ''GIT_CONFIG_VALUE_0'' (''Authorization: Bearer '' @ token)
              (env ''GIT_CONFIG_KEY_0'' ''http.extraHeader'' (env ''GIT_CONFIG_COUNT'' ''1'' cmd))
        | SshCommand v \<Rightarrow> env ''GIT_SSH_COMMAND'' v cmd)"

section \<open>Clone, fetch and push\<close>

definition checked ::
  "string \<Rightarrow> string \<Rightarrow> git_output \<Rightarrow> git_error + unit" where
  "checked op url out =
     (if out_success out then Inr () else Inl (transport op url (utf8_lossy (out_stderr out))))"

definition clone_command :: "runner \<Rightarrow> string option \<Rightarrow> string \<Rightarrow> string \<Rightarrow> credentials \<Rightarrow> command" where
  "clone_command run ambient remote_url dst creds =
     args [''clone'', remote_url, dst] (apply_credentials run ambient creds None git_command)"

definition clone :: "runner \<Rightarrow> string option \<Rightarrow> string \<Rightarrow> string \<Rightarrow> credentials \<Rightarrow> git_error + unit" where
  "clone run ambient remote_url dst creds =
     bind_res (run_git_subprocess run (clone_command run ambient remote_url dst creds) CLONE_TIMEOUT
                 ''clone'' remote_url)
       (checked ''clone'' remote_url)"

definition ensure_remote :: "runner \<Rightarrow> string \<Rightarrow> string \<Rightarrow> git_error + unit" where
  "ensure_remote run repo_path remote_url =
     bind_res (run_git_subprocess run
         (args [''-C'', repo_path, ''remote'', ''set-url'', ''origin'', remote_url] git_command)
         LOCAL_GIT_OP_TIMEOUT ''remote-set-url'' remote_url) (\<lambda>out.
       if out_success out then Inr ()
       else
         bind_res (run_git_subprocess run
             (args [''-C'', repo_path, ''remote'', ''add'', ''origin'', remote_url] git_command)
             LOCAL_GIT_OP_TIMEOUT ''remote-add'' remote_url)
           (checked ''remote-add'' remote_url))"

definition fetch_refspec :: "ref_spec \<Rightarrow> string" where
  "fetch_refspec rs = (if rs_force rs then ''+'' else []) @ rs_local rs @ '':'' @ rs_remote rs"

definition transfer_command ::
  "runner \<Rightarrow> string option \<Rightarrow> string \<Rightarrow> string \<Rightarrow> string list \<Rightarrow> credentials \<Rightarrow> command" where
  "transfer_command run ambient op repo_path refspecs creds =
     args ([''-C'', repo_path, op, ''origin''] @ refspecs)
       (apply_credentials run ambient creds (Some repo_path) git_command)"

definition fetch ::
  "runner \<Rightarrow> string option \<Rightarrow> string \<Rightarrow> string \<Rightarrow> string list \<Rightarrow> credentials \<Rightarrow> git_error + unit" where
  "fetch run ambient repo_path remote_url refspecs creds =
     bind_res (ensure_remote run repo_path remote_url) (\<lambda>_.
     bind_res (run_git_subprocess run (transfer_command run ambient ''fetch'' repo_path refspecs creds)
                 FETCH_PUSH_TIMEOUT ''fetch'' remote_url)
       (checked ''fetch'' remote_url))"

definition push_refspec :: "string \<times> string \<times> bool \<Rightarrow> string" where
  "push_refspec spec =
     (let (l, r, force) = spec in if force then ''+'' @ l @ '':'' @ r else l @ '':'' @ r)"

definition push ::
  "runner \<Rightarrow> string option \<Rightarrow> string \<Rightarrow> string \<Rightarrow> (string \<times> string \<times> bool) list \<Rightarrow> credentials
    \<Rightarrow> git_error + push_report" where
  "push run ambient repo_path remote_url refspecs creds =
     bind_res (ensure_remote run repo_path remote_url) (\<lambda>_.
     bind_res (run_git_subprocess run
         (transfer_command run ambient ''push'' repo_path (map push_refspec refspecs) creds)
         FETCH_PUSH_TIMEOUT ''push'' remote_url) (\<lambda>out.
     bind_res (checked ''push'' remote_url out) (\<lambda>_.
       Inr \<lparr> pr_updated = map (\<lambda>(l, r, _). (r, l)) refspecs, pr_rejected = [] \<rparr>)))"

text \<open>The check of the outgoing refs, before the subprocess.\<close>

definition missing_ref_text :: "string \<Rightarrow> string" where
  "missing_ref_text l = ''nothing to push: local ref `'' @ l
     @ ''` does not exist (repository has no commits yet, or the branch name is wrong)''"

fun preflight_local_refs :: "string \<Rightarrow> repo \<Rightarrow> (string \<times> string \<times> bool) list \<Rightarrow> git_error + unit" where
  "preflight_local_refs git_dir r [] = Inr ()"
| "preflight_local_refs git_dir r ((l, rem, force) # specs) =
     (if l = [] then preflight_local_refs git_dir r specs
      else if find_reference r l = None then Inl (Transport ''push'' git_dir (missing_ref_text l))
      else preflight_local_refs git_dir r specs)"

definition backend_push ::
  "runner \<Rightarrow> string option \<Rightarrow> string \<Rightarrow> string \<Rightarrow> repo \<Rightarrow> string \<Rightarrow> ref_spec list \<Rightarrow> credentials
    \<Rightarrow> git_error + push_report" where
  "backend_push run ambient git_dir repo_path r remote_url refs creds =
     (let refspecs = map (\<lambda>s. (rs_local s, rs_remote s, rs_force s)) refs in
      bind_res (preflight_local_refs git_dir r refspecs) (\<lambda>_.
        push run ambient repo_path remote_url refspecs creds))"

definition backend_fetch ::
  "runner \<Rightarrow> string option \<Rightarrow> string \<Rightarrow> string \<Rightarrow> ref_spec list \<Rightarrow> credentials \<Rightarrow> git_error + unit" where
  "backend_fetch run ambient repo_path remote_url refs creds =
     fetch run ambient repo_path remote_url (map fetch_refspec refs) creds"

section \<open>What reaches the subprocess\<close>

definition ssh_setting :: "runner \<Rightarrow> string option \<Rightarrow> credentials \<Rightarrow> string option \<Rightarrow> string" where
  "ssh_setting run ambient creds repo_path =
     (case creds of
        SshCommand v \<Rightarrow> v
      | _ \<Rightarrow>
          (case first_nonempty [ambient, read_core_ssh_command run repo_path] of
             Some v \<Rightarrow> v @ '' -o BatchMode=yes''
           | None \<Rightarrow> ''ssh -o BatchMode=yes''))"

lemma apply_credentials_settings:
  "cmd_args (apply_credentials run ambient creds p git_command) = [''-c'', ''credential.helper='']"
  "get_env (apply_credentials run ambient creds p git_command) ''GIT_TERMINAL_PROMPT'' = Some ''0''"
  "get_env (apply_credentials run ambient creds p git_command) ''GIT_ASKPASS'' = Some []"
  "get_env (apply_credentials run ambient creds p git_command) ''GIT_SSH_COMMAND''
     = Some (ssh_setting run ambient creds p)"
proof -
  have none: "get_env git_command k = None" for k by (simp add: get_env_def git_command_def)
  have a: "cmd_args git_command = []" by (simp add: git_command_def)
  show "cmd_args (apply_credentials run ambient creds p git_command) = [''-c'', ''credential.helper='']"
    by (simp add: apply_credentials_def suppress_interactive_prompts_def Let_def a split: credentials.splits)
  show "get_env (apply_credentials run ambient creds p git_command) ''GIT_TERMINAL_PROMPT'' = Some ''0''"
    "get_env (apply_credentials run ambient creds p git_command) ''GIT_ASKPASS'' = Some []"
    by (simp_all add: apply_credentials_def suppress_interactive_prompts_def Let_def split: credentials.splits)
  show "get_env (apply_credentials run ambient creds p git_command) ''GIT_SSH_COMMAND''
     = Some (ssh_setting run ambient creds p)"
    by (cases creds; cases ambient)
      (simp_all add: apply_credentials_def suppress_interactive_prompts_def Let_def none ssh_setting_def
        resolve_ssh_command_def extend_with_batch_mode_def SSH_BATCH_MODE_FLAG_def
        DEFAULT_SSH_COMMAND_BATCH_MODE_def split: option.splits)
qed

text \<open>
  Every command that talks to a remote runs headless and keeps credentials out of its
  arguments: whatever the credentials, the arguments are the same fixed list with the helper
  disabled before the subcommand, the terminal prompt and askpass are off, and the ssh command
  is the explicit one, or the ambient or configured one in batch mode, or plain ssh in batch mode.
\<close>

theorem transfers_headless:
  "cmd_args (transfer_command run ambient op repo_path refspecs creds)
     = [''-c'', ''credential.helper='', ''-C'', repo_path, op, ''origin''] @ refspecs
   \<and> cmd_args (clone_command run ambient url dst creds) = [''-c'', ''credential.helper='', ''clone'', url, dst]
   \<and> list_all (\<lambda>(c, p). get_env c ''GIT_TERMINAL_PROMPT'' = Some ''0'' \<and> get_env c ''GIT_ASKPASS'' = Some []
        \<and> get_env c ''GIT_SSH_COMMAND'' = Some (ssh_setting run ambient creds p))
      [(transfer_command run ambient op repo_path refspecs creds, Some repo_path),
       (clone_command run ambient url dst creds, None)]"
  by (simp add: transfer_command_def clone_command_def apply_credentials_settings)

text \<open>
  The redaction looks for the first at sign after the scheme: a password that contains one
  leaves its tail in the text, and an at sign in the path alone takes the host away.
\<close>

lemma redact_url_userinfo:
  assumes "split_once_str ''://'' url = Some (scheme, user @ ''@'' @ host)" "CHR ''@'' \<notin> set user"
  shows "redact_url url = scheme @ ''://<redacted>@'' @ host"
proof -
  have "split_once CHR ''@'' (user @ CHR ''@'' # host) = Some (user, host)"
    using assms(2) by (simp add: split_once_Some)
  with assms(1) show ?thesis by (simp add: redact_url_def)
qed

lemma redact_url_leaks:
  "redact_url ''https://me:p@ss@host/r'' = ''https://<redacted>@ss@host/r''"
  "redact_url ''https://host/a@b'' = ''https://<redacted>@b''"
  by code_simp+

text \<open>The report of a push names the local ref where its documentation promises the new commit.\<close>

lemma push_report_names_refs:
  "push run ambient p url [(l, r, f)] creds = Inr report \<Longrightarrow> pr_updated report = [(r, l)]"
  by (auto simp: push_def bind_res_eq_Inr)

end
