(* ===== verification/Git_Reference.thy ===== *)
theory Git_Reference
  imports Git_Repo "HOL-Library.AList"
begin

text \<open>
  A complete implementation of the \<open>gix\<close> operations over the modelled object database, on
  which the contract \<open>gix_backend\<close> is interpreted: the tree editor is a trie, written back
  directory by directory; an object is stored under its encoding, refused on collision; merge
  bases are searched among the common ancestors. Histories and trees deeper than the fuel are
  answered with an error, never with a wrong result. Nothing here models code of the
  repository: it shows that what the other theories assume of \<open>gix\<close> can hold.
\<close>

section \<open>Tries\<close>

datatype trie = TBlob oid | TDir "(string \<times> trie) list"

fun tview :: "trie \<Rightarrow> string list \<Rightarrow> oid option" where
  "tview (TBlob i) cs = (if cs = [] then Some i else None)"
| "tview (TDir es) [] = None"
| "tview (TDir es) (n # cs) = (case map_of es n of None \<Rightarrow> None | Some t \<Rightarrow> tview t cs)"

definition oview :: "trie option \<Rightarrow> string list \<Rightarrow> oid option" where
  "oview t cs = (case t of None \<Rightarrow> None | Some t \<Rightarrow> tview t cs)"

lemma oview_simps [simp]: "oview None cs = None" "oview (Some t) cs = tview t cs"
  by (simp_all add: oview_def)

lemma tview_TDir_Cons [simp]: "tview (TDir es) (n # cs) = oview (map_of es n) cs"
  by (simp add: oview_def)

declare tview.simps(3) [simp del]

definition dir_entries :: "trie option \<Rightarrow> (string \<times> trie) list" where
  "dir_entries t = (case t of Some (TDir es) \<Rightarrow> es | _ \<Rightarrow> [])"

fun tput :: "string list \<Rightarrow> oid \<Rightarrow> trie option \<Rightarrow> trie" where
  "tput [] i t = TBlob i"
| "tput (n # cs) i t =
     (let es = dir_entries t in TDir (AList.update n (tput cs i (map_of es n)) es))"

fun tdel :: "string list \<Rightarrow> trie option \<Rightarrow> trie option" where
  "tdel [] t = None"
| "tdel (n # cs) (Some (TDir es)) =
     Some (TDir (case tdel cs (map_of es n) of
                   None \<Rightarrow> AList.delete n es
                 | Some t \<Rightarrow> AList.update n t es))"
| "tdel (n # cs) t = t"

fun tkind :: "trie option \<Rightarrow> string list \<Rightarrow> entry_kind option" where
  "tkind (Some (TBlob i)) [] = Some KBlob"
| "tkind (Some (TDir es)) [] = Some KTree"
| "tkind (Some (TDir es)) (n # cs) = tkind (map_of es n) cs"
| "tkind t cs = None"

lemma tview_tput:
  "tview (tput cs i t) q = (if q = cs then Some i else if prefix cs q \<or> prefix q cs then None else oview t q)"
proof (induction cs i t arbitrary: q rule: tput.induct)
  case (1 i t)
  then show ?case by simp
next
  case (2 n cs i t)
  show ?case
  proof (cases q)
    case (Cons m q')
    have "oview t q = oview (map_of (dir_entries t) m) q'" if "m \<noteq> n"
      using Cons by (cases t; cases "the t") (auto simp: dir_entries_def)
    moreover have "oview t q = oview (map_of (dir_entries t) n) q'" if "m = n"
      using Cons that by (cases t; cases "the t") (auto simp: dir_entries_def)
    ultimately show ?thesis
      using 2 [OF refl, of q'] Cons by (cases "m = n") (auto simp: Let_def update_conv')
  qed (simp add: Let_def)
qed

lemma oview_tdel: "oview (tdel cs t) q = (if prefix cs q then None else oview t q)"
proof (induction cs t arbitrary: q rule: tdel.induct)
  case (2 n cs es)
  show ?case
  proof (cases q)
    case (Cons m q')
    with 2 [of q'] show ?thesis
      by (cases "m = n"; cases "tdel cs (map_of es n)")
        (auto simp: update_conv' delete_conv')
  qed simp
qed auto

lemma tkind_tview:
  "case tkind t cs of Some k \<Rightarrow> k = KTree \<longrightarrow> oview t cs = None | None \<Rightarrow> oview t cs = None"
  by (induction t cs rule: tkind.induct) (auto split: option.splits)

section \<open>From the database and back\<close>

fun tload :: "nat \<Rightarrow> repo \<Rightarrow> oid \<Rightarrow> trie option" where
  "tload 0 r i = None"
| "tload (Suc fuel) r i =
     (case g_objects r i of
        Some (TreeObj es) \<Rightarrow>
          map_option TDir (those (map (\<lambda>e.
            if is_tree e then map_option (Pair (te_filename e)) (tload fuel r (te_oid e))
            else if is_blob_kind (te_mode e) then Some (te_filename e, TBlob (te_oid e))
            else None) es))
      | _ \<Rightarrow> None)"

lemma those_map_Some:
  "those (map f xs) = Some ys \<longleftrightarrow> list_all2 (\<lambda>x y. f x = Some y) xs ys"
  by (induction xs arbitrary: ys) (auto split: option.splits simp: list_all2_Cons1)

lemma list_all2_ex: "list_all2 P xs ys \<Longrightarrow> x \<in> set xs \<Longrightarrow> \<exists>y. P x y"
  by (induction rule: list_all2_induct) auto

lemma list_all2_ex2: "list_all2 P xs ys \<Longrightarrow> y \<in> set ys \<Longrightarrow> \<exists>x. P x y"
  by (induction rule: list_all2_induct) auto

lemma map_of_loaded:
  assumes "list_all2 (\<lambda>e y. f e = Some y) es ys"
    and "\<And>e y. f e = Some y \<Longrightarrow> fst y = te_filename e"
  shows "(case entry_named es n of None \<Rightarrow> map_of ys n = None | Some e \<Rightarrow> map_of ys n = map_option snd (f e))"
  using assms(1)
proof (induction rule: list_all2_induct)
  case Nil
  then show ?case by (simp add: entry_named_def)
next
  case (Cons e es y ys)
  then show ?case using assms(2) [OF Cons.hyps(1)]
    by (cases y) (auto simp: entry_named_def split: option.splits)
qed

lemma tload_view:
  assumes "objects_ok r" "tload fuel r i = Some t"
  shows "tview t cs = blob_at r i cs"
  using assms(2)
proof (induction fuel arbitrary: i t cs)
  case (Suc fuel)
  let ?f = "\<lambda>e. if is_tree e then map_option (Pair (te_filename e)) (tload fuel r (te_oid e))
       else if is_blob_kind (te_mode e) then Some (te_filename e, TBlob (te_oid e)) else None"
  from Suc.prems obtain es ys where es: "g_objects r i = Some (TreeObj es)"
    and ys: "list_all2 (\<lambda>e y. ?f e = Some y) es ys" and t: "t = TDir ys"
    by (auto split: option.splits git_object.splits simp: those_map_Some)
  show ?case
  proof (cases cs)
    case (Cons n rest)
    note found = map_of_loaded [OF ys, of n]
    have fst: "fst y = te_filename e" if "?f e = Some y" for e y
      using that by (auto split: if_splits)
    show ?thesis
    proof (cases "entry_named es n")
      case None
      with found fst es t Cons show ?thesis by (simp add: blob_at_def)
    next
      case (Some e)
      with found fst have m: "map_of ys n = map_option snd (?f e)" by simp
      have "e \<in> set es" using Some by (auto simp: entry_named_def find_Some_iff)
      then obtain y where y: "?f e = Some y" using list_all2_ex [OF ys] by blast
      show ?thesis
      proof (cases "is_tree e")
        case True
        with y obtain t' where t': "tload fuel r (te_oid e) = Some t'" by auto
        from Suc.IH [OF t'] True m t' es Some t Cons show ?thesis
          by (cases rest) (auto simp: blob_at_def is_tree_def is_blob_kind_def)
      next
        case False
        with y m es Some t Cons show ?thesis
          by (cases rest) (auto simp: blob_at_def split: if_splits)
      qed
    qed
  qed (simp add: t blob_at_def)
qed simp

text \<open>An object is stored under its encoding; a collision with another object refuses the write.\<close>

definition kind_text :: "entry_kind \<Rightarrow> string" where
  "kind_text k = (case k of KTree \<Rightarrow> ''40000 '' | KBlob \<Rightarrow> ''100644 '' | KBlobExecutable \<Rightarrow> ''100755 ''
     | KLink \<Rightarrow> ''120000 '' | KCommit \<Rightarrow> ''160000 '')"

definition encode_object :: "git_object \<Rightarrow> string" where
  "encode_object obj =
     (case obj of
        BlobObj b \<Rightarrow> ''blob '' @ b
      | TreeObj es \<Rightarrow>
          ''tree '' @ concat (map (\<lambda>e. kind_text (te_mode e) @ te_filename e @ [CHR 0x00] @ te_oid e) es)
      | CommitObj c \<Rightarrow>
          ''commit tree '' @ cm_tree c @ concat (map (\<lambda>p. '' parent '' @ p) (cm_parents c))
          @ '' author '' @ sig_name (cm_author c) @ sig_email (cm_author c) @ [newline] @ cm_message c)"

definition ref_write_object :: "repo \<Rightarrow> git_object \<Rightarrow> (repo \<times> oid) option" where
  "ref_write_object r obj =
     (let i = encode_object obj in
      if g_objects r i = None \<or> g_objects r i = Some obj
      then Some (r\<lparr> g_objects := (g_objects r)(i \<mapsto> obj) \<rparr>, i) else None)"

lemma ref_write_object_law:
  "ref_write_object r obj = Some (r', i) \<Longrightarrow> extends r r' \<and> g_objects r' = (g_objects r)(i \<mapsto> obj)"
  by (auto simp: ref_write_object_def Let_def extends_def split: if_splits)

fun trie_ok :: "trie \<Rightarrow> bool" where
  "trie_ok (TBlob i) \<longleftrightarrow> True"
| "trie_ok (TDir es) \<longleftrightarrow> distinct (map fst es) \<and> list_all (\<lambda>(n, t). component_ok n \<and> trie_ok t) es"

text \<open>The entry for a child, given the kind and id it was written under.\<close>

definition child_kind :: "trie \<Rightarrow> entry_kind" where
  "child_kind t = (case t of TBlob i \<Rightarrow> KBlob | TDir es \<Rightarrow> KTree)"

fun twrite :: "trie \<Rightarrow> repo \<Rightarrow> (repo \<times> oid) option"
  and twrites :: "(string \<times> trie) list \<Rightarrow> repo \<Rightarrow> (repo \<times> tree_entry list) option" where
  "twrite (TBlob i) r = Some (r, i)"
| "twrite (TDir es) r =
     (case twrites es r of
        None \<Rightarrow> None
      | Some (r1, entries) \<Rightarrow> ref_write_object r1 (TreeObj (sort_key entry_key entries)))"
| "twrites [] r = Some (r, [])"
| "twrites ((n, t) # es) r =
     (case twrite t r of
        None \<Rightarrow> None
      | Some (r1, i) \<Rightarrow>
          (case twrites es r1 of
             None \<Rightarrow> None
           | Some (r2, entries) \<Rightarrow>
               Some (r2, \<lparr> te_mode = child_kind t, te_filename = n, te_oid = i \<rparr> # entries)))"

text \<open>What a write of a trie leaves behind, and of the entries of a directory.\<close>

definition leaves_ok :: "repo \<Rightarrow> trie \<Rightarrow> bool" where
  "leaves_ok r t \<longleftrightarrow> blobs_present r (tview t)"

definition grown :: "repo \<Rightarrow> repo \<Rightarrow> bool" where
  "grown r r' \<longleftrightarrow> extends r r' \<and> objects_ok r' \<and> commits_kept r r'"

definition written :: "repo \<Rightarrow> trie \<Rightarrow> oid \<Rightarrow> bool" where
  "written r t i \<longleftrightarrow>
     (case t of
        TBlob j \<Rightarrow> i = j \<and> (\<exists>b. g_objects r i = Some (BlobObj b))
      | TDir es \<Rightarrow> (\<exists>ents. g_objects r i = Some (TreeObj ents)) \<and> (\<forall>cs. blob_at r i cs = tview t cs))"

definition entry_for :: "repo \<Rightarrow> string \<times> trie \<Rightarrow> tree_entry \<Rightarrow> bool" where
  "entry_for r p e \<longleftrightarrow> te_filename e = fst p \<and> te_mode e = child_kind (snd p) \<and> written r (snd p) (te_oid e)"

lemma grown_trans: "grown r r' \<Longrightarrow> grown r' r'' \<Longrightarrow> grown r r''"
  using extends_trans by (auto simp: grown_def commits_kept_def)

lemma written_grown:
  assumes "objects_ok r" "grown r r'" "written r t i"
  shows "written r' t i"
proof -
  have x: "extends r r'" using assms(2) by (simp add: grown_def)
  show ?thesis
  proof (cases t)
    case (TBlob j)
    with assms(3) extends_object [OF x] show ?thesis by (auto simp: written_def)
  next
    case (TDir es)
    with assms(3) obtain ents where e: "g_objects r i = Some (TreeObj ents)" by (auto simp: written_def)
    from blob_at_extends_eq [OF assms(1) x e] extends_object [OF x e] assms(3) TDir show ?thesis
      by (auto simp: written_def)
  qed
qed

lemma entry_for_named:
  assumes "list_all2 (entry_for r) es ents" "distinct (map fst es)"
  shows "distinct (map te_filename ents)"
    and "case map_of es n of None \<Rightarrow> entry_named ents n = None
       | Some t \<Rightarrow> (\<exists>e. entry_named ents n = Some e \<and> te_mode e = child_kind t \<and> written r t (te_oid e))"
proof -
  have "map te_filename ents = map fst es"
    using assms(1) by (induction rule: list_all2_induct) (auto simp: entry_for_def)
  with assms(2) show "distinct (map te_filename ents)" by simp
  show "case map_of es n of None \<Rightarrow> entry_named ents n = None
       | Some t \<Rightarrow> (\<exists>e. entry_named ents n = Some e \<and> te_mode e = child_kind t \<and> written r t (te_oid e))"
    using assms(1)
  proof (induction rule: list_all2_induct)
    case (Cons p es e ents)
    then show ?case by (cases p; cases "map_of es n") (auto simp: entry_for_def)
  qed (simp add: entry_named_def)
qed

lemma blob_at_named:
  assumes "g_objects r i = Some (TreeObj ents)"
  shows "blob_at r i (n # cs) =
    (case entry_named ents n of
       None \<Rightarrow> None
     | Some e \<Rightarrow>
         if cs = [] then (if is_blob_kind (te_mode e) then Some (te_oid e) else None)
         else if is_tree e then blob_at r (te_oid e) cs else None)"
  using assms by (auto simp: blob_at_def split: option.splits)

lemma dir_view:
  assumes tree: "g_objects r i = Some (TreeObj ents)"
    and named: "\<And>n. case map_of es n of None \<Rightarrow> entry_named ents n = None
       | Some t \<Rightarrow> (\<exists>e. entry_named ents n = Some e \<and> te_mode e = child_kind t \<and> written r t (te_oid e))"
  shows "blob_at r i cs = tview (TDir es) cs"
proof (cases cs)
  case (Cons n rest)
  show ?thesis
  proof (cases "map_of es n")
    case None
    with named [of n] Cons tree show ?thesis by (simp add: blob_at_named)
  next
    case (Some t)
    with named [of n] obtain e where e: "entry_named ents n = Some e" "te_mode e = child_kind t"
      "written r t (te_oid e)" by auto
    show ?thesis
    proof (cases t)
      case (TBlob j)
      with e Some Cons tree show ?thesis
        by (simp add: blob_at_named child_kind_def is_blob_kind_def is_tree_def written_def)
    next
      case (TDir es')
      with e Some Cons tree show ?thesis
        by (cases rest) (simp_all add: blob_at_named child_kind_def is_blob_kind_def is_tree_def written_def)
    qed
  qed
qed simp

lemma tree_ok_sorted:
  assumes "distinct (map te_filename ents)" "list_all (\<lambda>e. component_ok (te_filename e)) ents"
  shows "tree_ok (sort_key entry_key ents)"
proof -
  have slash: "e \<in> set ents \<Longrightarrow> CHR ''/'' \<notin> set (te_filename e)" for e
    using assms(2) by (auto simp: list_all_iff component_ok_def)
  have "inj_on entry_key (set ents)"
  proof (rule inj_onI)
    fix a b assume *: "a \<in> set ents" "b \<in> set ents" "entry_key a = entry_key b"
    then have "te_filename a = te_filename b"
      using entry_key_eq [OF slash slash, of a b "is_tree b"] by (simp add: entry_key_def [of b])
    with * assms(1) show "a = b" by (simp add: distinct_map inj_on_def)
  qed
  moreover have "distinct ents" using assms(1) by (simp add: distinct_map)
  ultimately have "distinct (map entry_key (sort_key entry_key ents))" by (simp add: distinct_map)
  then have "sorted_wrt (<) (map entry_key (sort_key entry_key ents))"
    using strict_sorted_iff sorted_sort_key by blast
  then have "sorted_wrt (\<lambda>a b. entry_key a < entry_key b) (sort_key entry_key ents)" by (simp add: sorted_wrt_map)
  moreover have "distinct (map te_filename (sort_key entry_key ents))" using assms(1) by (simp add: distinct_map)
  ultimately show ?thesis using assms(2) by (simp add: tree_ok_def list_all_iff)
qed

lemma entry_named_sort:
  assumes "distinct (map te_filename ents)"
  shows "entry_named (sort_key f ents) n = entry_named ents n"
proof -
  have "distinct (map te_filename (sort_key f ents))" using assms by (simp add: distinct_map)
  then have "entry_named (sort_key f ents) n = Some e \<longleftrightarrow> entry_named ents n = Some e" for e
    using assms by (simp add: entry_named_Some)
  then show ?thesis by (metis not_Some_eq)
qed

lemma write_dir_sound:
  assumes ok: "objects_ok r" and ents: "list_all2 (entry_for r) es ents" and d: "distinct (map fst es)"
    and comp: "list_all (\<lambda>(n, t). component_ok n) es"
    and w: "ref_write_object r (TreeObj (sort_key entry_key ents)) = Some (r', i)"
  shows "grown r r' \<and> written r' (TDir es) i"
proof -
  note law = ref_write_object_law [OF w]
  then have x: "extends r r'" and o: "g_objects r' i = Some (TreeObj (sort_key entry_key ents))" by simp_all
  have names: "map te_filename ents = map fst es"
    using ents by (induction rule: list_all2_induct) (auto simp: entry_for_def)
  have c: "list_all (\<lambda>e. component_ok (te_filename e)) ents"
  proof -
    have "list_all component_ok (map fst es)" using comp by (auto simp: list_all_iff)
    then show ?thesis by (simp add: names [symmetric] list_all_iff)
  qed
  have dn: "distinct (map te_filename ents)" using d names by simp
  have sound: "entry_sound r e" if "e \<in> set ents" for e
  proof -
    from list_all2_ex2 [OF ents that] obtain p where "entry_for r p e" ..
    then show ?thesis
      by (cases "snd p") (auto simp: entry_for_def entry_sound_def child_kind_def is_tree_def is_blob_kind_def written_def)
  qed
  have okr': "objects_ok r'"
    unfolding objects_ok_def
  proof (intro allI impI)
    fix j es' assume *: "g_objects r' j = Some (TreeObj es')"
    show "tree_ok es' \<and> list_all (entry_sound r') es'"
    proof (cases "j = i")
      case True
      with * o have "es' = sort_key entry_key ents" by simp
      then show ?thesis using tree_ok_sorted [OF dn c] sound entry_sound_extends [OF x] by (simp add: list_all_iff)
    next
      case False
      with * law have "g_objects r j = Some (TreeObj es')" by simp
      with ok entry_sound_extends [OF x] show ?thesis by (auto simp: objects_ok_def list_all_iff)
    qed
  qed
  have g: "grown r r'" using x okr' law by (auto simp: grown_def commits_kept_def)
  have named: "case map_of es n of None \<Rightarrow> entry_named (sort_key entry_key ents) n = None
       | Some t \<Rightarrow> (\<exists>e. entry_named (sort_key entry_key ents) n = Some e \<and> te_mode e = child_kind t \<and> written r' t (te_oid e))" for n
    using entry_for_named(2) [OF ents d, of n] written_grown [OF ok g]
    by (auto simp: entry_named_sort [OF dn] split: option.splits)
  from dir_view [OF o named] o g show ?thesis by (auto simp: written_def)
qed

lemma leaves_child: "map_of es n = Some t \<Longrightarrow> leaves_ok r (TDir es) \<Longrightarrow> leaves_ok r t"
  unfolding leaves_ok_def blobs_present_def
  by (metis oview_simps(2) tview_TDir_Cons)

lemma leaves_grown: "leaves_ok r t \<Longrightarrow> grown r r' \<Longrightarrow> leaves_ok r' t"
  using extends_object by (fastforce simp: leaves_ok_def blobs_present_def grown_def)

lemma twrite_sound:
  "\<lbrakk> objects_ok r; trie_ok t; leaves_ok r t; twrite t r = Some (r', i) \<rbrakk> \<Longrightarrow> grown r r' \<and> written r' t i"
  "\<lbrakk> objects_ok r; distinct (map fst es); list_all (\<lambda>(n, t). component_ok n \<and> trie_ok t) es;
     list_all (\<lambda>(n, t). leaves_ok r t) es; twrites es r = Some (r', ents) \<rbrakk>
   \<Longrightarrow> grown r r' \<and> list_all2 (entry_for r') es ents"
proof (induction t r and es r arbitrary: r' i and r' ents rule: twrite_twrites.induct)
  case (1 i r)
  then have "r' = r" "leaves_ok r (TBlob i)" by simp_all
  then have "\<exists>b. g_objects r i = Some (BlobObj b)" by (auto simp: leaves_ok_def blobs_present_def)
  with 1 show ?case by (auto simp: grown_def commits_kept_def written_def)
next
  case (2 es r)
  then obtain r1 ents where w: "twrites es r = Some (r1, ents)"
    "ref_write_object r1 (TreeObj (sort_key entry_key ents)) = Some (r', i)"
    by (auto split: option.splits)
  have "list_all (\<lambda>(n, t). leaves_ok r t) es"
    using leaves_child [OF _ "2.prems"(3)] "2.prems"(2) by (auto simp: list_all_iff)
  with "2.IH" [OF "2.prems"(1) _ _ this w(1)] "2.prems"(2)
  have g: "grown r r1" "list_all2 (entry_for r1) es ents" by simp_all
  have "objects_ok r1" "list_all (\<lambda>(n, t). component_ok n) es" "distinct (map fst es)"
    using g(1) "2.prems"(2) by (auto simp: grown_def list_all_iff)
  from write_dir_sound [OF this(1) g(2) this(3,2) w(2)] grown_trans [OF g(1)] show ?case by blast
next
  case (3 r)
  then show ?case by (auto simp: grown_def commits_kept_def)
next
  case (4 n t es r)
  then obtain r1 i rest where w: "twrite t r = Some (r1, i)" "twrites es r1 = Some (r', rest)"
    "ents = \<lparr> te_mode = child_kind t, te_filename = n, te_oid = i \<rparr> # rest"
    by (auto split: option.splits)
  from 4 w(1) have g1: "grown r r1" "written r1 t i" by auto
  have "list_all (\<lambda>(n, t). leaves_ok r1 t) es"
    using "4.prems"(4) leaves_grown [OF _ g1(1)] by (auto simp: list_all_iff)
  moreover have ok1: "objects_ok r1" using g1(1) by (simp add: grown_def)
  ultimately have g2: "grown r1 r'" "list_all2 (entry_for r') es rest"
    using "4.IH"(2) [OF w(1) refl ok1 _ _ _ w(2)] "4.prems"(2,3) by auto
  have "entry_for r' (n, t) \<lparr> te_mode = child_kind t, te_filename = n, te_oid = i \<rparr>"
    using written_grown [OF ok1 g2(1) g1(2)] by (simp add: entry_for_def)
  with grown_trans [OF g1(1) g2(1)] g2(2) w(3) show ?case by simp
qed

section \<open>Listings, ids and ancestry\<close>

fun tfiles :: "nat \<Rightarrow> repo \<Rightarrow> oid \<Rightarrow> (entry_kind \<times> string list) list option" where
  "tfiles 0 r i = None"
| "tfiles (Suc fuel) r i =
     (case g_objects r i of
        Some (TreeObj es) \<Rightarrow>
          map_option concat (those (map (\<lambda>e.
            map_option (\<lambda>below. (te_mode e, [te_filename e]) # map (\<lambda>(k, cs). (k, te_filename e # cs)) below)
              (if is_tree e then tfiles fuel r (te_oid e) else Some [])) es))
      | _ \<Rightarrow> None)"

lemma concat_those:
  "map_option concat (those (map f es)) = Some ys \<Longrightarrow> set ys = {y. \<exists>e\<in>set es. \<exists>zs. f e = Some zs \<and> y \<in> set zs}"
proof (induction es arbitrary: ys)
  case (Cons e es)
  then obtain zs zss where *: "f e = Some zs" "those (map f es) = Some zss" "ys = zs @ concat zss"
    by (auto split: option.splits)
  with Cons.IH [of "concat zss"] show ?case by auto
qed simp

lemma entry_at_single: "objects_ok r \<Longrightarrow> g_objects r i = Some (TreeObj es) \<Longrightarrow>
    entry_at r i (n # cs) = Some e \<longleftrightarrow>
      (\<exists>f\<in>set es. te_filename f = n \<and> (if cs = [] then e = f else is_tree f \<and> entry_at r (te_oid f) cs = Some e))"
proof -
  assume *: "objects_ok r" "g_objects r i = Some (TreeObj es)"
  from objects_okD(1) [OF *] have d: "distinct (map te_filename es)" by (simp add: tree_ok_def)
  show ?thesis
  proof (cases "entry_named es n")
    case None
    then have "f \<in> set es \<Longrightarrow> te_filename f \<noteq> n" for f using entry_named_Some [OF d, of n f] by auto
    with * None show ?thesis by auto
  next
    case (Some f)
    then have f: "f \<in> set es" "te_filename f = n" using entry_named_Some [OF d, of n f] by auto
    have "f' = f" if "f' \<in> set es" "te_filename f' = n" for f'
      using that Some entry_named_Some [OF d, of n f'] by simp
    with f have "(\<exists>f'\<in>set es. te_filename f' = n \<and> P f') \<longleftrightarrow> P f" for P by metis
    with * Some show ?thesis by auto
  qed
qed

lemma tfiles_set:
  assumes "objects_ok r"
  shows "tfiles fuel r i = Some ys \<Longrightarrow> set ys = {(te_mode e, cs) |cs e. entry_at r i cs = Some e}"
proof (induction fuel arbitrary: i ys)
  case (Suc fuel)
  then obtain es where es: "g_objects r i = Some (TreeObj es)"
    by (auto split: option.splits git_object.splits)
  define f where "f = (\<lambda>e. map_option (\<lambda>below. (te_mode e, [te_filename e]) # map (\<lambda>(k, cs). (k, te_filename e # cs)) below)
              (if is_tree e then tfiles fuel r (te_oid e) else Some []))"
  have ys: "map_option concat (those (map f es)) = Some ys"
    using Suc.prems es by (simp add: f_def)
  have tot: "e \<in> set es \<Longrightarrow> f e \<noteq> None" for e
    using ys by (induction es arbitrary: ys) (auto split: option.splits)
  have mem: "(k, n # cs) \<in> set zs \<longleftrightarrow> n = te_filename e \<and>
      (if cs = [] then k = te_mode e else is_tree e \<and> (\<exists>e'. entry_at r (te_oid e) cs = Some e' \<and> k = te_mode e'))"
    if "e \<in> set es" "f e = Some zs" for e zs k n cs
  proof (cases "is_tree e")
    case True
    with that(2) obtain z where z: "tfiles fuel r (te_oid e) = Some z"
      "zs = (te_mode e, [te_filename e]) # map (\<lambda>(k, cs). (k, te_filename e # cs)) z" by (auto simp: f_def)
    have none: "([] :: string list) \<noteq> cs'" if "entry_at r (te_oid e) cs' = Some e'" for cs' e' using that by auto
    have "(k, n # cs) \<in> (\<lambda>(k, cs). (k, te_filename e # cs)) ` set z \<longleftrightarrow> n = te_filename e \<and> (k, cs) \<in> set z"
      by force
    with z True Suc.IH [OF z(1)] none show ?thesis by auto
  next
    case False
    with that show ?thesis by (auto simp: f_def)
  qed
  have nonempty: "f e = Some zs \<Longrightarrow> (k, cs) \<in> set zs \<Longrightarrow> cs \<noteq> []" for e zs k cs
    by (auto simp: f_def)
  show ?case
  proof (rule set_eqI, clarify)
    fix k :: entry_kind and cs :: "string list"
    show "(k, cs) \<in> set ys \<longleftrightarrow> (k, cs) \<in> {(te_mode e, cs) |cs e. entry_at r i cs = Some e}"
    proof (cases cs)
      case Nil
      with concat_those [OF ys] nonempty show ?thesis by fastforce
    next
      case (Cons n rest)
      have "(k, cs) \<in> set ys \<longleftrightarrow> (\<exists>e\<in>set es. n = te_filename e \<and>
        (if rest = [] then k = te_mode e else is_tree e \<and> (\<exists>e'. entry_at r (te_oid e) rest = Some e' \<and> k = te_mode e')))"
      proof -
        have "(k, cs) \<in> set ys \<longleftrightarrow> (\<exists>e\<in>set es. \<exists>zs. f e = Some zs \<and> (k, n # rest) \<in> set zs)"
          by (simp add: concat_those [OF ys] Cons)
        also have "\<dots> \<longleftrightarrow> (\<exists>e\<in>set es. n = te_filename e \<and>
          (if rest = [] then k = te_mode e else is_tree e \<and> (\<exists>e'. entry_at r (te_oid e) rest = Some e' \<and> k = te_mode e')))"
        proof (rule bex_cong [OF refl])
          fix e assume e: "e \<in> set es"
          with tot obtain zs where zs: "f e = Some zs" by blast
          show "(\<exists>zs. f e = Some zs \<and> (k, n # rest) \<in> set zs) \<longleftrightarrow> n = te_filename e \<and>
            (if rest = [] then k = te_mode e else is_tree e \<and> (\<exists>e'. entry_at r (te_oid e) rest = Some e' \<and> k = te_mode e'))"
            unfolding mem [OF e zs, symmetric] using zs by simp
        qed
        finally show ?thesis .
      qed
      also have "\<dots> \<longleftrightarrow> (\<exists>e. entry_at r i cs = Some e \<and> k = te_mode e)"
        unfolding Cons entry_at_single [OF assms es] by auto
      finally show ?thesis by auto
    qed
  qed
qed simp

definition FUEL :: nat where "FUEL = 64"

definition ref_files :: "repo \<Rightarrow> oid \<Rightarrow> (entry_kind \<times> string) list option" where
  "ref_files r i = map_option (\<lambda>ys. remdups (map (\<lambda>(k, cs). (k, join_with ''/'' cs)) ys)) (tfiles FUEL r i)"

lemma ref_files_law:
  assumes "objects_ok r" "ref_files r i = Some es"
  shows "distinct es \<and> set es = {(te_mode e, join_with ''/'' cs) |cs e. entry_at r i cs = Some e}"
proof -
  from assms(2) obtain ys where ys: "tfiles FUEL r i = Some ys" "es = remdups (map (\<lambda>(k, cs). (k, join_with ''/'' cs)) ys)"
    by (auto simp: ref_files_def)
  have "set es = (\<lambda>(k, cs). (k, join_with ''/'' cs)) ` {(te_mode e, cs) |cs e. entry_at r i cs = Some e}"
    using ys tfiles_set [OF assms(1) ys(1)] by simp
  with ys(2) show ?thesis by auto
qed

definition parents :: "repo \<Rightarrow> oid \<Rightarrow> oid list" where
  "parents r i = (case g_objects r i of Some (CommitObj c) \<Rightarrow> cm_parents c | _ \<Rightarrow> [])"

fun ancs :: "nat \<Rightarrow> repo \<Rightarrow> oid list \<Rightarrow> oid list option" where
  "ancs 0 r known = None"
| "ancs (Suc fuel) r known =
     (let new = remdups (filter (\<lambda>p. p \<notin> set known) (concat (map (parents r) known)))
      in if new = [] then Some known else ancs fuel r (known @ new))"

lemma parent_rel_parents: "(p, i) \<in> parent_rel r \<longleftrightarrow> p \<in> set (parents r i)"
  by (cases "g_objects r i") (auto simp: parent_rel_def parents_def split: git_object.splits)

lemma anc_refl [simp]: "anc r a a"
  by (simp add: anc_def)

lemma ancs_closed:
  assumes "\<forall>i\<in>S. set (parents r i) \<subseteq> S"
  shows "anc r a i \<Longrightarrow> i \<in> S \<Longrightarrow> a \<in> S"
  unfolding anc_def
proof (induction rule: converse_rtrancl_induct)
  case (step a b)
  then show ?case using assms by (auto simp: parent_rel_parents)
qed

lemma ancs_set: "ancs fuel r known = Some xs \<Longrightarrow> set xs = {a. \<exists>i\<in>set known. anc r a i}"
proof (induction fuel r known rule: ancs.induct)
  case (2 fuel r known)
  define new where "new = remdups (filter (\<lambda>p. p \<notin> set known) (concat (map (parents r) known)))"
  show ?case
  proof (cases "new = []")
    case True
    then have "\<forall>i\<in>set known. set (parents r i) \<subseteq> set known"
      by (auto simp: new_def filter_empty_conv)
    moreover have "xs = known" using "2.prems" True unfolding new_def by (simp add: Let_def)
    ultimately show ?thesis using ancs_closed [of "set known" r] anc_refl by blast
  next
    case False
    then have "ancs fuel r (known @ new) = Some xs" using "2.prems" unfolding new_def by (simp add: Let_def)
    with "2.IH" [OF new_def False] have "set xs = {a. \<exists>i\<in>set (known @ new). anc r a i}" by simp
    moreover have "\<exists>j\<in>set known. anc r a j" if "i \<in> set new" "anc r a i" for a i
    proof -
      from that(1) obtain j where "j \<in> set known" "(i, j) \<in> parent_rel r"
        by (auto simp: new_def parent_rel_parents)
      with that(2) show ?thesis by (auto simp: anc_def intro: rtrancl_into_rtrancl)
    qed
    ultimately show ?thesis by auto
  qed
qed simp

definition best_base :: "repo \<Rightarrow> oid list \<Rightarrow> oid \<Rightarrow> bool" where
  "best_base r common b \<longleftrightarrow>
     list_all (\<lambda>c. case ancs FUEL r [c] of Some zs \<Rightarrow> b \<in> set zs \<longrightarrow> c = b | None \<Rightarrow> False) common"

definition ref_merge_base :: "repo \<Rightarrow> oid \<Rightarrow> oid \<Rightarrow> string + oid option" where
  "ref_merge_base r a d =
     (case (ancs FUEL r [a], ancs FUEL r [d]) of
        (Some xs, Some ys) \<Rightarrow>
          (let common = filter (\<lambda>c. c \<in> set ys) xs in
           if common = [] then Inr None
           else (case find (best_base r common) common of
                   Some b \<Rightarrow> Inr (Some b)
                 | None \<Rightarrow> Inl ''no merge base found''))
      | _ \<Rightarrow> Inl ''history too long'')"

lemma ref_merge_base_law:
  assumes "ref_merge_base r a d = Inr found"
  shows "case found of
           Some b \<Rightarrow> anc r b a \<and> anc r b d \<and> (\<forall>c. anc r c a \<and> anc r c d \<and> anc r b c \<longrightarrow> c = b)
         | None \<Rightarrow> \<not> (\<exists>c. anc r c a \<and> anc r c d)"
proof -
  from assms obtain xs ys where x: "ancs FUEL r [a] = Some xs" "ancs FUEL r [d] = Some ys"
    by (auto simp: ref_merge_base_def split: option.splits)
  define common where "common = filter (\<lambda>c. c \<in> set ys) xs"
  have common: "c \<in> set common \<longleftrightarrow> anc r c a \<and> anc r c d" for c
    using ancs_set [OF x(1)] ancs_set [OF x(2)] by (simp add: common_def)
  show ?thesis
  proof (cases found)
    case None
    with assms x have "common = []" by (auto simp: ref_merge_base_def common_def [symmetric] Let_def split: if_splits option.splits)
    with None common show ?thesis by auto
  next
    case (Some b)
    with assms x have "find (best_base r common) common = Some b"
      by (auto simp: ref_merge_base_def common_def [symmetric] Let_def split: if_splits option.splits)
    then have b: "b \<in> set common" "best_base r common b" by (auto simp: find_Some_iff)
    have "c = b" if "anc r c a" "anc r c d" "anc r b c" for c
    proof -
      from that common have "c \<in> set common" by simp
      with b(2) obtain zs where "ancs FUEL r [c] = Some zs" "b \<in> set zs \<longrightarrow> c = b"
        by (auto simp: best_base_def list_all_iff split: option.splits)
      moreover from ancs_set [OF this(1)] that(3) have "b \<in> set zs" by simp
      ultimately show ?thesis by blast
    qed
    with Some b(1) common show ?thesis by auto
  qed
qed

section \<open>The implementation meets the contract\<close>

type_synonym ref_editor = "trie \<times> trie"

definition ref_gix :: "ref_editor gix" where
  "ref_gix =
     \<lparr> gx_from_hex = Some,
       gx_to_hex = (\<lambda>i. i),
       gx_ref_err = (\<lambda>name. ''reference not found''),
       gx_files = ref_files,
       gx_lookup = (\<lambda>r root cs. Inr (map_option te_mode (entry_at r root cs))),
       gx_empty_tree = [],
       gx_edit_tree = (\<lambda>r root.
         if root = [] then
           (if g_objects r [] = None \<or> g_objects r [] = Some (TreeObj []) then Some (TDir [], TDir []) else None)
         else map_option (\<lambda>t. (t, t)) (tload FUEL r root)),
       gx_get = (\<lambda>ed cs. tkind (Some (fst ed)) cs),
       gx_upsert = (\<lambda>ed cs k i. Some (tput cs i (Some (fst ed)), snd ed)),
       gx_remove = (\<lambda>ed cs. map_option (\<lambda>t. (t, snd ed)) (tdel cs (Some (fst ed)))),
       gx_write_tree = (\<lambda>r ed.
         (case fst ed of TBlob i \<Rightarrow> None
          | TDir es \<Rightarrow> if trie_ok (TDir es) then twrite (TDir es) r else None)),
       gx_write_object = ref_write_object,
       gx_update_ref = (\<lambda>r name i. Inr (r\<lparr> g_refs := (g_refs r)(name \<mapsto> i) \<rparr>)),
       gx_merge_base = ref_merge_base,
       gx_rev_walk = (\<lambda>r i. ancs FUEL r [i]) \<rparr>"

definition ref_view :: "ref_editor \<Rightarrow> string list \<Rightarrow> oid option" where
  "ref_view ed = tview (fst ed)"

definition ref_base :: "ref_editor \<Rightarrow> string list \<Rightarrow> oid option" where
  "ref_base ed = tview (snd ed)"

lemma blob_at_absent: "g_objects r i = None \<Longrightarrow> blob_at r i cs = None"
  by (cases cs) (simp_all add: blob_at_def)

lemma tview_empty: "tview (TDir []) = (\<lambda>cs. None)"
  by (rule ext) (case_tac cs; simp)

interpretation ref: gix_backend ref_gix ref_view ref_base
proof
  fix i show "gx_from_hex ref_gix (gx_to_hex ref_gix i) = Some i"
    by (simp add: ref_gix_def)
next
  fix r root cs k assume "gx_lookup ref_gix r root cs = Inr k"
  then show "k = map_option te_mode (entry_at r root cs)" by (simp add: ref_gix_def)
next
  fix r root ed assume *: "objects_ok r" "gx_edit_tree ref_gix r root = Some ed"
  have "blob_at r [] = (\<lambda>cs. None)" if "g_objects r [] = None \<or> g_objects r [] = Some (TreeObj [])"
  proof
    fix cs show "blob_at r [] cs = None"
      using that by (cases cs) (auto simp: blob_at_absent blob_at_def entry_named_def)
  qed
  with * tload_view [OF *(1)]
  show "ref_view ed = blob_at r root \<and> ref_base ed = blob_at r root
      \<and> (root = gx_empty_tree ref_gix \<longrightarrow> blob_at r root = (\<lambda>cs. None))"
    by (auto simp: ref_gix_def ref_view_def ref_base_def tview_empty fun_eq_iff split: if_splits)
next
  fix ed cs k assume "gx_get ref_gix ed cs = k"
  with tkind_tview [of "Some (fst ed)" cs] show "case k of Some m \<Rightarrow> m = KTree \<longrightarrow> ref_view ed cs = None
      | None \<Rightarrow> ref_view ed cs = None \<or> ref_view ed cs = ref_base ed cs"
    by (auto simp: ref_gix_def ref_view_def split: option.splits)
next
  fix cs ed i ed' assume "gx_upsert ref_gix ed cs KBlob i = Some ed'"
  then show "ref_base ed' = ref_base ed \<and>
      ref_view ed' = (\<lambda>q. if q = cs then Some i else if prefix cs q \<or> prefix q cs then None else ref_view ed q)"
    by (auto simp: ref_gix_def ref_view_def ref_base_def tview_tput)
next
  fix cs ed ed' assume "gx_remove ref_gix ed cs = Some ed'"
  then obtain t where "tdel cs (Some (fst ed)) = Some t" "ed' = (t, snd ed)" by (auto simp: ref_gix_def)
  with oview_tdel [of cs "Some (fst ed)"] show "ref_base ed' = ref_base ed \<and> ref_view ed' = (\<lambda>q. if prefix cs q then None else ref_view ed q)"
    by (auto simp: ref_view_def ref_base_def fun_eq_iff)
next
  fix r ed r' root assume *: "objects_ok r" "blobs_present r (ref_view ed)" "gx_write_tree ref_gix r ed = Some (r', root)"
  then obtain es where es: "fst ed = TDir es" "trie_ok (TDir es)" "twrite (TDir es) r = Some (r', root)"
    by (auto simp: ref_gix_def split: trie.splits if_splits)
  have "leaves_ok r (TDir es)" using *(2) es(1) by (simp add: leaves_ok_def ref_view_def)
  from twrite_sound(1) [OF *(1) es(2) this es(3)]
  show "extends r r' \<and> objects_ok r' \<and> commits_kept r r' \<and> (\<exists>es. g_objects r' root = Some (TreeObj es))
      \<and> blob_at r' root = ref_view ed"
    by (auto simp: grown_def written_def ref_view_def es(1))
next
  fix r obj r' i assume "gx_write_object ref_gix r obj = Some (r', i)"
  then show "extends r r' \<and> g_objects r' = (g_objects r)(i \<mapsto> obj)"
    using ref_write_object_law by (simp add: ref_gix_def)
next
  fix r name i r' assume "gx_update_ref ref_gix r name i = Inr r'"
  then show "r' = r\<lparr> g_refs := (g_refs r)(name \<mapsto> i) \<rparr>" by (simp add: ref_gix_def)
next
  fix r root es assume "objects_ok r" "gx_files ref_gix r root = Some es"
  then show "distinct es \<and> set es = {(te_mode e, join_with ''/'' cs) |cs e. entry_at r root cs = Some e}"
    using ref_files_law by (simp add: ref_gix_def)
next
  fix r a d found assume "gx_merge_base ref_gix r a d = Inr found"
  then show "case found of
           Some b \<Rightarrow> anc r b a \<and> anc r b d \<and> (\<forall>c. anc r c a \<and> anc r c d \<and> anc r b c \<longrightarrow> c = b)
         | None \<Rightarrow> \<not> (\<exists>c. anc r c a \<and> anc r c d)"
    using ref_merge_base_law by (simp add: ref_gix_def)
qed

section \<open>The contract in use\<close>

definition empty_repo :: repo where
  "empty_repo = \<lparr> g_head = SymbolicHead ''refs/heads/main'', g_refs = (\<lambda>_. None),
     g_objects = (\<lambda>_. None), g_encode = encode_object \<rparr>"

definition first_commit :: commit_spec where
  "first_commit = mmcp_commit ''m'' [(''memories/a/u.md'', Some ''x''), (''b'', Some ''y'')] ''n'' ''e''"

lemma empty_repo_ok: "repo_ok empty_repo" "head_ok empty_repo" "head_follows_main empty_repo"
  by (simp_all add: repo_ok_def objects_ok_def empty_repo_def head_ok_def head_id_def head_follows_main_def
      branch_ref_def MAIN_BRANCH_def resolve_head_def find_reference_def)

lemma first_commit_writes: "\<exists>hex r. write_commit ref_gix 0 empty_repo first_commit = (Inr hex, r)"
proof -
  have "(case write_commit ref_gix 0 empty_repo first_commit of (Inr hex, r) \<Rightarrow> True | _ \<Rightarrow> False)" by code_simp
  then show ?thesis by (auto split: prod.splits sum.splits)
qed

lemma first_commit_branch: "cs_branch first_commit = MAIN_BRANCH"
  by (simp add: first_commit_def mmcp_commit_def)

lemma first_commit_files:
  "\<exists>fs. apply_edits (cs_files first_commit) (branch_files empty_repo (branch_ref MAIN_BRANCH)) = Some fs
     \<and> fs [''memories'', ''a'', ''u.md''] = Some ''x'' \<and> fs [''c''] = None"
proof -
  have none: "branch_files empty_repo (branch_ref MAIN_BRANCH) = (\<lambda>_. None)"
    by (simp add: branch_files_def empty_repo_def)
  have "(case apply_edits (cs_files first_commit) (\<lambda>_. None) of None \<Rightarrow> False
     | Some fs \<Rightarrow> fs [''memories'', ''a'', ''u.md''] = Some ''x'' \<and> fs [''c''] = None)" by code_simp
  then show ?thesis unfolding none by (auto split: option.splits)
qed


theorem commit_read_back_witness:
  "\<exists>hex r. write_commit ref_gix 0 empty_repo first_commit = (Inr hex, r)
     \<and> read_file ref_gix r ''memories/a/u.md'' Head = Inr ''x''
     \<and> read_file ref_gix r ''/c'' Head = Inl (PathNotFound ''/c'')"
proof -
  obtain hex r where w: "write_commit ref_gix 0 empty_repo first_commit = (Inr hex, r)"
    using first_commit_writes by blast
  have "path_components ''memories/a/u.md'' = [''memories'', ''a'', ''u.md'']" "path_components ''/c'' = [''c'']"
    by code_simp+
  with commit_read_back [OF ref.gix_backend_axioms empty_repo_ok(1,2) w first_commit_branch]
    empty_repo_ok(3) first_commit_files w show ?thesis by auto
qed

text \<open>Two commits in a line, the local branch on the first and the target on the second.\<close>

definition line_repo :: repo where
  "line_repo =
     (let sg = \<lparr> sig_name = [], sig_email = [], sig_time = 0 \<rparr>;
          c = (\<lambda>t ps. CommitObj \<lparr> cm_tree = t, cm_parents = ps, cm_author = sg, cm_committer = sg, cm_message = ''m'' \<rparr>);
          f = (\<lambda>i. TreeObj [\<lparr> te_mode = KBlob, te_filename = ''f'', te_oid = i \<rparr>])
      in \<lparr> g_head = DetachedHead ''12'',
           g_refs = (\<lambda>n. if n = ''l'' then Some ''11'' else if n = ''t'' then Some ''12'' else None),
           g_objects = (\<lambda>i. if i = ''1'' then Some (BlobObj ''x'') else if i = ''2'' then Some (BlobObj ''y'')
             else if i = ''3'' then Some (f ''1'') else if i = ''4'' then Some (f ''2'')
             else if i = ''10'' then Some (c ''3'' []) else if i = ''11'' then Some (c ''3'' [''10''])
             else if i = ''12'' then Some (c ''4'' [''11'']) else None),
           g_encode = encode_object \<rparr>)"

theorem fast_forward_keeps_history_witness:
  "\<exists>r. fast_forward ref_gix line_repo ''l'' ''t'' = (Inr (Advanced (Some ''11'') ''12''), r)
     \<and> (\<exists>j. g_refs r ''l'' = Some j \<and> anc r ''11'' j)"
proof -
  have "fst (fast_forward ref_gix line_repo ''l'' ''t'') = Inr (Advanced (Some ''11'') ''12'')" by code_simp
  then obtain r where r: "fast_forward ref_gix line_repo ''l'' ''t'' = (Inr (Advanced (Some ''11'') ''12''), r)"
    by (cases "fast_forward ref_gix line_repo ''l'' ''t''") simp
  have "g_refs line_repo ''l'' = Some ''11''" by code_simp
  with fast_forward_keeps_history [OF ref.gix_backend_axioms r] r show ?thesis by auto
qed

theorem walk_history_spec_witness:
  "map_ok (map me_id) (walk_history ref_gix line_repo ''f'' (Some 1)) = Inr [''12'']
   \<and> map_ok (map me_id) (walk_history ref_gix line_repo ''f'' None) = Inr [''12'', ''10'']"
proof -
  have h: "resolve_rev ref_gix line_repo Head = Inr ''12''" "gx_rev_walk ref_gix line_repo ''12'' = Some [''12'', ''11'', ''10'']"
    by code_simp+
  have o: "commit_blob line_repo ''f'' ''10'' = Inr (Some ''1'')" "commit_blob line_repo ''f'' ''11'' = Inr (Some ''1'')"
    "commit_blob line_repo ''f'' ''12'' = Inr (Some ''2'')" by code_simp+
  have r: "readable line_repo ''f'' i" if "i \<in> {''10'', ''11'', ''12''}" for i
    using that o by (auto simp only: readable_def)
  have "list_all (\<lambda>i. case commit_at line_repo i ResolveRev of Inl e \<Rightarrow> False
      | Inr c \<Rightarrow> list_all (\<lambda>i. i \<in> {''10'', ''11'', ''12''}) (i # cm_parents c)) [''12'', ''11'', ''10'']" by code_simp
  then have "history_reads line_repo ''f'' [''12'', ''11'', ''10'']"
    unfolding history_reads_def
    by (rule list.pred_mono_strong) (use r in \<open>auto simp: list_all_iff split: sum.splits\<close>)
  note spec = walk_history_spec [OF h this]
  have "map me_id (history_of ref_gix line_repo ''f'' [''12'', ''11'', ''10'']) = [''12'', ''10'']" by code_simp
  then show ?thesis by (simp add: spec up_to_def take_map [symmetric])
qed

end
