(* ===== verification/Memory_Store.thy ===== *)
theory Memory_Store
  imports Git_Reference
begin

text \<open>
  The memory store (\<open>mmcp-store\<close>, \<open>memory.rs\<close>) over one group repository: the listing of
  memory files, the resolution of a memory by slug, id or both with its fallback scan, the
  reads of frontmatter, and the writes: create or override, delete, move and import. The
  repository is passed through explicitly and each write returns the notification it sends to
  the content cache. \<open>Uuid::now_v7\<close> and the clock are arguments.
\<close>

section \<open>Errors and results\<close>

datatype import_error =
    SlugErr slug_error
  | MissingFrontmatter
  | ParseErr memory_parse_error
  | GitErr git_error
  | RenderErr string
  | KindErr kind_policy_error
  | GroupNotFound string
  | MemoryAlreadyExists string
  | MemoryNotFound "string option" "uuid option"
  | MemoryAmbiguous string "uuid list"
  | MemoryIdMismatch string uuid uuid
  | IdMismatchErr id_mismatch_error
  | ResolveArgsMissing
  | FieldTooLong field_length_error
  | NotUtf8 string
  | TicketCounterOverflow

definition memory_parse_error_display :: "memory_parse_error \<Rightarrow> string" where
  "memory_parse_error_display e =
     (case e of
        NoFrontmatter \<Rightarrow> ''no frontmatter detected (expected `+++` or `---` fences)''
      | Deserialize s \<Rightarrow> ''invalid memory frontmatter: '' @ s
      | Render s \<Rightarrow> ''failed to render memory frontmatter: '' @ s)"

record memory_file_ref =
  fr_slug :: string
  fr_id :: uuid
  fr_path :: string

record slug_dir =
  ld_slug :: string
  ld_dir :: string
  ld_filenames :: "string list"

record resolved_memory =
  rm_slug :: string
  rm_id :: uuid
  rm_path :: string
  rm_mode :: addressing_mode

record resolved_author =
  au_name :: string
  au_email :: string

record import_result =
  ir_slug :: string
  ir_id :: uuid
  ir_commit_id :: string

record synth_frontmatter =
  sy_name :: string
  sy_description :: string
  sy_kind :: memory_kind

record move_outcome =
  mo_old_slug :: string
  mo_new_slug :: string
  mo_id :: uuid
  mo_old_path :: string
  mo_new_path :: string
  mo_commit_id :: string

text \<open>What the write hook hands to the content cache.\<close>

record cache_note =
  cn_id :: uuid
  cn_slug :: string
  cn_path :: string
  cn_commit_id :: string
  cn_rendered :: string

section \<open>Listing\<close>

definition slug_dirs_of :: "dir_list \<Rightarrow> slug_dir list" where
  "slug_dirs_of dirs =
     sort_key ld_slug
       (map (\<lambda>(slug, names). \<lparr> ld_slug = slug, ld_dir = MEMORIES_DIR @ ''/'' @ slug, ld_filenames = names \<rparr>)
         (filter (\<lambda>(slug, names). slug \<noteq> [] \<and> list_ex (\<lambda>f. ends_with f MEMORY_EXTENSION) names) dirs))"

definition list_memory_slug_dirs :: "'ed gix \<Rightarrow> repo \<Rightarrow> rev \<Rightarrow> git_error + slug_dir list" where
  "list_memory_slug_dirs g r rv = map_ok slug_dirs_of (list_tree_recursive g r MEMORIES_DIR rv)"

definition file_ref_of :: "uuids \<Rightarrow> slug_dir \<Rightarrow> string \<Rightarrow> memory_file_ref option" where
  "file_ref_of uu entry filename =
     (case strip_suffix filename MEMORY_EXTENSION of
        None \<Rightarrow> None
      | Some stem \<Rightarrow>
          (case uu_parse uu stem of
             None \<Rightarrow> None
           | Some i \<Rightarrow> Some \<lparr> fr_slug = ld_slug entry, fr_id = i, fr_path = ld_dir entry @ ''/'' @ filename \<rparr>))"

definition list_all_memory_files ::
  "'ed gix \<Rightarrow> uuids \<Rightarrow> repo \<Rightarrow> rev \<Rightarrow> git_error + memory_file_ref list" where
  "list_all_memory_files g uu r rv =
     map_ok (\<lambda>dirs. concat (map (\<lambda>entry. List.map_filter (file_ref_of uu entry) (ld_filenames entry)) dirs))
       (list_memory_slug_dirs g r rv)"

definition count_all_memory_files_over :: "uuids \<Rightarrow> git_error + slug_dir list \<Rightarrow> git_error + nat" where
  "count_all_memory_files_over uu walk =
     map_ok (\<lambda>dirs. length (filter (\<lambda>filename.
         case strip_suffix filename MEMORY_EXTENSION of
           None \<Rightarrow> False | Some stem \<Rightarrow> uu_parse uu stem \<noteq> None) (concat (map ld_filenames dirs)))) walk"

definition count_all_memory_files :: "'ed gix \<Rightarrow> uuids \<Rightarrow> repo \<Rightarrow> rev \<Rightarrow> git_error + nat" where
  "count_all_memory_files g uu r rv = count_all_memory_files_over uu (list_memory_slug_dirs g r rv)"

section \<open>Resolution\<close>

definition verify_id_match :: "'pod serde \<Rightarrow> string \<Rightarrow> string \<Rightarrow> uuid \<Rightarrow> import_error + unit" where
  "verify_id_match sd slug bytes expected =
     (case parse_frontmatter_id sd bytes of
        None \<Rightarrow> Inl (MemoryNotFound (Some slug) (Some expected))
      | Some actual \<Rightarrow>
          if actual = expected then Inr () else Inl (MemoryIdMismatch slug expected actual))"

definition resolve_slug_and_id ::
  "'ed gix \<Rightarrow> uuids \<Rightarrow> 'pod serde \<Rightarrow> repo \<Rightarrow> string \<Rightarrow> uuid \<Rightarrow> import_error + resolved_memory" where
  "resolve_slug_and_id g uu sd r slug expected =
     (let path = memory_path uu slug expected in
      case read_file g r path Head of
        Inr bytes \<Rightarrow>
          bind_res (verify_id_match sd slug bytes expected) (\<lambda>_.
            Inr \<lparr> rm_slug = slug, rm_id = expected, rm_path = path, rm_mode = ByFilename \<rparr>)
      | Inl (PathNotFound p) \<Rightarrow> Inl (MemoryNotFound (Some slug) (Some expected))
      | Inl e \<Rightarrow> Inl (GitErr e))"

definition md_uuid :: "uuids \<Rightarrow> string \<Rightarrow> uuid option" where
  "md_uuid uu name = Option.bind (strip_suffix name MEMORY_EXTENSION) (uu_parse uu)"

definition resolve_by_slug ::
  "'ed gix \<Rightarrow> uuids \<Rightarrow> repo \<Rightarrow> string \<Rightarrow> import_error + resolved_memory" where
  "resolve_by_slug g uu r slug =
     bind_res (map_err GitErr (list_tree g r (MEMORIES_DIR @ ''/'' @ slug) Head)) (\<lambda>entries.
       case List.map_filter (md_uuid uu) entries of
         [] \<Rightarrow> Inl (MemoryNotFound (Some slug) None)
       | [only] \<Rightarrow>
           Inr \<lparr> rm_slug = slug, rm_id = only, rm_path = memory_path uu slug only, rm_mode = BySlugOnly \<rparr>
       | uuids \<Rightarrow> Inl (MemoryAmbiguous slug uuids))"

text \<open>The three buckets of the walk: files named by the id, by no id, by another id.\<close>

type_synonym candidates = "(string \<times> string) list"

record buckets =
  bk_step1 :: candidates
  bk_step2 :: candidates
  bk_step3 :: candidates

definition bucket_file :: "uuids \<Rightarrow> uuid \<Rightarrow> slug_dir \<Rightarrow> string \<Rightarrow> buckets \<Rightarrow> buckets" where
  "bucket_file uu expected entry name b =
     (case strip_suffix name MEMORY_EXTENSION of
        None \<Rightarrow> b
      | Some stem \<Rightarrow>
          let c = (ld_slug entry, ld_dir entry @ ''/'' @ name) in
          (case uu_parse uu stem of
             Some u \<Rightarrow>
               if u = expected then b\<lparr> bk_step1 := bk_step1 b @ [c] \<rparr>
               else b\<lparr> bk_step3 := bk_step3 b @ [c] \<rparr>
           | None \<Rightarrow> b\<lparr> bk_step2 := bk_step2 b @ [c] \<rparr>))"

definition bucket_candidates :: "uuids \<Rightarrow> uuid \<Rightarrow> slug_dir list \<Rightarrow> buckets" where
  "bucket_candidates uu expected dirs =
     fold (\<lambda>entry. fold (bucket_file uu expected entry) (ld_filenames entry)) dirs
       \<lparr> bk_step1 = [], bk_step2 = [], bk_step3 = [] \<rparr>"

fun step1_scan ::
  "'ed gix \<Rightarrow> 'pod serde \<Rightarrow> repo \<Rightarrow> uuid \<Rightarrow> candidates \<Rightarrow> resolved_memory option" where
  "step1_scan g sd r expected [] = None"
| "step1_scan g sd r expected ((slug, path) # cs) =
     (case read_file g r path Head of
        Inl e \<Rightarrow> step1_scan g sd r expected cs
      | Inr bytes \<Rightarrow>
          if parse_frontmatter_id sd bytes = Some expected
          then Some \<lparr> rm_slug = slug, rm_id = expected, rm_path = path, rm_mode = ByFilename \<rparr>
          else step1_scan g sd r expected cs)"

fun scan_batch ::
  "'pod serde \<Rightarrow> uuid \<Rightarrow> addressing_mode \<Rightarrow> candidates \<Rightarrow> batch \<Rightarrow> resolved_memory option" where
  "scan_batch sd expected mode ((slug, path) # cs) ((bp, outcome) # bs) =
     (case outcome of
        Inl e \<Rightarrow> scan_batch sd expected mode cs bs
      | Inr bytes \<Rightarrow>
          if parse_frontmatter_id sd bytes = Some expected
          then Some \<lparr> rm_slug = slug, rm_id = expected, rm_path = path, rm_mode = mode \<rparr>
          else scan_batch sd expected mode cs bs)"
| "scan_batch sd expected mode cs bs = None"

definition scan_candidates_for_id ::
  "'pod serde \<Rightarrow> candidates \<Rightarrow> uuid \<Rightarrow> addressing_mode \<Rightarrow> (string list \<Rightarrow> git_error + batch)
    \<Rightarrow> import_error + resolved_memory option" where
  "scan_candidates_for_id sd candidates expected mode reads =
     (if candidates = [] then Inr None
      else map_ok (scan_batch sd expected mode candidates)
             (map_err GitErr (reads (map snd candidates))))"

definition resolve_by_id ::
  "'ed gix \<Rightarrow> uuids \<Rightarrow> 'pod serde \<Rightarrow> repo \<Rightarrow> uuid \<Rightarrow> import_error + resolved_memory" where
  "resolve_by_id g uu sd r expected =
     bind_res (map_err GitErr (list_memory_slug_dirs g r Head)) (\<lambda>slug_dirs.
       let b = bucket_candidates uu expected slug_dirs;
           scan = (\<lambda>cs. scan_candidates_for_id sd cs expected ByFrontmatter (\<lambda>paths. read_files g r paths Head))
       in case step1_scan g sd r expected (bk_step1 b) of
            Some hit \<Rightarrow> Inr hit
          | None \<Rightarrow>
              bind_res (scan (bk_step2 b)) (\<lambda>hit2.
                case hit2 of
                  Some hit \<Rightarrow> Inr hit
                | None \<Rightarrow>
                    bind_res (scan (bk_step3 b)) (\<lambda>hit3.
                      ok_or (MemoryNotFound None (Some expected)) hit3)))"

definition resolve_memory ::
  "'ed gix \<Rightarrow> uuids \<Rightarrow> 'pod serde \<Rightarrow> repo \<Rightarrow> string option \<Rightarrow> uuid option \<Rightarrow> import_error + resolved_memory" where
  "resolve_memory g uu sd r slug i =
     (case (slug, i) of
        (Some s, Some i) \<Rightarrow> resolve_slug_and_id g uu sd r s i
      | (Some s, None) \<Rightarrow> resolve_by_slug g uu r s
      | (None, Some i) \<Rightarrow> resolve_by_id g uu sd r i
      | (None, None) \<Rightarrow> Inl ResolveArgsMissing)"

section \<open>Frontmatter reads\<close>

definition read_frontmatter_at ::
  "'ed gix \<Rightarrow> 'pod serde \<Rightarrow> repo \<Rightarrow> rev \<Rightarrow> string \<Rightarrow> import_error + frontmatter" where
  "read_frontmatter_at g sd r rv path =
     bind_res (map_err GitErr (read_file g r path rv)) (\<lambda>bytes.
       if \<not> utf8_ok bytes then Inl (NotUtf8 path)
       else map_ok mf_frontmatter (map_err ParseErr (parse_memory_file sd bytes)))"

definition read_frontmatter ::
  "'ed gix \<Rightarrow> uuids \<Rightarrow> 'pod serde \<Rightarrow> repo \<Rightarrow> string option \<Rightarrow> uuid option
    \<Rightarrow> import_error + (resolved_memory \<times> frontmatter)" where
  "read_frontmatter g uu sd r slug i =
     bind_res (resolve_memory g uu sd r slug i) (\<lambda>resolved.
       map_ok (Pair resolved) (read_frontmatter_at g sd r Head (rm_path resolved)))"

definition read_frontmatters_in_group ::
  "'ed gix \<Rightarrow> uuids \<Rightarrow> 'pod serde \<Rightarrow> repo \<Rightarrow> rev
    \<Rightarrow> git_error + (memory_file_ref \<times> (import_error + frontmatter)) list" where
  "read_frontmatters_in_group g uu sd r rv =
     map_ok (map (\<lambda>file. (file, read_frontmatter_at g sd r rv (fr_path file)))) (list_all_memory_files g uu r rv)"

section \<open>Writes\<close>

record write_options =
  wo_mode :: addressing_mode
  wo_force :: bool
  wo_message :: "string option"

record memory_options = write_options +
  wo_override :: bool

definition validate_write_content_lengths :: "'pod serde \<Rightarrow> string \<Rightarrow> import_error + unit" where
  "validate_write_content_lengths sd rendered =
     bind_res (map_err ParseErr (parse_memory_file sd rendered)) (\<lambda>file.
     bind_res (map_err FieldTooLong (validate_frontmatter_lengths (mf_frontmatter file))) (\<lambda>_.
       map_err FieldTooLong (validate_body_length (mf_body file))))"

definition resolve_commit_message :: "string option \<Rightarrow> string \<Rightarrow> import_error + string" where
  "resolve_commit_message message fallback =
     (case message of
        Some msg \<Rightarrow> map_ok (\<lambda>_. msg) (map_err FieldTooLong (validate_message_length msg))
      | None \<Rightarrow> Inr fallback)"

definition commit_files ::
  "'ed gix \<Rightarrow> int \<Rightarrow> repo \<Rightarrow> string \<Rightarrow> (string \<times> string option) list \<Rightarrow> resolved_author
    \<Rightarrow> (import_error + string) \<times> repo" where
  "commit_files g now r message files author =
     (let (res, r1) = write_commit g now r (mmcp_commit message files (au_name author) (au_email author))
      in (map_err GitErr res, r1))"

definition write_note ::
  "'pod serde \<Rightarrow> uuids \<Rightarrow> string \<Rightarrow> string \<Rightarrow> string \<Rightarrow> cache_note option" where
  "write_note sd uu path rendered commit_id =
     (case slug_from_memory_path path of
        None \<Rightarrow> None
      | Some slug \<Rightarrow>
          (case (case parse_frontmatter_id sd rendered of
                   Some i \<Rightarrow> Some i | None \<Rightarrow> filename_uuid_from_path uu path) of
             None \<Rightarrow> None
           | Some i \<Rightarrow>
               Some \<lparr> cn_id = i, cn_slug = slug, cn_path = path, cn_commit_id = commit_id, cn_rendered = rendered \<rparr>))"

definition checked_write ::
  "'pod serde \<Rightarrow> uuids \<Rightarrow> string \<Rightarrow> string \<Rightarrow> 'o write_options_scheme \<Rightarrow> import_error + (id_validation \<times> string)" where
  "checked_write sd uu path rendered opts =
     bind_res (validate_write_content_lengths sd rendered) (\<lambda>_.
     bind_res (map_err IdMismatchErr (validate_id_mismatch sd uu path rendered (wo_mode opts) (wo_force opts))) (\<lambda>validation.
     map_ok (Pair validation) (resolve_commit_message (wo_message opts) (''write '' @ path))))"

definition write_file_at_path ::
  "'ed gix \<Rightarrow> int \<Rightarrow> 'pod serde \<Rightarrow> uuids \<Rightarrow> repo \<Rightarrow> string \<Rightarrow> string \<Rightarrow> resolved_author \<Rightarrow> 'o write_options_scheme
    \<Rightarrow> (import_error + (string \<times> id_validation)) \<times> repo \<times> cache_note option" where
  "write_file_at_path g now sd uu r path rendered author opts =
     (case checked_write sd uu path rendered opts of
        Inl e \<Rightarrow> (Inl e, r, None)
      | Inr (validation, message) \<Rightarrow>
          (case commit_files g now r message [(path, Some rendered)] author of
             (Inl e, r1) \<Rightarrow> (Inl e, r1, None)
           | (Inr commit_id, r1) \<Rightarrow>
               (Inr (commit_id, validation), r1, write_note sd uu path rendered commit_id)))"

definition delete_file_at_path ::
  "'ed gix \<Rightarrow> int \<Rightarrow> repo \<Rightarrow> string \<Rightarrow> resolved_author \<Rightarrow> string option \<Rightarrow> (import_error + string) \<times> repo" where
  "delete_file_at_path g now r path author message =
     (case resolve_commit_message message (''delete '' @ path) of
        Inl e \<Rightarrow> (Inl e, r)
      | Inr msg \<Rightarrow> commit_files g now r msg [(path, None)] author)"

definition no_move :: "resolved_memory \<Rightarrow> move_outcome" where
  "no_move m =
     \<lparr> mo_old_slug = rm_slug m, mo_new_slug = rm_slug m, mo_id = rm_id m, mo_old_path = rm_path m,
       mo_new_path = rm_path m, mo_commit_id = [] \<rparr>"

definition file_exists :: "'ed gix \<Rightarrow> repo \<Rightarrow> string \<Rightarrow> import_error + bool" where
  "file_exists g r path =
     (case read_file g r path Head of
        Inr _ \<Rightarrow> Inr True
      | Inl (PathNotFound p) \<Rightarrow> Inr False
      | Inl e \<Rightarrow> Inl (GitErr e))"

definition prepare_move ::
  "'ed gix \<Rightarrow> uuids \<Rightarrow> 'pod serde \<Rightarrow> repo \<Rightarrow> resolved_memory \<Rightarrow> string \<Rightarrow> string option \<Rightarrow> import_error + (string \<times> string)" where
  "prepare_move g uu sd r m new_slug message =
     bind_res (file_exists g r (memory_path uu new_slug (rm_id m))) (\<lambda>taken.
       if taken then Inl (MemoryAlreadyExists new_slug)
       else
         bind_res (map_err GitErr (read_file g r (rm_path m) Head)) (\<lambda>bytes.
         map_ok (Pair bytes) (resolve_commit_message message
           (''move memory '' @ rm_slug m @ '' -> '' @ new_slug @ '' ('' @ uu_show uu (rm_id m) @ '')''))))"

definition move_memory_path ::
  "'ed gix \<Rightarrow> int \<Rightarrow> uuids \<Rightarrow> 'pod serde \<Rightarrow> repo \<Rightarrow> string option \<Rightarrow> uuid option \<Rightarrow> string \<Rightarrow> resolved_author
    \<Rightarrow> string option \<Rightarrow> (import_error + move_outcome) \<times> repo" where
  "move_memory_path g now uu sd r old_slug i new_slug author message =
     (case bind_res (map_err SlugErr (validate_memory_slug new_slug)) (\<lambda>_. resolve_memory g uu sd r old_slug i) of
        Inl e \<Rightarrow> (Inl e, r)
      | Inr m \<Rightarrow>
          if rm_slug m = new_slug then (Inr (no_move m), r)
          else
            (case prepare_move g uu sd r m new_slug message of
               Inl e \<Rightarrow> (Inl e, r)
             | Inr (bytes, msg) \<Rightarrow>
                 let new_path = memory_path uu new_slug (rm_id m) in
                 (case commit_files g now r msg [(new_path, Some bytes), (rm_path m, None)] author of
                    (Inl e, r1) \<Rightarrow> (Inl e, r1)
                  | (Inr commit_id, r1) \<Rightarrow>
                      (Inr \<lparr> mo_old_slug = rm_slug m, mo_new_slug = new_slug, mo_id = rm_id m,
                             mo_old_path = rm_path m, mo_new_path = new_path, mo_commit_id = commit_id \<rparr>, r1))))"

definition write_memory_message :: "uuids \<Rightarrow> string option \<Rightarrow> bool \<Rightarrow> string \<Rightarrow> uuid \<Rightarrow> string" where
  "write_memory_message uu message exists slug i =
     (case message of
        Some m \<Rightarrow> m
      | None \<Rightarrow> (if exists then ''update memory '' else ''create memory '') @ slug @ ''/'' @ uu_show uu i)"

definition write_memory_by_id ::
  "'ed gix \<Rightarrow> int \<Rightarrow> 'pod serde \<Rightarrow> uuids \<Rightarrow> repo \<Rightarrow> string \<Rightarrow> uuid \<Rightarrow> string \<Rightarrow> resolved_author \<Rightarrow> memory_options
    \<Rightarrow> (import_error + (string \<times> id_validation)) \<times> repo \<times> cache_note option" where
  "write_memory_by_id g now sd uu r slug i rendered author opts =
     (case bind_res (map_err SlugErr (validate_memory_slug slug)) (\<lambda>_. file_exists g r (memory_path uu slug i)) of
        Inl e \<Rightarrow> (Inl e, r, None)
      | Inr exists \<Rightarrow>
          if exists \<and> \<not> wo_override opts then (Inl (MemoryAlreadyExists slug), r, None)
          else
            write_file_at_path g now sd uu r (memory_path uu slug i) rendered author
              \<lparr> wo_mode = wo_mode opts, wo_force = wo_force opts,
                wo_message = Some (write_memory_message uu (wo_message opts) exists slug i) \<rparr>)"

definition import_source ::
  "'pod serde \<Rightarrow> string \<Rightarrow> synth_frontmatter option \<Rightarrow> import_error + memory_file" where
  "import_source sd content synth =
     (if starts_with (trim_start content) ''+++'' then map_err ParseErr (parse_memory_file sd content)
      else
        (case synth of
           Some s \<Rightarrow>
             Inr \<lparr> mf_frontmatter = frontmatter_new (sy_name s) (sy_description s) (sy_kind s),
                   mf_body = content, mf_format = TomlPlus \<rparr>
         | None \<Rightarrow> Inl MissingFrontmatter))"

definition import_rendered ::
  "'pod serde \<Rightarrow> string \<Rightarrow> string \<Rightarrow> synth_frontmatter option \<Rightarrow> uuid \<Rightarrow> import_error + (uuid \<times> string)" where
  "import_rendered sd slug content synth fresh =
     bind_res (map_err SlugErr (validate_memory_slug slug)) (\<lambda>_.
     bind_res (import_source sd content synth) (\<lambda>file.
       let i = (case fm_id (mf_frontmatter file) of Some i \<Rightarrow> i | None \<Rightarrow> fresh);
           stamped = file\<lparr> mf_frontmatter := with_id (mf_frontmatter file) i \<rparr>
       in map_ok (Pair i) (map_err (\<lambda>e. RenderErr (memory_parse_error_display e))
            (memory_file_to_string sd stamped))))"

definition import_memory ::
  "'ed gix \<Rightarrow> int \<Rightarrow> 'pod serde \<Rightarrow> uuids \<Rightarrow> uuid \<Rightarrow> repo \<Rightarrow> string \<Rightarrow> string \<Rightarrow> synth_frontmatter option
    \<Rightarrow> resolved_author \<Rightarrow> bool \<Rightarrow> (import_error + import_result) \<times> repo \<times> cache_note option" where
  "import_memory g now sd uu fresh r slug content synth author override_existing =
     (case import_rendered sd slug content synth fresh of
        Inl e \<Rightarrow> (Inl e, r, None)
      | Inr (i, rendered) \<Rightarrow>
          (case write_memory_by_id g now sd uu r slug i rendered author
                  \<lparr> wo_mode = BySlugOnly, wo_force = False,
                    wo_message = Some (''import memory '' @ slug @ ''/'' @ uu_show uu i),
                    wo_override = override_existing \<rparr> of
             (Inl e, r1, note) \<Rightarrow> (Inl e, r1, note)
           | (Inr (commit_id, _), r1, note) \<Rightarrow>
               (Inr \<lparr> ir_slug = slug, ir_id = i, ir_commit_id = commit_id \<rparr>, r1, note)))"

section \<open>What resolution returns\<close>

definition holds_id :: "'ed gix \<Rightarrow> 'pod serde \<Rightarrow> repo \<Rightarrow> uuid \<Rightarrow> string \<Rightarrow> bool" where
  "holds_id g sd r i path =
     (case read_file g r path Head of Inl e \<Rightarrow> False | Inr bytes \<Rightarrow> parse_frontmatter_id sd bytes = Some i)"

definition hit :: "uuid \<Rightarrow> addressing_mode \<Rightarrow> string \<times> string \<Rightarrow> resolved_memory" where
  "hit i mode c = \<lparr> rm_slug = fst c, rm_id = i, rm_path = snd c, rm_mode = mode \<rparr>"

lemma step1_scan_find:
  "step1_scan g sd r i cs = map_option (hit i ByFilename) (find (\<lambda>c. holds_id g sd r i (snd c)) cs)"
  by (induction g sd r i cs rule: step1_scan.induct) (auto simp: holds_id_def hit_def split: sum.splits)

lemma scan_batch_find:
  assumes "root_tree_id g r Head = Inr root"
  shows "scan_batch sd i mode cs (map (\<lambda>p. (p, read_blob_at_tree r root p)) (map snd cs))
    = map_option (hit i mode) (find (\<lambda>c. holds_id g sd r i (snd c)) cs)"
proof (induction cs)
  case (Cons c cs)
  then show ?case using assms
    by (cases c) (auto simp: holds_id_def hit_def read_file_def split: sum.splits)
qed simp

lemma scan_candidates_find:
  assumes "cs \<noteq> [] \<longrightarrow> (\<exists>root. root_tree_id g r Head = Inr root)"
  shows "scan_candidates_for_id sd cs i mode (\<lambda>paths. read_files g r paths Head)
    = Inr (map_option (hit i mode) (find (\<lambda>c. holds_id g sd r i (snd c)) cs))"
proof (cases "cs = []")
  case False
  with assms obtain root where "root_tree_id g r Head = Inr root" by blast
  with False scan_batch_find [OF this] show ?thesis by (simp add: scan_candidates_for_id_def read_files_map)
qed (simp add: scan_candidates_for_id_def)

lemma listed_root:
  assumes "list_tree_recursive g r p rv = Inr dirs" "dirs \<noteq> []"
  shows "\<exists>root. root_tree_id g r rv = Inr root"
proof (cases "resolve_rev g r rv")
  case (Inl e)
  with assms show ?thesis
    by (cases e) (auto simp: list_tree_recursive_def prefix_tree_def)
next
  case (Inr i)
  with assms obtain c where "commit_at r i ResolveRev = Inr c"
    by (auto simp: list_tree_recursive_def prefix_tree_def bind_res_eq_Inr)
  with Inr show ?thesis by (simp add: root_tree_id_def)
qed

lemma listed_slug_root:
  assumes "list_memory_slug_dirs g r rv = Inr dirs" "dirs \<noteq> []"
  shows "\<exists>root. root_tree_id g r rv = Inr root"
proof -
  from assms(1) obtain ds where ds: "list_tree_recursive g r MEMORIES_DIR rv = Inr ds" "dirs = slug_dirs_of ds"
    by (cases "list_tree_recursive g r MEMORIES_DIR rv") (auto simp: list_memory_slug_dirs_def)
  with assms(2) have "ds \<noteq> []" by (auto simp: slug_dirs_of_def)
  with ds(1) show ?thesis by (rule listed_root)
qed

text \<open>The memory files of a listing: slug, path and the id their name spells, if any.\<close>

definition md_file :: "uuids \<Rightarrow> slug_dir \<Rightarrow> string \<Rightarrow> (string \<times> string \<times> uuid option) option" where
  "md_file uu entry name =
     map_option (\<lambda>stem. (ld_slug entry, ld_dir entry @ ''/'' @ name, uu_parse uu stem))
       (strip_suffix name MEMORY_EXTENSION)"

definition md_files :: "uuids \<Rightarrow> slug_dir list \<Rightarrow> (string \<times> string \<times> uuid option) list" where
  "md_files uu dirs = concat (map (\<lambda>entry. List.map_filter (md_file uu entry) (ld_filenames entry)) dirs)"

definition bucket_of :: "(uuid option \<Rightarrow> bool) \<Rightarrow> (string \<times> string \<times> uuid option) list \<Rightarrow> candidates" where
  "bucket_of p fs = map (\<lambda>(s, path, u). (s, path)) (filter (\<lambda>(s, path, u). p u) fs)"

lemma bucket_of_simps [simp]:
  "bucket_of p [] = []"
  "bucket_of p ((s, path, u) # fs) = (if p u then (s, path) # bucket_of p fs else bucket_of p fs)"
  "bucket_of p (fs @ gs) = bucket_of p fs @ bucket_of p gs"
  by (simp_all add: bucket_of_def)

definition add_buckets :: "uuid \<Rightarrow> (string \<times> string \<times> uuid option) list \<Rightarrow> buckets \<Rightarrow> buckets" where
  "add_buckets i fs b =
     \<lparr> bk_step1 = bk_step1 b @ bucket_of (\<lambda>u. u = Some i) fs,
       bk_step2 = bk_step2 b @ bucket_of (\<lambda>u. u = None) fs,
       bk_step3 = bk_step3 b @ bucket_of (\<lambda>u. u \<noteq> None \<and> u \<noteq> Some i) fs \<rparr>"

lemma bucket_file_add:
  "bucket_file uu i entry name b = add_buckets i (case md_file uu entry name of None \<Rightarrow> [] | Some f \<Rightarrow> [f]) b"
  by (cases b) (auto simp: bucket_file_def md_file_def add_buckets_def Let_def split: option.splits)

lemma add_buckets_append: "add_buckets i gs (add_buckets i fs b) = add_buckets i (fs @ gs) b"
  by (simp add: add_buckets_def)

lemma fold_bucket_file:
  "fold (bucket_file uu i entry) names b = add_buckets i (List.map_filter (md_file uu entry) names) b"
proof (induction names arbitrary: b)
  case Nil
  then show ?case by (cases b) (simp add: add_buckets_def map_filter_simps)
next
  case (Cons n names)
  then show ?case by (cases "md_file uu entry n") (simp_all add: bucket_file_add add_buckets_append map_filter_simps)
qed

lemma bucket_candidates_files:
  "bucket_candidates uu i dirs = add_buckets i (md_files uu dirs) \<lparr> bk_step1 = [], bk_step2 = [], bk_step3 = [] \<rparr>"
proof -
  have "fold (\<lambda>entry. fold (bucket_file uu i entry) (ld_filenames entry)) dirs b = add_buckets i (md_files uu dirs) b" for b
  proof (induction dirs arbitrary: b)
    case Nil
    then show ?case by (cases b) (simp add: add_buckets_def md_files_def)
  next
    case (Cons d dirs)
    then show ?case by (simp add: fold_bucket_file add_buckets_append md_files_def)
  qed
  then show ?thesis by (simp add: bucket_candidates_def)
qed

definition search_order :: "uuid \<Rightarrow> (string \<times> string \<times> uuid option) list \<Rightarrow> (string \<times> string \<times> uuid option) list" where
  "search_order i fs =
     filter (\<lambda>(s, path, u). u = Some i) fs
     @ filter (\<lambda>(s, path, u). u = None) fs
     @ filter (\<lambda>(s, path, u). u \<noteq> None \<and> u \<noteq> Some i) fs"

definition file_hit :: "uuid \<Rightarrow> string \<times> string \<times> uuid option \<Rightarrow> resolved_memory" where
  "file_hit i f = (case f of (s, path, u) \<Rightarrow>
     \<lparr> rm_slug = s, rm_id = i, rm_path = path, rm_mode = (if u = Some i then ByFilename else ByFrontmatter) \<rparr>)"

lemma find_append: "find p (xs @ ys) = (case find p xs of None \<Rightarrow> find p ys | Some x \<Rightarrow> Some x)"
  by (induction xs) auto

lemma find_bucket:
  assumes "\<And>u. p u \<Longrightarrow> mode = (if u = Some i then ByFilename else ByFrontmatter)"
  shows "map_option (hit i mode) (find (\<lambda>c. q (snd c)) (bucket_of p fs))
    = map_option (file_hit i) (find (\<lambda>(s, path, u). q path) (filter (\<lambda>(s, path, u). p u) fs))"
proof (induction fs)
  case (Cons f fs)
  then show ?case using assms by (cases f) (auto simp: hit_def file_hit_def)
qed simp

text \<open>
  C30. Looking a memory up by id searches the listed files in a fixed order, those named by the
  id, then those named by no id, then those named by another, and returns the first whose
  frontmatter carries the id, saying whether its name agrees; it reports not found exactly when
  none does. Reading the later groups in batches and skipping unreadable files changes nothing.
\<close>

theorem resolve_by_id_spec:
  assumes "list_memory_slug_dirs g r Head = Inr dirs"
  shows "resolve_by_id g uu sd r i =
    (case find (\<lambda>(s, path, u). holds_id g sd r i path) (search_order i (md_files uu dirs)) of
       None \<Rightarrow> Inl (MemoryNotFound None (Some i))
     | Some f \<Rightarrow> Inr (file_hit i f))"
proof -
  let ?fs = "md_files uu dirs"
  let ?q = "\<lambda>(s, path, u :: uuid option). holds_id g sd r i path"
  define b where "b = bucket_candidates uu i dirs"
  have b: "bk_step1 b = bucket_of (\<lambda>u. u = Some i) ?fs" "bk_step2 b = bucket_of (\<lambda>u. u = None) ?fs"
    "bk_step3 b = bucket_of (\<lambda>u. u \<noteq> None \<and> u \<noteq> Some i) ?fs"
    by (simp_all add: b_def bucket_candidates_files add_buckets_def)
  have root: "bucket_of p ?fs \<noteq> [] \<longrightarrow> (\<exists>root. root_tree_id g r Head = Inr root)" for p
    using listed_slug_root [OF assms] by (cases "dirs = []") (simp_all add: md_files_def)
  have "step1_scan g sd r i (bk_step1 b) = map_option (file_hit i) (find ?q (filter (\<lambda>(s, path, u). u = Some i) ?fs))"
    unfolding step1_scan_find b by (rule find_bucket) simp
  moreover have "scan_candidates_for_id sd (bk_step2 b) i ByFrontmatter (\<lambda>paths. read_files g r paths Head)
      = Inr (map_option (file_hit i) (find ?q (filter (\<lambda>(s, path, u). u = None) ?fs)))"
    unfolding b scan_candidates_find [OF root] by (simp add: find_bucket)
  moreover have "scan_candidates_for_id sd (bk_step3 b) i ByFrontmatter (\<lambda>paths. read_files g r paths Head)
      = Inr (map_option (file_hit i) (find ?q (filter (\<lambda>(s, path, u). u \<noteq> None \<and> u \<noteq> Some i) ?fs)))"
    unfolding b scan_candidates_find [OF root] by (subst find_bucket) auto
  ultimately show ?thesis
    using assms by (simp add: resolve_by_id_def b_def [symmetric] Let_def search_order_def find_append split: option.split)
qed

text \<open>A store with three files that are named by one id, by none and by another.\<close>

definition store_uuids :: uuids where
  "store_uuids = \<lparr> uu_parse = (\<lambda>s. if s = ''u'' then Some 1 else if s = ''v'' then Some 2 else None),
     uu_show = (\<lambda>i. if i = 1 then ''u'' else ''v'') \<rparr>"

definition store_serde :: "unit serde" where
  "store_serde = const_serde (with_id ex_frontmatter 1)"

definition store_repo :: repo where
  "store_repo =
     (let sg = \<lparr> sig_name = [], sig_email = [], sig_time = 0 \<rparr>;
          dir = (\<lambda>n i. \<lparr> te_mode = KTree, te_filename = n, te_oid = i \<rparr>);
          file = (\<lambda>n i. \<lparr> te_mode = KBlob, te_filename = n, te_oid = i \<rparr>)
      in \<lparr> g_head = DetachedHead ''10'', g_refs = (\<lambda>_. None),
           g_objects = (\<lambda>i. if i = ''1'' then Some (BlobObj ex_source) else if i = ''2'' then Some (BlobObj ''x'')
             else if i = ''3'' then Some (TreeObj [file ''u.md'' ''2'', file ''v.md'' ''1'', file ''w.md'' ''1''])
             else if i = ''4'' then Some (TreeObj [dir ''a'' ''3''])
             else if i = ''5'' then Some (TreeObj [dir ''memories'' ''4''])
             else if i = ''10'' then Some (CommitObj \<lparr> cm_tree = ''5'', cm_parents = [], cm_author = sg,
               cm_committer = sg, cm_message = ''m'' \<rparr>) else None),
           g_encode = encode_object \<rparr>)"

theorem resolve_by_id_spec_witness:
  "resolve_by_id ref_gix store_uuids store_serde store_repo 1
     = Inr \<lparr> rm_slug = ''a'', rm_id = 1, rm_path = ''memories/a/w.md'', rm_mode = ByFrontmatter \<rparr>"
proof -
  let ?dirs = "[\<lparr> ld_slug = ''a'', ld_dir = ''memories/a'', ld_filenames = [''u.md'', ''v.md'', ''w.md''] \<rparr>]"
  have "list_memory_slug_dirs ref_gix store_repo Head = Inr ?dirs" by code_simp
  note spec = resolve_by_id_spec [OF this, of store_uuids store_serde 1]
  have "find (\<lambda>(s, path, u). holds_id ref_gix store_serde store_repo 1 path) (search_order 1 (md_files store_uuids ?dirs))
      = Some (''a'', ''memories/a/w.md'', None)" by code_simp
  then show ?thesis by (simp add: spec file_hit_def)
qed

end
