(* ===== verification/Memory_Writes.thy ===== *)
theory Memory_Writes
  imports Memory_Store
begin

text \<open>
  What the writes of the memory store (\<open>mmcp-store\<close>, \<open>memory.rs\<close>) do to what can be read back:
  create or override, delete and move, against the file map of the repository.
\<close>

section \<open>Paths of memories\<close>

definition memory_components :: "uuids \<Rightarrow> string \<Rightarrow> uuid \<Rightarrow> string list" where
  "memory_components uu slug i = MEMORIES_DIR # split_on CHR ''/'' slug @ [uu_show uu i @ MEMORY_EXTENSION]"

lemma memory_path_components:
  assumes "uuid_contract uu" "validate_memory_slug slug = Inr ()"
  shows "path_components (memory_path uu slug i) = memory_components uu slug i"
proof -
  have "filter (\<lambda>c. c \<noteq> []) (split_on CHR ''/'' (memory_path uu slug i)) = split_on CHR ''/'' (memory_path uu slug i)"
    using memory_path_split(2) [OF assms, of i] by (simp add: filter_id_conv)
  then show ?thesis by (simp add: path_components_def memory_components_def memory_path_split(1) [OF assms])
qed

lemma memory_components_inj:
  assumes "uuid_contract uu" "validate_memory_slug s = Inr ()" "validate_memory_slug t = Inr ()"
    "prefix (memory_components uu s i) (memory_components uu t j)"
  shows "s = t \<and> i = j"
proof -
  let ?e = "uu_show uu i @ MEMORY_EXTENSION"
  have dot: "CHR ''.'' \<notin> set seg" if "validate_memory_slug u = Inr ()" "seg \<in> set (MEMORIES_DIR # split_on CHR ''/'' u)" for u seg
    using that segment_ok_chars slug_char_not(2)
    by (auto simp: validate_memory_slug_ok list_all_iff MEMORIES_DIR_def)
  from assms(4) obtain zs where
    zs: "(MEMORIES_DIR # split_on CHR ''/'' t) @ [uu_show uu j @ MEMORY_EXTENSION]
       = (MEMORIES_DIR # split_on CHR ''/'' s) @ ?e # zs"
    by (auto simp: memory_components_def prefix_def)
  have "zs = []"
  proof (rule ccontr)
    assume "zs \<noteq> []"
    then have "butlast ((MEMORIES_DIR # split_on CHR ''/'' s) @ ?e # zs)
        = (MEMORIES_DIR # split_on CHR ''/'' s) @ ?e # butlast zs" by (simp add: butlast_append)
    with zs have "?e \<in> set (MEMORIES_DIR # split_on CHR ''/'' t)"
      by (metis butlast_snoc in_set_conv_decomp)
    from dot [OF assms(3) this] show False by (simp add: MEMORY_EXTENSION_def)
  qed
  with zs have "split_on CHR ''/'' (memory_path uu s i) = split_on CHR ''/'' (memory_path uu t j)"
    by (simp add: memory_path_split(1) assms(1-3))
  then have "memory_path uu s i = memory_path uu t j" by (metis join_split)
  then show ?thesis
    using memory_path_slug [OF assms(1)] memory_path_uuid [OF assms(1,2)] memory_path_uuid [OF assms(1,3)]
    by (metis option.inject)
qed

section \<open>Reads around a commit\<close>

text \<open>A repository the store writes to: well formed, with \<open>HEAD\<close> on a \<open>main\<close> that exists.\<close>

definition store_ready :: "repo \<Rightarrow> bool" where
  "store_ready r \<longleftrightarrow> repo_ok r \<and> head_follows_main r \<and> g_refs r (branch_ref MAIN_BRANCH) \<noteq> None"

lemma head_on_main:
  assumes "store_ready r" "g_refs r (branch_ref MAIN_BRANCH) = Some p" "g_objects r p = Some (CommitObj c)"
  shows "read_file g r path Head
    = ok_or (PathNotFound path) (branch_files r (branch_ref MAIN_BRANCH) (path_components path))"
proof -
  have "resolve_rev g r Head = Inr p"
    using assms(1,2) by (auto simp: store_ready_def resolve_rev_def resolve_head_def head_follows_main_def head_id_def
        find_reference_def split: git_head.splits option.splits)
  from read_file_files [OF _ this assms(3)] assms show ?thesis
    by (simp add: store_ready_def branch_files_def)
qed

lemma commit_files_reads:
  assumes "gix_backend g view base" "store_ready r" "commit_files g now r msg files author = (Inr hex, r')"
  obtains fs0 fs where "store_ready r'" "apply_edits files fs0 = Some fs"
    "\<And>path. read_file g r path Head = ok_or (PathNotFound path) (fs0 (path_components path))"
    "\<And>path. read_file g r' path Head = ok_or (PathNotFound path) (fs (path_components path))"
proof -
  let ?spec = "mmcp_commit msg files (au_name author) (au_email author)"
  have spec: "cs_branch ?spec = MAIN_BRANCH" "cs_files ?spec = files" by (simp_all add: mmcp_commit_def)
  from assms(3) have w: "write_commit g now r ?spec = (Inr hex, r')"
    by (auto simp: commit_files_def map_err_def split: prod.splits sum.splits)
  have ready: "repo_ok r" "head_follows_main r" using assms(2) by (simp_all add: store_ready_def)
  from assms(2) obtain p where p: "g_refs r (branch_ref MAIN_BRANCH) = Some p" by (auto simp: store_ready_def)
  obtain c r1 where "prepare_commit g now r ?spec = (Inr c, r1)"
    using w by (auto simp: write_commit_def split: prod.splits sum.splits)
  from gix_backend.prepare_commit_sound [OF assms(1) ready(1) this] p spec
  obtain d where d: "g_objects r p = Some (CommitObj d)" by auto
  from write_commit_ok [OF assms(1) ready(1) w] obtain i where
    i: "repo_ok r'" "g_head r' = g_head r" "g_refs r' = (g_refs r)(branch_ref MAIN_BRANCH \<mapsto> i)"
    by (metis spec(1))
  then have "store_ready r'"
    using ready(2) p by (auto simp: store_ready_def head_follows_main_def head_id_def split: git_head.splits)
  with read_after_commit [OF assms(1) ready(1) w spec(1) ready(2)] head_on_main [OF assms(2) p d]
  show thesis using that spec(2) by metis
qed

lemma apply_edit_Some:
  "apply_edit (path, contents) fs = Some fs' \<longleftrightarrow>
     path_components path \<noteq> []
     \<and> \<not> list_ex (\<lambda>d. fs (take d (path_components path)) \<noteq> None) [1..<length (path_components path)]
     \<and> fs' = (\<lambda>q. if q = path_components path then contents else if prefix (path_components path) q then None else fs q)"
  by (auto simp: apply_edit_def Let_def)

lemma write_by_id_success:
  assumes "write_memory_by_id g now sd uu r slug i rendered author opts = (Inr (hex, v), r', note)"
  obtains exists msg where "validate_memory_slug slug = Inr ()" "file_exists g r (memory_path uu slug i) = Inr exists"
    "exists \<Longrightarrow> wo_override opts"
    "commit_files g now r msg [(memory_path uu slug i, Some rendered)] author = (Inr hex, r')"
proof -
  from assms obtain exists where e: "validate_memory_slug slug = Inr ()"
    "file_exists g r (memory_path uu slug i) = Inr exists" "exists \<Longrightarrow> wo_override opts"
    by (auto simp: write_memory_by_id_def bind_res_def map_err_def split: sum.splits if_splits)
  with assms obtain o' where "write_file_at_path g now sd uu r (memory_path uu slug i) rendered author
      (o' :: write_options) = (Inr (hex, v), r', note)"
    by (auto simp: write_memory_by_id_def split: if_splits)
  then obtain msg where "commit_files g now r msg [(memory_path uu slug i, Some rendered)] author = (Inr hex, r')"
    by (auto simp: write_file_at_path_def split: sum.splits prod.splits)
  with e that show thesis by blast
qed

section \<open>Properties\<close>

text \<open>
  C6. A successful write stores exactly what it was given: the file of the memory reads back as
  the rendered text, every other memory reads as before, a create without the override flag
  found no file there, and looking the memory up by slug and id then finds this file, or reports
  the id its frontmatter carries instead.
\<close>

theorem write_memory_stored:
  assumes "gix_backend g view base" and "uuid_contract uu" and "store_ready r"
    and "write_memory_by_id g now sd uu r slug i rendered author opts = (Inr (hex, v), r', note)"
  shows "store_ready r' \<and> read_file g r' (memory_path uu slug i) Head = Inr rendered
    \<and> (\<forall>s j. validate_memory_slug s = Inr () \<and> (s, j) \<noteq> (slug, i) \<longrightarrow>
         map_err (\<lambda>_. ()) (read_file g r' (memory_path uu s j) Head)
           = map_err (\<lambda>_. ()) (read_file g r (memory_path uu s j) Head))
    \<and> (wo_override opts \<or> read_file g r (memory_path uu slug i) Head = Inl (PathNotFound (memory_path uu slug i)))
    \<and> resolve_memory g uu sd r' (Some slug) (Some i) =
        (case parse_frontmatter_id sd rendered of
           None \<Rightarrow> Inl (MemoryNotFound (Some slug) (Some i))
         | Some j \<Rightarrow>
             if j = i then Inr \<lparr> rm_slug = slug, rm_id = i, rm_path = memory_path uu slug i, rm_mode = ByFilename \<rparr>
             else Inl (MemoryIdMismatch slug i j))"
proof -
  from write_by_id_success [OF assms(4)] obtain exists msg where s: "validate_memory_slug slug = Inr ()"
    and e: "file_exists g r (memory_path uu slug i) = Inr exists" "exists \<Longrightarrow> wo_override opts"
    and c: "commit_files g now r msg [(memory_path uu slug i, Some rendered)] author = (Inr hex, r')" by blast
  from commit_files_reads [OF assms(1,3) c] obtain fs0 fs where ready: "store_ready r'"
    and fs: "apply_edits [(memory_path uu slug i, Some rendered)] fs0 = Some fs"
    and r: "\<And>path. read_file g r path Head = ok_or (PathNotFound path) (fs0 (path_components path))"
      "\<And>path. read_file g r' path Head = ok_or (PathNotFound path) (fs (path_components path))" by blast
  let ?cs = "memory_components uu slug i"
  note comps = memory_path_components [OF assms(2)]
  from fs have fs: "fs = (\<lambda>q. if q = ?cs then Some rendered else if prefix ?cs q then None else fs0 q)"
    by (auto simp: apply_edit_def comps [OF s] Let_def split: if_splits)
  have stored: "read_file g r' (memory_path uu slug i) Head = Inr rendered"
    by (simp add: r(2) comps [OF s] fs)
  have others: "read_file g r' (memory_path uu s' j) Head = read_file g r (memory_path uu s' j) Head"
    if "validate_memory_slug s' = Inr ()" "(s', j) \<noteq> (slug, i)" for s' j
  proof -
    have "\<not> prefix ?cs (memory_components uu s' j)"
      using memory_components_inj [OF assms(2) s that(1)] that(2) by auto
    then show ?thesis unfolding r comps [OF that(1)] fs by auto
  qed
  have "wo_override opts \<or> read_file g r (memory_path uu slug i) Head = Inl (PathNotFound (memory_path uu slug i))"
    using e by (cases "fs0 ?cs") (auto simp: file_exists_def r(1) comps [OF s])
  moreover have "resolve_memory g uu sd r' (Some slug) (Some i) =
      (case parse_frontmatter_id sd rendered of
         None \<Rightarrow> Inl (MemoryNotFound (Some slug) (Some i))
       | Some j \<Rightarrow>
           if j = i then Inr \<lparr> rm_slug = slug, rm_id = i, rm_path = memory_path uu slug i, rm_mode = ByFilename \<rparr>
           else Inl (MemoryIdMismatch slug i j))"
    by (simp add: resolve_memory_def resolve_slug_and_id_def stored verify_id_match_def split: option.split)
  ultimately show ?thesis using ready stored others by auto
qed

lemma move_success:
  assumes "move_memory_path g now uu sd r old_slug i new_slug author message = (Inr out, r')"
  obtains (same) m where "rm_slug m = new_slug" "out = no_move m" "r' = r"
  | (moved) m bytes msg hex where "rm_slug m \<noteq> new_slug" "resolve_memory g uu sd r old_slug i = Inr m"
      "file_exists g r (memory_path uu new_slug (rm_id m)) = Inr False" "read_file g r (rm_path m) Head = Inr bytes"
      "commit_files g now r msg [(memory_path uu new_slug (rm_id m), Some bytes), (rm_path m, None)] author = (Inr hex, r')"
      "out = \<lparr> mo_old_slug = rm_slug m, mo_new_slug = new_slug, mo_id = rm_id m, mo_old_path = rm_path m,
         mo_new_path = memory_path uu new_slug (rm_id m), mo_commit_id = hex \<rparr>"
proof -
  from assms obtain m where m: "validate_memory_slug new_slug = Inr ()" "resolve_memory g uu sd r old_slug i = Inr m"
    by (auto simp: move_memory_path_def bind_res_def map_err_def split: sum.splits)
  show thesis
  proof (cases "rm_slug m = new_slug")
    case True
    with assms m show ?thesis by (intro same [of m]) (auto simp: move_memory_path_def)
  next
    case False
    with assms m obtain bytes msg hex where b: "prepare_move g uu sd r m new_slug message = Inr (bytes, msg)"
      "commit_files g now r msg [(memory_path uu new_slug (rm_id m), Some bytes), (rm_path m, None)] author = (Inr hex, r')"
      "out = \<lparr> mo_old_slug = rm_slug m, mo_new_slug = new_slug, mo_id = rm_id m, mo_old_path = rm_path m,
           mo_new_path = memory_path uu new_slug (rm_id m), mo_commit_id = hex \<rparr>"
      by (auto simp: move_memory_path_def Let_def split: sum.splits prod.splits)
    from b(1) have "file_exists g r (memory_path uu new_slug (rm_id m)) = Inr False"
      "read_file g r (rm_path m) Head = Inr bytes"
      by (auto simp: prepare_move_def bind_res_eq_Inr map_ok_def split: if_splits)
    with b False m(2) show ?thesis by (intro moved)
  qed
qed


section \<open>The writes at work\<close>

text \<open>A repository with one commit on \<open>main\<close>, and two writes to it.\<close>

definition first_repo :: repo where
  "first_repo = snd (write_commit ref_gix 0 empty_repo first_commit)"

definition ex_author :: resolved_author where
  "ex_author = \<lparr> au_name = ''n'', au_email = ''e'' \<rparr>"

definition ex_options :: memory_options where
  "ex_options = \<lparr> wo_mode = ByFilename, wo_force = False, wo_message = Some ''m'', wo_override = False \<rparr>"

lemma first_repo_ready: "store_ready first_repo"
proof -
  obtain hex where w: "write_commit ref_gix 0 empty_repo first_commit = (Inr hex, first_repo)"
    using first_commit_writes by (auto simp: first_repo_def)
  from write_commit_ok [OF ref.gix_backend_axioms empty_repo_ok(1) w] obtain i where
    "repo_ok first_repo" "g_head first_repo = g_head empty_repo"
    "g_refs first_repo = (g_refs empty_repo)(branch_ref MAIN_BRANCH \<mapsto> i)"
    unfolding first_commit_branch by blast
  then show ?thesis by (simp add: store_ready_def head_follows_main_def empty_repo_def branch_ref_def MAIN_BRANCH_def)
qed

lemma unary_path: "memory_path unary_uuids ''f'' 1 = ''memories/f/uu.md''"
  by (simp add: memory_path_def unary_uuids_def MEMORIES_DIR_def MEMORY_EXTENSION_def)

lemma ex_checked:
  "checked_write store_serde unary_uuids (memory_path unary_uuids ''f'' 1) ex_source
     \<lparr> wo_mode = ByFilename, wo_force = False, wo_message = Some ''m'' \<rparr> = Inr (IdMatch, ''m'')"
proof -
  have v: "validate_memory_slug ''f'' = Inr ()" "parse_frontmatter_id store_serde ex_source = Some 1" by code_simp+
  have "map_ok (\<lambda>f. (mf_frontmatter f, mf_body f)) (parse_memory_file store_serde ex_source)
      = Inr (with_id ex_frontmatter 1, [])" by code_simp
  then obtain f where "parse_memory_file store_serde ex_source = Inr f" "mf_frontmatter f = with_id ex_frontmatter 1" "mf_body f = []"
    by (cases "parse_memory_file store_serde ex_source") auto
  then have l: "validate_write_content_lengths store_serde ex_source = Inr ()"
    by (simp add: validate_write_content_lengths_def validate_frontmatter_lengths_def validate_body_length_def
        validate_field_length_def validate_tags_def ex_frontmatter_def frontmatter_new_def with_id_def
        MAX_NAME_LENGTH_def MAX_DESCRIPTION_LENGTH_def MAX_TAG_COUNT_def MAX_BODY_LENGTH_def)
  have m: "resolve_commit_message (Some ''m'') x = Inr ''m''" for x
    by (simp add: resolve_commit_message_def validate_message_length_def validate_field_length_def MAX_MESSAGE_LENGTH_def)
  have "filename_uuid_from_path unary_uuids (memory_path unary_uuids ''f'' 1) = Some 1"
    by (rule memory_path_uuid [OF unary_uuids_contract v(1)])
  then have "validate_id_mismatch store_serde unary_uuids (memory_path unary_uuids ''f'' 1) ex_source ByFilename False = Inr IdMatch"
    using v(2) by (simp add: validate_id_mismatch_def)
  then show ?thesis by (simp add: checked_write_def l m)
qed

definition written_repo :: repo where
  "written_repo = snd (commit_files ref_gix 0 first_repo ''m'' [(''memories/f/uu.md'', Some ex_source)] ex_author)"

lemma ex_write:
  "\<exists>hex note. write_memory_by_id ref_gix 0 store_serde unary_uuids first_repo ''f'' 1 ex_source ex_author ex_options
     = (Inr (hex, IdMatch), written_repo, note)"
proof -
  have "(case commit_files ref_gix 0 first_repo ''m'' [(''memories/f/uu.md'', Some ex_source)] ex_author of
      (Inr _, _) \<Rightarrow> True | _ \<Rightarrow> False)" by code_simp
  then obtain hex where c: "commit_files ref_gix 0 first_repo ''m'' [(''memories/f/uu.md'', Some ex_source)] ex_author
      = (Inr hex, written_repo)" by (auto simp: written_repo_def split: prod.splits sum.splits)
  have "file_exists ref_gix first_repo ''memories/f/uu.md'' = Inr False" "validate_memory_slug ''f'' = Inr ()"
    by code_simp+
  then show ?thesis
    using c ex_checked by (simp add: write_memory_by_id_def write_file_at_path_def unary_path write_memory_message_def ex_options_def)
qed

theorem write_memory_stored_witness:
  "store_ready written_repo \<and> read_file ref_gix written_repo ''memories/f/uu.md'' Head = Inr ex_source
   \<and> resolve_memory ref_gix unary_uuids store_serde written_repo (Some ''f'') (Some 1)
       = Inr \<lparr> rm_slug = ''f'', rm_id = 1, rm_path = ''memories/f/uu.md'', rm_mode = ByFilename \<rparr>"
proof -
  obtain hex nt where w: "write_memory_by_id ref_gix 0 store_serde unary_uuids first_repo ''f'' 1 ex_source ex_author ex_options
     = (Inr (hex, IdMatch), written_repo, nt)" using ex_write by blast
  have "parse_frontmatter_id store_serde ex_source = Some 1" by code_simp
  with write_memory_stored [OF ref.gix_backend_axioms unary_uuids_contract first_repo_ready w] show ?thesis
    by (simp add: unary_path)
qed

lemma ex_move:
  "\<exists>out r'. move_memory_path ref_gix 0 unary_uuids store_serde written_repo (Some ''f'') (Some 1) ''g'' ex_author None
     = (Inr out, r') \<and> mo_old_slug out = ''f'' \<and> mo_old_path out = ''memories/f/uu.md'' \<and> mo_new_path out = ''memories/g/uu.md''"
proof -
  have path: "memory_path unary_uuids ''g'' 1 = ''memories/g/uu.md''"
    by (simp add: memory_path_def unary_uuids_def MEMORIES_DIR_def MEMORY_EXTENSION_def)
  have e: "validate_memory_slug ''g'' = Inr ()" "file_exists ref_gix written_repo ''memories/g/uu.md'' = Inr False"
    "read_file ref_gix written_repo ''memories/f/uu.md'' Head = Inr ex_source" "parse_frontmatter_id store_serde ex_source = Some 1"
    by code_simp+
  then have m: "resolve_memory ref_gix unary_uuids store_serde written_repo (Some ''f'') (Some 1)
      = Inr \<lparr> rm_slug = ''f'', rm_id = 1, rm_path = ''memories/f/uu.md'', rm_mode = ByFilename \<rparr>"
    by (simp add: resolve_memory_def resolve_slug_and_id_def unary_path verify_id_match_def)
  define msg where "msg = ''move memory f -> g ('' @ uu_show unary_uuids 1 @ '')''"
  have "(case commit_files ref_gix 0 written_repo (''move memory f -> g (uu)'') [(''memories/g/uu.md'', Some ex_source),
      (''memories/f/uu.md'', None)] ex_author of (Inr _, _) \<Rightarrow> True | _ \<Rightarrow> False)" by code_simp
  moreover have "uu_show unary_uuids 1 = ''uu''" by (simp add: unary_uuids_def)
  ultimately show ?thesis
    using e m by (auto simp: move_memory_path_def prepare_move_def path resolve_commit_message_def split: prod.splits sum.splits)
qed


end
