(* ===== verification/Locks.thy ===== *)
theory Locks
  imports Frontmatter
begin

text \<open>
  The keyed registry of lock handles (\<open>mmcp-core\<close>, \<open>lock_registry/registry.rs\<close> and
  \<open>policy.rs\<close>) and the hierarchical scope locks built on it (\<open>mmcp-store\<close>, \<open>lock.rs\<close>).
  A step relation interleaves any number of tasks, each of which acquires a chain of scopes,
  runs its body and drops its guards. What the code relies on of its runtime is part of the
  model: \<open>Arc::strong_count\<close> is the number of owners, and an \<open>RwLock\<close> serves its waiters
  first come, first served, as the documentation of \<open>tokio\<close> states.
\<close>

section \<open>The registry\<close>

datatype prune_policy = Always | Threshold nat

type_synonym handle = nat

record 'k registry =
  rg_policy :: prune_policy
  rg_entries :: "('k \<times> handle) list"

definition registry_new :: "prune_policy \<Rightarrow> 'k registry" where
  "registry_new policy = \<lparr> rg_policy = policy, rg_entries = [] \<rparr>"

text \<open>\<open>strong\<close> is \<open>Arc::strong_count\<close>, \<open>fresh\<close> the handle the factory would build.\<close>

definition get_or_install :: "(handle \<Rightarrow> nat) \<Rightarrow> handle \<Rightarrow> 'k registry \<Rightarrow> 'k \<Rightarrow> handle \<times> 'k registry" where
  "get_or_install strong fresh rg key =
     (let should_prune = (case rg_policy rg of Always \<Rightarrow> True | Threshold n \<Rightarrow> n \<le> length (rg_entries rg));
          kept = (if should_prune then filter (\<lambda>(k, h). 1 < strong h) (rg_entries rg) else rg_entries rg)
      in case map_of kept key of
           Some h \<Rightarrow> (h, rg\<lparr> rg_entries := kept \<rparr>)
         | None \<Rightarrow> (fresh, rg\<lparr> rg_entries := (key, fresh) # kept \<rparr>))"

section \<open>Scopes and chains\<close>

datatype lock_scope = Process | Group uuid | Memory uuid

datatype lock_mode = Shared | Exclusive

type_synonym 'k chain = "('k \<times> lock_mode) list"

definition LOCK_REGISTRY_PRUNE_THRESHOLD :: nat where "LOCK_REGISTRY_PRUNE_THRESHOLD = 64"

definition memory_chain :: "uuid \<Rightarrow> uuid \<Rightarrow> lock_mode \<Rightarrow> lock_scope chain" where
  "memory_chain g m leaf_mode = [(Process, Shared), (Group g, Shared), (Memory m, leaf_mode)]"

definition exclusive_group_chain :: "uuid \<Rightarrow> lock_scope chain" where
  "exclusive_group_chain g = [(Process, Shared), (Group g, Exclusive)]"

definition create_chain :: "uuid \<Rightarrow> lock_scope chain" where
  "create_chain g = exclusive_group_chain g"

definition coarsen_group_chain :: "uuid \<Rightarrow> lock_scope chain" where
  "coarsen_group_chain g = exclusive_group_chain g"

definition coarsen_process_chain :: "lock_scope chain" where
  "coarsen_process_chain = [(Process, Exclusive)]"

section \<open>Tasks and locks\<close>

text \<open>An \<open>RwLock\<close>: who holds it, and who waits, in order.\<close>

record rwlock =
  rw_held :: "(nat \<times> lock_mode) list"
  rw_queue :: "(nat \<times> lock_mode) list"

text \<open>Inside \<open>acquire\<close>: nothing, the handle just cloned from the registry, or waiting on it.\<close>

datatype 'k phase = Idle | Cloned 'k lock_mode handle | Queued 'k lock_mode handle

record 'k task =
  tk_chain :: "'k chain"
  tk_todo :: "'k chain"
  tk_phase :: "'k phase"
  tk_guards :: "('k \<times> lock_mode \<times> handle) list"

record 'k world =
  w_registry :: "'k registry"
  w_locks :: "handle \<Rightarrow> rwlock"
  w_tasks :: "'k task list"
  w_fresh :: handle

definition new_task :: "'k chain \<Rightarrow> 'k task" where
  "new_task c = \<lparr> tk_chain = c, tk_todo = c, tk_phase = Idle, tk_guards = [] \<rparr>"

definition free_lock :: rwlock where
  "free_lock = \<lparr> rw_held = [], rw_queue = [] \<rparr>"

definition start :: "prune_policy \<Rightarrow> 'k chain list \<Rightarrow> 'k world" where
  "start policy cs =
     \<lparr> w_registry = registry_new policy, w_locks = (\<lambda>_. free_lock),
       w_tasks = map new_task cs, w_fresh = 0 \<rparr>"

fun phase_clone :: "'k phase \<Rightarrow> ('k \<times> handle) list" where
  "phase_clone Idle = []"
| "phase_clone (Cloned k m h) = [(k, h)]"
| "phase_clone (Queued k m h) = [(k, h)]"

fun phase_pending :: "'k phase \<Rightarrow> 'k chain" where
  "phase_pending Idle = []"
| "phase_pending (Cloned k m h) = [(k, m)]"
| "phase_pending (Queued k m h) = [(k, m)]"

text \<open>The \<open>Arc\<close> clones a task owns: the one it waits with and one per guard.\<close>

definition clones :: "'k task \<Rightarrow> ('k \<times> handle) list" where
  "clones t = map (\<lambda>(k, m, h). (k, h)) (tk_guards t) @ phase_clone (tk_phase t)"

definition strong_count :: "'k world \<Rightarrow> handle \<Rightarrow> nat" where
  "strong_count w h =
     count_list (map snd (rg_entries (w_registry w))) h
     + sum_list (map (\<lambda>t. count_list (map snd (clones t)) h) (w_tasks w))"

definition grantable :: "lock_mode \<Rightarrow> (nat \<times> lock_mode) list \<Rightarrow> bool" where
  "grantable m held = (case m of Shared \<Rightarrow> list_all (\<lambda>(_, m'). m' = Shared) held | Exclusive \<Rightarrow> held = [])"

section \<open>Steps\<close>

definition set_task :: "nat \<Rightarrow> 'k task \<Rightarrow> 'k world \<Rightarrow> 'k world" where
  "set_task t k w = w\<lparr> w_tasks := (w_tasks w)[t := k] \<rparr>"

text \<open>\<open>lookup_or_install\<close>, at the start of \<open>acquire\<close>.\<close>

definition lookup_step :: "nat \<Rightarrow> 'k task \<Rightarrow> 'k \<Rightarrow> lock_mode \<Rightarrow> 'k chain \<Rightarrow> 'k world \<Rightarrow> 'k world" where
  "lookup_step t k key mode rest w =
     (let (h, rg) = get_or_install (strong_count w) (w_fresh w) (w_registry w) key
      in set_task t (k\<lparr> tk_todo := rest, tk_phase := Cloned key mode h \<rparr>)
           (w\<lparr> w_registry := rg, w_fresh := max (w_fresh w) (Suc h) \<rparr>))"

definition enqueue_step :: "nat \<Rightarrow> 'k task \<Rightarrow> 'k \<Rightarrow> lock_mode \<Rightarrow> handle \<Rightarrow> 'k world \<Rightarrow> 'k world" where
  "enqueue_step t k key mode h w =
     (let l = w_locks w h
      in set_task t (k\<lparr> tk_phase := Queued key mode h \<rparr>)
           (w\<lparr> w_locks := (w_locks w)(h := l\<lparr> rw_queue := rw_queue l @ [(t, mode)] \<rparr>) \<rparr>))"

definition grant_step :: "nat \<Rightarrow> 'k task \<Rightarrow> 'k \<Rightarrow> lock_mode \<Rightarrow> handle \<Rightarrow> 'k world \<Rightarrow> 'k world option" where
  "grant_step t k key mode h w =
     (let l = w_locks w h
      in case rw_queue l of
           [] \<Rightarrow> None
         | first # waiting \<Rightarrow>
             if first = (t, mode) \<and> grantable mode (rw_held l)
             then Some (set_task t (k\<lparr> tk_phase := Idle, tk_guards := tk_guards k @ [(key, mode, h)] \<rparr>)
               (w\<lparr> w_locks := (w_locks w)(h := \<lparr> rw_held = (t, mode) # rw_held l, rw_queue = waiting \<rparr>) \<rparr>))
             else None)"

text \<open>Dropping the vector of guards drops its elements first to last.\<close>

definition release_step ::
  "nat \<Rightarrow> 'k task \<Rightarrow> lock_mode \<Rightarrow> handle \<Rightarrow> ('k \<times> lock_mode \<times> handle) list \<Rightarrow> 'k world \<Rightarrow> 'k world" where
  "release_step t k mode h rest w =
     (let l = w_locks w h
      in set_task t (k\<lparr> tk_guards := rest \<rparr>)
           (w\<lparr> w_locks := (w_locks w)(h := l\<lparr> rw_held := remove1 (t, mode) (rw_held l) \<rparr>) \<rparr>))"

definition step_task :: "nat \<Rightarrow> 'k world \<Rightarrow> 'k world option" where
  "step_task t w =
     (if t \<ge> length (w_tasks w) then None
      else
        (let k = w_tasks w ! t in
         case tk_phase k of
           Cloned key mode h \<Rightarrow> Some (enqueue_step t k key mode h w)
         | Queued key mode h \<Rightarrow> grant_step t k key mode h w
         | Idle \<Rightarrow>
             (case tk_todo k of
                (key, mode) # rest \<Rightarrow> Some (lookup_step t k key mode rest w)
              | [] \<Rightarrow>
                  (case tk_guards k of
                     (key, mode, h) # rest \<Rightarrow> Some (release_step t k mode h rest w)
                   | [] \<Rightarrow> None))))"

inductive step :: "'k world \<Rightarrow> 'k world \<Rightarrow> bool" where
  "step_task t w = Some w' \<Longrightarrow> step w w'"

inductive reaches :: "'k world \<Rightarrow> 'k world \<Rightarrow> bool" where
  reaches_refl: "reaches w w"
| reaches_step: "reaches w w' \<Longrightarrow> step w' w'' \<Longrightarrow> reaches w w''"

inductive_simps step_iff: "step w w'"

text \<open>A task that runs its body holds every guard of its chain; a finished one holds none.\<close>

definition in_body :: "'k task \<Rightarrow> bool" where
  "in_body k \<longleftrightarrow> tk_phase k = Idle \<and> tk_todo k = [] \<and> map (\<lambda>(s, m, h). (s, m)) (tk_guards k) = tk_chain k"

definition finished :: "'k task \<Rightarrow> bool" where
  "finished k \<longleftrightarrow> tk_phase k = Idle \<and> tk_todo k = [] \<and> tk_guards k = []"

section \<open>One handle per key\<close>

definition entries_ok :: "'k world \<Rightarrow> bool" where
  "entries_ok w \<longleftrightarrow>
     (let es = rg_entries (w_registry w) in
      distinct (map fst es) \<and> distinct (map snd es) \<and> (\<forall>h\<in>set (map snd es). h < w_fresh w))"

lemma get_or_install_spec:
  assumes "get_or_install strong fresh rg key = (h, rg')"
    "distinct (map fst (rg_entries rg))" "distinct (map snd (rg_entries rg))"
    "\<forall>h\<in>set (map snd (rg_entries rg)). h < fresh"
  shows "distinct (map fst (rg_entries rg'))" "distinct (map snd (rg_entries rg'))"
    "\<forall>h'\<in>set (map snd (rg_entries rg')). h' < max fresh (Suc h)"
    "map_of (rg_entries rg') key = Some h"
    "\<And>k' h'. map_of (rg_entries rg) k' = Some h' \<Longrightarrow> 1 < strong h' \<Longrightarrow> map_of (rg_entries rg') k' = Some h'"
proof -
  obtain p where p: "get_or_install strong fresh rg key =
      (let kept = filter p (rg_entries rg) in
       case map_of kept key of Some h \<Rightarrow> (h, rg\<lparr> rg_entries := kept \<rparr>)
       | None \<Rightarrow> (fresh, rg\<lparr> rg_entries := (key, fresh) # kept \<rparr>))"
    and keeps: "\<And>k h. 1 < strong h \<Longrightarrow> p (k, h)"
  proof (cases "case rg_policy rg of Always \<Rightarrow> True | Threshold n \<Rightarrow> n \<le> length (rg_entries rg)")
    case True
    show thesis by (rule that [of "\<lambda>(k, h). 1 < strong h"]) (use True in \<open>simp_all add: get_or_install_def Let_def del: One_nat_def\<close>)
  next
    case False
    show thesis by (rule that [of "\<lambda>_. True"]) (use False in \<open>auto simp: get_or_install_def Let_def\<close>)
  qed
  define kept where "kept = filter p (rg_entries rg)"
  have kept: "distinct (map fst kept)" "distinct (map snd kept)" "set kept \<subseteq> set (rg_entries rg)"
    using assms(2,3) by (auto simp: kept_def distinct_map_filter)
  have old: "map_of kept k' = Some h'" if "map_of (rg_entries rg) k' = Some h'" "1 < strong h'" for k' h'
  proof -
    have "(k', h') \<in> set kept" using that map_of_SomeD [OF that(1)] keeps by (simp add: kept_def)
    then show ?thesis using kept(1) by simp
  qed
  have "distinct (map fst (rg_entries rg')) \<and> distinct (map snd (rg_entries rg'))
    \<and> (\<forall>h'\<in>set (map snd (rg_entries rg')). h' < max fresh (Suc h)) \<and> map_of (rg_entries rg') key = Some h
    \<and> (\<forall>k' h'. map_of (rg_entries rg) k' = Some h' \<and> 1 < strong h' \<longrightarrow> map_of (rg_entries rg') k' = Some h')"
  proof (cases "map_of kept key")
    case None
    then have r: "h = fresh" "rg_entries rg' = (key, fresh) # kept"
      using assms(1) p by (auto simp: kept_def [symmetric] Let_def)
    from None have "key \<notin> fst ` set kept" by (simp add: map_of_eq_None_iff)
    moreover have "fresh \<notin> snd ` set kept" using kept(3) assms(4) by fastforce
    ultimately show ?thesis unfolding r using kept old None assms(4) by (fastforce simp: less_Suc_eq)
  next
    case (Some h0)
    then have r: "h = h0" "rg_entries rg' = kept"
      using assms(1) p by (auto simp: kept_def [symmetric] Let_def)
    then show ?thesis using kept old Some assms(4) by (fastforce simp: less_Suc_eq less_max_iff_disj)
  qed
  then show "distinct (map fst (rg_entries rg'))" "distinct (map snd (rg_entries rg'))"
    "\<forall>h'\<in>set (map snd (rg_entries rg')). h' < max fresh (Suc h)"
    "map_of (rg_entries rg') key = Some h"
    "\<And>k' h'. map_of (rg_entries rg) k' = Some h' \<Longrightarrow> 1 < strong h' \<Longrightarrow> map_of (rg_entries rg') k' = Some h'"
    by simp_all
qed

definition clones_ok :: "'k world \<Rightarrow> bool" where
  "clones_ok w \<longleftrightarrow> (\<forall>t\<in>set (w_tasks w). \<forall>(k, h)\<in>set (clones t). map_of (rg_entries (w_registry w)) k = Some h)"

lemma clone_counted:
  assumes "t \<in> set (w_tasks w)" "(k, h) \<in> set (clones t)" "map_of (rg_entries (w_registry w)) k = Some h"
  shows "1 < strong_count w h"
proof -
  have "1 \<le> count_list (map snd (rg_entries (w_registry w))) h"
    using map_of_SomeD [OF assms(3)] by (force simp: Suc_le_eq count_list_0_iff zero_less_iff_neq_zero)
  moreover have "1 \<le> count_list (map snd (clones t)) h"
    using assms(2) by (force simp: Suc_le_eq count_list_0_iff zero_less_iff_neq_zero)
  moreover have "count_list (map snd (clones t)) h \<le> sum_list (map (\<lambda>t. count_list (map snd (clones t)) h) (w_tasks w))"
    using assms(1) by (intro member_le_sum_list) auto
  ultimately show ?thesis by (simp add: strong_count_def)
qed

lemma same_handle_same_key:
  "entries_ok w \<Longrightarrow> map_of (rg_entries (w_registry w)) k = Some h
    \<Longrightarrow> map_of (rg_entries (w_registry w)) k' = Some h \<Longrightarrow> k = k'"
  unfolding entries_ok_def Let_def distinct_map by (metis inj_onD map_of_SomeD prod.inject snd_conv)

section \<open>The invariant of the interleaving\<close>

definition holders :: "'k task list \<Rightarrow> handle \<Rightarrow> (nat \<times> lock_mode) set" where
  "holders ts h = {(i, m). i < length ts \<and> (\<exists>k. (k, m, h) \<in> set (tk_guards (ts ! i)))}"

definition waiters :: "'k task list \<Rightarrow> handle \<Rightarrow> (nat \<times> lock_mode) set" where
  "waiters ts h = {(i, m). i < length ts \<and> (\<exists>k. tk_phase (ts ! i) = Queued k m h)}"

lemma holders_update:
  "t < length ts \<Longrightarrow> holders (ts[t := k]) h
    = {(i, m) \<in> holders ts h. i \<noteq> t} \<union> {(t, m) |m. \<exists>key. (key, m, h) \<in> set (tk_guards k)}"
  by (auto simp: holders_def nth_list_update split: if_splits)

lemma waiters_update:
  "t < length ts \<Longrightarrow> waiters (ts[t := k]) h
    = {(i, m) \<in> waiters ts h. i \<noteq> t} \<union> {(t, m) |m. \<exists>key. tk_phase k = Queued key m h}"
  by (auto simp: waiters_def nth_list_update split: if_splits)

definition lock_ok :: "'k task list \<Rightarrow> handle \<Rightarrow> rwlock \<Rightarrow> bool" where
  "lock_ok ts h l \<longleftrightarrow>
     set (rw_held l) = holders ts h \<and> set (rw_queue l) = waiters ts h
     \<and> distinct (map fst (rw_held l)) \<and> distinct (rw_queue l)
     \<and> (\<forall>(i, m)\<in>set (rw_held l). m = Exclusive \<longrightarrow> rw_held l = [(i, m)])"

definition guard_chain :: "'k task \<Rightarrow> 'k chain" where
  "guard_chain k = map (\<lambda>(s, m, h). (s, m)) (tk_guards k)"

definition task_ok :: "('k chain \<Rightarrow> bool) \<Rightarrow> 'k task \<Rightarrow> bool" where
  "task_ok canonical k \<longleftrightarrow> canonical (tk_chain k)
     \<and> suffix (guard_chain k @ phase_pending (tk_phase k) @ tk_todo k) (tk_chain k)"

definition world_ok :: "('k chain \<Rightarrow> bool) \<Rightarrow> 'k world \<Rightarrow> bool" where
  "world_ok canonical w \<longleftrightarrow> entries_ok w \<and> clones_ok w
     \<and> (\<forall>h. lock_ok (w_tasks w) h (w_locks w h)) \<and> (\<forall>k\<in>set (w_tasks w). task_ok canonical k)"

lemma start_ok: "list_all canonical cs \<Longrightarrow> world_ok canonical (start policy cs)"
  by (auto simp: world_ok_def start_def registry_new_def entries_ok_def clones_ok_def clones_def lock_ok_def
      free_lock_def holders_def waiters_def new_task_def task_ok_def guard_chain_def list_all_iff nth_mem)

lemma set_task_tasks [simp]:
  "w_tasks (set_task t k w) = (w_tasks w)[t := k]" "w_registry (set_task t k w) = w_registry w"
  "w_locks (set_task t k w) = w_locks w" "w_fresh (set_task t k w) = w_fresh w"
  by (simp_all add: set_task_def)

lemma clones_ok_update:
  assumes "clones_ok w" "w_registry w' = w_registry w" "w_tasks w' = (w_tasks w)[t := k]"
    "set (clones k) \<subseteq> set (clones (w_tasks w ! t))" "t < length (w_tasks w)"
  shows "clones_ok w'"
  using assms unfolding clones_ok_def by (fastforce dest!: set_update_subset_insert [THEN subsetD])

lemma lookup_ok:
  assumes "world_ok canonical w" "t < length (w_tasks w)" "k = w_tasks w ! t" "tk_phase k = Idle"
    "tk_todo k = (key, mode) # rest"
  shows "world_ok canonical (lookup_step t k key mode rest w)"
proof -
  obtain h rg where g: "get_or_install (strong_count w) (w_fresh w) (w_registry w) key = (h, rg)" by fastforce
  define k' where "k' = k\<lparr> tk_todo := rest, tk_phase := Cloned key mode h \<rparr>"
  have w': "lookup_step t k key mode rest w
      = set_task t k' (w\<lparr> w_registry := rg, w_fresh := max (w_fresh w) (Suc h) \<rparr>)"
    by (simp add: lookup_step_def g k'_def)
  have ok: "entries_ok w" "clones_ok w" "\<And>h. lock_ok (w_tasks w) h (w_locks w h)"
    "\<And>k. k \<in> set (w_tasks w) \<Longrightarrow> task_ok canonical k"
    using assms(1) by (auto simp: world_ok_def)
  have es: "distinct (map fst (rg_entries (w_registry w)))" "distinct (map snd (rg_entries (w_registry w)))"
    "\<forall>h\<in>set (map snd (rg_entries (w_registry w))). h < w_fresh w"
    using ok(1) by (auto simp: entries_ok_def Let_def)
  note spec = get_or_install_spec [OF g es]
  have k: "k \<in> set (w_tasks w)" using assms(2,3) by simp
  have kept: "map_of (rg_entries rg) a = Some b" if "x \<in> set (w_tasks w)" "(a, b) \<in> set (clones x)" for x a b
  proof -
    have "map_of (rg_entries (w_registry w)) a = Some b" using ok(2) that by (auto simp: clones_ok_def)
    with spec(5) clone_counted [OF that this] show ?thesis by blast
  qed
  have "clones k' = clones k @ [(key, h)]" using assms(4) by (simp add: clones_def k'_def)
  with kept [OF k] spec(4) have "\<forall>(a, b)\<in>set (clones k'). map_of (rg_entries rg) a = Some b" by auto
  with kept have "clones_ok (lookup_step t k key mode rest w)"
    by (auto simp: clones_ok_def w' dest!: set_update_subset_insert [THEN subsetD])
  moreover have "entries_ok (lookup_step t k key mode rest w)"
    using spec(1-3) by (simp add: entries_ok_def w' Let_def)
  moreover have "lock_ok (w_tasks (lookup_step t k key mode rest w)) x (w_locks (lookup_step t k key mode rest w) x)" for x
  proof -
    have "holders ((w_tasks w)[t := k']) x = holders (w_tasks w) x"
      unfolding holders_update [OF assms(2)] using assms(2,3) by (auto simp: holders_def k'_def)
    moreover have "waiters ((w_tasks w)[t := k']) x = waiters (w_tasks w) x"
      unfolding waiters_update [OF assms(2)] using assms(2-4) by (auto simp: waiters_def k'_def)
    ultimately show ?thesis using ok(3) [of x] by (simp add: w' lock_ok_def)
  qed
  moreover have "task_ok canonical k'"
    using ok(4) [OF k] assms(4,5) by (simp add: task_ok_def k'_def guard_chain_def)
  then have "\<forall>x\<in>set (w_tasks (lookup_step t k key mode rest w)). task_ok canonical x"
    using ok(4) by (auto simp: w' dest!: set_update_subset_insert [THEN subsetD])
  ultimately show ?thesis by (simp add: world_ok_def)
qed

text \<open>The other steps touch one task and one lock.\<close>

lemma lock_step_ok:
  assumes "world_ok canonical w" "t < length (w_tasks w)" "k = w_tasks w ! t"
    "w' = set_task t k' (w\<lparr> w_locks := (w_locks w)(h := l) \<rparr>)"
    "set (clones k') \<subseteq> set (clones k)" "task_ok canonical k'" "lock_ok ((w_tasks w)[t := k']) h l"
    "\<And>x. x \<noteq> h \<Longrightarrow> holders ((w_tasks w)[t := k']) x = holders (w_tasks w) x
       \<and> waiters ((w_tasks w)[t := k']) x = waiters (w_tasks w) x"
  shows "world_ok canonical w'"
proof -
  have "entries_ok w'" using assms(1,4) by (simp add: world_ok_def entries_ok_def)
  moreover have "clones_ok w'"
    by (rule clones_ok_update [of w _ t k']) (use assms in \<open>auto simp: world_ok_def\<close>)
  moreover have "lock_ok (w_tasks w') x (w_locks w' x)" for x
    using assms(1,4,7) assms(8) [of x] by (cases "x = h") (auto simp: world_ok_def lock_ok_def)
  moreover have "\<forall>x\<in>set (w_tasks w'). task_ok canonical x"
    using assms(1,4,6) by (auto simp: world_ok_def dest!: set_update_subset_insert [THEN subsetD])
  ultimately show ?thesis by (simp add: world_ok_def)
qed

lemma world_okD:
  assumes "world_ok canonical w"
  shows "entries_ok w" "clones_ok w" "lock_ok (w_tasks w) h (w_locks w h)"
    "t < length (w_tasks w) \<Longrightarrow> task_ok canonical (w_tasks w ! t)"
  using assms by (auto simp: world_ok_def)

lemma clone_handle:
  "world_ok canonical w \<Longrightarrow> t < length (w_tasks w) \<Longrightarrow> (k, h) \<in> set (clones (w_tasks w ! t))
    \<Longrightarrow> map_of (rg_entries (w_registry w)) k = Some h"
  by (auto simp: world_ok_def clones_ok_def dest: nth_mem)

lemma enqueue_ok:
  assumes "world_ok canonical w" "t < length (w_tasks w)" "k = w_tasks w ! t" "tk_phase k = Cloned key mode h"
  shows "world_ok canonical (enqueue_step t k key mode h w)"
proof (rule lock_step_ok [OF assms(1-3), where k' = "k\<lparr> tk_phase := Queued key mode h \<rparr>"
      and l = "(w_locks w h)\<lparr> rw_queue := rw_queue (w_locks w h) @ [(t, mode)] \<rparr>" and h = h])
  let ?k = "k\<lparr> tk_phase := Queued key mode h \<rparr>"
  have hw: "holders ((w_tasks w)[t := ?k]) x = holders (w_tasks w) x"
    "waiters ((w_tasks w)[t := ?k]) x = (if x = h then insert (t, mode) (waiters (w_tasks w) x) else waiters (w_tasks w) x)"
    for x
    unfolding holders_update [OF assms(2)] waiters_update [OF assms(2)]
    using assms(2-4) by (auto simp: holders_def waiters_def)
  have "(t, m) \<notin> waiters (w_tasks w) h" for m using assms(3,4) by (auto simp: waiters_def)
  with hw world_okD(3) [OF assms(1), of h]
  show "lock_ok ((w_tasks w)[t := ?k]) h ((w_locks w h)\<lparr> rw_queue := rw_queue (w_locks w h) @ [(t, mode)] \<rparr>)"
    by (auto simp: lock_ok_def)
  show "holders ((w_tasks w)[t := ?k]) x = holders (w_tasks w) x \<and> waiters ((w_tasks w)[t := ?k]) x = waiters (w_tasks w) x"
    if "x \<noteq> h" for x using hw that by simp
  show "task_ok canonical ?k"
    using world_okD(4) [OF assms(1,2)] assms(3,4) by (simp add: task_ok_def guard_chain_def)
  show "set (clones ?k) \<subseteq> set (clones k)" using assms(4) by (simp add: clones_def)
  show "enqueue_step t k key mode h w = set_task t ?k (w\<lparr> w_locks := (w_locks w)
      (h := (w_locks w h)\<lparr> rw_queue := rw_queue (w_locks w h) @ [(t, mode)] \<rparr>) \<rparr>)"
    by (simp add: enqueue_step_def Let_def)
qed

locale ranked_locks =
  fixes rank :: "'k \<Rightarrow> nat" and canonical :: "'k chain \<Rightarrow> bool"
  assumes ascending: "canonical c \<Longrightarrow> sorted_wrt (\<lambda>a b. rank (fst a) < rank (fst b)) c"
begin

lemma task_ascending:
  assumes "task_ok canonical k"
  shows "sorted_wrt (\<lambda>a b. rank (fst a) < rank (fst b)) (guard_chain k @ phase_pending (tk_phase k) @ tk_todo k)"
proof -
  from assms obtain zs where "sorted_wrt (\<lambda>a b. rank (fst a) < rank (fst b))
      (zs @ (guard_chain k @ phase_pending (tk_phase k) @ tk_todo k))"
    using ascending [of "tk_chain k"] by (auto simp: task_ok_def suffix_def)
  then show ?thesis by (simp only: sorted_wrt_append [of _ zs])
qed

lemma guard_below_pending:
  assumes "task_ok canonical k" "(a, m, h) \<in> set (tk_guards k)" "(b, m') \<in> set (phase_pending (tk_phase k))"
  shows "rank a < rank b"
proof -
  have "(a, m) \<in> set (guard_chain k)" using assms(2) by (force simp: guard_chain_def)
  with task_ascending [OF assms(1)] assms(3) have "rank (fst (a, m)) < rank (fst (b, m'))"
    unfolding sorted_wrt_append set_append by blast
  then show ?thesis by simp
qed

lemma not_holding:
  assumes "world_ok canonical w" "t < length (w_tasks w)" "tk_phase (w_tasks w ! t) = Queued key mode h"
  shows "(t, m) \<notin> holders (w_tasks w) h"
proof
  let ?k = "w_tasks w ! t"
  assume "(t, m) \<in> holders (w_tasks w) h"
  then obtain a where a: "(a, m, h) \<in> set (tk_guards ?k)" by (auto simp: holders_def)
  then have "(a, h) \<in> set (clones ?k)" "(key, h) \<in> set (clones ?k)"
    using assms(3) by (force simp: clones_def)+
  then have "a = key"
    using clone_handle [OF assms(1,2)] same_handle_same_key [OF world_okD(1) [OF assms(1)]] by blast
  with guard_below_pending [OF world_okD(4) [OF assms(1,2)] a, of key mode] assms(3) show False by simp
qed

lemma grant_ok:
  assumes "world_ok canonical w" "t < length (w_tasks w)" "k = w_tasks w ! t" "tk_phase k = Queued key mode h"
    "grant_step t k key mode h w = Some w'"
  shows "world_ok canonical w'"
proof -
  define l where "l = w_locks w h"
  define k' where "k' = k\<lparr> tk_phase := Idle, tk_guards := tk_guards k @ [(key, mode, h)] \<rparr>"
  from assms(5) obtain waiting where q: "rw_queue l = (t, mode) # waiting" "grantable mode (rw_held l)"
    and w': "w' = set_task t k' (w\<lparr> w_locks := (w_locks w)
      (h := \<lparr> rw_held = (t, mode) # rw_held l, rw_queue = waiting \<rparr>) \<rparr>)"
    by (auto simp: grant_step_def l_def k'_def Let_def split: list.splits if_splits)
  have fresh: "(t, m) \<notin> holders (w_tasks w) h" for m
    using not_holding assms(1-4) by blast
  have hw: "holders ((w_tasks w)[t := k']) x = (if x = h then insert (t, mode) (holders (w_tasks w) x) else holders (w_tasks w) x)"
    "waiters ((w_tasks w)[t := k']) x = (if x = h then waiters (w_tasks w) x - {(t, mode)} else waiters (w_tasks w) x)" for x
    unfolding holders_update [OF assms(2)] waiters_update [OF assms(2)]
    using fresh assms(2-4) by (auto simp: holders_def waiters_def k'_def)
  have l: "lock_ok (w_tasks w) h l" using world_okD(3) [OF assms(1)] by (simp add: l_def)
  have "t \<notin> fst ` set (rw_held l)" using l fresh by (auto simp: lock_ok_def)
  moreover have "\<forall>(i, m)\<in>set ((t, mode) # rw_held l). m = Exclusive \<longrightarrow> (t, mode) # rw_held l = [(i, m)]"
    using q(2) by (cases mode) (auto simp: grantable_def list_all_iff)
  ultimately have "lock_ok ((w_tasks w)[t := k']) h \<lparr> rw_held = (t, mode) # rw_held l, rw_queue = waiting \<rparr>"
    using l q(1) hw [of h] by (auto simp: lock_ok_def)
  moreover have "task_ok canonical k'"
    using world_okD(4) [OF assms(1,2)] assms(3,4) by (simp add: task_ok_def guard_chain_def k'_def)
  moreover have "set (clones k') \<subseteq> set (clones k)" using assms(4) by (auto simp: clones_def k'_def)
  ultimately show ?thesis by (intro lock_step_ok [OF assms(1-3) w']) (simp_all add: hw)
qed

lemma release_ok:
  assumes "world_ok canonical w" "t < length (w_tasks w)" "k = w_tasks w ! t" "tk_phase k = Idle"
    "tk_todo k = []" "tk_guards k = (key, mode, h) # rest"
  shows "world_ok canonical (release_step t k mode h rest w)"
proof -
  define l where "l = w_locks w h"
  define k' where "k' = k\<lparr> tk_guards := rest \<rparr>"
  have w': "release_step t k mode h rest w
      = set_task t k' (w\<lparr> w_locks := (w_locks w)(h := l\<lparr> rw_held := remove1 (t, mode) (rw_held l) \<rparr>) \<rparr>)"
    by (simp add: release_step_def Let_def k'_def l_def)
  have ok: "task_ok canonical k" using world_okD(4) [OF assms(1,2)] assms(3) by simp
  have once: "(a, m, h) \<notin> set rest" for a m
  proof
    assume a: "(a, m, h) \<in> set rest"
    then have "(a, h) \<in> set (clones k)" "(key, h) \<in> set (clones k)"
      using assms(6) by (force simp: clones_def)+
    then have "a = key" using clone_handle [OF assms(1,2)] assms(3)
        same_handle_same_key [OF world_okD(1) [OF assms(1)]] by blast
    moreover have "rank key < rank a" using task_ascending [OF ok] a assms(6) by (force simp: guard_chain_def)
    ultimately show False by simp
  qed
  have hw: "holders ((w_tasks w)[t := k']) x = (if x = h then holders (w_tasks w) x - {(t, mode)} else holders (w_tasks w) x)"
    "waiters ((w_tasks w)[t := k']) x = waiters (w_tasks w) x" for x
    unfolding holders_update [OF assms(2)] waiters_update [OF assms(2)]
    using once assms(2-6) by (auto simp: holders_def waiters_def k'_def)
  have l: "lock_ok (w_tasks w) h l" using world_okD(3) [OF assms(1)] by (simp add: l_def)
  then have "distinct (rw_held l)" by (auto simp: lock_ok_def distinct_map)
  then have "set (remove1 (t, mode) (rw_held l)) = set (rw_held l) - {(t, mode)}" by (rule set_remove1_eq)
  moreover have "distinct (map fst (remove1 (t, mode) (rw_held l)))"
    using l by (auto simp: lock_ok_def distinct_map intro: inj_on_subset dest: notin_set_remove1)
  moreover have "\<forall>(i, m)\<in>set (remove1 (t, mode) (rw_held l)). m = Exclusive \<longrightarrow> remove1 (t, mode) (rw_held l) = [(i, m)]"
  proof (clarify)
    fix i assume i: "(i, Exclusive) \<in> set (remove1 (t, mode) (rw_held l))"
    then have "(i, Exclusive) \<in> set (rw_held l)" by (meson notin_set_remove1)
    with l have "rw_held l = [(i, Exclusive)]" unfolding lock_ok_def by blast
    with i show "remove1 (t, mode) (rw_held l) = [(i, Exclusive)]" by (auto split: if_splits)
  qed
  ultimately have "lock_ok ((w_tasks w)[t := k']) h (l\<lparr> rw_held := remove1 (t, mode) (rw_held l) \<rparr>)"
    using l hw [of h] by (simp add: lock_ok_def)
  moreover have "task_ok canonical k'"
    using ok assms(4-6) by (auto simp: task_ok_def guard_chain_def k'_def dest: suffix_ConsD)
  moreover have "set (clones k') \<subseteq> set (clones k)" using assms(6) by (simp add: clones_def k'_def) blast
  ultimately show ?thesis by (intro lock_step_ok [OF assms(1-3) w']) (simp_all add: hw)
qed

end

context ranked_locks
begin

lemma step_task_ok:
  assumes "world_ok canonical w" "step_task t w = Some w'"
  shows "world_ok canonical w'"
proof -
  from assms(2) have t: "t < length (w_tasks w)" by (auto simp: step_task_def split: if_splits)
  show ?thesis
  proof (cases "tk_phase (w_tasks w ! t)")
    case Idle
    show ?thesis
    proof (cases "tk_todo (w_tasks w ! t)")
      case Nil
      with assms t Idle show ?thesis
        by (auto simp: step_task_def Let_def split: list.splits intro: release_ok)
    next
      case (Cons c rest)
      with assms t Idle show ?thesis by (cases c) (auto simp: step_task_def Let_def intro: lookup_ok)
    qed
  next
    case (Cloned key m h)
    with assms t show ?thesis by (auto simp: step_task_def Let_def intro: enqueue_ok)
  next
    case (Queued key m h)
    with assms t show ?thesis by (auto simp: step_task_def Let_def intro: grant_ok)
  qed
qed

lemma reaches_ok: "reaches w w' \<Longrightarrow> world_ok canonical w \<Longrightarrow> world_ok canonical w'"
  by (induction rule: reaches.induct) (auto simp: step_iff intro: step_task_ok)

text \<open>Two tasks that hold guards of one scope share it, unless they are the same task.\<close>

lemma exclusive_alone:
  assumes "world_ok canonical w" "i < length (w_tasks w)" "j < length (w_tasks w)"
    "(s, Exclusive, h) \<in> set (tk_guards (w_tasks w ! i))" "(s, m, h') \<in> set (tk_guards (w_tasks w ! j))"
  shows "i = j"
proof -
  have "(s, h) \<in> set (clones (w_tasks w ! i))" "(s, h') \<in> set (clones (w_tasks w ! j))"
    using assms(4,5) by (force simp: clones_def)+
  then have "h' = h" using clone_handle assms(1-3) by (metis option.inject)
  then have held: "(i, Exclusive) \<in> holders (w_tasks w) h" "(j, m) \<in> holders (w_tasks w) h"
    using assms(2-5) by (auto simp: holders_def)
  have l: "lock_ok (w_tasks w) h (w_locks w h)" by (rule world_okD(3) [OF assms(1)])
  then have "rw_held (w_locks w h) = [(i, Exclusive)]" using held(1) unfolding lock_ok_def by blast
  with l held(2) show ?thesis by (auto simp: lock_ok_def)
qed

text \<open>While a task is unfinished, some task can move: the one that waits at the highest rank waits for a runnable one.\<close>

lemma some_step:
  assumes "world_ok canonical w" "t < length (w_tasks w)" "\<not> finished (w_tasks w ! t)"
  shows "\<exists>i. step_task i w \<noteq> None"
proof (rule ccontr)
  assume none: "\<not> (\<exists>i. step_task i w \<noteq> None)"
  define Q where "Q = {(i, key, m, h). i < length (w_tasks w) \<and> tk_phase (w_tasks w ! i) = Queued key m h}"
  have queued: "\<exists>key m h. tk_phase (w_tasks w ! i) = Queued key m h"
    if "i < length (w_tasks w)" "\<not> finished (w_tasks w ! i)" for i
  proof (cases "tk_phase (w_tasks w ! i)")
    case Idle
    from none have "step_task i w = None" by blast
    with that Idle show ?thesis
      by (auto simp: step_task_def Let_def finished_def split: list.splits)
  next
    case (Cloned key m h)
    from none have "step_task i w = None" by blast
    with that Cloned show ?thesis by (simp add: step_task_def Let_def)
  qed simp
  then have "\<exists>key m h. (t, key, m, h) \<in> Q" using assms(2,3) by (auto simp: Q_def)
  define R where "R = {rank key |i key m h. (i, key, m, h) \<in> Q}"
  have "R \<subseteq> (\<lambda>i. case tk_phase (w_tasks w ! i) of Queued key m h \<Rightarrow> rank key | _ \<Rightarrow> 0) ` {..<length (w_tasks w)}"
    by (force simp: R_def Q_def image_iff)
  then have "finite R" by (rule finite_subset) simp
  moreover have "R \<noteq> {}" using \<open>\<exists>key m h. (t, key, m, h) \<in> Q\<close> by (auto simp: R_def)
  ultimately have R: "Max R \<in> R" "\<And>x. x \<in> R \<Longrightarrow> x \<le> Max R" by auto
  from R(1) obtain i key m h where i: "(i, key, m, h) \<in> Q" "rank key = Max R" by (auto simp: R_def)
  have top: "rank key' \<le> rank key" if "(i', key', m', h') \<in> Q" for i' key' m' h'
    using R(2) [of "rank key'"] that i(2) by (auto simp: R_def)
  note lk = world_okD(3) [OF assms(1), of h]
  have "(i, m) \<in> set (rw_queue (w_locks w h))" using lk i by (auto simp: lock_ok_def waiters_def Q_def)
  then obtain i0 m0 waiting where q: "rw_queue (w_locks w h) = (i0, m0) # waiting"
    by (cases "rw_queue (w_locks w h)") auto
  then have "(i0, m0) \<in> waiters (w_tasks w) h" using lk by (auto simp: lock_ok_def)
  then obtain key0 where i0: "i0 < length (w_tasks w)" "tk_phase (w_tasks w ! i0) = Queued key0 m0 h"
    by (auto simp: waiters_def)
  from none have "step_task i0 w = None" by blast
  with i0 q have "\<not> grantable m0 (rw_held (w_locks w h))" by (auto simp: step_task_def Let_def grant_step_def)
  then obtain i1 m1 where "(i1, m1) \<in> set (rw_held (w_locks w h))"
    by (cases "rw_held (w_locks w h)") (auto simp: grantable_def split: lock_mode.splits)
  then obtain key1 where i1: "i1 < length (w_tasks w)" "(key1, m1, h) \<in> set (tk_guards (w_tasks w ! i1))"
    using lk by (auto simp: lock_ok_def holders_def)
  then have "\<not> finished (w_tasks w ! i1)" by (auto simp: finished_def)
  with queued i1(1) obtain key2 m2 h2 where q2: "tk_phase (w_tasks w ! i1) = Queued key2 m2 h2" by blast
  have "(key1, h) \<in> set (clones (w_tasks w ! i1))" "(key, h) \<in> set (clones (w_tasks w ! i))"
    using i1(2) i by (force simp: clones_def Q_def)+
  then have "key1 = key"
    using clone_handle [OF assms(1)] same_handle_same_key [OF world_okD(1) [OF assms(1)]] i1(1) i
    by (auto simp: Q_def)
  moreover have "rank key1 < rank key2"
    using guard_below_pending [OF world_okD(4) [OF assms(1) i1(1)] i1(2)] q2 by simp
  moreover have "rank key2 \<le> rank key" using top [of i1 key2 m2 h2] q2 i1(1) by (simp add: Q_def)
  ultimately show False by simp
qed

end

section \<open>Every run ends\<close>

definition cost :: "'k task \<Rightarrow> nat" where
  "cost k = 4 * length (tk_todo k) + (case tk_phase k of Idle \<Rightarrow> 0 | Cloned _ _ _ \<Rightarrow> 3 | Queued _ _ _ \<Rightarrow> 2)
     + length (tk_guards k)"

definition effort :: "'k world \<Rightarrow> nat" where
  "effort w = sum_list (map cost (w_tasks w))"

lemma effort_update:
  assumes "t < length (w_tasks w)" "w_tasks w' = (w_tasks w)[t := k]" "cost (w_tasks w ! t) = Suc (cost k)"
  shows "effort w = Suc (effort w')"
proof -
  let ?ts = "w_tasks w"
  have "?ts = take t ?ts @ ?ts ! t # drop (Suc t) ?ts" using assms(1) by (rule id_take_nth_drop)
  then have "effort w = sum_list (map cost (take t ?ts @ ?ts ! t # drop (Suc t) ?ts))" by (simp add: effort_def)
  then show ?thesis using assms by (simp add: effort_def upd_conv_take_nth_drop)
qed

lemma step_effort:
  assumes "step_task t w = Some w'"
  shows "effort w = Suc (effort w')"
proof -
  from assms have t: "t < length (w_tasks w)" by (auto simp: step_task_def split: if_splits)
  obtain k where "w_tasks w' = (w_tasks w)[t := k]" "cost (w_tasks w ! t) = Suc (cost k)"
    using assms t
    by (auto simp: step_task_def Let_def lookup_step_def enqueue_step_def grant_step_def release_step_def cost_def
        split: phase.splits list.splits prod.splits if_splits)
  with t show ?thesis by (rule effort_update)
qed

lemma finished_cost: "finished k \<longleftrightarrow> cost k = 0"
  by (auto simp: finished_def cost_def split: phase.splits)

lemma run_effort: "(step ^^ n) w w' \<Longrightarrow> effort w = n + effort w'"
  by (induction n arbitrary: w') (auto simp: step_iff dest!: step_effort)

lemma run_reaches: "(step ^^ n) w w' \<Longrightarrow> reaches w w'"
  by (induction n arbitrary: w') (auto intro: reaches.intros)

lemma effort_start: "effort (start policy cs) = 4 * sum_list (map length cs)"
  by (induction cs) (auto simp: effort_def start_def cost_def new_task_def)

section \<open>The scopes of the store\<close>

definition scope_rank :: "lock_scope \<Rightarrow> nat" where
  "scope_rank s = (case s of Process \<Rightarrow> 0 | Group _ \<Rightarrow> 1 | Memory _ \<Rightarrow> 2)"

text \<open>The chains the store takes: those of the builders.\<close>

fun store_chain :: "lock_scope chain \<Rightarrow> bool" where
  "store_chain [(Process, Shared), (Group g, Shared), (Memory m, leaf_mode)] = True"
| "store_chain [(Process, Shared), (Group g, Exclusive)] = True"
| "store_chain [(Process, Exclusive)] = True"
| "store_chain _ = False"

lemma builders_store_chain:
  "store_chain (memory_chain g m leaf_mode)" "store_chain (create_chain g)"
  "store_chain (coarsen_group_chain g)" "store_chain coarsen_process_chain"
  by (simp_all add: memory_chain_def create_chain_def coarsen_group_chain_def exclusive_group_chain_def
      coarsen_process_chain_def)

interpretation scopes: ranked_locks scope_rank store_chain
proof
  fix c assume "store_chain c"
  then show "sorted_wrt (\<lambda>a b. scope_rank (fst a) < scope_rank (fst b)) c"
    by (cases c rule: store_chain.cases) (simp_all add: scope_rank_def)
qed

definition conflict :: "lock_scope chain \<Rightarrow> lock_scope chain \<Rightarrow> bool" where
  "conflict c d \<longleftrightarrow> list_ex (\<lambda>(s, m). list_ex (\<lambda>(s', m'). s = s' \<and> (m = Exclusive \<or> m' = Exclusive)) d) c"

text \<open>Which operations exclude each other, by the chains they take.\<close>

lemma conflicts:
  "conflict (create_chain g) (memory_chain g m md)"
  "conflict (create_chain g) (coarsen_group_chain g)"
  "conflict (memory_chain g m Exclusive) (memory_chain g' m md)"
  "g \<noteq> g' \<Longrightarrow> \<not> conflict (create_chain g) (create_chain g')"
  "m \<noteq> m' \<Longrightarrow> \<not> conflict (memory_chain g m md) (memory_chain g m' md')"
  "c \<noteq> [] \<Longrightarrow> store_chain c \<Longrightarrow> conflict coarsen_process_chain c"
proof -
  show "c \<noteq> [] \<Longrightarrow> store_chain c \<Longrightarrow> conflict coarsen_process_chain c"
    by (cases c rule: store_chain.cases) (simp_all add: conflict_def coarsen_process_chain_def)
qed (simp_all add: conflict_def create_chain_def coarsen_group_chain_def exclusive_group_chain_def memory_chain_def)

lemma start_reaches_ok:
  "list_all store_chain cs \<Longrightarrow> reaches (start policy cs) w \<Longrightarrow> world_ok store_chain w"
  by (blast intro: scopes.reaches_ok start_ok)

lemma step_chains: "step_task t w = Some w' \<Longrightarrow> map tk_chain (w_tasks w') = map tk_chain (w_tasks w)"
  by (auto simp: step_task_def Let_def lookup_step_def enqueue_step_def grant_step_def release_step_def map_update
      split: phase.splits list.splits prod.splits if_splits intro!: list_update_same_conv [THEN iffD2])

lemma reaches_chains: "reaches w w' \<Longrightarrow> map tk_chain (w_tasks w') = map tk_chain (w_tasks w)"
  by (induction rule: reaches.induct) (auto simp: step_iff dest!: step_chains)

lemma start_chains: "reaches (start policy cs) w \<Longrightarrow> map tk_chain (w_tasks w) = cs"
  by (drule reaches_chains) (simp add: start_def o_def new_task_def)

section \<open>Properties\<close>

text \<open>
  C1. The hierarchy contract. Whatever the interleaving and however the registry prunes, two
  different tasks never run their bodies at the same time when their chains conflict, that is
  share a scope one of them holds exclusively: a create or rename of a group excludes every
  operation below that group, and group creation excludes everything.
\<close>

theorem conflicting_bodies_exclude:
  assumes "list_all store_chain cs" and "reaches (start policy cs) w"
    and "i < length cs" and "j < length cs" and "in_body (w_tasks w ! i)" and "in_body (w_tasks w ! j)"
    and "conflict (cs ! i) (cs ! j)"
  shows "i = j"
proof -
  note cs = start_chains [OF assms(2)]
  then have len: "length (w_tasks w) = length cs" by (metis length_map)
  have guards: "map (\<lambda>(s, m, h). (s, m)) (tk_guards (w_tasks w ! t)) = cs ! t"
    if "t < length cs" "in_body (w_tasks w ! t)" for t
    using that cs len nth_map [of t "w_tasks w" tk_chain] by (simp add: in_body_def)
  from assms(7) obtain s m m' where "(s, m) \<in> set (cs ! i)" "(s, m') \<in> set (cs ! j)" and m: "m = Exclusive \<or> m' = Exclusive"
    by (auto simp: conflict_def list_ex_iff)
  then have "(s, m) \<in> set (map (\<lambda>(s, m, h). (s, m)) (tk_guards (w_tasks w ! i)))"
    "(s, m') \<in> set (map (\<lambda>(s, m, h). (s, m)) (tk_guards (w_tasks w ! j)))"
    by (simp_all only: guards [OF assms(3,5)] guards [OF assms(4,6)])
  then obtain h h' where held: "(s, m, h) \<in> set (tk_guards (w_tasks w ! i))" "(s, m', h') \<in> set (tk_guards (w_tasks w ! j))"
    by auto
  note alone = scopes.exclusive_alone [OF start_reaches_ok [OF assms(1,2)]]
  have "i < length (w_tasks w)" "j < length (w_tasks w)" using assms(3,4) len by simp_all
  with m held alone [of i j s h m' h'] alone [of j i s h' m h] show ?thesis by auto
qed

text \<open>
  Pruning never splits a lock. In every reachable state the handles of one scope that tasks
  hold or wait with are all the one the registry has for that scope, and no two scopes share one.
\<close>

theorem one_handle_per_scope:
  assumes "list_all store_chain cs" and "reaches (start policy cs) w"
  shows "list_all (\<lambda>t. list_all (\<lambda>(s, h). map_of (rg_entries (w_registry w)) s = Some h) (clones t)) (w_tasks w)
    \<and> distinct (map fst (rg_entries (w_registry w))) \<and> distinct (map snd (rg_entries (w_registry w)))"
  using start_reaches_ok [OF assms]
  by (auto simp: world_ok_def clones_ok_def entries_ok_def Let_def list_all_iff)


text \<open>
  C8. Every run ends. A run makes at most four steps per link of the chains, and a run that
  cannot be continued has made exactly that many and left every task finished and every lock
  free, so every operation gets its locks and gives them back.
\<close>

theorem lock_runs_end:
  assumes "list_all store_chain cs" and "(step ^^ n) (start policy cs) w"
  shows "n \<le> 4 * sum_list (map length cs)
    \<and> (if \<exists>w'. step w w' then n < 4 * sum_list (map length cs)
       else n = 4 * sum_list (map length cs) \<and> list_all finished (w_tasks w) \<and> w_locks w = (\<lambda>_. free_lock))"
proof -
  from run_effort [OF assms(2)] have e: "4 * sum_list (map length cs) = n + effort w" by (simp add: effort_start)
  note ok = start_reaches_ok [OF assms(1) run_reaches [OF assms(2)]]
  show ?thesis
  proof (cases "\<exists>w'. step w w'")
    case True
    then have "0 < effort w" by (auto simp: step_iff dest: step_effort)
    with e True show ?thesis by simp
  next
    case False
    have fin: "finished (w_tasks w ! t)" if "t < length (w_tasks w)" for t
      using scopes.some_step [OF ok that] False by (auto intro: step.intros)
    then have all: "list_all finished (w_tasks w)" by (simp add: list_all_length)
    then have "effort w = 0" by (simp add: effort_def finished_cost list_all_iff)
    moreover have "w_locks w h = free_lock" for h
    proof -
      have "holders (w_tasks w) h = {}" "waiters (w_tasks w) h = {}"
        using fin by (auto simp: holders_def waiters_def finished_def)
      then show ?thesis using world_okD(3) [OF ok, of h]
        by (cases "w_locks w h") (simp add: lock_ok_def free_lock_def)
    qed
    ultimately show ?thesis using e False all by auto
  qed
qed

text \<open>Runs by a schedule, for the examples.\<close>

fun run_schedule :: "nat list \<Rightarrow> 'k world \<Rightarrow> 'k world option" where
  "run_schedule [] w = Some w"
| "run_schedule (t # ts) w = Option.bind (step_task t w) (run_schedule ts)"

lemma run_schedule_run: "run_schedule ts w = Some w' \<Longrightarrow> (step ^^ length ts) w w'"
proof (induction ts arbitrary: w)
  case (Cons t ts)
  then obtain v where "step_task t w = Some v" "run_schedule ts v = Some w'" by (auto simp: bind_eq_Some_conv)
  with Cons.IH [of v] have "step w v" "(step ^^ length ts) v w'" by (auto intro: step.intros)
  then have "(step ^^ Suc (length ts)) w w'" by (rule relpowp_Suc_I2)
  then show ?case by simp
qed simp

text \<open>Two edits of different memories of one group, and a create in it.\<close>

definition ex_chains :: "lock_scope chain list" where
  "ex_chains = [memory_chain 1 2 Exclusive, memory_chain 1 3 Exclusive, create_chain 1]"

definition ex_editing :: "nat list" where
  "ex_editing = [0, 0, 0, 0, 0, 0, 1, 1, 1, 1, 1, 1, 0, 0, 0, 1, 1, 1]"

lemma ex_chains_ok: "list_all store_chain ex_chains"
  by (simp add: ex_chains_def builders_store_chain)

lemma ex_run:
  "\<exists>w. (step ^^ 18) (start (Threshold LOCK_REGISTRY_PRUNE_THRESHOLD) ex_chains) w
     \<and> in_body (w_tasks w ! 0) \<and> in_body (w_tasks w ! 1) \<and> list_ex (\<lambda>t. \<not> finished t) (w_tasks w)"
proof -
  have "(case run_schedule ex_editing (start (Threshold LOCK_REGISTRY_PRUNE_THRESHOLD) ex_chains) of None \<Rightarrow> False
     | Some w \<Rightarrow> in_body (w_tasks w ! 0) \<and> in_body (w_tasks w ! 1) \<and> list_ex (\<lambda>t. \<not> finished t) (w_tasks w))" by code_simp
  then obtain w where w: "run_schedule ex_editing (start (Threshold LOCK_REGISTRY_PRUNE_THRESHOLD) ex_chains) = Some w"
    "in_body (w_tasks w ! 0)" "in_body (w_tasks w ! 1)" "list_ex (\<lambda>t. \<not> finished t) (w_tasks w)"
    by (auto split: option.splits)
  have "length ex_editing = 18" by (simp add: ex_editing_def)
  with run_schedule_run [OF w(1)] w(2-4) show ?thesis by auto
qed

text \<open>Edits of different memories of a group run their bodies at the same time.\<close>

lemma edits_overlap:
  "\<exists>w. reaches (start (Threshold LOCK_REGISTRY_PRUNE_THRESHOLD) ex_chains) w
     \<and> in_body (w_tasks w ! 0) \<and> in_body (w_tasks w ! 1)"
  using ex_run run_reaches by blast

lemma ex_conflicts: "conflict (ex_chains ! 0) (ex_chains ! 0)" "conflict (ex_chains ! 0) (ex_chains ! 2)" "length ex_chains = 3"
  by code_simp+

theorem conflicting_bodies_exclude_witness:
  "\<exists>w. reaches (start (Threshold LOCK_REGISTRY_PRUNE_THRESHOLD) ex_chains) w
     \<and> filter (\<lambda>j. in_body (w_tasks w ! j) \<and> conflict (ex_chains ! 0) (ex_chains ! j)) [0, 2] = [0]"
proof -
  obtain w where w: "reaches (start (Threshold LOCK_REGISTRY_PRUNE_THRESHOLD) ex_chains) w" "in_body (w_tasks w ! 0)"
    using edits_overlap by blast
  have "\<not> in_body (w_tasks w ! 2)"
    using conflicting_bodies_exclude [OF ex_chains_ok w(1), of 0 2] w(2) ex_conflicts by auto
  with w ex_conflicts show ?thesis by (intro exI [of _ w]) simp
qed

theorem one_handle_per_scope_witness:
  "\<exists>w. reaches (start (Threshold LOCK_REGISTRY_PRUNE_THRESHOLD) ex_chains) w \<and> in_body (w_tasks w ! 0)
     \<and> distinct (map snd (rg_entries (w_registry w)))"
  using edits_overlap one_handle_per_scope [OF ex_chains_ok] by blast


theorem lock_runs_end_witness:
  "\<exists>w. (step ^^ 18) (start (Threshold LOCK_REGISTRY_PRUNE_THRESHOLD) ex_chains) w \<and> in_body (w_tasks w ! 0)
     \<and> 18 \<le> 4 * sum_list (map length ex_chains)"
  using ex_run lock_runs_end [OF ex_chains_ok] by blast

end
