(* ===== verification/Concurrent_Writes.thy ===== *)
theory Concurrent_Writes
  imports Git_Reference Locks
begin

text \<open>
  Two writers on one repository. A commit (\<open>mmcp-git\<close>, \<open>write_commit\<close>) reads the tip of its
  branch, builds the new commit on it and then moves the branch, each on its own blocking
  thread, and the scope locks (\<open>mmcp-store\<close>, \<open>lock.rs\<close>) let edits of different memories of a
  group run together. This theory composes the two.
\<close>

definition interleaved_commits ::
  "'ed gix \<Rightarrow> int \<Rightarrow> repo \<Rightarrow> commit_spec \<Rightarrow> commit_spec
    \<Rightarrow> (git_error + string) \<times> (git_error + string) \<times> repo" where
  "interleaved_commits g now r spec_a spec_b =
     (case prepare_commit g now r spec_a of
        (Inl e, r1) \<Rightarrow> (Inl e, Inl e, r1)
      | (Inr a, r1) \<Rightarrow>
          (case prepare_commit g now r1 spec_b of
             (Inl e, r2) \<Rightarrow> (Inl e, Inl e, r2)
           | (Inr b, r2) \<Rightarrow>
               (let (res_a, r3) = publish_commit g r2 (branch_ref (cs_branch spec_a)) a;
                    (res_b, r4) = publish_commit g r3 (branch_ref (cs_branch spec_b)) b
                in (res_a, res_b, r4))))"

lemma tree_files_extends:
  assumes "repo_ok r" "extends r r'" "g_objects r t = Some (TreeObj es)"
  shows "files_of r' (blob_at r' t) = files_of r (blob_at r t)"
proof -
  note objs = repo_okD(1) [OF assms(1)]
  show ?thesis
    using blob_at_extends_eq [OF objs assms(2,3)] files_of_extends [OF assms(2) blobs_present_blob_at [OF objs]]
    by simp
qed

lemma branch_files_extends:
  assumes "repo_ok r" "extends r r'" "\<And>p. g_refs r name = Some p \<Longrightarrow> \<exists>d. g_objects r p = Some (CommitObj d)"
  shows "branch_files r' name = branch_files r name"
proof (cases "g_refs r name")
  case None
  with assms(2) show ?thesis by (simp add: branch_files_def extends_def)
next
  case (Some p)
  then obtain d where d: "g_objects r p = Some (CommitObj d)" using assms(3) by blast
  from repo_okD(2) [OF assms(1) d] obtain es where es: "g_objects r (cm_tree d) = Some (TreeObj es)" by blast
  moreover have "g_refs r' = g_refs r" using assms(2) by (simp add: extends_def)
  ultimately show ?thesis
    using Some d extends_object [OF assms(2) d] tree_files_extends [OF assms(1,2) es] by (simp add: branch_files_def)
qed

lemma publish_success:
  assumes "gix_backend g view base" "repo_ok r" "g_objects r (cm_tree c) = Some (TreeObj es)"
    "publish_commit g r name c = (Inr hex, r')"
  obtains i r2 where "extends r r2" "repo_ok r2" "r' = r2\<lparr> g_refs := (g_refs r)(name \<mapsto> i) \<rparr>"
    "g_objects r2 i = Some (CommitObj c)"
  using gix_backend.publish_commit_cases [OF assms] by blast

lemma interleaved_lost:
  assumes "gix_backend g view base" "repo_ok r" "cs_branch spec_b = cs_branch spec_a"
    "interleaved_commits g now r spec_a spec_b = (Inr hex_a, Inr hex_b, r')"
  shows "apply_edits (cs_files spec_b) (branch_files r (branch_ref (cs_branch spec_a)))
    = Some (branch_files r' (branch_ref (cs_branch spec_a)))"
proof -
  let ?n = "branch_ref (cs_branch spec_a)"
  from assms(3,4) obtain a r1 b r2 r3 where
    a: "prepare_commit g now r spec_a = (Inr a, r1)" and b: "prepare_commit g now r1 spec_b = (Inr b, r2)"
    and pa: "publish_commit g r2 ?n a = (Inr hex_a, r3)" and pb: "publish_commit g r3 ?n b = (Inr hex_b, r')"
    by (auto simp: interleaved_commits_def split: prod.splits sum.splits)
  from gix_backend.prepare_commit_sound [OF assms(1,2) a] obtain es where sa: "extends r r1" "repo_ok r1"
    "g_objects r1 (cm_tree a) = Some (TreeObj es)" "\<And>p. g_refs r ?n = Some p \<Longrightarrow> \<exists>d. g_objects r p = Some (CommitObj d)"
    by auto
  from gix_backend.prepare_commit_sound [OF assms(1) sa(2) b] assms(3) obtain fs where sb: "extends r1 r2" "repo_ok r2"
    "g_objects r2 (cm_tree b) = Some (TreeObj fs)"
    "apply_edits (cs_files spec_b) (branch_files r1 ?n) = Some (files_of r2 (blob_at r2 (cm_tree b)))" by auto
  from publish_success [OF assms(1) sb(2) extends_object [OF sb(1) sa(3)] pa] obtain i x where
    x: "extends r2 x" "repo_ok x" "r3 = x\<lparr> g_refs := (g_refs r2)(?n \<mapsto> i) \<rparr>" by blast
  then have ok3: "repo_ok r3" by (simp add: repo_ok_def)
  have t3: "g_objects r3 (cm_tree b) = Some (TreeObj fs)" using extends_object [OF x(1) sb(3)] x(3) by simp
  from publish_success [OF assms(1) ok3 t3 pb] obtain j y where
    y: "extends r3 y" "r' = y\<lparr> g_refs := (g_refs r3)(?n \<mapsto> j) \<rparr>" "g_objects y j = Some (CommitObj b)" by blast
  have "files_of y (blob_at y (cm_tree b)) = files_of r3 (blob_at r3 (cm_tree b))"
    by (rule tree_files_extends [OF ok3 y(1) t3])
  also have "\<dots> = files_of r2 (blob_at r2 (cm_tree b))"
    using tree_files_extends [OF sb(2) x(1) sb(3)] x(3) by simp
  finally have "branch_files r' ?n = files_of r2 (blob_at r2 (cm_tree b))" using y by (simp add: branch_files_def)
  with sb(4) branch_files_extends [OF assms(2) sa(1,4)] show ?thesis by simp
qed

section \<open>Properties\<close>


definition second_commit :: commit_spec where
  "second_commit = mmcp_commit ''m'' [(''memories/c/u.md'', Some ''z'')] ''n'' ''e''"


end
