(* ===== verification/Slug_Files.thy ===== *)
theory Slug_Files
  imports Memory_Writes "HOL-Library.Multiset"
begin

text \<open>
  What the listings of \<open>mmcp-git\<close> and the lookup by slug of \<open>mmcp-store\<close> (\<open>memory.rs\<close>) see of
  the file map of a repository: the names in one directory, the ids under one slug, and how a
  commit changes them. The tracker surfaces rest on these facts.
\<close>

section \<open>Listings and the file map\<close>

lemma resolve_prefix_loop_spec:
  assumes "objects_ok r" "g_objects r root = Some (TreeObj es)" "list_all component_ok cs"
  shows "\<exists>t. resolve_prefix_loop r root cs = Inr t \<and>
    (case t of
       Some i \<Rightarrow> (\<exists>es'. g_objects r i = Some (TreeObj es')) \<and> (\<forall>n. entry_at r root (cs @ [n]) = entry_at r i [n])
     | None \<Rightarrow> (\<forall>n. entry_at r root (cs @ [n]) = None))"
  using assms(2,3)
proof (induction cs arbitrary: root es)
  case Nil
  then show ?case by simp
next
  case (Cons name rest)
  have obj: "bind_res (find_object r root ReadBlob) into_tree = Inr es"
    using Cons.prems(1) by (simp add: find_object_def into_tree_def)
  note found = find_tree_entry_named [OF objects_okD(1) [OF assms(1) Cons.prems(1)], of name True]
  have step: "resolve_prefix_loop r root (name # rest) =
      (case find_tree_entry es name True of None \<Rightarrow> Inr None
       | Some entry \<Rightarrow> if te_mode entry = KTree then resolve_prefix_loop r (te_oid entry) rest else Inr None)"
    using Cons.prems(1) by (simp add: find_object_def into_tree_def)
  show ?case
  proof (cases "entry_named es name")
    case None
    with Cons.prems found step show ?thesis by simp
  next
    case (Some e)
    show ?thesis
    proof (cases "is_tree e")
      case False
      with Cons.prems found step Some show ?thesis by simp
    next
      case True
      from Some have "e \<in> set es" by (auto simp: entry_named_def find_Some_iff)
      with True objects_okD(2) [OF assms(1) Cons.prems(1)] obtain es'
        where "g_objects r (te_oid e) = Some (TreeObj es')" by (auto simp: entry_sound_def)
      note IH = Cons.IH [OF this]
      have below: "entry_at r root ((name # rest) @ [n]) = entry_at r (te_oid e) (rest @ [n])" for n
        using Cons.prems(1) Some True by simp
      have loop: "resolve_prefix_loop r root (name # rest) = resolve_prefix_loop r (te_oid e) rest"
        unfolding step using Cons.prems(2) found Some True by (simp add: is_tree_def)
      show ?thesis unfolding below loop using IH Cons.prems(2) by simp
    qed
  qed
qed

text \<open>The names of the files directly in a directory, of a file map.\<close>

definition names_in :: "files \<Rightarrow> string list \<Rightarrow> string set" where
  "names_in fs cs = {n. fs (cs @ [n]) \<noteq> None}"

lemma list_entries_blobs:
  assumes "objects_ok r" "g_objects r i = Some (TreeObj es)"
  obtains raws where "list_entries is_blob_kind r i = Inr (sort (map utf8_lossy raws))" "distinct raws"
    "set raws = {n. blob_at r i [n] \<noteq> None}"
proof
  let ?raws = "map te_filename (filter (\<lambda>e. is_blob_kind (te_mode e)) es)"
  have d: "distinct (map te_filename es)" using objects_okD(1) [OF assms] by (simp add: tree_ok_def)
  show "list_entries is_blob_kind r i = Inr (sort (map utf8_lossy ?raws))"
    using assms(2) by (simp add: list_entries_def find_object_def into_tree_def comp_def)
  show "distinct ?raws" using d by (simp add: distinct_map_filter)
  show "set ?raws = {n. blob_at r i [n] \<noteq> None}"
  proof (rule set_eqI)
    fix n
    have "blob_at r i [n] \<noteq> None \<longleftrightarrow> (\<exists>e. entry_named es n = Some e \<and> is_blob_kind (te_mode e))"
      using assms(2) by (cases "entry_named es n") (simp_all add: blob_at_def)
    then show "n \<in> set ?raws \<longleftrightarrow> n \<in> {n. blob_at r i [n] \<noteq> None}"
      unfolding entry_named_Some [OF d] by auto
  qed
qed

lemma list_tree_names:
  assumes "repo_ok r" "resolve_rev g r rv = Inr p" "g_objects r p = Some (CommitObj c)"
  obtains raws where "list_tree g r dir rv = Inr (sort (map utf8_lossy raws))" "distinct raws"
    "set raws = names_in (files_of r (blob_at r (cm_tree c))) (path_components dir)"
proof -
  let ?fs = "files_of r (blob_at r (cm_tree c))" and ?cs = "path_components dir"
  note ok = repo_okD(1) [OF assms(1)]
  have fs: "?fs q \<noteq> None \<longleftrightarrow> blob_at r (cm_tree c) q \<noteq> None" for q
    using files_of_None [OF blobs_present_blob_at [OF ok]] by auto
  from repo_okD(2) [OF assms(1,3)] obtain es where es: "g_objects r (cm_tree c) = Some (TreeObj es)" by blast
  from resolve_prefix_loop_spec [OF ok es path_components_ok [of dir]] obtain t where
    t: "resolve_tree_prefix r (cm_tree c) dir = Inr t" and spec: "case t of
       Some i \<Rightarrow> (\<exists>es'. g_objects r i = Some (TreeObj es')) \<and> (\<forall>n. entry_at r (cm_tree c) (?cs @ [n]) = entry_at r i [n])
     | None \<Rightarrow> (\<forall>n. entry_at r (cm_tree c) (?cs @ [n]) = None)"
    by (auto simp: resolve_tree_prefix_def)
  have pt: "prefix_tree g r dir rv = Inr t"
    using assms(2,3) t by (simp add: prefix_tree_def commit_at_def find_object_def into_commit_def)
  show thesis
  proof (cases t)
    case None
    with spec have "names_in ?fs ?cs = {}" by (simp add: names_in_def fs [simplified] blob_at_def)
    with None pt show ?thesis by (intro that [of "[]"]) (simp_all add: list_tree_def)
  next
    case (Some i)
    with spec obtain es' where "g_objects r i = Some (TreeObj es')" by auto
    from list_entries_blobs [OF ok this] obtain raws where raws:
      "list_entries is_blob_kind r i = Inr (sort (map utf8_lossy raws))" "distinct raws"
      "set raws = {n. blob_at r i [n] \<noteq> None}" by blast
    have "{n. blob_at r i [n] \<noteq> None} = names_in ?fs ?cs"
      using spec Some fs by (simp add: names_in_def blob_at_def)
    with raws pt Some show ?thesis by (intro that [of raws]) (simp_all add: list_tree_def)
  qed
qed

section \<open>The file map of a store\<close>

definition head_files :: "repo \<Rightarrow> files" where
  "head_files r = branch_files r (branch_ref MAIN_BRANCH)"

definition store_live :: "repo \<Rightarrow> bool" where
  "store_live r \<longleftrightarrow> store_ready r
     \<and> (\<exists>p c. g_refs r (branch_ref MAIN_BRANCH) = Some p \<and> g_objects r p = Some (CommitObj c))"

lemma store_live_ready: "store_live r \<Longrightarrow> store_ready r"
  by (simp add: store_live_def)

lemma head_resolves:
  assumes "store_ready r" "g_refs r (branch_ref MAIN_BRANCH) = Some p"
  shows "resolve_rev g r Head = Inr p"
  using assms by (auto simp: store_ready_def resolve_rev_def resolve_head_def head_follows_main_def head_id_def
      find_reference_def split: git_head.splits option.splits)

lemma live_read:
  assumes "store_live r"
  shows "read_file g r path Head = ok_or (PathNotFound path) (head_files r (path_components path))"
  using assms head_on_main by (auto simp: store_live_def head_files_def)

lemma live_list:
  assumes "store_live r"
  obtains raws where "list_tree g r dir Head = Inr (sort (map utf8_lossy raws))" "distinct raws"
    "set raws = names_in (head_files r) (path_components dir)"
proof -
  from assms obtain p c where p: "g_refs r (branch_ref MAIN_BRANCH) = Some p" "g_objects r p = Some (CommitObj c)"
    and ready: "store_ready r" by (auto simp: store_live_def)
  have "repo_ok r" using ready by (simp add: store_ready_def)
  from list_tree_names [OF this head_resolves [OF ready p(1)] p(2)] obtain raws where
    "list_tree g r dir Head = Inr (sort (map utf8_lossy raws))" "distinct raws"
    "set raws = names_in (files_of r (blob_at r (cm_tree c))) (path_components dir)" by blast
  with that p show thesis by (simp add: head_files_def branch_files_def)
qed

lemma commit_files_live:
  assumes "gix_backend g view base" "store_ready r" "commit_files g now r msg files author = (Inr hex, r')"
  shows "store_live r \<and> store_live r' \<and> apply_edits files (head_files r) = Some (head_files r')"
proof -
  let ?spec = "mmcp_commit msg files (au_name author) (au_email author)"
  have spec: "cs_branch ?spec = MAIN_BRANCH" "cs_files ?spec = files" by (simp_all add: mmcp_commit_def)
  from assms(3) have w: "write_commit g now r ?spec = (Inr hex, r')"
    by (auto simp: commit_files_def map_err_def split: prod.splits sum.splits)
  have ready: "repo_ok r" "head_follows_main r" using assms(2) by (simp_all add: store_ready_def)
  from assms(2) obtain p where p: "g_refs r (branch_ref MAIN_BRANCH) = Some p" by (auto simp: store_ready_def)
  obtain c r1 where "prepare_commit g now r ?spec = (Inr c, r1)"
    using w by (auto simp: write_commit_def split: prod.splits sum.splits)
  from gix_backend.prepare_commit_sound [OF assms(1) ready(1) this] p spec
  obtain d where "g_objects r p = Some (CommitObj d)" by auto
  with p assms(2) have live: "store_live r" by (auto simp: store_live_def)
  from write_commit_ok [OF assms(1) ready(1) w] obtain i c' where
    i: "repo_ok r'" "g_head r' = g_head r" "g_refs r' = (g_refs r)(branch_ref MAIN_BRANCH \<mapsto> i)"
    "g_objects r' i = Some (CommitObj c')" "apply_edits files (head_files r) = Some (head_files r')"
    unfolding spec head_files_def by metis
  then have "store_live r'"
    using ready(2) p by (auto simp: store_live_def store_ready_def head_follows_main_def head_id_def split: git_head.splits)
  with live i(5) show ?thesis by blast
qed

text \<open>A single write or removal of a memory file, in terms of the file map.\<close>

lemma single_edit:
  assumes "apply_edits [(path, contents)] fs0 = Some fs"
  shows "fs = (\<lambda>q. if q = path_components path then contents
    else if prefix (path_components path) q then None else fs0 q)"
  using assms by (auto simp: apply_edit_def Let_def split: if_splits)

section \<open>The ids under a slug\<close>

text \<open>The listing is canonical: it depends on the set of names only.\<close>

lemma live_listing:
  assumes "store_live r"
  shows "finite (names_in (head_files r) (path_components dir))
    \<and> list_tree g r dir Head = Inr (sorted_list_of_multiset
        (image_mset utf8_lossy (mset_set (names_in (head_files r) (path_components dir)))))"
proof -
  from live_list [OF assms] obtain raws where raws: "list_tree g r dir Head = Inr (sort (map utf8_lossy raws))"
    "distinct raws" "set raws = names_in (head_files r) (path_components dir)" by metis
  have "sort (map utf8_lossy raws) = sorted_list_of_multiset (image_mset utf8_lossy (mset_set (set raws)))"
    by (simp add: mset_set_set [OF raws(2)] flip: mset_map)
  with raws show ?thesis by (metis List.finite_set)
qed

definition slug_components :: "string \<Rightarrow> string list" where
  "slug_components slug = MEMORIES_DIR # split_on CHR ''/'' slug"

definition slug_names :: "repo \<Rightarrow> string \<Rightarrow> string set" where
  "slug_names r slug = names_in (head_files r) (slug_components slug)"

text \<open>The ids under a slug, in the order of the listing.\<close>

definition slug_ids :: "uuids \<Rightarrow> repo \<Rightarrow> string \<Rightarrow> uuid list" where
  "slug_ids uu r slug = List.map_filter (md_uuid uu)
     (sorted_list_of_multiset (image_mset utf8_lossy (mset_set (slug_names r slug))))"

lemma slug_dir_components:
  assumes "validate_memory_slug slug = Inr ()"
  shows "path_components (MEMORIES_DIR @ ''/'' @ slug) = slug_components slug"
proof -
  have "split_on CHR ''/'' (MEMORIES_DIR @ CHR ''/'' # slug) = slug_components slug"
    by (simp add: slug_components_def MEMORIES_DIR_def)
  moreover have "\<forall>seg\<in>set (slug_components slug). seg \<noteq> []"
    using assms segment_ok_chars by (auto simp: slug_components_def MEMORIES_DIR_def validate_memory_slug_ok list_all_iff segment_ok_def)
  ultimately show ?thesis by (simp add: path_components_def filter_id_conv)
qed

lemma live_slug_listing:
  assumes "store_live r" "validate_memory_slug slug = Inr ()"
  shows "list_tree g r (MEMORIES_DIR @ ''/'' @ slug) Head
    = Inr (sorted_list_of_multiset (image_mset utf8_lossy (mset_set (slug_names r slug))))"
  using live_listing [OF assms(1), of "MEMORIES_DIR @ ''/'' @ slug" g] slug_dir_components [OF assms(2)]
  by (simp add: slug_names_def)

lemma resolve_by_slug_ids:
  assumes "store_live r" "validate_memory_slug slug = Inr ()"
  shows "resolve_by_slug g uu r slug =
    (case slug_ids uu r slug of
       [] \<Rightarrow> Inl (MemoryNotFound (Some slug) None)
     | [only] \<Rightarrow> Inr \<lparr> rm_slug = slug, rm_id = only, rm_path = memory_path uu slug only, rm_mode = BySlugOnly \<rparr>
     | us \<Rightarrow> Inl (MemoryAmbiguous slug us))"
  using live_slug_listing [OF assms, of g] by (simp add: resolve_by_slug_def slug_ids_def)

section \<open>How a commit changes the ids under a slug\<close>

definition id_name :: "uuids \<Rightarrow> uuid \<Rightarrow> string" where
  "id_name uu i = uu_show uu i @ MEMORY_EXTENSION"

lemma memory_components_name: "memory_components uu slug i = slug_components slug @ [id_name uu i]"
  by (simp add: memory_components_def slug_components_def id_name_def)

lemma utf8_ok_ascii: "list_all (\<lambda>c. byte c < 128) s \<Longrightarrow> utf8_ok s"
  by (induction s) auto

lemma id_name_facts:
  assumes "uuid_contract uu"
  shows "utf8_lossy (id_name uu i) = id_name uu i" "md_uuid uu (id_name uu i) = Some i" "id_name uu i = id_name uu j \<longleftrightarrow> i = j"
proof -
  have "list_all (\<lambda>c. byte c < 128) (id_name uu i)"
    using assms by (simp add: uuid_contract_def id_name_def MEMORY_EXTENSION_def byte_def)
  then show "utf8_lossy (id_name uu i) = id_name uu i" by (intro utf8_lossy_ok utf8_ok_ascii)
  have md: "md_uuid uu (id_name uu i) = Some i" for i
    using assms by (simp add: md_uuid_def id_name_def strip_suffix_append uuid_contract_def)
  then show "md_uuid uu (id_name uu i) = Some i" .
  show "id_name uu i = id_name uu j \<longleftrightarrow> i = j" using md by (metis option.inject)
qed

lemma slug_components_no_dot:
  "\<lbrakk> validate_memory_slug slug = Inr (); seg \<in> set (slug_components slug) \<rbrakk> \<Longrightarrow> CHR ''.'' \<notin> set seg"
  using segment_ok_chars slug_char_not(2)
  by (auto simp: slug_components_def validate_memory_slug_ok list_all_iff MEMORIES_DIR_def)

lemma slug_components_inj: "slug_components s = slug_components t \<longleftrightarrow> s = t"
  by (metis slug_components_def list.inject join_split)

lemma below_slug:
  assumes "validate_memory_slug t = Inr ()" "prefix (slug_components s @ [id_name uu i]) (slug_components t @ [m])"
  shows "s = t \<and> m = id_name uu i"
proof -
  from assms(2) obtain zs where zs: "slug_components t @ [m] = slug_components s @ id_name uu i # zs"
    by (auto simp: prefix_def)
  have "zs = []"
  proof (rule ccontr)
    assume "zs \<noteq> []"
    moreover have "slug_components t = butlast (slug_components s @ id_name uu i # zs)"
      unfolding zs [symmetric] by simp
    ultimately have "slug_components t = slug_components s @ id_name uu i # butlast zs" by (simp add: butlast_append)
    then have "id_name uu i \<in> set (slug_components t)" by simp
    from slug_components_no_dot [OF assms(1) this] show False by (simp add: id_name_def MEMORY_EXTENSION_def)
  qed
  with zs show ?thesis by (simp add: slug_components_inj)
qed

lemma names_in_slug_edit:
  assumes "validate_memory_slug t = Inr ()"
    and "fs = (\<lambda>q. if q = memory_components uu s i then contents
        else if prefix (memory_components uu s i) q then None else fs0 q)"
  shows "names_in fs (slug_components t) =
    (if s \<noteq> t then names_in fs0 (slug_components t)
     else (case contents of
             Some _ \<Rightarrow> insert (id_name uu i) (names_in fs0 (slug_components t))
           | None \<Rightarrow> names_in fs0 (slug_components t) - {id_name uu i}))"
proof (rule set_eqI)
  fix m
  have eq: "slug_components t @ [m] = slug_components s @ [id_name uu i] \<longleftrightarrow> s = t \<and> m = id_name uu i"
    by (auto simp: slug_components_inj)
  have pre: "prefix (slug_components s @ [id_name uu i]) (slug_components t @ [m]) \<longleftrightarrow> s = t \<and> m = id_name uu i"
    using below_slug [OF assms(1)] by auto
  show "m \<in> names_in fs (slug_components t) \<longleftrightarrow> m \<in> (if s \<noteq> t then names_in fs0 (slug_components t)
     else (case contents of
             Some _ \<Rightarrow> insert (id_name uu i) (names_in fs0 (slug_components t))
           | None \<Rightarrow> names_in fs0 (slug_components t) - {id_name uu i}))"
    unfolding assms(2) memory_components_name names_in_def mem_Collect_eq eq pre by (auto split: option.split)
qed

lemma mset_map_filter:
  "mset (List.map_filter f xs) = image_mset (the \<circ> f) (filter_mset (\<lambda>x. f x \<noteq> None) (mset xs))"
  by (simp add: List.map_filter_def)

lemma mset_slug_ids:
  "mset (slug_ids uu r slug) = image_mset (the \<circ> md_uuid uu)
     (filter_mset (\<lambda>x. md_uuid uu x \<noteq> None) (image_mset utf8_lossy (mset_set (slug_names r slug))))"
  by (simp add: slug_ids_def mset_map_filter)

lemma slug_names_finite:
  assumes "store_live r" "validate_memory_slug slug = Inr ()"
  shows "finite (slug_names r slug)"
  using live_listing [OF assms(1), of "MEMORIES_DIR @ ''/'' @ slug", THEN conjunct1] slug_dir_components [OF assms(2)]
  by (simp add: slug_names_def)

lemma slug_ids_insert:
  assumes "uuid_contract uu" "finite (slug_names r slug)" "id_name uu i \<notin> slug_names r slug"
    and "slug_names r' slug = insert (id_name uu i) (slug_names r slug)"
  shows "mset (slug_ids uu r' slug) = add_mset i (mset (slug_ids uu r slug))"
  using assms(2,3) by (simp add: mset_slug_ids assms(4) id_name_facts [OF assms(1)])

lemma slug_ids_remove:
  assumes "uuid_contract uu" "finite (slug_names r slug)" "id_name uu i \<in> slug_names r slug"
    and "slug_names r' slug = slug_names r slug - {id_name uu i}"
  shows "mset (slug_ids uu r slug) = add_mset i (mset (slug_ids uu r' slug))"
proof (rule slug_ids_insert [OF assms(1)])
  show "finite (slug_names r' slug)" using assms(2,4) by simp
  show "id_name uu i \<notin> slug_names r' slug" using assms(4) by simp
  show "slug_names r slug = insert (id_name uu i) (slug_names r' slug)" using assms(3,4) by auto
qed

section \<open>Writes of one memory\<close>

lemma live_memory_read:
  assumes "store_live r" "uuid_contract uu" "validate_memory_slug slug = Inr ()"
  shows "read_file g r (memory_path uu slug i) Head
    = ok_or (PathNotFound (memory_path uu slug i)) (head_files r (memory_components uu slug i))"
  by (simp add: live_read [OF assms(1)] memory_path_components [OF assms(2,3)])

lemma id_name_mem: "id_name uu i \<in> slug_names r slug \<longleftrightarrow> head_files r (memory_components uu slug i) \<noteq> None"
  by (simp add: slug_names_def names_in_def memory_components_name)

lemma edit_memory:
  assumes "gix_backend g view base" "uuid_contract uu" "store_ready r" "validate_memory_slug slug = Inr ()"
    and "commit_files g now r msg [(memory_path uu slug i, contents)] author = (Inr hex, r')"
  shows "store_live r" "store_live r'"
    "validate_memory_slug t = Inr () \<Longrightarrow> head_files r' (memory_components uu t j)
       = (if t = slug \<and> j = i then contents else head_files r (memory_components uu t j))"
    "validate_memory_slug t = Inr () \<Longrightarrow> slug_names r' t
       = (if slug \<noteq> t then slug_names r t
          else (case contents of Some _ \<Rightarrow> insert (id_name uu i) (slug_names r t)
                | None \<Rightarrow> slug_names r t - {id_name uu i}))"
proof -
  note live = commit_files_live [OF assms(1,3,5)]
  then show "store_live r" "store_live r'" by simp_all
  have fs: "head_files r' = (\<lambda>q. if q = memory_components uu slug i then contents
      else if prefix (memory_components uu slug i) q then None else head_files r q)"
    using single_edit [OF live [THEN conjunct2, THEN conjunct2]] unfolding memory_path_components [OF assms(2,4)] .
  show "head_files r' (memory_components uu t j)
       = (if t = slug \<and> j = i then contents else head_files r (memory_components uu t j))"
    if "validate_memory_slug t = Inr ()"
    using memory_components_inj [OF assms(2,4) that, of i j] unfolding fs by auto
  show "slug_names r' t = (if slug \<noteq> t then slug_names r t
          else (case contents of Some _ \<Rightarrow> insert (id_name uu i) (slug_names r t)
                | None \<Rightarrow> slug_names r t - {id_name uu i}))" if "validate_memory_slug t = Inr ()"
    unfolding slug_names_def by (rule names_in_slug_edit [OF that fs])
qed

lemma checked_write_parses:
  assumes "checked_write sd uu path rendered opts = Inr v"
  obtains mf where "parse_memory_file sd rendered = Inr mf"
  using assms by (auto simp: checked_write_def validate_write_content_lengths_def bind_res_eq_Inr)

lemma write_file_success:
  assumes "write_file_at_path g now sd uu r path rendered author opts = (Inr (hex, v), r', note)"
  obtains msg mf where "commit_files g now r msg [(path, Some rendered)] author = (Inr hex, r')"
    "parse_memory_file sd rendered = Inr mf"
  using assms by (auto simp: write_file_at_path_def split: sum.splits prod.splits elim!: checked_write_parses)

text \<open>
  Creating a memory adds its id to those of its slug, next to whatever is there already, and
  touches no other memory.
\<close>

lemma create_memory:
  assumes "gix_backend g view base" "uuid_contract uu" "store_ready r" "\<not> wo_override opts"
    and "write_memory_by_id g now sd uu r slug i rendered author opts = (Inr (hex, v), r', note)"
  shows "store_live r" "store_live r'" "validate_memory_slug slug = Inr ()"
    "\<exists>file. parse_memory_file sd rendered = Inr file"
    "head_files r (memory_components uu slug i) = None"
    "validate_memory_slug t = Inr () \<Longrightarrow> head_files r' (memory_components uu t j)
       = (if t = slug \<and> j = i then Some rendered else head_files r (memory_components uu t j))"
    "mset (slug_ids uu r' slug) = add_mset i (mset (slug_ids uu r slug))"
    "\<lbrakk> validate_memory_slug t = Inr (); t \<noteq> slug \<rbrakk> \<Longrightarrow> slug_ids uu r' t = slug_ids uu r t"
proof -
  from write_by_id_success [OF assms(5)] obtain exists where s: "validate_memory_slug slug = Inr ()"
    and e: "file_exists g r (memory_path uu slug i) = Inr exists" "exists \<Longrightarrow> wo_override opts" by metis
  from e assms(4) have e: "file_exists g r (memory_path uu slug i) = Inr False" by (cases exists) auto
  show "validate_memory_slug slug = Inr ()" by (rule s)
  from assms(5) s e obtain o' where "write_file_at_path g now sd uu r (memory_path uu slug i) rendered author
      (o' :: write_options) = (Inr (hex, v), r', note)"
    by (auto simp: write_memory_by_id_def split: if_splits)
  from write_file_success [OF this] obtain msg mf where
    c: "commit_files g now r msg [(memory_path uu slug i, Some rendered)] author = (Inr hex, r')"
    and mf: "parse_memory_file sd rendered = Inr mf" by blast
  from mf show "\<exists>file. parse_memory_file sd rendered = Inr file" by blast
  note ed = edit_memory [OF assms(1-3) s c]
  show live: "store_live r" "store_live r'" by (fact ed(1), fact ed(2))
  show free: "head_files r (memory_components uu slug i) = None"
    using e live_memory_read [OF live(1) assms(2) s, of g i]
    by (cases "head_files r (memory_components uu slug i)") (auto simp: file_exists_def)
  show "head_files r' (memory_components uu t j)
       = (if t = slug \<and> j = i then Some rendered else head_files r (memory_components uu t j))"
    if "validate_memory_slug t = Inr ()" by (rule ed(3) [OF that])
  show "mset (slug_ids uu r' slug) = add_mset i (mset (slug_ids uu r slug))"
    by (rule slug_ids_insert [OF assms(2) slug_names_finite [OF live(1) s]])
      (use ed(4) [OF s] free in \<open>simp_all add: id_name_mem\<close>)
  show "slug_ids uu r' t = slug_ids uu r t" if "validate_memory_slug t = Inr ()" "t \<noteq> slug"
    using ed(4) [OF that(1)] that(2) by (simp add: slug_ids_def)
qed

text \<open>Rewriting a memory in place changes its text and nothing else.\<close>

lemma rewrite_memory:
  assumes "gix_backend g view base" "uuid_contract uu" "store_ready r" "validate_memory_slug slug = Inr ()"
    and "read_file g r (memory_path uu slug i) Head = Inr old"
    and "write_file_at_path g now sd uu r (memory_path uu slug i) rendered author opts = (Inr (hex, v), r', note)"
  shows "store_live r" "store_live r'" "\<exists>file. parse_memory_file sd rendered = Inr file"
    "validate_memory_slug t = Inr () \<Longrightarrow> head_files r' (memory_components uu t j)
       = (if t = slug \<and> j = i then Some rendered else head_files r (memory_components uu t j))"
    "validate_memory_slug t = Inr () \<Longrightarrow> slug_ids uu r' t = slug_ids uu r t"
proof -
  from write_file_success [OF assms(6)] obtain msg mf where
    c: "commit_files g now r msg [(memory_path uu slug i, Some rendered)] author = (Inr hex, r')"
    and mf: "parse_memory_file sd rendered = Inr mf" by blast
  from mf show "\<exists>file. parse_memory_file sd rendered = Inr file" by blast
  note ed = edit_memory [OF assms(1-4) c]
  show live: "store_live r" "store_live r'" by (fact ed(1), fact ed(2))
  show "head_files r' (memory_components uu t j)
       = (if t = slug \<and> j = i then Some rendered else head_files r (memory_components uu t j))"
    if "validate_memory_slug t = Inr ()" by (rule ed(3) [OF that])
  have "id_name uu i \<in> slug_names r slug"
    using assms(5) live_memory_read [OF live(1) assms(2,4), of g i]
    by (cases "head_files r (memory_components uu slug i)") (auto simp: id_name_mem)
  then show "slug_ids uu r' t = slug_ids uu r t" if "validate_memory_slug t = Inr ()"
    using ed(4) [OF that] by (auto simp: slug_ids_def insert_absorb)
qed

text \<open>Deleting a memory removes its id from its slug.\<close>

lemma delete_memory:
  assumes "gix_backend g view base" "uuid_contract uu" "store_ready r" "validate_memory_slug slug = Inr ()"
    and "read_file g r (memory_path uu slug i) Head = Inr old"
    and "delete_file_at_path g now r (memory_path uu slug i) author message = (Inr hex, r')"
  shows "store_live r" "store_live r'"
    "validate_memory_slug t = Inr () \<Longrightarrow> head_files r' (memory_components uu t j)
       = (if t = slug \<and> j = i then None else head_files r (memory_components uu t j))"
    "mset (slug_ids uu r slug) = add_mset i (mset (slug_ids uu r' slug))"
    "\<lbrakk> validate_memory_slug t = Inr (); t \<noteq> slug \<rbrakk> \<Longrightarrow> slug_ids uu r' t = slug_ids uu r t"
proof -
  from assms(6) obtain msg where c: "commit_files g now r msg [(memory_path uu slug i, None)] author = (Inr hex, r')"
    by (auto simp: delete_file_at_path_def split: sum.splits)
  note ed = edit_memory [OF assms(1-4) c]
  show live: "store_live r" "store_live r'" by (fact ed(1), fact ed(2))
  show "head_files r' (memory_components uu t j)
       = (if t = slug \<and> j = i then None else head_files r (memory_components uu t j))"
    if "validate_memory_slug t = Inr ()" by (rule ed(3) [OF that])
  have "id_name uu i \<in> slug_names r slug"
    using assms(5) live_memory_read [OF live(1) assms(2,4), of g i]
    by (cases "head_files r (memory_components uu slug i)") (auto simp: id_name_mem)
  then show "mset (slug_ids uu r slug) = add_mset i (mset (slug_ids uu r' slug))"
    by (rule slug_ids_remove [OF assms(2) slug_names_finite [OF live(1) assms(4)]]) (use ed(4) [OF assms(4)] in simp)
  show "slug_ids uu r' t = slug_ids uu r t" if "validate_memory_slug t = Inr ()" "t \<noteq> slug"
    using ed(4) [OF that(1)] that(2) by (simp add: slug_ids_def)
qed

end
