(* ===== verification/Tracker.thy ===== *)
theory Tracker
  imports Slug_Files
begin

text \<open>
  What the feature, issue and milestone surfaces of the store share (\<open>mmcp-store\<close>,
  \<open>tracker.rs\<close>): the ticket counter of a group, reference composition, the status filter, the
  plan of a slug rename and the batched read behind the listings. It also holds the environment
  the surfaces run in and the composition of their steps: an action takes the repository and
  returns its result, the repository after it and the notes it sent to the content cache.
\<close>

section \<open>Environment and actions\<close>

record ('ed, 'pod) env =
  en_gix :: "'ed gix"
  en_uuids :: uuids
  en_serde :: "'pod serde"
  en_slugify :: "string \<Rightarrow> string"
  en_slug_env :: "string option"
  en_slug_config :: "nat option"
  en_now :: int

type_synonym ('e, 'a) act = "repo \<Rightarrow> ('e + 'a) \<times> repo \<times> cache_note list"

definition done_act :: "'a \<Rightarrow> ('e, 'a) act" where
  "done_act x = (\<lambda>r. (Inr x, r, []))"

definition lift_res :: "(repo \<Rightarrow> 'e + 'a) \<Rightarrow> ('e, 'a) act" where
  "lift_res f = (\<lambda>r. (f r, r, []))"

definition bind_act :: "('e, 'a) act \<Rightarrow> ('a \<Rightarrow> ('e, 'b) act) \<Rightarrow> ('e, 'b) act" where
  "bind_act m f = (\<lambda>r.
     case m r of
       (Inl e, r1, ns) \<Rightarrow> (Inl e, r1, ns)
     | (Inr x, r1, ns) \<Rightarrow> (let (res, r2, ns2) = f x r1 in (res, r2, ns @ ns2)))"

definition err_act :: "('d \<Rightarrow> 'e) \<Rightarrow> ('d, 'a) act \<Rightarrow> ('e, 'a) act" where
  "err_act h m = (\<lambda>r. let (res, r1, ns) = m r in (map_err h res, r1, ns))"

definition noted :: "(repo \<Rightarrow> ('e + 'a) \<times> repo \<times> cache_note option) \<Rightarrow> ('e, 'a) act" where
  "noted f = (\<lambda>r. let (res, r1, n) = f r in (res, r1, (case n of None \<Rightarrow> [] | Some n \<Rightarrow> [n])))"

definition unnoted :: "(repo \<Rightarrow> ('e + 'a) \<times> repo) \<Rightarrow> ('e, 'a) act" where
  "unnoted f = (\<lambda>r. let (res, r1) = f r in (res, r1, []))"

lemma done_act_run [simp]: "done_act x r = (Inr x, r, [])"
  by (simp add: done_act_def)

lemma lift_res_run [simp]: "lift_res f r = (f r, r, [])"
  by (simp add: lift_res_def)

lemma bind_act_Inr: "bind_act m f r = (Inr y, r2, ns) \<longleftrightarrow>
    (\<exists>x r1 ns1 ns2. m r = (Inr x, r1, ns1) \<and> f x r1 = (Inr y, r2, ns2) \<and> ns = ns1 @ ns2)"
  by (auto simp: bind_act_def split: prod.splits sum.splits)

lemma bind_lift [simp]: "bind_act (lift_res g) f r = (case g r of Inl e \<Rightarrow> (Inl e, r, []) | Inr x \<Rightarrow> f x r)"
  by (auto simp: bind_act_def split: sum.splits prod.splits)

lemma err_act_Inr [simp]: "err_act h m r = (Inr y, r1, ns) \<longleftrightarrow> m r = (Inr y, r1, ns)"
  by (auto simp: err_act_def split: prod.splits)

lemma noted_Inr: "noted f r = (Inr y, r1, ns) \<longleftrightarrow>
    (\<exists>n. f r = (Inr y, r1, n) \<and> ns = (case n of None \<Rightarrow> [] | Some n \<Rightarrow> [n]))"
  by (auto simp: noted_def split: prod.splits)

lemma unnoted_Inr: "unnoted f r = (Inr y, r1, ns) \<longleftrightarrow> f r = (Inr y, r1) \<and> ns = []"
  by (auto simp: unnoted_def split: prod.splits)

lemma bind_act_runs: "\<lbrakk> m r = (Inr x, r1, ns1); f x r1 = (Inr y, r2, ns2) \<rbrakk> \<Longrightarrow> bind_act m f r = (Inr y, r2, ns1 @ ns2)"
  by (simp add: bind_act_def)

lemma lift_res_runs: "f r = Inr x \<Longrightarrow> lift_res f r = (Inr x, r, [])"
  by (simp add: lift_res_def)

lemma noted_runs: "f r = (Inr y, r1, n) \<Longrightarrow> err_act h (noted f) r = (Inr y, r1, (case n of None \<Rightarrow> [] | Some n \<Rightarrow> [n]))"
  by (simp add: err_act_def noted_def)

lemma unnoted_runs: "f r = (Inr y, r1) \<Longrightarrow> err_act h (unnoted f) r = (Inr y, r1, [])"
  by (simp add: err_act_def unnoted_def)

lemmas act_Inr = bind_act_Inr noted_Inr unnoted_Inr

section \<open>Findings\<close>

text \<open>
  The \<open>Display\<close> text of \<open>std::str::Utf8Error\<close>: the length of the valid prefix, and how many
  bytes the first ill-formed piece has unless the input ends inside it.
\<close>

function utf8_error :: "string \<Rightarrow> nat \<Rightarrow> (nat \<times> nat option) option" where
  "utf8_error [] k = None"
| "utf8_error (a # s) k =
     (let (n, ok) = utf8_step a s
      in if ok then utf8_error (drop n (a # s)) (k + n)
         else Some (k, if n = length (a # s) \<and> cont_in 0xC2 0xF4 a then None else Some n))"
  by pat_completeness auto
termination
proof (relation "measure (\<lambda>(s, k). length s)")
  fix a s k x n ok
  assume "x = utf8_step a s" "(n, ok) = x"
  then have "n = fst (utf8_step a s)" by (metis fst_conv)
  with utf8_step_pos [of a s] show "((drop n (a # s), k + n), a # s, k) \<in> measure (\<lambda>(s, k). length s)"
    by simp
qed simp

definition utf8_error_display :: "string \<Rightarrow> string" where
  "utf8_error_display s =
     (case utf8_error s 0 of
        None \<Rightarrow> []
      | Some (k, None) \<Rightarrow> ''incomplete utf-8 byte sequence from index '' @ dec k
      | Some (k, Some n) \<Rightarrow>
          ''invalid utf-8 sequence of '' @ dec n @ '' bytes from index '' @ dec k)"

record finding =
  fi_group :: string
  fi_slug :: "string option"
  fi_severity :: string
  fi_code :: string
  fi_message :: string

definition parse_failed_finding :: "string \<Rightarrow> string \<Rightarrow> memory_parse_error \<Rightarrow> finding" where
  "parse_failed_finding g slug err =
     \<lparr> fi_group = g, fi_slug = Some slug, fi_severity = ''error'', fi_code = ''frontmatter_parse_failed'',
       fi_message = ''frontmatter parse failed: '' @ memory_parse_error_display err \<rparr>"

text \<open>\<open>err\<close> is the text of the \<open>Utf8Error\<close>.\<close>

definition not_utf8_finding :: "string \<Rightarrow> string \<Rightarrow> string \<Rightarrow> finding" where
  "not_utf8_finding g slug err =
     \<lparr> fi_group = g, fi_slug = Some slug, fi_severity = ''error'', fi_code = ''memory_not_utf8'',
       fi_message = ''memory file is not valid UTF-8: '' @ err \<rparr>"

section \<open>The ticket counter\<close>

definition max_opt :: "32 word \<Rightarrow> 32 word option \<Rightarrow> 32 word" where
  "max_opt m n = (case n of None \<Rightarrow> m | Some n \<Rightarrow> max m n)"

definition fold_ticket :: "'pod serde \<Rightarrow> git_error + string \<Rightarrow> 32 word \<Rightarrow> 32 word" where
  "fold_ticket sd outcome m =
     (case outcome of
        Inl _ \<Rightarrow> m
      | Inr bytes \<Rightarrow>
          if \<not> utf8_ok bytes then m
          else
            (case parse_memory_file sd bytes of
               Inl _ \<Rightarrow> m
             | Inr mf \<Rightarrow>
                 let m1 = max_opt m (Option.bind (fm_feature (mf_frontmatter mf)) fnumber)
                 in max_opt m1 (Option.bind (fm_issue (mf_frontmatter mf)) inumber)))"

definition max_ticket_number_over ::
  "'pod serde \<Rightarrow> string list \<Rightarrow> (string list \<Rightarrow> git_error + batch) \<Rightarrow> import_error + 32 word" where
  "max_ticket_number_over sd paths reads =
     map_ok (\<lambda>b. fold (\<lambda>(_, outcome). fold_ticket sd outcome) b 0) (map_err GitErr (reads paths))"

definition next_ticket_number :: "('ed, 'pod) env \<Rightarrow> repo \<Rightarrow> import_error + 32 word" where
  "next_ticket_number env r =
     bind_res (map_err GitErr (list_memory_slug_dirs (en_gix env) r Head)) (\<lambda>slug_dirs.
       let paths = concat (map (\<lambda>d. map (\<lambda>filename. ld_dir d @ ''/'' @ filename) (ld_filenames d)) slug_dirs)
       in bind_res (max_ticket_number_over (en_serde env) paths (\<lambda>ps. read_files (en_gix env) r ps Head)) (\<lambda>m.
            if m = - 1 then Inl TicketCounterOverflow else Inr (m + 1)))"

section \<open>References and filters\<close>

definition compose_refs :: "memory_ref list \<Rightarrow> uuid list option \<Rightarrow> memory_ref list option \<Rightarrow> memory_ref list" where
  "compose_refs current remove add =
     (let kept = (case remove of None \<Rightarrow> current | Some us \<Rightarrow> filter (\<lambda>x. rtarget x \<notin> set us) current)
      in case add of
           None \<Rightarrow> kept
         | Some news \<Rightarrow> fold (\<lambda>new out. filter (\<lambda>x. rtarget x \<noteq> rtarget new) out @ [new]) news kept)"

definition listing_keeps_status :: "('s \<Rightarrow> bool) \<Rightarrow> 's \<Rightarrow> 's option \<Rightarrow> bool \<Rightarrow> bool" where
  "listing_keeps_status is_default_hidden status status_filter show_all =
     (case status_filter of
        Some want \<Rightarrow> status = want
      | None \<Rightarrow> show_all \<or> \<not> is_default_hidden status)"

definition require_block :: "string \<Rightarrow> string \<Rightarrow> 'm option \<Rightarrow> (string \<Rightarrow> string \<Rightarrow> 'e) \<Rightarrow> 'e + 'm" where
  "require_block slug kind block not_found = ok_or (not_found slug kind) block"

text \<open>\<open>slice::sort_by\<close>, a stable sort by a comparison.\<close>

fun insert_by :: "('a \<Rightarrow> 'a \<Rightarrow> ordering) \<Rightarrow> 'a \<Rightarrow> 'a list \<Rightarrow> 'a list" where
  "insert_by c x [] = [x]"
| "insert_by c x (y # ys) = (if c x y = Greater then y # insert_by c x ys else x # y # ys)"

definition sort_by :: "('a \<Rightarrow> 'a \<Rightarrow> ordering) \<Rightarrow> 'a list \<Rightarrow> 'a list" where
  "sort_by c xs = foldr (insert_by c) xs []"

section \<open>Renaming a slug\<close>

type_synonym planned_rename = "(string \<times> string option) list"

fun plan_moves ::
  "('ed, 'pod) env \<Rightarrow> (import_error \<Rightarrow> 'e) \<Rightarrow> (memory_file \<Rightarrow> 'e option) \<Rightarrow> string \<Rightarrow> string \<Rightarrow> repo \<Rightarrow> string list
    \<Rightarrow> 'e + planned_rename" where
  "plan_moves env from reject old_slug new_slug r [] = Inr []"
| "plan_moves env from reject old_slug new_slug r (filename # filenames) =
     (case md_uuid (en_uuids env) filename of
        None \<Rightarrow> plan_moves env from reject old_slug new_slug r filenames
      | Some i \<Rightarrow>
          let old_path = memory_path (en_uuids env) old_slug i;
              new_path = memory_path (en_uuids env) new_slug i
          in bind_res (map_err (\<lambda>e. from (GitErr e)) (read_file (en_gix env) r old_path Head)) (\<lambda>bytes.
             bind_res (map_err (\<lambda>e. from (ParseErr e)) (parse_memory_file (en_serde env) (utf8_lossy bytes))) (\<lambda>file.
             case reject file of
               Some err \<Rightarrow> Inl err
             | None \<Rightarrow>
                 map_ok (\<lambda>ms. (new_path, Some bytes) # (old_path, None) # ms)
                   (plan_moves env from reject old_slug new_slug r filenames))))"

definition plan_slug_rename ::
  "('ed, 'pod) env \<Rightarrow> (import_error \<Rightarrow> 'e) \<Rightarrow> (memory_file \<Rightarrow> 'e option) \<Rightarrow> string \<Rightarrow> string \<Rightarrow> repo
    \<Rightarrow> 'e + planned_rename" where
  "plan_slug_rename env from reject old_slug new_slug r =
     bind_res (map_err (\<lambda>e. from (GitErr e)) (list_tree (en_gix env) r (MEMORIES_DIR @ ''/'' @ old_slug) Head)) (\<lambda>entries.
       if entries = [] then Inl (from (MemoryNotFound (Some old_slug) None))
       else
         bind_res (plan_moves env from reject old_slug new_slug r entries) (\<lambda>moves.
           if moves = [] then Inl (from (MemoryNotFound (Some old_slug) None)) else Inr moves))"

definition count_slug_entries :: "('ed, 'pod) env \<Rightarrow> repo \<Rightarrow> string \<Rightarrow> import_error + nat" where
  "count_slug_entries env r slug =
     map_ok (\<lambda>filenames. length (filter (\<lambda>f. md_uuid (en_uuids env) f \<noteq> None) filenames))
       (map_err GitErr (list_tree (en_gix env) r (MEMORIES_DIR @ ''/'' @ slug) Head))"

section \<open>The batched read of all slugs\<close>

type_synonym slug_candidate = "import_error + (uuid \<times> string)"

definition candidate_of :: "uuids \<Rightarrow> slug_dir \<Rightarrow> slug_candidate" where
  "candidate_of uu d =
     bind_res (map_err SlugErr (validate_memory_slug (ld_slug d))) (\<lambda>_.
       case List.map_filter (md_uuid uu) (ld_filenames d) of
         [] \<Rightarrow> Inl (MemoryNotFound (Some (ld_slug d)) None)
       | [i] \<Rightarrow> Inr (i, memory_path uu (ld_slug d) i)
       | us \<Rightarrow> Inl (MemoryAmbiguous (ld_slug d) us))"

definition candidate_path :: "slug_candidate \<Rightarrow> string option" where
  "candidate_path c = (case c of Inl _ \<Rightarrow> None | Inr (_, path) \<Rightarrow> Some path)"

definition slug_outcome :: "'pod serde \<Rightarrow> string \<Rightarrow> uuid \<Rightarrow> git_error + string \<Rightarrow> import_error + memory_file" where
  "slug_outcome sd slug i out =
     (case out of
        Inr bytes \<Rightarrow> map_err ParseErr (parse_memory_file sd (utf8_lossy bytes))
      | Inl (PathNotFound _) \<Rightarrow> Inl (MemoryNotFound (Some slug) (Some i))
      | Inl e \<Rightarrow> Inl (GitErr e))"

text \<open>The bytes of each candidate are taken out of the map; \<open>None\<close> is the \<open>unreachable!\<close> panic.\<close>

fun take_outcomes ::
  "'pod serde \<Rightarrow> (string \<Rightarrow> (git_error + string) option) \<Rightarrow> (string \<times> slug_candidate) list
    \<Rightarrow> (string \<times> (import_error + memory_file)) list option" where
  "take_outcomes sd by_path [] = Some []"
| "take_outcomes sd by_path ((slug, Inl err) # cs) =
     map_option ((#) (slug, Inl err)) (take_outcomes sd by_path cs)"
| "take_outcomes sd by_path ((slug, Inr (i, path)) # cs) =
     (case by_path path of
        None \<Rightarrow> None
      | Some out \<Rightarrow>
          map_option ((#) (slug, slug_outcome sd slug i out)) (take_outcomes sd (by_path(path := None)) cs))"

definition read_all_slug_files ::
  "('ed, 'pod) env \<Rightarrow> repo \<Rightarrow> rev \<Rightarrow> import_error + (string \<times> (import_error + memory_file)) list option" where
  "read_all_slug_files env r rv =
     bind_res (map_err GitErr (list_memory_slug_dirs (en_gix env) r rv)) (\<lambda>slug_dirs.
       let cs = map (\<lambda>d. (ld_slug d, candidate_of (en_uuids env) d)) slug_dirs;
           paths = List.map_filter (\<lambda>(_, c). candidate_path c) cs
       in map_ok (\<lambda>b. take_outcomes (en_serde env) (map_of (rev b)) cs)
            (map_err GitErr (read_files (en_gix env) r paths rv)))"

section \<open>The ticket counter\<close>

text \<open>The numbers a file carries, and the numbers of all listed files that can be read.\<close>

definition file_tickets :: "'pod serde \<Rightarrow> string \<Rightarrow> 32 word list" where
  "file_tickets sd bytes =
     (if \<not> utf8_ok bytes then []
      else
        (case parse_memory_file sd bytes of
           Inl _ \<Rightarrow> []
         | Inr mf \<Rightarrow>
             List.map_filter id
               [Option.bind (fm_feature (mf_frontmatter mf)) fnumber,
                Option.bind (fm_issue (mf_frontmatter mf)) inumber]))"

definition slug_dir_paths :: "slug_dir list \<Rightarrow> string list" where
  "slug_dir_paths dirs = concat (map (\<lambda>d. map (\<lambda>filename. ld_dir d @ ''/'' @ filename) (ld_filenames d)) dirs)"

definition listed_tickets :: "('ed, 'pod) env \<Rightarrow> repo \<Rightarrow> slug_dir list \<Rightarrow> 32 word list" where
  "listed_tickets env r dirs =
     concat (map (\<lambda>path. case read_file (en_gix env) r path Head of
         Inl _ \<Rightarrow> [] | Inr bytes \<Rightarrow> file_tickets (en_serde env) bytes) (slug_dir_paths dirs))"

lemma fold_ticket_max:
  "fold_ticket sd outcome m = fold max (case outcome of Inl _ \<Rightarrow> [] | Inr bytes \<Rightarrow> file_tickets sd bytes) m"
  by (auto simp: fold_ticket_def file_tickets_def max_opt_def List.map_filter_def Let_def max.commute
      split: sum.splits option.splits)

lemma fold_tickets_max:
  "fold (\<lambda>(_, outcome). fold_ticket sd outcome) b m
     = fold max (concat (map (\<lambda>(_, out). case out of Inl _ \<Rightarrow> [] | Inr bytes \<Rightarrow> file_tickets sd bytes) b)) m"
  by (induction b arbitrary: m) (auto simp: fold_ticket_max)

lemma fold_max_bounds: "(m \<le> fold max ks (m :: 'a :: linorder)) \<and> (\<forall>k\<in>set ks. k \<le> fold max ks m)
    \<and> (fold max ks m = m \<or> fold max ks m \<in> set ks)"
proof (induction ks arbitrary: m)
  case (Cons k ks)
  from Cons.IH [of "max k m"] show ?case by (auto simp: max_def split: if_splits)
qed simp

lemma next_ticket_number_eq:
  assumes "list_memory_slug_dirs (en_gix env) r Head = Inr dirs" "root_tree_id (en_gix env) r Head = Inr root"
  shows "next_ticket_number env r =
    (let m = fold max (listed_tickets env r dirs) 0 in if m = - 1 then Inl TicketCounterOverflow else Inr (m + 1))"
proof -
  have "concat (map (\<lambda>(_, out). case out of Inl _ \<Rightarrow> [] | Inr bytes \<Rightarrow> file_tickets (en_serde env) bytes)
      (map (\<lambda>p. (p, read_blob_at_tree r root p)) (slug_dir_paths dirs))) = listed_tickets env r dirs"
    by (simp add: listed_tickets_def read_file_def assms(2) comp_def)
  with assms show ?thesis
    by (simp add: next_ticket_number_def max_ticket_number_over_def read_files_map fold_tickets_max
        slug_dir_paths_def Let_def)
qed

text \<open>
  C32. The ticket counter is fresh: it is larger than every feature or issue number in a listed
  file that can be read, one more than the largest of them (or 1), and it fails as
  exhausted exactly when a file carries the largest number there is, rather than wrap around
  to a number already given out.
\<close>

theorem next_ticket_number_fresh:
  assumes "list_memory_slug_dirs (en_gix env) r Head = Inr dirs" and "root_tree_id (en_gix env) r Head = Inr root"
  shows "case next_ticket_number env r of
      Inl e \<Rightarrow> e = TicketCounterOverflow \<and> - 1 \<in> set (listed_tickets env r dirs)
    | Inr n \<Rightarrow> (\<forall>k\<in>set (listed_tickets env r dirs). k < n)
        \<and> (n = 1 \<or> n - 1 \<in> set (listed_tickets env r dirs))"
proof -
  let ?m = "fold max (listed_tickets env r dirs) 0"
  note m = fold_max_bounds [of 0 "listed_tickets env r dirs"]
  have "k < ?m + 1" if "k \<le> ?m" "?m \<noteq> - 1" for k
    using that by (simp add: word_less_nat_alt word_le_nat_alt unatSuc add_eq_0_iff add.commute [of _ 1])
  with m show ?thesis by (auto simp: next_ticket_number_eq [OF assms] Let_def)
qed

section \<open>Reference composition\<close>

lemma fold_replace_refs:
  "set (map rtarget (fold (\<lambda>new out. filter (\<lambda>x. rtarget x \<noteq> rtarget new) out @ [new]) news out))
     = set (map rtarget out) \<union> set (map rtarget news)"
  by (induction news arbitrary: out) auto

text \<open>
  What an update does to the references: for each target the last added entry counts, else
  the current one unless its target is removed; an update never leaves two entries for one
  added target, and keeps distinct targets distinct.
\<close>

lemma fold_replace_refs_mem:
  "x \<in> set (fold (\<lambda>new out. filter (\<lambda>x. rtarget x \<noteq> rtarget new) out @ [new]) news out) \<longleftrightarrow>
     (case map_of (rev (map (\<lambda>n. (rtarget n, n)) news)) (rtarget x) of
        Some y \<Rightarrow> x = y
      | None \<Rightarrow> x \<in> set out)"
proof (induction news arbitrary: out)
  case (Cons n news)
  show ?case
    by (simp add: Cons.IH map_add_def split: option.split) (auto split: option.splits)
qed simp

lemma fold_replace_refs_distinct:
  "distinct (map rtarget out) \<Longrightarrow>
   distinct (map rtarget (fold (\<lambda>new out. filter (\<lambda>x. rtarget x \<noteq> rtarget new) out @ [new]) news out))"
proof (induction news arbitrary: out)
  case (Cons n news)
  have "distinct (map rtarget (filter (\<lambda>x. rtarget x \<noteq> rtarget n) out @ [n]))"
    using Cons.prems by (auto simp: distinct_map_filter)
  from Cons.IH [OF this] show ?case by simp
qed simp

theorem compose_refs_spec:
  assumes "distinct (map rtarget current)"
  shows "distinct (map rtarget (compose_refs current remove add))
    \<and> (x \<in> set (compose_refs current remove add) \<longleftrightarrow>
        (case map_of (rev (map (\<lambda>n. (rtarget n, n)) (case add of None \<Rightarrow> [] | Some news \<Rightarrow> news))) (rtarget x) of
           Some y \<Rightarrow> x = y
         | None \<Rightarrow> x \<in> set current \<and> rtarget x \<notin> set (case remove of None \<Rightarrow> [] | Some us \<Rightarrow> us)))"
proof
  show "distinct (map rtarget (compose_refs current remove add))"
    using assms by (auto simp: compose_refs_def Let_def intro!: fold_replace_refs_distinct
        split: option.split) (auto simp: distinct_map_filter)
  show "x \<in> set (compose_refs current remove add) \<longleftrightarrow>
        (case map_of (rev (map (\<lambda>n. (rtarget n, n)) (case add of None \<Rightarrow> [] | Some news \<Rightarrow> news))) (rtarget x) of
           Some y \<Rightarrow> x = y
         | None \<Rightarrow> x \<in> set current \<and> rtarget x \<notin> set (case remove of None \<Rightarrow> [] | Some us \<Rightarrow> us))"
    by (cases add; cases remove) (simp_all add: compose_refs_def fold_replace_refs_mem split: option.split)
qed

section \<open>The batched read\<close>

text \<open>What the listing would read for one slug directory on its own.\<close>

definition read_slug_dir :: "('ed, 'pod) env \<Rightarrow> repo \<Rightarrow> rev \<Rightarrow> slug_dir \<Rightarrow> import_error + memory_file" where
  "read_slug_dir env r rv d =
     bind_res (candidate_of (en_uuids env) d) (\<lambda>(i, path).
       slug_outcome (en_serde env) (ld_slug d) i (read_file (en_gix env) r path rv))"

lemma add_entry_distinct: "distinct (map fst dirs) \<Longrightarrow> distinct (map fst (add_entry e dirs))"
proof -
  have touch: "distinct (map fst (dir_touch d dirs))" if "distinct (map fst dirs)" for d dirs
    using that by (auto simp: dir_touch_def)
  have "map fst (dir_push d n dirs) = map fst (dir_touch d dirs)" for d n dirs
    by (auto simp: dir_push_def)
  with touch show "distinct (map fst dirs) \<Longrightarrow> distinct (map fst (add_entry e dirs))"
    by (auto simp: add_entry_def Let_def simp del: distinct_map split: prod.split option.split)
qed

lemma fold_add_entry_distinct: "distinct (map fst dirs) \<Longrightarrow> distinct (map fst (fold add_entry es dirs))"
  by (induction es arbitrary: dirs) (auto intro: add_entry_distinct)

lemma listed_slugs_distinct:
  assumes "list_memory_slug_dirs g r rv = Inr dirs"
  shows "distinct (map ld_slug dirs)"
proof -
  from assms obtain ds where ds: "list_tree_recursive g r MEMORIES_DIR rv = Inr ds" "dirs = slug_dirs_of ds"
    by (cases "list_tree_recursive g r MEMORIES_DIR rv") (auto simp: list_memory_slug_dirs_def)
  have "distinct (map fst ds)"
    using ds(1) fold_add_entry_distinct [of "[([], [])]"]
    by (auto simp: list_tree_recursive_def bind_res_eq_Inr comp_def case_prod_beta split: option.splits)
  then have "distinct (map fst (filter p ds))" for p by (simp add: distinct_map_filter)
  then show ?thesis unfolding ds(2) slug_dirs_of_def distinct_map
    by (auto simp: comp_def case_prod_beta inj_on_def distinct_map)
qed

lemma candidate_path_Some: "candidate_path c = Some path \<longleftrightarrow> (\<exists>i. c = Inr (i, path))"
  by (auto simp: candidate_path_def split: sum.splits)

lemma candidate_path_mem:
  "(slug, Inr (i, path)) \<in> set cs \<Longrightarrow> path \<in> set (List.map_filter (\<lambda>(_, c). candidate_path c) cs)"
  by (induction cs) (auto simp: List.map_filter_simps candidate_path_def split: sum.split)

lemma take_outcomes_reads:
  assumes "distinct (List.map_filter (\<lambda>(_, c). candidate_path c) cs)"
    and "\<And>slug i path. (slug, Inr (i, path)) \<in> set cs \<Longrightarrow> by_path path = Some (f path)"
  shows "take_outcomes sd by_path cs
    = Some (map (\<lambda>(slug, c). (slug, bind_res c (\<lambda>(i, path). slug_outcome sd slug i (f path)))) cs)"
  using assms
proof (induction sd by_path cs rule: take_outcomes.induct)
  case (3 sd by_path slug i path cs)
  have p: "by_path path = Some (f path)" using "3.prems"(2) by auto
  have "path \<notin> set (List.map_filter (\<lambda>(_, c). candidate_path c) cs)"
    using "3.prems"(1) by (simp add: List.map_filter_simps candidate_path_def)
  then have "path' \<noteq> path" if "(slug', Inr (i', path')) \<in> set cs" for slug' i' path'
    using that by (force simp: List.map_filter_def candidate_path_def)
  then have "take_outcomes sd (by_path(path := None)) cs
      = Some (map (\<lambda>(slug, c). (slug, bind_res c (\<lambda>(i, path). slug_outcome sd slug i (f path)))) cs)"
    using "3.prems" by (intro "3.IH" [OF p]) (auto simp: List.map_filter_simps candidate_path_def)
  with p show ?case by simp
qed (auto simp: List.map_filter_simps candidate_path_def)

lemma slug_candidate_ok:
  assumes "candidate_of uu d = Inr (i, path)"
  shows "validate_memory_slug (ld_slug d) = Inr () \<and> path = memory_path uu (ld_slug d) i
    \<and> List.map_filter (md_uuid uu) (ld_filenames d) = [i]"
  using assms by (auto simp: candidate_of_def bind_res_eq_Inr split: list.splits)

lemma candidate_paths_distinct:
  assumes "uuid_contract uu" "distinct (map ld_slug dirs)"
  shows "distinct (List.map_filter (\<lambda>(_, c). candidate_path c) (map (\<lambda>d. (ld_slug d, candidate_of uu d)) dirs))"
  using assms(2)
proof (induction dirs)
  case (Cons d dirs)
  let ?ps = "List.map_filter (\<lambda>(_, c). candidate_path c) (map (\<lambda>d. (ld_slug d, candidate_of uu d)) dirs)"
  have IH: "distinct ?ps" using Cons by simp
  show ?case
  proof (cases "candidate_path (candidate_of uu d)")
    case None
    with IH show ?thesis by (simp add: List.map_filter_simps)
  next
    case (Some path)
    then obtain i where c: "candidate_of uu d = Inr (i, path)" by (auto simp: candidate_path_Some)
    have "path \<notin> set ?ps"
    proof
      assume "path \<in> set ?ps"
      then obtain d' j where d': "d' \<in> set dirs" "candidate_of uu d' = Inr (j, path)"
        by (auto simp: List.map_filter_def candidate_path_Some)
      from slug_candidate_ok [OF c] slug_candidate_ok [OF d'(2)] memory_path_slug [OF assms(1)]
      have "ld_slug d = ld_slug d'" by (metis option.inject)
      with Cons.prems d'(1) show False by auto
    qed
    with Some IH show ?thesis by (simp add: List.map_filter_simps)
  qed
qed (simp add: List.map_filter_simps)

lemma map_of_rev_distinct: "\<lbrakk> distinct (map fst xs); (p, v) \<in> set xs \<rbrakk> \<Longrightarrow> map_of (rev xs) p = Some v"
  by (rule map_of_is_SomeI) (simp_all add: rev_map [symmetric])

lemma read_all_slugs:
  assumes "uuid_contract (en_uuids env)"
  shows "read_all_slug_files env r rv =
    bind_res (map_err GitErr (list_memory_slug_dirs (en_gix env) r rv)) (\<lambda>dirs.
    bind_res (map_err GitErr (root_tree_id (en_gix env) r rv)) (\<lambda>_.
      Inr (Some (map (\<lambda>d. (ld_slug d, read_slug_dir env r rv d)) dirs))))"
proof (cases "list_memory_slug_dirs (en_gix env) r rv")
  case (Inr dirs)
  let ?cs = "map (\<lambda>d. (ld_slug d, candidate_of (en_uuids env) d)) dirs"
  let ?paths = "List.map_filter (\<lambda>(_, c). candidate_path c) ?cs"
  have d: "distinct ?paths" by (rule candidate_paths_distinct [OF assms listed_slugs_distinct [OF Inr]])
  show ?thesis
  proof (cases "root_tree_id (en_gix env) r rv")
    case root: (Inr root)
    let ?read = "\<lambda>p. read_file (en_gix env) r p rv"
    have "map_of (rev (map (\<lambda>p. (p, read_blob_at_tree r root p)) ?paths)) path = Some (?read path)"
      if "(slug, Inr (i, path)) \<in> set ?cs" for slug i path
    proof -
      from that have "path \<in> set ?paths" by (rule candidate_path_mem)
      then have "(path, read_blob_at_tree r root path) \<in> set (map (\<lambda>p. (p, read_blob_at_tree r root p)) ?paths)"
        by auto
      moreover have "distinct (map fst (map (\<lambda>p. (p, read_blob_at_tree r root p)) ?paths))"
        using d by (simp add: comp_def)
      ultimately show ?thesis by (simp add: map_of_rev_distinct root read_file_def del: map_map)
    qed
    from take_outcomes_reads [OF d this] show ?thesis
      by (simp add: read_all_slug_files_def Inr root read_files_map read_slug_dir_def comp_def Let_def)
  qed (simp add: read_all_slug_files_def Inr read_files_map Let_def)
qed (simp add: read_all_slug_files_def)

lemma read_all_slugs_listed:
  assumes "uuid_contract (en_uuids env)" "list_memory_slug_dirs (en_gix env) r rv = Inr dirs"
    "root_tree_id (en_gix env) r rv = Inr root"
  shows "read_all_slug_files env r rv = Inr (Some (map (\<lambda>d. (ld_slug d, read_slug_dir env r rv d)) dirs))"
  by (simp add: read_all_slugs [OF assms(1)] assms(2,3))


section \<open>Witnesses\<close>

definition ex_env :: "'pod serde \<Rightarrow> (ref_editor, 'pod) env" where
  "ex_env sd = \<lparr> en_gix = ref_gix, en_uuids = unary_uuids, en_serde = sd, en_slugify = (\<lambda>s. s),
     en_slug_env = None, en_slug_config = None, en_now = 0 \<rparr>"

theorem compose_refs_spec_witness:
  "distinct (map rtarget (compose_refs [memory_ref_new 1 ''a'', memory_ref_new 2 ''b''] (Some [2]) (Some [memory_ref_new 1 ''c''])))
   \<and> memory_ref_new 1 ''c'' \<in> set (compose_refs [memory_ref_new 1 ''a'', memory_ref_new 2 ''b''] (Some [2]) (Some [memory_ref_new 1 ''c'']))"
  using compose_refs_spec [of "[memory_ref_new 1 ''a'', memory_ref_new 2 ''b'']" "Some [2]"
      "Some [memory_ref_new 1 ''c'']" "memory_ref_new 1 ''c''"]
  by (simp add: memory_ref_new_def)

definition numbered_frontmatter :: frontmatter where
  "numbered_frontmatter = with_feature ex_frontmatter
     \<lparr> fstatus = FRequested, fnumber = Some 4, fdepends_on = [], fblocks = [], fsuperseded_by = None, fmilestone = None \<rparr>"

theorem next_ticket_number_fresh_witness:
  "\<exists>n. next_ticket_number (ex_env (const_serde numbered_frontmatter)) store_repo = Inr n \<and> 4 < n"
proof -
  let ?env = "ex_env (const_serde numbered_frontmatter)"
  let ?dirs = "[\<lparr> ld_slug = ''a'', ld_dir = ''memories/a'', ld_filenames = [''u.md'', ''v.md'', ''w.md''] \<rparr>]"
  have g: "en_gix ?env = ref_gix" by (simp add: ex_env_def)
  have l: "list_memory_slug_dirs ref_gix store_repo Head = Inr ?dirs" "root_tree_id ref_gix store_repo Head = Inr ''5''"
    by code_simp+
  have t: "listed_tickets ?env store_repo ?dirs = [4, 4]" by code_simp
  from next_ticket_number_fresh [of ?env store_repo ?dirs "''5''"] show ?thesis
    unfolding g by (auto simp: l t split: sum.splits)
qed


end
