(* ===== verification/Tracker_Surface.thy ===== *)
theory Tracker_Surface
  imports Tracker
begin

text \<open>
  The interface the feature, issue and milestone surfaces share, as two locales. \<open>tracker_read\<close>
  is the read by slug: what a commit to a memory does to it is proved once for all surfaces.
  \<open>tracker_listing\<close> is the loop of the listings. The surfaces interpret both.
\<close>

section \<open>What a rendered tracker memory reads back as\<close>

text \<open>
  The serialisation library writes this frontmatter as text without a fence line and reads it
  back from there.
\<close>

definition reads_back :: "'pod serde \<Rightarrow> frontmatter \<Rightarrow> bool" where
  "reads_back sd fm \<longleftrightarrow> fence_contract sd \<and>
     (case sd_serialize sd TOML fm of
        Inl _ \<Rightarrow> True
      | Inr front \<Rightarrow> utf8_ok front \<and> plain_front plus_fence front
          \<and> bind_res (sd_engine sd TOML (trim front)) (sd_deserialize sd) = Inr fm)"

lemma rendered_reads_back:
  assumes "memory_file_to_string sd f = Inr s" "mf_format f = TomlPlus" "reads_back sd (mf_frontmatter f)" "utf8_ok (mf_body f)"
  shows "utf8_ok s \<and> (\<exists>h. parse_memory_file sd s = Inr h \<and> mf_frontmatter h = mf_frontmatter f)"
proof -
  from assms(1,2) have r: "to_toml_string sd f = Inr s" by (simp add: memory_file_to_string_def to_toml_string_def)
  then obtain front where front: "sd_serialize sd TOML (mf_frontmatter f) = Inr front"
    "s = plus_fence @ [newline] @ front @ (if ends_with front [newline] then [] else [newline]) @ plus_fence @ [newline] @ mf_body f"
    by (auto simp: to_toml_string_def render_def bind_res_eq_Inr)
  with assms(3) have ok: "utf8_ok front" "plain_front plus_fence front"
    "bind_res (sd_engine sd TOML (trim front)) (sd_deserialize sd) = Inr (mf_frontmatter f)" "fence_contract sd"
    by (simp_all add: reads_back_def)
  have "utf8_ok s" unfolding front(2) using ok(1) assms(4)
    by (intro utf8_ok_append) (simp_all add: plus_fence_def byte_def)
  with toml_reads_back [OF front(1) ok(2-4)] r show ?thesis by auto
qed

section \<open>Renaming a slug\<close>

text \<open>A batch of edits of memory files, against the file map.\<close>

definition memory_edit :: "uuids \<Rightarrow> string \<times> uuid \<times> string option \<Rightarrow> string \<times> string option" where
  "memory_edit uu e = (case e of (s, i, c) \<Rightarrow> (memory_path uu s i, c))"

lemma memory_edit_simp [simp]: "memory_edit uu (s, i, c) = (memory_path uu s i, c)"
  by (simp add: memory_edit_def)

definition after_edits :: "(string \<times> uuid \<times> string option) list \<Rightarrow> string \<times> uuid \<Rightarrow> string option option" where
  "after_edits es = map_of (rev (map (\<lambda>(s, i, c). ((s, i), c)) es))"

lemma after_edits_snoc:
  "after_edits (es @ [(s, i, c)]) k = (if k = (s, i) then Some c else after_edits es k)"
  by (simp add: after_edits_def)

lemma apply_edits_append: "apply_edits (us @ vs) fs = Option.bind (apply_edits us fs) (apply_edits vs)"
  by (induction us arbitrary: fs) (auto split: Option.bind_splits)

lemma memory_edits_files:
  assumes "uuid_contract uu" "list_all (\<lambda>e. validate_memory_slug (fst e) = Inr ()) es"
    and "apply_edits (map (memory_edit uu) es) fs0 = Some fs" "validate_memory_slug t = Inr ()"
  shows "(\<forall>j. fs (memory_components uu t j) =
      (case after_edits es (t, j) of Some c \<Rightarrow> c | None \<Rightarrow> fs0 (memory_components uu t j)))
    \<and> (\<forall>n. (\<forall>j. after_edits es (t, j) \<noteq> None \<longrightarrow> n \<noteq> id_name uu j) \<longrightarrow>
        (n \<in> names_in fs (slug_components t) \<longleftrightarrow> n \<in> names_in fs0 (slug_components t)))"
  using assms(2,3)
proof (induction es arbitrary: fs rule: rev_induct)
  case Nil
  then show ?case by (simp add: after_edits_def)
next
  case (snoc e es)
  obtain s i c where e: "e = (s, i, c)" by (cases e) auto
  from snoc.prems e obtain fs1 where fs1: "apply_edits (map (memory_edit uu) es) fs0 = Some fs1"
    "apply_edits [(memory_path uu s i, c)] fs1 = Some fs"
    by (auto simp: apply_edits_append bind_eq_Some_conv)
  have s: "validate_memory_slug s = Inr ()" and es: "list_all (\<lambda>e. validate_memory_slug (fst e) = Inr ()) es"
    using snoc.prems(1) e by auto
  have fs: "fs = (\<lambda>q. if q = memory_components uu s i then c
      else if prefix (memory_components uu s i) q then None else fs1 q)"
    using single_edit [OF fs1(2)] unfolding memory_path_components [OF assms(1) s] .
  note IH = snoc.IH [OF es fs1(1)]
  have "fs (memory_components uu t j) = (if (t, j) = (s, i) then c else fs1 (memory_components uu t j))" for j
    using memory_components_inj [OF assms(1) s assms(4), of i j] unfolding fs by auto
  with IH have files: "fs (memory_components uu t j) =
      (case after_edits (es @ [e]) (t, j) of Some c \<Rightarrow> c | None \<Rightarrow> fs0 (memory_components uu t j))" for j
    by (auto simp: e after_edits_snoc)
  note names = names_in_slug_edit [OF assms(4) fs]
  have "n \<in> names_in fs (slug_components t) \<longleftrightarrow> n \<in> names_in fs0 (slug_components t)"
    if n: "\<forall>j. after_edits (es @ [e]) (t, j) \<noteq> None \<longrightarrow> n \<noteq> id_name uu j" for n
  proof -
    have "s = t \<Longrightarrow> n \<noteq> id_name uu i" using n by (auto simp: e after_edits_snoc)
    then have "n \<in> names_in fs (slug_components t) \<longleftrightarrow> n \<in> names_in fs1 (slug_components t)"
      unfolding names by (auto split: option.split)
    moreover have "\<forall>j. after_edits es (t, j) \<noteq> None \<longrightarrow> n \<noteq> id_name uu j"
      using n by (auto simp: e after_edits_snoc split: if_splits)
    ultimately show ?thesis using IH by blast
  qed
  with files show ?case by blast
qed

definition rename_edits :: "string \<Rightarrow> string \<Rightarrow> (uuid \<times> string) list \<Rightarrow> (string \<times> uuid \<times> string option) list" where
  "rename_edits old_slug new_slug ps = concat (map (\<lambda>(i, b). [(new_slug, i, Some b), (old_slug, i, None)]) ps)"

lemma plan_moves_Inr:
  assumes "plan_moves env from reject old_slug new_slug r names = Inr moves"
  shows "\<exists>ps. moves = map (memory_edit (en_uuids env)) (rename_edits old_slug new_slug ps)
    \<and> map fst ps = List.map_filter (md_uuid (en_uuids env)) names
    \<and> (\<forall>(i, b)\<in>set ps. read_file (en_gix env) r (memory_path (en_uuids env) old_slug i) Head = Inr b
        \<and> (\<exists>f. parse_memory_file (en_serde env) (utf8_lossy b) = Inr f \<and> reject f = None))"
  using assms
proof (induction names arbitrary: moves)
  case (Cons n names)
  show ?case
  proof (cases "md_uuid (en_uuids env) n")
    case None
    with Cons show ?thesis by (simp add: List.map_filter_simps)
  next
    case (Some i)
    with Cons.prems obtain b f ms where
      b: "read_file (en_gix env) r (memory_path (en_uuids env) old_slug i) Head = Inr b"
      "parse_memory_file (en_serde env) (utf8_lossy b) = Inr f" "reject f = None"
      and ms: "plan_moves env from reject old_slug new_slug r names = Inr ms"
      "moves = (memory_path (en_uuids env) new_slug i, Some b) # (memory_path (en_uuids env) old_slug i, None) # ms"
      by (auto simp: bind_res_eq_Inr map_ok_def Let_def split: option.splits)
    from Cons.IH [OF ms(1)] obtain ps where
      "ms = map (memory_edit (en_uuids env)) (rename_edits old_slug new_slug ps)"
      "map fst ps = List.map_filter (md_uuid (en_uuids env)) names"
      "\<forall>(i, b)\<in>set ps. read_file (en_gix env) r (memory_path (en_uuids env) old_slug i) Head = Inr b
        \<and> (\<exists>f. parse_memory_file (en_serde env) (utf8_lossy b) = Inr f \<and> reject f = None)" by blast
    with b ms(2) Some show ?thesis
      by (intro exI [of _ "(i, b) # ps"]) (auto simp: List.map_filter_simps rename_edits_def memory_edit_def)
  qed
qed (simp add: List.map_filter_simps rename_edits_def)

lemma after_rename_edits:
  assumes "old_slug \<noteq> new_slug" "\<And>i b. (i, b) \<in> set ps \<Longrightarrow> f i = b"
  shows "after_edits (rename_edits old_slug new_slug ps) (t, j) =
    (if j \<in> fst ` set ps then
       (if t = new_slug then Some (Some (f j)) else if t = old_slug then Some None else None)
     else None)"
  using assms(2)
proof (induction ps rule: rev_induct)
  case Nil
  then show ?case by (simp add: rename_edits_def after_edits_def)
next
  case (snoc p ps)
  obtain i b where p: "p = (i, b)" by fastforce
  have "rename_edits old_slug new_slug (ps @ [p]) = (rename_edits old_slug new_slug ps @ [(new_slug, i, Some b)]) @ [(old_slug, i, None)]"
    by (simp add: rename_edits_def p)
  then have "after_edits (rename_edits old_slug new_slug (ps @ [p])) (t, j) =
      (if (t, j) = (old_slug, i) then Some None else if (t, j) = (new_slug, i) then Some (Some b)
       else after_edits (rename_edits old_slug new_slug ps) (t, j))"
    by (simp only: after_edits_snoc)
  moreover have "after_edits (rename_edits old_slug new_slug ps) (t, j) =
    (if j \<in> fst ` set ps then
       (if t = new_slug then Some (Some (f j)) else if t = old_slug then Some None else None)
     else None)" by (rule snoc.IH) (use snoc.prems in auto)
  moreover have "f i = b" using snoc.prems p by auto
  ultimately show ?case using assms(1)
    by (cases "j = i"; cases "t = new_slug"; cases "t = old_slug"; simp add: p)
qed

lemma set_slug_ids:
  assumes "finite (slug_names r slug)"
  shows "set (slug_ids uu r slug) = {i. \<exists>n\<in>slug_names r slug. md_uuid uu (utf8_lossy n) = Some i}"
proof -
  have "set (slug_ids uu r slug) = set_mset (mset (slug_ids uu r slug))" by simp
  also have "\<dots> = {i. \<exists>n\<in>slug_names r slug. md_uuid uu (utf8_lossy n) = Some i}"
    unfolding mset_slug_ids using assms by (auto simp: image_iff) force
  finally show ?thesis .
qed

lemma rename_memories:
  assumes "gix_backend (en_gix env) view base" "uuid_contract (en_uuids env)" "store_ready r"
    and "validate_memory_slug old_slug = Inr ()" "validate_memory_slug new_slug = Inr ()" "old_slug \<noteq> new_slug"
    and "plan_slug_rename env from reject old_slug new_slug r = Inr planned"
    and "commit_files (en_gix env) (en_now env) r msg planned author = (Inr hex, r')"
  shows "store_live r" "store_live r'" "slug_ids (en_uuids env) r old_slug \<noteq> []"
    "i \<in> set (slug_ids (en_uuids env) r old_slug) \<Longrightarrow> \<exists>b f.
       head_files r (memory_components (en_uuids env) old_slug i) = Some b
       \<and> parse_memory_file (en_serde env) (utf8_lossy b) = Inr f \<and> reject f = None
       \<and> head_files r' (memory_components (en_uuids env) new_slug i) = Some b
       \<and> head_files r' (memory_components (en_uuids env) old_slug i) = None
       \<and> i \<in> set (slug_ids (en_uuids env) r' new_slug)"
    "\<lbrakk> validate_memory_slug t = Inr (); t \<noteq> old_slug; t \<noteq> new_slug \<rbrakk> \<Longrightarrow>
       slug_ids (en_uuids env) r' t = slug_ids (en_uuids env) r t
       \<and> (\<forall>j. head_files r' (memory_components (en_uuids env) t j) = head_files r (memory_components (en_uuids env) t j))"
    "slug_ids (en_uuids env) r old_slug = [i] \<Longrightarrow> slug_ids (en_uuids env) r' old_slug = []"
proof -
  let ?uu = "en_uuids env"
  note live = commit_files_live [OF assms(1,3,8)]
  then show l: "store_live r" "store_live r'" by simp_all
  note listing = live_slug_listing [OF l(1) assms(4), of "en_gix env"]
  from assms(7) obtain moves where m: "plan_moves env from reject old_slug new_slug r
      (sorted_list_of_multiset (image_mset utf8_lossy (mset_set (slug_names r old_slug)))) = Inr moves"
    "planned = moves" "moves \<noteq> []"
    by (auto simp: plan_slug_rename_def listing bind_res_eq_Inr simp del: append.simps split: if_splits)
  from plan_moves_Inr [OF m(1)] obtain ps where ps: "planned = map (memory_edit ?uu) (rename_edits old_slug new_slug ps)"
    "map fst ps = slug_ids ?uu r old_slug" and rd: "\<forall>(i, b)\<in>set ps. read_file (en_gix env) r (memory_path ?uu old_slug i) Head = Inr b
        \<and> (\<exists>f. parse_memory_file (en_serde env) (utf8_lossy b) = Inr f \<and> reject f = None)"
    unfolding m(2) slug_ids_def by blast
  from m(2,3) ps have ne: "ps \<noteq> []" by (auto simp: rename_edits_def)
  with ps(2) show "slug_ids ?uu r old_slug \<noteq> []" by auto
  have old: "head_files r (memory_components ?uu old_slug i) = Some b" if "(i, b) \<in> set ps" for i b
    using rd that live_memory_read [OF l(1) assms(2,4), of "en_gix env" i]
    by (cases "head_files r (memory_components ?uu old_slug i)") auto
  have valid: "list_all (\<lambda>e. validate_memory_slug (fst e) = Inr ()) (rename_edits old_slug new_slug ps)"
    using assms(4,5) by (auto simp: rename_edits_def list_all_iff)
  note after = after_rename_edits [OF assms(6), of ps "\<lambda>i. the (head_files r (memory_components ?uu old_slug i))"]
  note edits = memory_edits_files [OF assms(2) valid live [THEN conjunct2, THEN conjunct2, unfolded ps(1)]]
  have ids: "set (slug_ids ?uu r old_slug) = fst ` set ps" using ps(2) by (metis list.set_map)
  have files: "head_files r' (memory_components ?uu t j) =
      (if j \<in> set (slug_ids ?uu r old_slug) \<and> t = new_slug then Some (the (head_files r (memory_components ?uu old_slug j)))
       else if j \<in> set (slug_ids ?uu r old_slug) \<and> t = old_slug then None
       else head_files r (memory_components ?uu t j))" if "validate_memory_slug t = Inr ()" for t j
    using edits [OF that] by (simp add: after old ids)
  have keep: "n \<in> slug_names r' t \<longleftrightarrow> n \<in> slug_names r t"
    if "validate_memory_slug t = Inr ()" "t = old_slug \<or> t = new_slug \<Longrightarrow> n \<notin> id_name ?uu ` set (slug_ids ?uu r old_slug)" for t n
  proof -
    have "after_edits (rename_edits old_slug new_slug ps) (t, j) \<noteq> None
        \<longleftrightarrow> j \<in> set (slug_ids ?uu r old_slug) \<and> (t = old_slug \<or> t = new_slug)" for j
      using ids by (simp add: after old)
    with edits [OF that(1)] that(2) show ?thesis unfolding slug_names_def by blast
  qed
  show "\<exists>b f. head_files r (memory_components ?uu old_slug i) = Some b
       \<and> parse_memory_file (en_serde env) (utf8_lossy b) = Inr f \<and> reject f = None
       \<and> head_files r' (memory_components ?uu new_slug i) = Some b
       \<and> head_files r' (memory_components ?uu old_slug i) = None \<and> i \<in> set (slug_ids ?uu r' new_slug)"
    if i: "i \<in> set (slug_ids ?uu r old_slug)"
  proof -
    from i ids obtain b where b: "(i, b) \<in> set ps" by auto
    with rd obtain f where f: "parse_memory_file (en_serde env) (utf8_lossy b) = Inr f" "reject f = None" by blast
    have new: "head_files r' (memory_components ?uu new_slug i) = Some b" using files [OF assms(5)] i old [OF b] by simp
    then have "id_name ?uu i \<in> slug_names r' new_slug" by (simp add: id_name_mem)
    moreover have "md_uuid ?uu (utf8_lossy (id_name ?uu i)) = Some i" by (simp add: id_name_facts [OF assms(2)])
    ultimately have "i \<in> set (slug_ids ?uu r' new_slug)"
      unfolding set_slug_ids [OF slug_names_finite [OF l(2) assms(5)]] by blast
    with new old [OF b] f files [OF assms(4)] i assms(6) show ?thesis by auto
  qed
  show "slug_ids ?uu r' t = slug_ids ?uu r t
       \<and> (\<forall>j. head_files r' (memory_components ?uu t j) = head_files r (memory_components ?uu t j))"
    if t: "validate_memory_slug t = Inr ()" "t \<noteq> old_slug" "t \<noteq> new_slug"
  proof
    have "slug_names r' t = slug_names r t"
      using keep [OF t(1)] t(2,3) by blast
    then show "slug_ids ?uu r' t = slug_ids ?uu r t" by (simp add: slug_ids_def)
  qed (use files [OF t(1)] t in simp)
  show "slug_ids ?uu r' old_slug = []" if i: "slug_ids ?uu r old_slug = [i]"
  proof -
    have keep: "n \<in> slug_names r' old_slug \<longleftrightarrow> n \<in> slug_names r old_slug" if "n \<noteq> id_name ?uu i" for n
      by (rule keep [OF assms(4)]) (use that i in simp)
    have "head_files r' (memory_components ?uu old_slug i) = None" using files [OF assms(4)] i assms(6) by simp
    then have gone: "id_name ?uu i \<notin> slug_names r' old_slug" by (simp add: id_name_mem)
    have "n \<in> slug_names r' old_slug \<longleftrightarrow> n \<in> slug_names r old_slug - {id_name ?uu i}" for n
      by (cases "n = id_name ?uu i") (simp_all add: gone keep)
    then have names: "slug_names r' old_slug = slug_names r old_slug - {id_name ?uu i}" by (rule set_eqI)
    have "i \<in> set (slug_ids ?uu r old_slug)" by (simp add: i)
    then have "i \<in> fst ` set ps" by (simp only: ids)
    then obtain b where "(i, b) \<in> set ps" by auto
    from old [OF this] have "id_name ?uu i \<in> slug_names r old_slug" by (simp add: id_name_mem)
    from slug_ids_remove [OF assms(2) slug_names_finite [OF l(1) assms(4)] this names] i
    show ?thesis by simp
  qed
qed

section \<open>Reading by slug\<close>

locale tracker_read =
  fixes reads :: "('ed, 'pod) env \<Rightarrow> repo \<Rightarrow> string \<Rightarrow> 'e + 'r"
    and of_file :: "string \<Rightarrow> memory_file \<Rightarrow> 'e + 'r"
    and mem_err :: "import_error \<Rightarrow> 'e"
  assumes reads_law: "reads env r slug =
     bind_res (map_err (\<lambda>e. mem_err (SlugErr e)) (validate_memory_slug slug)) (\<lambda>_.
     bind_res (map_err mem_err (resolve_memory (en_gix env) (en_uuids env) (en_serde env) r (Some slug) None)) (\<lambda>resolved.
     bind_res (map_err (\<lambda>e. case e of
           PathNotFound _ \<Rightarrow> mem_err (MemoryNotFound (Some slug) (Some (rm_id resolved)))
         | other \<Rightarrow> mem_err (GitErr other))
         (read_file (en_gix env) r (rm_path resolved) Head)) (\<lambda>bytes.
     bind_res (map_err (\<lambda>e. mem_err (ParseErr e)) (parse_memory_file (en_serde env) (utf8_lossy bytes))) (of_file slug))))"
begin

definition read_spec :: "('ed, 'pod) env \<Rightarrow> (string list \<Rightarrow> string option) \<Rightarrow> uuid list \<Rightarrow> string \<Rightarrow> 'e + 'r" where
  "read_spec env fs ids slug =
     (case ids of
        [] \<Rightarrow> Inl (mem_err (MemoryNotFound (Some slug) None))
      | [i] \<Rightarrow>
          (case fs (memory_components (en_uuids env) slug i) of
             None \<Rightarrow> Inl (mem_err (MemoryNotFound (Some slug) (Some i)))
           | Some bytes \<Rightarrow>
               bind_res (map_err (\<lambda>e. mem_err (ParseErr e)) (parse_memory_file (en_serde env) (utf8_lossy bytes))) (of_file slug))
      | us \<Rightarrow> Inl (mem_err (MemoryAmbiguous slug us)))"

text \<open>A read depends only on the ids under the slug and the text of the memory.\<close>

lemma reads_live:
  assumes "store_live r" "uuid_contract (en_uuids env)" "validate_memory_slug slug = Inr ()"
  shows "reads env r slug = read_spec env (head_files r) (slug_ids (en_uuids env) r slug) slug"
proof -
  note ids = resolve_by_slug_ids [OF assms(1,3), of "en_gix env" "en_uuids env"]
  consider "slug_ids (en_uuids env) r slug = []" | i where "slug_ids (en_uuids env) r slug = [i]"
    | i j us where "slug_ids (en_uuids env) r slug = i # j # us"
    by (metis list.exhaust)
  then show ?thesis
  proof cases
    case (2 i)
    then show ?thesis
      using live_memory_read [OF assms, of "en_gix env" i]
      by (cases "head_files r (memory_components (en_uuids env) slug i)")
        (simp_all add: reads_law read_spec_def resolve_memory_def ids assms(3))
  qed (simp_all add: reads_law read_spec_def resolve_memory_def ids assms(3))
qed

lemma reads_Inr:
  assumes "store_live r" "uuid_contract (en_uuids env)" "reads env r slug = Inr rc"
  obtains i bytes mf where "validate_memory_slug slug = Inr ()" "slug_ids (en_uuids env) r slug = [i]"
    "head_files r (memory_components (en_uuids env) slug i) = Some bytes"
    "read_file (en_gix env) r (memory_path (en_uuids env) slug i) Head = Inr bytes"
    "resolve_by_slug (en_gix env) (en_uuids env) r slug = Inr \<lparr> rm_slug = slug, rm_id = i,
       rm_path = memory_path (en_uuids env) slug i, rm_mode = BySlugOnly \<rparr>"
    "parse_memory_file (en_serde env) (utf8_lossy bytes) = Inr mf" "of_file slug mf = Inr rc"
proof -
  have v: "validate_memory_slug slug = Inr ()" using assms(3) by (auto simp: reads_law bind_res_eq_Inr)
  from assms(3) obtain i bytes mf where i: "slug_ids (en_uuids env) r slug = [i]"
    "head_files r (memory_components (en_uuids env) slug i) = Some bytes"
    "parse_memory_file (en_serde env) (utf8_lossy bytes) = Inr mf" "of_file slug mf = Inr rc"
    unfolding reads_live [OF assms(1,2) v]
    by (auto simp: read_spec_def bind_res_eq_Inr split: list.splits option.splits)
  show thesis
    by (rule that [OF v i(1,2) _ _ i(3,4)])
      (simp_all add: live_memory_read [OF assms(1,2) v] i resolve_by_slug_ids [OF assms(1) v])
qed

lemma reads_frame:
  assumes "store_live r" "store_live r'" "uuid_contract (en_uuids env)" "validate_memory_slug t = Inr ()"
    and "slug_ids (en_uuids env) r' t = slug_ids (en_uuids env) r t"
    and "\<And>j. head_files r' (memory_components (en_uuids env) t j) = head_files r (memory_components (en_uuids env) t j)"
  shows "reads env r' t = reads env r t"
  unfolding reads_live [OF assms(1,3,4)] reads_live [OF assms(2-4)] assms(5)
  by (simp add: read_spec_def assms(6) split: list.split)

lemma reads_created:
  assumes "gix_backend (en_gix env) view base" "uuid_contract (en_uuids env)" "store_ready r" "\<not> wo_override opts"
    and "write_memory_by_id (en_gix env) (en_now env) (en_serde env) (en_uuids env) r slug i rendered author opts
      = (Inr (hex, v), r', note)"
  shows "slug_ids (en_uuids env) r slug = [] \<Longrightarrow> reads env r' slug =
      bind_res (map_err (\<lambda>e. mem_err (ParseErr e)) (parse_memory_file (en_serde env) (utf8_lossy rendered))) (of_file slug)"
    and "slug_ids (en_uuids env) r slug \<noteq> [] \<Longrightarrow> \<exists>us. mset us = add_mset i (mset (slug_ids (en_uuids env) r slug))
      \<and> reads env r' slug = Inl (mem_err (MemoryAmbiguous slug us))"
    and "\<lbrakk> validate_memory_slug t = Inr (); t \<noteq> slug \<rbrakk> \<Longrightarrow> reads env r' t = reads env r t"
proof -
  note c = create_memory [OF assms]
  note live = reads_live [OF c(2) assms(2) c(3)]
  show "reads env r' slug = bind_res (map_err (\<lambda>e. mem_err (ParseErr e))
      (parse_memory_file (en_serde env) (utf8_lossy rendered))) (of_file slug)" if "slug_ids (en_uuids env) r slug = []"
  proof -
    from c(7) that have "slug_ids (en_uuids env) r' slug = [i]" by simp
    then show ?thesis by (simp add: live read_spec_def c(6) [OF c(3)])
  qed
  show "\<exists>us. mset us = add_mset i (mset (slug_ids (en_uuids env) r slug))
      \<and> reads env r' slug = Inl (mem_err (MemoryAmbiguous slug us))" if "slug_ids (en_uuids env) r slug \<noteq> []"
  proof -
    have "size (mset (slug_ids (en_uuids env) r' slug)) = Suc (length (slug_ids (en_uuids env) r slug))"
      unfolding c(7) by simp
    then obtain a us' where us': "slug_ids (en_uuids env) r' slug = a # us'"
        "length us' = length (slug_ids (en_uuids env) r slug)"
      by (cases "slug_ids (en_uuids env) r' slug") auto
    with that obtain b us where "us' = b # us" by (cases us') auto
    with us' have "slug_ids (en_uuids env) r' slug = a # b # us" by simp
    then have "reads env r' slug = Inl (mem_err (MemoryAmbiguous slug (slug_ids (en_uuids env) r' slug)))"
      by (simp add: live read_spec_def)
    with c(7) show ?thesis by blast
  qed
  show "reads env r' t = reads env r t" if "validate_memory_slug t = Inr ()" "t \<noteq> slug"
    by (rule reads_frame [OF c(1,2) assms(2) that(1) c(8) [OF that]]) (simp add: c(6) [OF that(1)] that(2))
qed

lemma reads_rewritten:
  assumes "gix_backend (en_gix env) view base" "uuid_contract (en_uuids env)" "store_ready r" "validate_memory_slug slug = Inr ()"
    and "slug_ids (en_uuids env) r slug = [i]"
    and "read_file (en_gix env) r (memory_path (en_uuids env) slug i) Head = Inr old"
    and "write_file_at_path (en_gix env) (en_now env) (en_serde env) (en_uuids env) r (memory_path (en_uuids env) slug i)
      rendered author opts = (Inr (hex, v), r', note)"
  shows "reads env r' slug =
      bind_res (map_err (\<lambda>e. mem_err (ParseErr e)) (parse_memory_file (en_serde env) (utf8_lossy rendered))) (of_file slug)"
    and "\<lbrakk> validate_memory_slug t = Inr (); t \<noteq> slug \<rbrakk> \<Longrightarrow> reads env r' t = reads env r t"
proof -
  note c = rewrite_memory [OF assms(1-4,6,7)]
  show "reads env r' slug = bind_res (map_err (\<lambda>e. mem_err (ParseErr e))
      (parse_memory_file (en_serde env) (utf8_lossy rendered))) (of_file slug)"
    by (simp add: reads_live [OF c(2) assms(2,4)] read_spec_def c(4,5) [OF assms(4)] assms(5))
  show "reads env r' t = reads env r t" if "validate_memory_slug t = Inr ()" "t \<noteq> slug"
    by (rule reads_frame [OF c(1,2) assms(2) that(1) c(5) [OF that(1)]]) (simp add: c(4) [OF that(1)] that(2))
qed

lemma reads_deleted:
  assumes "gix_backend (en_gix env) view base" "uuid_contract (en_uuids env)" "store_ready r" "validate_memory_slug slug = Inr ()"
    and "slug_ids (en_uuids env) r slug = [i]"
    and "read_file (en_gix env) r (memory_path (en_uuids env) slug i) Head = Inr old"
    and "delete_file_at_path (en_gix env) (en_now env) r (memory_path (en_uuids env) slug i) author message = (Inr hex, r')"
  shows "reads env r' slug = Inl (mem_err (MemoryNotFound (Some slug) None))"
    and "\<lbrakk> validate_memory_slug t = Inr (); t \<noteq> slug \<rbrakk> \<Longrightarrow> reads env r' t = reads env r t"
proof -
  note c = delete_memory [OF assms(1-4,6,7)]
  from c(4) assms(5) have "slug_ids (en_uuids env) r' slug = []" by simp
  then show "reads env r' slug = Inl (mem_err (MemoryNotFound (Some slug) None))"
    by (simp add: reads_live [OF c(2) assms(2,4)] read_spec_def)
  show "reads env r' t = reads env r t" if "validate_memory_slug t = Inr ()" "t \<noteq> slug"
    by (rule reads_frame [OF c(1,2) assms(2) that(1) c(5) [OF that]]) (simp add: c(3) [OF that(1)] that(2))
qed

end

section \<open>Listings\<close>

lemma insert_by_mset [simp]: "mset (insert_by c x xs) = add_mset x (mset xs)"
  by (induction xs) auto

lemma sort_by_mset [simp]: "mset (sort_by c xs) = mset xs"
  unfolding sort_by_def by (induction xs) auto

lemma sort_by_set [simp]: "set (sort_by c xs) = set xs"
  by (metis set_mset_mset sort_by_mset)

text \<open>
  The loop of a listing and the comparison it sorts by. The loop takes one memory at a time and
  stops at the first that cannot be listed; the comparison is a total preorder.
\<close>

locale tracker_listing =
  fixes loop :: "string \<Rightarrow> 's option \<Rightarrow> bool \<Rightarrow> (string \<times> (import_error + memory_file)) list \<Rightarrow> 'r list \<Rightarrow> finding list
      \<Rightarrow> 'e + ('r list \<times> finding list)"
    and classify :: "string \<Rightarrow> 's option \<Rightarrow> bool \<Rightarrow> string \<Rightarrow> import_error + memory_file \<Rightarrow> 'e + ('r list \<times> finding list)"
    and order :: "'r \<Rightarrow> 'r \<Rightarrow> ordering"
  assumes loop_Nil: "loop g f a [] out findings = Inr (out, findings)"
    and loop_Cons: "loop g f a ((slug, outcome) # files) out findings =
      bind_res (classify g f a slug outcome) (\<lambda>(rs, fs). loop g f a files (out @ rs) (findings @ fs))"
    and order_flip: "order x y = Greater \<longleftrightarrow> order y x = Less"
    and order_trans: "\<lbrakk> order x y \<noteq> Greater; order y z \<noteq> Greater \<rbrakk> \<Longrightarrow> order x z \<noteq> Greater"
begin

lemma loop_collect:
  "loop g f a files out findings =
     map_ok (\<lambda>ps. (out @ concat (map fst ps), findings @ concat (map snd ps)))
       (collect_res (\<lambda>(slug, outcome). classify g f a slug outcome) files)"
proof (induction files arbitrary: out findings)
  case (Cons p files)
  obtain slug outcome where p: "p = (slug, outcome)" by fastforce
  show ?case
  proof (cases "classify g f a slug outcome")
    case (Inr q)
    then show ?thesis
      by (cases q; cases "collect_res (\<lambda>(slug, outcome). classify g f a slug outcome) files")
        (simp_all add: p loop_Cons Cons.IH)
  qed (simp add: p loop_Cons)
qed (simp add: loop_Nil)

lemma sort_by_sorted: "sorted_wrt (\<lambda>x y. order x y \<noteq> Greater) (sort_by order xs)"
proof -
  have ins: "sorted_wrt (\<lambda>x y. order x y \<noteq> Greater) (insert_by order z ys)"
    if "sorted_wrt (\<lambda>x y. order x y \<noteq> Greater) ys" for z ys
    using that
  proof (induction ys)
    case (Cons y ys)
    have set: "set (insert_by order z ys) = insert z (set ys)"
      by (metis insert_by_mset set_mset_add_mset_insert set_mset_mset)
    show ?case
    proof (cases "order z y = Greater")
      case True
      then have "order y z \<noteq> Greater" using order_flip by (metis ordering.distinct(3))
      with True Cons set show ?thesis by auto
    next
      case False
      with Cons.prems show ?thesis using order_trans by auto
    qed
  qed simp
  show ?thesis unfolding sort_by_def by (induction xs) (simp_all add: ins)
qed

lemma loop_Inr:
  assumes "loop g f a files [] [] = Inr (rs, fs)"
  shows "(\<forall>(slug, outcome)\<in>set files. \<exists>p. classify g f a slug outcome = Inr p)
    \<and> (\<forall>x. x \<in> set rs \<longleftrightarrow> (\<exists>(slug, outcome)\<in>set files. \<exists>p. classify g f a slug outcome = Inr p \<and> x \<in> set (fst p)))
    \<and> (\<forall>x. x \<in> set fs \<longleftrightarrow> (\<exists>(slug, outcome)\<in>set files. \<exists>p. classify g f a slug outcome = Inr p \<and> x \<in> set (snd p)))"
proof -
  from assms obtain ps where ps: "collect_res (\<lambda>(slug, outcome). classify g f a slug outcome) files = Inr ps"
    "rs = concat (map fst ps)" "fs = concat (map snd ps)" by (auto simp: loop_collect map_ok_def bind_res_eq_Inr)
  from ps(1) have "list_all2 (\<lambda>(slug, outcome) p. classify g f a slug outcome = Inr p) files ps"
    unfolding collect_res_Inr_iff by (rule list_all2_mono) auto
  then show ?thesis unfolding ps(2,3)
  proof (induction rule: list_all2_induct)
    case (Cons q files p ps)
    then show ?case by (cases q; cases p) auto
  qed simp
qed

lemma loop_Inl:
  assumes "loop g f a files [] [] = Inl e"
  shows "\<exists>(slug, outcome)\<in>set files. classify g f a slug outcome = Inl e"
proof -
  from assms have "collect_res (\<lambda>(slug, outcome). classify g f a slug outcome) files = Inl e"
    by (auto simp: loop_collect map_ok_def bind_res_eq_Inl)
  then obtain us q vs where "files = us @ q # vs" "(\<lambda>(slug, outcome). classify g f a slug outcome) q = Inl e"
    unfolding collect_res_first_error by blast
  then show ?thesis by (intro bexI [of _ q]) auto
qed

end

section \<open>Examples\<close>

text \<open>A serialisation library that knows a table of frontmatters, each under a name.\<close>

definition table_serde :: "(string \<times> frontmatter) list \<Rightarrow> string serde" where
  "table_serde t =
     \<lparr> sd_matter = (\<lambda>e d input. case extract_frontmatter_block input d of
                       None \<Rightarrow> Inr (None, input)
                     | Some m \<Rightarrow> (case map_of t m of None \<Rightarrow> Inl ''unknown'' | Some fm \<Rightarrow> Inr (Some fm, []))),
       sd_engine = (\<lambda>e m. Inr m),
       sd_deserialize = (\<lambda>m. case map_of t m of None \<Rightarrow> Inl ''unknown'' | Some fm \<Rightarrow> Inr fm),
       sd_serialize = (\<lambda>e fm. case find (\<lambda>(s, f). f = fm) t of None \<Rightarrow> Inl ''unsupported'' | Some (s, f) \<Rightarrow> Inr s) \<rparr>"

lemma table_serde_fence: "fence_contract (table_serde t)"
  by (auto simp: fence_contract_def table_serde_def split: option.split)

lemma table_serde_reads_back:
  assumes "distinct (map fst t)"
    "list_all (\<lambda>(s, fm). utf8_ok s \<and> trim s = s \<and> plain_front plus_fence s) t"
  shows "reads_back (table_serde t) fm"
proof (cases "find (\<lambda>(s, f). f = fm) t")
  case None
  then show ?thesis by (simp add: reads_back_def table_serde_fence) (simp add: table_serde_def)
next
  case (Some p)
  obtain s f where p: "p = (s, f)" by fastforce
  with Some have "(s, fm) \<in> set t" by (auto simp: find_Some_iff) (metis nth_mem)
  moreover from this assms have "utf8_ok s" "trim s = s" "plain_front plus_fence s" "map_of t s = Some fm"
    by (auto simp: list_all_iff)
  ultimately show ?thesis using Some p
    by (simp add: reads_back_def table_serde_fence) (simp add: table_serde_def)
qed

definition small_file :: "memory_file \<Rightarrow> bool" where
  "small_file f \<longleftrightarrow> length (fm_name (mf_frontmatter f)) \<le> 9 \<and> length (fm_description (mf_frontmatter f)) \<le> 9
     \<and> fm_tags (mf_frontmatter f) = [] \<and> length (mf_body f) \<le> 9"

lemma small_file_lengths:
  assumes "parse_memory_file sd rendered = Inr f" "small_file f"
  shows "validate_write_content_lengths sd rendered = Inr ()"
  using assms by (simp add: small_file_def validate_write_content_lengths_def validate_frontmatter_lengths_def
      validate_body_length_def validate_field_length_def validate_tags_def MAX_NAME_LENGTH_def
      MAX_DESCRIPTION_LENGTH_def MAX_TAG_COUNT_def MAX_BODY_LENGTH_def)

lemma short_message: "length m \<le> 99 \<Longrightarrow> resolve_commit_message (Some m) x = Inr m"
  by (simp add: resolve_commit_message_def validate_message_length_def validate_field_length_def MAX_MESSAGE_LENGTH_def)

lemma write_file_runs:
  assumes "parse_memory_file sd rendered = Inr f" "small_file f"
    "validate_id_mismatch sd uu path rendered (wo_mode opts) (wo_force opts) = Inr v"
    "wo_message opts = Some m" "length m \<le> 99"
    "commit_files g now r m [(path, Some rendered)] author = (Inr hex, r')"
  shows "write_file_at_path g now sd uu r path rendered author opts
    = (Inr (hex, v), r', write_note sd uu path rendered hex)"
  using assms small_file_lengths [OF assms(1,2)]
  by (simp add: write_file_at_path_def checked_write_def short_message)

lemma write_by_id_runs:
  assumes "memory_path uu slug i = path" "validate_memory_slug slug = Inr ()" "file_exists g r path = Inr False"
    "parse_memory_file sd rendered = Inr f" "small_file f"
    "validate_id_mismatch sd uu path rendered (wo_mode opts) (wo_force opts) = Inr v"
    "wo_message opts = Some m" "length m \<le> 99"
    "commit_files g now r m [(path, Some rendered)] author = (Inr hex, r')"
  shows "write_memory_by_id g now sd uu r slug i rendered author opts
    = (Inr (hex, v), r', write_note sd uu path rendered hex)"
proof -
  have "write_file_at_path g now sd uu r path rendered author
      \<lparr> wo_mode = wo_mode opts, wo_force = wo_force opts,
        wo_message = Some (write_memory_message uu (wo_message opts) False slug i) \<rparr>
    = (Inr (hex, v), r', write_note sd uu path rendered hex)"
    by (rule write_file_runs [OF assms(4,5) _ _ assms(8,9)]) (use assms in \<open>simp_all add: write_memory_message_def\<close>)
  with assms(1-3) show ?thesis by (simp add: write_memory_by_id_def)
qed

text \<open>The text of a file of the table, and the repository after a commit of one file.\<close>

definition table_text :: "string \<Rightarrow> string \<Rightarrow> string" where
  "table_text name body = plus_fence @ [newline] @ name @ [newline] @ plus_fence @ [newline] @ body"

definition after_commit :: "repo \<Rightarrow> string \<Rightarrow> (string \<times> string option) list \<Rightarrow> repo" where
  "after_commit r m files = snd (commit_files ref_gix 0 r m files ex_author)"

definition commit_hex :: "repo \<Rightarrow> string \<Rightarrow> (string \<times> string option) list \<Rightarrow> string" where
  "commit_hex r m files = (case fst (commit_files ref_gix 0 r m files ex_author) of Inr hex \<Rightarrow> hex | Inl _ \<Rightarrow> [])"

definition commit_runs :: "repo \<Rightarrow> string \<Rightarrow> (string \<times> string option) list \<Rightarrow> bool" where
  "commit_runs r m files = (case fst (commit_files ref_gix 0 r m files ex_author) of Inr _ \<Rightarrow> True | Inl _ \<Rightarrow> False)"

lemma commit_runs_result:
  "commit_runs r m files \<Longrightarrow> commit_files ref_gix 0 r m files ex_author = (Inr (commit_hex r m files), after_commit r m files)"
  by (auto simp: commit_runs_def commit_hex_def after_commit_def split: sum.splits prod.splits intro: prod_eqI)

end
