(* ===== verification/Features.thy ===== *)
theory Features
  imports Tracker_Surface
begin

text \<open>
  The feature surface of the store (\<open>mmcp-store\<close>, \<open>features.rs\<close>): create with the two-commit
  supersede flow, read, partial update, rename, delete and list. Each operation that writes
  returns its result, the repository after it and the notes to the content cache; the guards it
  holds are the chains of the component \<open>Locks\<close>. The id that \<open>Uuid::now_v7\<close> mints is the
  argument \<open>fresh\<close>.
\<close>

section \<open>Data\<close>

datatype feature_error =
    FMemory import_error
  | NotAFeature string string
  | FTitleRequired
  | ProjectNotFound
  | ProjectGroupMissing string
  | ProjectConfigBroken string string
  | FXref xref_error
  | FSupersedesUnknown string
  | FSupersedesInvalidStatus string feature_status "memory_ref option"
  | FSupersedesCrossGroupUnsupported string
  | UnknownProject string

record feature_add =
  fa_slug :: "string option"
  fa_title :: string
  fa_description :: string
  fa_body :: string
  fa_status :: feature_status
  fa_number :: "32 word option"
  fa_depends_on :: "uuid list"
  fa_blocks :: "uuid list"
  fa_refs :: "memory_ref list"
  fa_supersedes :: "string option"
  fa_source :: "uuid option"
  fa_milestone :: "uuid option"
  fa_message :: "string option"

record feature_update =
  fu_title :: "string option"
  fu_description :: "string option"
  fu_body :: "string option"
  fu_status :: "feature_status option"
  fu_depends_on :: "uuid list option"
  fu_blocks :: "uuid list option"
  fu_refs_add :: "memory_ref list option"
  fu_refs_remove :: "uuid list option"
  fu_superseded_by :: "memory_ref option"
  fu_milestone :: "uuid option option"
  fu_message :: "string option"

definition feature_update_default :: feature_update where
  "feature_update_default =
     \<lparr> fu_title = None, fu_description = None, fu_body = None, fu_status = None, fu_depends_on = None,
       fu_blocks = None, fu_refs_add = None, fu_refs_remove = None, fu_superseded_by = None,
       fu_milestone = None, fu_message = None \<rparr>"

record feature_summary =
  ft_slug :: string
  ft_title :: string
  ft_description :: string
  ft_status :: feature_status
  ft_number :: "32 word option"
  ft_depends_on :: "uuid list"
  ft_blocks :: "uuid list"
  ft_superseded_by :: "memory_ref option"
  ft_milestone :: "uuid option"
  ft_commit_id :: string

record feature_record = feature_summary +
  ft_body :: string

definition feature_summary_of :: "feature_record \<Rightarrow> feature_summary" where
  "feature_summary_of rc =
     \<lparr> ft_slug = ft_slug rc, ft_title = ft_title rc, ft_description = ft_description rc,
       ft_status = ft_status rc, ft_number = ft_number rc, ft_depends_on = ft_depends_on rc,
       ft_blocks = ft_blocks rc, ft_superseded_by = ft_superseded_by rc, ft_milestone = ft_milestone rc,
       ft_commit_id = ft_commit_id rc \<rparr>"

record supersede_target =
  st_slug :: string
  st_id :: uuid
  st_head_commit :: string

section \<open>Reading\<close>

definition build_feature_file :: "string \<Rightarrow> string \<Rightarrow> string \<Rightarrow> feature_metadata \<Rightarrow> memory_file" where
  "build_feature_file title description body metadata =
     \<lparr> mf_frontmatter = with_feature (frontmatter_new title description KFeature) metadata,
       mf_body = body, mf_format = TomlPlus \<rparr>"

definition feature_from_file :: "string \<Rightarrow> memory_file \<Rightarrow> string \<Rightarrow> feature_error + feature_record" where
  "feature_from_file slug file commit_id =
     (let fm = mf_frontmatter file; kind = kind_as_str (fm_kind fm) in
      bind_res (require_block slug kind (fm_feature fm) NotAFeature) (\<lambda>m.
        Inr \<lparr> ft_slug = slug, ft_title = fm_name fm, ft_description = fm_description fm,
              ft_status = fstatus m, ft_number = fnumber m, ft_depends_on = fdepends_on m,
              ft_blocks = fblocks m, ft_superseded_by = fsuperseded_by m, ft_milestone = fmilestone m,
              ft_commit_id = commit_id, ft_body = mf_body file \<rparr>))"

definition rev_of_arg :: "string option \<Rightarrow> rev" where
  "rev_of_arg arg =
     (case arg of
        Some v \<Rightarrow> if length v = 40 \<and> list_all is_ascii_hexdigit v then Commit v else Branch v
      | None \<Rightarrow> Head)"

definition read_feature :: "('ed, 'pod) env \<Rightarrow> repo \<Rightarrow> string \<Rightarrow> string option \<Rightarrow> feature_error + feature_record" where
  "read_feature env r slug at =
     bind_res (map_err (\<lambda>e. FMemory (SlugErr e)) (validate_memory_slug slug)) (\<lambda>_.
     bind_res (map_err FMemory (resolve_memory (en_gix env) (en_uuids env) (en_serde env) r (Some slug) None)) (\<lambda>resolved.
     bind_res (map_err (\<lambda>e. case e of
           PathNotFound _ \<Rightarrow> FMemory (MemoryNotFound (Some slug) (Some (rm_id resolved)))
         | other \<Rightarrow> FMemory (GitErr other))
         (read_file (en_gix env) r (rm_path resolved) (rev_of_arg at))) (\<lambda>bytes.
     bind_res (map_err (\<lambda>e. FMemory (ParseErr e)) (parse_memory_file (en_serde env) (utf8_lossy bytes))) (\<lambda>file.
       feature_from_file slug file []))))"

definition read_feature_refs :: "('ed, 'pod) env \<Rightarrow> repo \<Rightarrow> string \<Rightarrow> feature_error + memory_ref list" where
  "read_feature_refs env r path =
     bind_res (map_err (\<lambda>e. FMemory (GitErr e)) (read_file (en_gix env) r path Head)) (\<lambda>bytes.
       if \<not> utf8_ok bytes then Inl (FMemory (RenderErr (utf8_error_display bytes)))
       else
         map_ok (\<lambda>file. fm_refs (mf_frontmatter file))
           (map_err (\<lambda>e. FMemory (ParseErr e)) (parse_memory_file (en_serde env) bytes)))"

definition supersedable_feature :: "feature_record \<Rightarrow> feature_error + unit" where
  "supersedable_feature rc =
     (case ft_status rc of
        FSuperseded \<Rightarrow> Inl (FSupersedesInvalidStatus (ft_slug rc) FSuperseded (ft_superseded_by rc))
      | FDuplicate \<Rightarrow> Inl (FSupersedesInvalidStatus (ft_slug rc) FDuplicate None)
      | _ \<Rightarrow> Inr ())"

definition resolve_feature_target :: "('ed, 'pod) env \<Rightarrow> repo \<Rightarrow> string \<Rightarrow> feature_error + supersede_target" where
  "resolve_feature_target env r query =
     bind_res (map_err (\<lambda>e. case e of
           FMemory (MemoryNotFound _ _) \<Rightarrow> FSupersedesUnknown query
         | other \<Rightarrow> other) (read_feature env r query None)) (\<lambda>rc.
     bind_res (supersedable_feature rc) (\<lambda>_.
     bind_res (map_err FMemory
         (resolve_memory (en_gix env) (en_uuids env) (en_serde env) r (Some (ft_slug rc)) None)) (\<lambda>resolved.
       Inr \<lparr> st_slug = ft_slug rc, st_id = rm_id resolved, st_head_commit = ft_commit_id rc \<rparr>)))"

section \<open>Update\<close>

definition feature_status_debug :: "feature_status \<Rightarrow> string" where
  "feature_status_debug s =
     (case s of
        FRequested \<Rightarrow> ''Requested'' | FApproved \<Rightarrow> ''Approved'' | FPending \<Rightarrow> ''Pending''
      | FCompleted \<Rightarrow> ''Completed'' | FBlocked \<Rightarrow> ''Blocked'' | FDeferred \<Rightarrow> ''Deferred''
      | FDuplicate \<Rightarrow> ''Duplicate'' | FSuperseded \<Rightarrow> ''Superseded'')"

definition supersede_error_display :: "supersede_error \<Rightarrow> string" where
  "supersede_error_display e =
     (case e of
        MissingSupersededBy \<Rightarrow> ''status is superseded but superseded_by is empty''
      | UnexpectedSupersededBy s \<Rightarrow>
          ''superseded_by is set but status is '' @ feature_status_debug s @ '', expected superseded'')"

definition or_current :: "'a option \<Rightarrow> 'a \<Rightarrow> 'a" where
  "or_current new current = (case new of Some v \<Rightarrow> v | None \<Rightarrow> current)"

definition merge_feature :: "feature_update \<Rightarrow> string \<Rightarrow> feature_record \<Rightarrow> feature_record" where
  "merge_feature spec slug current =
     \<lparr> ft_slug = slug, ft_title = or_current (fu_title spec) (ft_title current),
       ft_description = or_current (fu_description spec) (ft_description current),
       ft_status = or_current (fu_status spec) (ft_status current), ft_number = ft_number current,
       ft_depends_on = or_current (fu_depends_on spec) (ft_depends_on current),
       ft_blocks = or_current (fu_blocks spec) (ft_blocks current),
       ft_superseded_by = (case fu_superseded_by spec of Some x \<Rightarrow> Some x | None \<Rightarrow> ft_superseded_by current),
       ft_milestone = or_current (fu_milestone spec) (ft_milestone current),
       ft_commit_id = [], ft_body = or_current (fu_body spec) (ft_body current) \<rparr>"

definition feature_metadata_of :: "feature_record \<Rightarrow> feature_metadata" where
  "feature_metadata_of rc =
     \<lparr> fstatus = ft_status rc, fnumber = ft_number rc, fdepends_on = ft_depends_on rc, fblocks = ft_blocks rc,
       fsuperseded_by = ft_superseded_by rc, fmilestone = ft_milestone rc \<rparr>"

definition render_feature ::
  "('ed, 'pod) env \<Rightarrow> memory_file \<Rightarrow> uuid \<Rightarrow> memory_ref list \<Rightarrow> feature_error + string" where
  "render_feature env file i refs =
     map_err (\<lambda>e. FMemory (RenderErr (memory_parse_error_display e)))
       (memory_file_to_string (en_serde env)
         (file\<lparr> mf_frontmatter := with_refs (with_id (mf_frontmatter file) i) refs \<rparr>))"

definition prepare_feature_update ::
  "('ed, 'pod) env \<Rightarrow> repo \<Rightarrow> string \<Rightarrow> feature_update \<Rightarrow> feature_error + (resolved_memory \<times> feature_record \<times> string)" where
  "prepare_feature_update env r slug spec =
     bind_res (map_err FMemory (resolve_memory (en_gix env) (en_uuids env) (en_serde env) r (Some slug) None)) (\<lambda>resolved.
     bind_res (read_feature env r slug None) (\<lambda>current.
     bind_res (read_feature_refs env r (rm_path resolved)) (\<lambda>current_refs.
       let new = merge_feature spec slug current;
           refs = compose_refs current_refs (fu_refs_remove spec) (fu_refs_add spec)
       in bind_res (map_err (\<lambda>e. FMemory (RenderErr (supersede_error_display e)))
              (validate_supersede_invariant (feature_metadata_of new))) (\<lambda>_.
          map_ok (\<lambda>rendered. (resolved, new, rendered))
            (render_feature env
              (build_feature_file (ft_title new) (ft_description new) (ft_body new) (feature_metadata_of new))
              (rm_id resolved) refs)))))"

definition update_feature_unlocked ::
  "('ed, 'pod) env \<Rightarrow> string \<Rightarrow> feature_update \<Rightarrow> resolved_author \<Rightarrow> (feature_error, feature_record) act" where
  "update_feature_unlocked env slug spec author =
     bind_act (lift_res (\<lambda>r. prepare_feature_update env r slug spec)) (\<lambda>(resolved, new, rendered).
     bind_act (err_act FMemory (noted (\<lambda>r. write_file_at_path (en_gix env) (en_now env) (en_serde env) (en_uuids env) r
           (rm_path resolved) rendered author
           \<lparr> wo_mode = rm_mode resolved, wo_force = False,
             wo_message = Some (case fu_message spec of Some m \<Rightarrow> m | None \<Rightarrow> ''update feature '' @ slug) \<rparr>))) (\<lambda>(commit_id, _).
       done_act (new\<lparr> ft_commit_id := commit_id \<rparr>)))"

definition update_feature ::
  "('ed, 'pod) env \<Rightarrow> string \<Rightarrow> feature_update \<Rightarrow> resolved_author \<Rightarrow> (feature_error, feature_record) act" where
  "update_feature env slug spec author =
     bind_act (lift_res (\<lambda>r. map_err FMemory
         (resolve_memory (en_gix env) (en_uuids env) (en_serde env) r (Some slug) None))) (\<lambda>_.
       update_feature_unlocked env slug spec author)"

section \<open>Create\<close>

definition next_feature_number :: "('ed, 'pod) env \<Rightarrow> repo \<Rightarrow> feature_error + 32 word" where
  "next_feature_number env r = map_err FMemory (next_ticket_number env r)"

definition add_refs :: "memory_ref list \<Rightarrow> supersede_target option \<Rightarrow> memory_ref list" where
  "add_refs refs target =
     (case target of
        None \<Rightarrow> refs
      | Some t \<Rightarrow>
          if list_ex (\<lambda>x. rtarget x = st_id t) refs then refs
          else refs @ [memory_ref_new (st_id t) (st_head_commit t)])"

definition feature_slug :: "('ed, 'pod) env \<Rightarrow> feature_add \<Rightarrow> feature_error + string" where
  "feature_slug env spec =
     (if trim (fa_title spec) = [] \<and> fa_slug spec = None then Inl FTitleRequired
      else
        (let slug = (case fa_slug spec of
                       Some raw \<Rightarrow> raw
                     | None \<Rightarrow> slugify_filename (en_slugify env) (en_slug_env env) (en_slug_config env) (fa_title spec))
         in map_ok (\<lambda>_. slug) (map_err (\<lambda>e. FMemory (SlugErr e)) (validate_memory_slug slug))))"

definition new_feature :: "feature_add \<Rightarrow> string \<Rightarrow> 32 word option \<Rightarrow> feature_record" where
  "new_feature spec slug number =
     \<lparr> ft_slug = slug, ft_title = fa_title spec, ft_description = fa_description spec, ft_status = fa_status spec,
       ft_number = number, ft_depends_on = fa_depends_on spec, ft_blocks = fa_blocks spec, ft_superseded_by = None,
       ft_milestone = fa_milestone spec, ft_commit_id = [], ft_body = fa_body spec \<rparr>"

definition prepare_feature ::
  "('ed, 'pod) env \<Rightarrow> uuid \<Rightarrow> repo \<Rightarrow> feature_add
    \<Rightarrow> feature_error + (feature_record \<times> supersede_target option \<times> string)" where
  "prepare_feature env fresh r spec =
     bind_res (feature_slug env spec) (\<lambda>slug.
     bind_res (case fa_supersedes spec of
         Some query \<Rightarrow> map_ok Some (resolve_feature_target env r query) | None \<Rightarrow> Inr None) (\<lambda>target.
     bind_res (case fa_number spec of
         Some n \<Rightarrow> Inr n | None \<Rightarrow> next_feature_number env r) (\<lambda>number.
       let new = new_feature spec slug (Some number);
           file = build_feature_file (fa_title spec) (fa_description spec) (fa_body spec) (feature_metadata_of new);
           stamped = file\<lparr> mf_frontmatter := with_source (with_refs (with_id (mf_frontmatter file) fresh)
             (add_refs (fa_refs spec) target)) (fa_source spec) \<rparr>
       in map_ok (\<lambda>rendered. (new, target, rendered))
            (map_err (\<lambda>e. FMemory (RenderErr (memory_parse_error_display e)))
              (memory_file_to_string (en_serde env) stamped)))))"

definition add_feature_message :: "feature_add \<Rightarrow> string \<Rightarrow> supersede_target option \<Rightarrow> string" where
  "add_feature_message spec slug target =
     (case fa_message spec of
        Some m \<Rightarrow> m
      | None \<Rightarrow>
          (case target of
             Some t \<Rightarrow> ''create feature '' @ slug @ '' (supersedes '' @ st_slug t @ '')''
           | None \<Rightarrow> ''create feature '' @ slug))"

definition supersede_old_feature ::
  "('ed, 'pod) env \<Rightarrow> uuid \<Rightarrow> string \<Rightarrow> string \<Rightarrow> supersede_target option \<Rightarrow> resolved_author \<Rightarrow> (feature_error, unit) act" where
  "supersede_old_feature env fresh slug commit_id target author =
     (case target of
        None \<Rightarrow> done_act ()
      | Some t \<Rightarrow>
          bind_act (update_feature_unlocked env (st_slug t)
            (feature_update_default\<lparr> fu_status := Some FSuperseded,
               fu_superseded_by := Some (memory_ref_new fresh commit_id),
               fu_message := Some (''mark '' @ st_slug t @ '' superseded by '' @ slug) \<rparr>) author) (\<lambda>_. done_act ()))"

definition add_feature ::
  "('ed, 'pod) env \<Rightarrow> uuid \<Rightarrow> feature_add \<Rightarrow> resolved_author \<Rightarrow> (feature_error, feature_record) act" where
  "add_feature env fresh spec author =
     bind_act (lift_res (\<lambda>r. prepare_feature env fresh r spec)) (\<lambda>(new, target, rendered).
     bind_act (err_act FMemory (noted (\<lambda>r. write_memory_by_id (en_gix env) (en_now env) (en_serde env) (en_uuids env) r
           (ft_slug new) fresh rendered author
           \<lparr> wo_mode = BySlugOnly, wo_force = False,
             wo_message = Some (add_feature_message spec (ft_slug new) target), wo_override = False \<rparr>))) (\<lambda>(commit_id, _).
     bind_act (supersede_old_feature env fresh (ft_slug new) commit_id target author) (\<lambda>_.
       done_act (new\<lparr> ft_commit_id := commit_id \<rparr>))))"

section \<open>Rename and delete\<close>

definition list_features_for_slug :: "('ed, 'pod) env \<Rightarrow> repo \<Rightarrow> string \<Rightarrow> feature_error + feature_record list" where
  "list_features_for_slug env r slug =
     bind_res (map_err FMemory (count_slug_entries env r slug)) (\<lambda>count.
       collect_res (\<lambda>_. read_feature env r slug None) (replicate count ()))"

definition reject_non_feature :: "string \<Rightarrow> memory_file \<Rightarrow> feature_error option" where
  "reject_non_feature slug file =
     (case fm_feature (mf_frontmatter file) of
        None \<Rightarrow> Some (NotAFeature slug (kind_as_str (fm_kind (mf_frontmatter file))))
      | Some _ \<Rightarrow> None)"

definition prepare_feature_rename ::
  "('ed, 'pod) env \<Rightarrow> repo \<Rightarrow> string \<Rightarrow> string \<Rightarrow> string option \<Rightarrow> feature_error + (string \<times> planned_rename)" where
  "prepare_feature_rename env r old_slug new_slug message =
     bind_res (plan_slug_rename env FMemory (reject_non_feature old_slug) old_slug new_slug r) (\<lambda>planned.
       map_ok (\<lambda>msg. (msg, planned)) (map_err FMemory
         (resolve_commit_message message (''rename feature '' @ old_slug @ '' -> '' @ new_slug))))"

definition rename_feature ::
  "('ed, 'pod) env \<Rightarrow> string \<Rightarrow> string \<Rightarrow> resolved_author \<Rightarrow> string option \<Rightarrow> (feature_error, feature_record list) act" where
  "rename_feature env old_slug new_slug author message =
     bind_act (lift_res (\<lambda>r. bind_res (map_err (\<lambda>e. FMemory (SlugErr e)) (validate_memory_slug old_slug)) (\<lambda>_.
         map_err (\<lambda>e. FMemory (SlugErr e)) (validate_memory_slug new_slug)))) (\<lambda>_.
       if old_slug = new_slug then lift_res (\<lambda>r. list_features_for_slug env r old_slug)
       else
         bind_act (lift_res (\<lambda>r. prepare_feature_rename env r old_slug new_slug message)) (\<lambda>(msg, planned).
         bind_act (err_act FMemory (unnoted (\<lambda>r. commit_files (en_gix env) (en_now env) r msg planned author))) (\<lambda>_.
           lift_res (\<lambda>r. list_features_for_slug env r new_slug))))"

definition delete_feature ::
  "('ed, 'pod) env \<Rightarrow> string \<Rightarrow> resolved_author \<Rightarrow> string option \<Rightarrow> (feature_error, string) act" where
  "delete_feature env slug author message =
     bind_act (lift_res (\<lambda>r.
         bind_res (map_err FMemory (resolve_memory (en_gix env) (en_uuids env) (en_serde env) r (Some slug) None)) (\<lambda>_.
         bind_res (map_err (\<lambda>e. case e of NotAFeature _ _ \<Rightarrow> NotAFeature slug ''other'' | other \<Rightarrow> other)
             (read_feature env r slug None)) (\<lambda>_.
           map_err FMemory (resolve_memory (en_gix env) (en_uuids env) (en_serde env) r (Some slug) None))))) (\<lambda>resolved.
       err_act FMemory (unnoted (\<lambda>r. delete_file_at_path (en_gix env) (en_now env) r (rm_path resolved) author
         (Some (case message of Some m \<Rightarrow> m | None \<Rightarrow> ''delete feature '' @ slug)))))"

section \<open>Listing\<close>

definition feature_block_missing :: "string \<Rightarrow> string \<Rightarrow> finding" where
  "feature_block_missing g slug =
     \<lparr> fi_group = g, fi_slug = Some slug, fi_severity = ''error'', fi_code = ''feature_block_missing'',
       fi_message = ''memory '' @ [CHR 0x27] @ slug @ [CHR 0x27] @ '' declares kind '' @ [CHR 0x27] @ ''feature''
         @ [CHR 0x27] @ '' but carries no [feature] block'' \<rparr>"

text \<open>One memory of the listing: the records and findings it adds, or the error that ends it.\<close>

definition classify_feature ::
  "string \<Rightarrow> feature_status option \<Rightarrow> bool \<Rightarrow> string \<Rightarrow> import_error + memory_file
    \<Rightarrow> feature_error + (feature_record list \<times> finding list)" where
  "classify_feature g status_filter show_all slug outcome =
     (case outcome of
        Inr file \<Rightarrow>
          (case feature_from_file slug file [] of
             Inr rc \<Rightarrow>
               Inr (if listing_keeps_status feature_status_is_default_hidden (ft_status rc) status_filter show_all
                    then [rc] else [], [])
           | Inl (NotAFeature s kind) \<Rightarrow>
               Inr ([], if kind = kind_as_str KFeature then [feature_block_missing g s] else [])
           | Inl other \<Rightarrow> Inl other)
      | Inl (ParseErr err) \<Rightarrow> Inr ([], [parse_failed_finding g slug err])
      | Inl other \<Rightarrow> Inl (FMemory other))"

fun list_features_loop ::
  "string \<Rightarrow> feature_status option \<Rightarrow> bool \<Rightarrow> (string \<times> (import_error + memory_file)) list
    \<Rightarrow> feature_record list \<Rightarrow> finding list \<Rightarrow> feature_error + (feature_record list \<times> finding list)" where
  "list_features_loop g status_filter show_all [] out findings = Inr (out, findings)"
| "list_features_loop g status_filter show_all ((slug, outcome) # files) out findings =
     bind_res (classify_feature g status_filter show_all slug outcome) (\<lambda>(rs, fs).
       list_features_loop g status_filter show_all files (out @ rs) (findings @ fs))"

definition feature_order :: "feature_record \<Rightarrow> feature_record \<Rightarrow> ordering" where
  "feature_order a b =
     (case (ft_number a, ft_number b) of
        (Some x, Some y) \<Rightarrow> if x < y then Less else if x = y then Equal else Greater
      | (Some _, None) \<Rightarrow> Less
      | (None, Some _) \<Rightarrow> Greater
      | (None, None) \<Rightarrow> cmp_bytes (ft_slug a) (ft_slug b))"

definition list_features ::
  "('ed, 'pod) env \<Rightarrow> repo \<Rightarrow> string \<Rightarrow> feature_status option \<Rightarrow> bool
    \<Rightarrow> feature_error + (feature_record list \<times> finding list) option" where
  "list_features env r g status_filter show_all =
     bind_res (map_err FMemory (read_all_slug_files env r Head)) (\<lambda>files.
       case files of
         None \<Rightarrow> Inr None
       | Some fs \<Rightarrow>
           map_ok (\<lambda>(out, findings). Some (sort_by feature_order out, findings))
             (list_features_loop g status_filter show_all fs [] []))"

definition list_feature_summaries ::
  "('ed, 'pod) env \<Rightarrow> repo \<Rightarrow> string \<Rightarrow> feature_status option \<Rightarrow> bool
    \<Rightarrow> feature_error + (feature_summary list \<times> finding list) option" where
  "list_feature_summaries env r g status_filter show_all =
     map_ok (map_option (\<lambda>(records, findings). (map feature_summary_of records, findings)))
       (list_features env r g status_filter show_all)"

section \<open>The operations against the file map\<close>

interpretation features: tracker_read "\<lambda>env r slug. read_feature env r slug None"
  "\<lambda>slug file. feature_from_file slug file []" FMemory
  by unfold_locales (simp add: read_feature_def rev_of_arg_def)

text \<open>The frontmatter an update writes, and the one a create writes.\<close>

definition feature_frontmatter :: "feature_record \<Rightarrow> uuid \<Rightarrow> memory_ref list \<Rightarrow> frontmatter" where
  "feature_frontmatter rc i refs =
     with_refs (with_id (with_feature (frontmatter_new (ft_title rc) (ft_description rc) KFeature) (feature_metadata_of rc)) i) refs"

definition created_frontmatter :: "feature_record \<Rightarrow> uuid \<Rightarrow> memory_ref list \<Rightarrow> uuid option \<Rightarrow> frontmatter" where
  "created_frontmatter rc i refs src = with_source (feature_frontmatter rc i refs) src"

lemma feature_from_created:
  assumes "mf_frontmatter h = created_frontmatter rc i refs src" "ft_slug rc = slug"
  shows "feature_from_file slug h [] = Inr (rc\<lparr> ft_commit_id := [], ft_body := mf_body h \<rparr>)"
  using assms by (simp add: feature_from_file_def require_block_def created_frontmatter_def feature_frontmatter_def
      builder_defs feature_metadata_of_def Let_def)

lemma feature_from_updated:
  assumes "mf_frontmatter h = feature_frontmatter rc i refs" "ft_slug rc = slug"
  shows "feature_from_file slug h [] = Inr (rc\<lparr> ft_commit_id := [], ft_body := mf_body h \<rparr>)"
  using assms by (simp add: feature_from_file_def require_block_def feature_frontmatter_def
      builder_defs feature_metadata_of_def Let_def)

lemma prepare_feature_Inr:
  assumes "prepare_feature env fresh r spec = Inr (new, target, rendered)"
  obtains number f where "feature_slug env spec = Inr (ft_slug new)" "new = new_feature spec (ft_slug new) (Some number)"
    "case fa_number spec of Some n \<Rightarrow> number = n | None \<Rightarrow> next_feature_number env r = Inr number"
    "case fa_supersedes spec of None \<Rightarrow> target = None
       | Some query \<Rightarrow> \<exists>t. target = Some t \<and> resolve_feature_target env r query = Inr t"
    "memory_file_to_string (en_serde env) f = Inr rendered" "mf_format f = TomlPlus" "mf_body f = fa_body spec"
    "mf_frontmatter f = created_frontmatter new fresh (add_refs (fa_refs spec) target) (fa_source spec)"
proof -
  from assms obtain slug number where s: "feature_slug env spec = Inr slug"
    and t: "(case fa_supersedes spec of
         Some query \<Rightarrow> map_ok Some (resolve_feature_target env r query) | None \<Rightarrow> Inr None) = Inr target"
    and n: "(case fa_number spec of Some n \<Rightarrow> Inr n | None \<Rightarrow> next_feature_number env r) = Inr number"
    and new: "new = new_feature spec slug (Some number)"
    and w: "memory_file_to_string (en_serde env)
        ((build_feature_file (fa_title spec) (fa_description spec) (fa_body spec) (feature_metadata_of new))
          \<lparr> mf_frontmatter := with_source (with_refs (with_id (mf_frontmatter (build_feature_file (fa_title spec)
              (fa_description spec) (fa_body spec) (feature_metadata_of new))) fresh)
             (add_refs (fa_refs spec) target)) (fa_source spec) \<rparr>) = Inr rendered"
    by (auto simp: prepare_feature_def bind_res_eq_Inr Let_def map_ok_def)
  from new have slug: "ft_slug new = slug" by (simp add: new_feature_def)
  show thesis
  proof (rule that [OF _ _ _ _ w])
    show "case fa_supersedes spec of None \<Rightarrow> target = None
       | Some query \<Rightarrow> \<exists>t. target = Some t \<and> resolve_feature_target env r query = Inr t"
      using t by (auto simp: map_ok_def bind_res_eq_Inr split: option.splits)
  qed (use s n new slug in \<open>auto simp: build_feature_file_def created_frontmatter_def feature_frontmatter_def
        new_feature_def split: option.splits\<close>)
qed

lemma add_feature_Inr:
  assumes "add_feature env fresh spec author r = (Inr rc, r', notes)"
  obtains new target rendered hex v r1 opts ns where "prepare_feature env fresh r spec = Inr (new, target, rendered)"
    "write_memory_by_id (en_gix env) (en_now env) (en_serde env) (en_uuids env) r (ft_slug new) fresh rendered author opts
       = (Inr (hex, v), r1, ns)" "\<not> wo_override opts"
    "rc = new\<lparr> ft_commit_id := hex \<rparr>"
    "\<exists>u ns2. supersede_old_feature env fresh (ft_slug new) hex target author r1 = (Inr u, r', ns2)"
proof -
  from assms obtain new target rendered where p: "prepare_feature env fresh r spec = Inr (new, target, rendered)"
    by (cases "prepare_feature env fresh r spec") (auto simp: add_feature_def)
  with assms that [OF p] show thesis
    by (auto simp: add_feature_def act_Inr)
qed

lemma created_frontmatter_commit [simp]:
  "created_frontmatter (rc\<lparr> ft_commit_id := c \<rparr>) i refs src = created_frontmatter rc i refs src"
  "feature_frontmatter (rc\<lparr> ft_commit_id := c \<rparr>) i refs = feature_frontmatter rc i refs"
  by (simp_all add: created_frontmatter_def feature_frontmatter_def feature_metadata_of_def)

lemma supersede_none: "supersede_old_feature env fresh slug hex None author r1 = (Inr u, r', ns) \<longleftrightarrow> r' = r1 \<and> ns = []"
  by (auto simp: supersede_old_feature_def)

lemma written_feature_reads:
  assumes "gix_backend (en_gix env) view base" "uuid_contract (en_uuids env)" "store_ready r" "\<not> wo_override opts"
    and "write_memory_by_id (en_gix env) (en_now env) (en_serde env) (en_uuids env) r slug i rendered author opts
      = (Inr (hex, v), r', note)"
    and "memory_file_to_string (en_serde env) f = Inr rendered" "mf_format f = TomlPlus" "utf8_ok (mf_body f)"
    and "mf_frontmatter f = created_frontmatter rc i refs src" "reads_back (en_serde env) (created_frontmatter rc i refs src)"
    and "ft_slug rc = slug"
  shows "(if slug_ids (en_uuids env) r slug = []
      then \<exists>b. read_feature env r' slug None = Inr (rc\<lparr> ft_commit_id := [], ft_body := b \<rparr>)
      else \<exists>us. read_feature env r' slug None = Inl (FMemory (MemoryAmbiguous slug us)))
    \<and> (\<forall>t. validate_memory_slug t = Inr () \<and> t \<noteq> slug \<longrightarrow> read_feature env r' t None = read_feature env r t None)"
proof -
  from rendered_reads_back [OF assms(6,7)] assms(8-10) obtain h where
    h: "utf8_ok rendered" "parse_memory_file (en_serde env) rendered = Inr h" "mf_frontmatter h = created_frontmatter rc i refs src"
    by auto
  note c = features.reads_created [OF assms(1-5)]
  show ?thesis
  proof (intro conjI allI impI)
    show "if slug_ids (en_uuids env) r slug = []
      then \<exists>b. read_feature env r' slug None = Inr (rc\<lparr> ft_commit_id := [], ft_body := b \<rparr>)
      else \<exists>us. read_feature env r' slug None = Inl (FMemory (MemoryAmbiguous slug us))"
    proof (cases "slug_ids (en_uuids env) r slug = []")
      case True
      from c(1) [OF this] h(1,2) feature_from_created [OF h(3) assms(11)] True show ?thesis
        by (auto simp: utf8_lossy_ok)
    next
      case False
      from c(2) [OF this] False show ?thesis by auto
    qed
  qed (use c(3) in blast)
qed

section \<open>Properties\<close>


lemma prepare_feature_update_Inr:
  assumes "prepare_feature_update env r slug spec = Inr (resolved, new, rendered)"
  obtains current current_refs f where
    "resolve_by_slug (en_gix env) (en_uuids env) r slug = Inr resolved"
    "read_feature env r slug None = Inr current" "read_feature_refs env r (rm_path resolved) = Inr current_refs"
    "new = merge_feature spec slug current" "validate_supersede_invariant (feature_metadata_of new) = Inr ()"
    "memory_file_to_string (en_serde env) f = Inr rendered" "mf_format f = TomlPlus" "mf_body f = ft_body new"
    "mf_frontmatter f = feature_frontmatter new (rm_id resolved)
       (compose_refs current_refs (fu_refs_remove spec) (fu_refs_add spec))"
proof -
  from assms obtain current current_refs where
    r: "resolve_by_slug (en_gix env) (en_uuids env) r slug = Inr resolved"
      "read_feature env r slug None = Inr current" "read_feature_refs env r (rm_path resolved) = Inr current_refs"
      "new = merge_feature spec slug current" "validate_supersede_invariant (feature_metadata_of new) = Inr ()"
    and w: "render_feature env (build_feature_file (ft_title new) (ft_description new) (ft_body new) (feature_metadata_of new))
        (rm_id resolved) (compose_refs current_refs (fu_refs_remove spec) (fu_refs_add spec)) = Inr rendered"
    by (auto simp: prepare_feature_update_def bind_res_eq_Inr Let_def map_ok_def resolve_memory_def)
  from w have "memory_file_to_string (en_serde env)
      ((build_feature_file (ft_title new) (ft_description new) (ft_body new) (feature_metadata_of new))
        \<lparr> mf_frontmatter := feature_frontmatter new (rm_id resolved)
            (compose_refs current_refs (fu_refs_remove spec) (fu_refs_add spec)) \<rparr>) = Inr rendered"
    by (simp add: render_feature_def build_feature_file_def feature_frontmatter_def)
  from that [OF r this] show thesis by (simp add: build_feature_file_def)
qed

lemma update_feature_Inr:
  assumes "update_feature_unlocked env slug spec author r = (Inr rc, r', notes)"
  obtains resolved new rendered hex v opts ns where
    "prepare_feature_update env r slug spec = Inr (resolved, new, rendered)"
    "write_file_at_path (en_gix env) (en_now env) (en_serde env) (en_uuids env) r (rm_path resolved) rendered author
       (opts :: write_options) = (Inr (hex, v), r', ns)"
    "rc = new\<lparr> ft_commit_id := hex \<rparr>"
proof -
  from assms obtain resolved new rendered where p: "prepare_feature_update env r slug spec = Inr (resolved, new, rendered)"
    by (cases "prepare_feature_update env r slug spec") (auto simp: update_feature_unlocked_def)
  with assms that [OF p] show thesis by (auto simp: update_feature_unlocked_def act_Inr)
qed

lemma write_file_live:
  assumes "gix_backend g view base" "store_ready r"
    "write_file_at_path g now sd uu r path rendered author opts = (Inr (hex, v), r', note)"
  shows "store_live r"
  using write_file_success [OF assms(3)] commit_files_live [OF assms(1,2)] by metis

text \<open>
  A successful update: the returned record is the old one with the given fields replaced, its
  number is untouched, the supersede invariant holds on it, and it reads back up to the commit id
  and the body; every other slug reads as before.
\<close>

lemma update_feature_sound:
  assumes "gix_backend (en_gix env) view base" "uuid_contract (en_uuids env)" "store_ready r"
    "update_feature_unlocked env slug spec author r = (Inr rc, r', notes)"
    "utf8_ok (ft_body rc)" "\<And>i refs. reads_back (en_serde env) (feature_frontmatter rc i refs)"
  shows "store_live r' \<and> (\<exists>old. read_feature env r slug None = Inr old
      \<and> rc = (merge_feature spec slug old)\<lparr> ft_commit_id := ft_commit_id rc \<rparr>)
    \<and> validate_supersede_invariant (feature_metadata_of rc) = Inr ()
    \<and> (\<exists>b. read_feature env r' slug None = Inr (rc\<lparr> ft_commit_id := [], ft_body := b \<rparr>))
    \<and> (\<forall>t. validate_memory_slug t = Inr () \<and> t \<noteq> slug \<longrightarrow> read_feature env r' t None = read_feature env r t None)"
proof -
  from assms(4) obtain resolved new rendered hex v opts ns where
    p: "prepare_feature_update env r slug spec = Inr (resolved, new, rendered)" and
    w: "write_file_at_path (en_gix env) (en_now env) (en_serde env) (en_uuids env) r (rm_path resolved) rendered author
       (opts :: write_options) = (Inr (hex, v), r', ns)" and rc: "rc = new\<lparr> ft_commit_id := hex \<rparr>"
    by (rule update_feature_Inr) (rule that, assumption+)
  from p obtain current current_refs f where
    f: "resolve_by_slug (en_gix env) (en_uuids env) r slug = Inr resolved"
    "read_feature env r slug None = Inr current" "read_feature_refs env r (rm_path resolved) = Inr current_refs"
    "new = merge_feature spec slug current" "validate_supersede_invariant (feature_metadata_of new) = Inr ()"
    "memory_file_to_string (en_serde env) f = Inr rendered" "mf_format f = TomlPlus" "mf_body f = ft_body new"
    "mf_frontmatter f = feature_frontmatter new (rm_id resolved)
       (compose_refs current_refs (fu_refs_remove spec) (fu_refs_add spec))"
    by (rule prepare_feature_update_Inr) (rule that, assumption+)
  have live: "store_live r" by (rule write_file_live [OF assms(1,3) w])
  from features.reads_Inr [OF live assms(2) f(2)] obtain i bytes where i: "validate_memory_slug slug = Inr ()"
    "slug_ids (en_uuids env) r slug = [i]"
    "read_file (en_gix env) r (memory_path (en_uuids env) slug i) Head = Inr bytes"
    "resolved = \<lparr> rm_slug = slug, rm_id = i, rm_path = memory_path (en_uuids env) slug i, rm_mode = BySlugOnly \<rparr>"
    using f(1) by (metis sum.inject(2))
  have w': "write_file_at_path (en_gix env) (en_now env) (en_serde env) (en_uuids env) r
      (memory_path (en_uuids env) slug i) rendered author opts = (Inr (hex, v), r', ns)" using w i(4) by simp
  note c = features.reads_rewritten [OF assms(1-3) i(1-3) w']
  have meta: "feature_metadata_of rc = feature_metadata_of new" "feature_frontmatter rc = feature_frontmatter new"
    by (simp_all add: rc feature_metadata_of_def feature_frontmatter_def ext)
  have "utf8_ok (mf_body f)" using assms(5) f(8) by (simp add: rc)
  from rendered_reads_back [OF f(6,7) _ this] assms(6) f(9) obtain h where
    h: "utf8_ok rendered" "parse_memory_file (en_serde env) rendered = Inr h" "mf_frontmatter h = mf_frontmatter f"
    by (auto simp: meta)
  have slug: "ft_slug rc = slug" by (simp add: rc f(4) merge_feature_def)
  from c(1) h(1,2) feature_from_updated [OF h(3) [unfolded f(9), folded meta] slug]
  have "read_feature env r' slug None = Inr (rc\<lparr> ft_commit_id := [], ft_body := mf_body h \<rparr>)"
    by (simp add: utf8_lossy_ok)
  moreover have "rc = (merge_feature spec slug current)\<lparr> ft_commit_id := ft_commit_id rc \<rparr>" by (simp add: rc f(4))
  moreover have "store_live r'" by (rule rewrite_memory(2) [OF assms(1-3) i(1,3) w'])
  ultimately show ?thesis using f(2,5) c(2) by (auto simp: meta)
qed

text \<open>
  A successful update returns the old record with the given fields replaced and its number
  untouched, keeps the supersede invariant, and reads back as it was returned, up to the commit
  id and the body; every other slug reads as before.
\<close>

theorem update_feature_read_back:
  assumes "gix_backend (en_gix env) view base" and "uuid_contract (en_uuids env)" and "store_ready r"
    and "update_feature env slug spec author r = (Inr rc, r', notes)" and "utf8_ok (ft_body rc)"
    and "\<And>i refs. reads_back (en_serde env) (feature_frontmatter rc i refs)"
  shows "(\<exists>old. read_feature env r slug None = Inr old
      \<and> rc = (merge_feature spec slug old)\<lparr> ft_commit_id := ft_commit_id rc \<rparr> \<and> ft_number rc = ft_number old)
    \<and> validate_supersede_invariant (feature_metadata_of rc) = Inr ()
    \<and> (\<exists>b. read_feature env r' slug None = Inr (rc\<lparr> ft_commit_id := [], ft_body := b \<rparr>))
    \<and> (\<forall>t. validate_memory_slug t = Inr () \<and> t \<noteq> slug \<longrightarrow> read_feature env r' t None = read_feature env r t None)"
proof -
  from assms(4) have u: "update_feature_unlocked env slug spec author r = (Inr rc, r', notes)"
    by (auto simp: update_feature_def split: sum.splits)
  from update_feature_sound [OF assms(1-3) u assms(5,6)] obtain old where o: "read_feature env r slug None = Inr old"
    "rc = (merge_feature spec slug old)\<lparr> ft_commit_id := ft_commit_id rc \<rparr>" by blast
  have "ft_number ((merge_feature spec slug old)\<lparr> ft_commit_id := ft_commit_id rc \<rparr>) = ft_number old"
    by (simp add: merge_feature_def)
  with o have "ft_number rc = ft_number old" by metis
  with o update_feature_sound [OF assms(1-3) u assms(5,6)] show ?thesis by blast
qed

lemma update_feature_merged:
  assumes "update_feature_unlocked env slug spec author r = (Inr rc, r', notes)" "read_feature env r slug None = Inr old"
  shows "rc = (merge_feature spec slug old)\<lparr> ft_commit_id := ft_commit_id rc \<rparr>"
proof -
  from assms(1) obtain resolved new rendered hex where "prepare_feature_update env r slug spec = Inr (resolved, new, rendered)"
    "rc = new\<lparr> ft_commit_id := hex \<rparr>" by (rule update_feature_Inr) blast
  moreover from this(1) assms(2) have "new = merge_feature spec slug old"
    by (auto elim!: prepare_feature_update_Inr)
  ultimately show ?thesis by simp
qed

definition superseded_feature :: "feature_record \<Rightarrow> uuid \<Rightarrow> string \<Rightarrow> feature_record" where
  "superseded_feature old fresh commit_id =
     old\<lparr> ft_status := FSuperseded, ft_superseded_by := Some (memory_ref_new fresh commit_id) \<rparr>"

lemma feature_from_file_slug:
  "feature_from_file slug file c = Inr rc \<Longrightarrow> ft_slug rc = slug \<and> ft_commit_id rc = c"
  by (auto simp: feature_from_file_def Let_def bind_res_eq_Inr)

lemma read_feature_slug: "read_feature env r slug at = Inr rc \<Longrightarrow> ft_slug rc = slug \<and> ft_commit_id rc = []"
  by (auto simp: read_feature_def bind_res_eq_Inr dest: feature_from_file_slug)

lemma supersedable_feature_ok: "supersedable_feature rc = Inr u \<longleftrightarrow> ft_status rc \<notin> {FSuperseded, FDuplicate}"
  by (cases "ft_status rc") (simp_all add: supersedable_feature_def)

lemma resolve_feature_target_Inr:
  assumes "resolve_feature_target env r query = Inr t"
  obtains old m where "read_feature env r query None = Inr old" "ft_status old \<notin> {FSuperseded, FDuplicate}" "st_slug t = query"
    "resolve_by_slug (en_gix env) (en_uuids env) r query = Inr m" "st_id t = rm_id m"
proof -
  from assms obtain old where old: "read_feature env r query None = Inr old" "supersedable_feature old = Inr ()"
    by (auto simp: resolve_feature_target_def bind_res_eq_Inr)
  with assms read_feature_slug [OF old(1)] obtain m where "resolve_by_slug (en_gix env) (en_uuids env) r query = Inr m"
    "st_slug t = query" "st_id t = rm_id m"
    by (auto simp: resolve_feature_target_def bind_res_eq_Inr resolve_memory_def)
  with old show thesis by (intro that [of old m]) (simp_all add: supersedable_feature_ok)
qed

text \<open>
  C9. The supersede flow: when creating a feature that supersedes another succeeds, the old one had a
  status that may be superseded and now is superseded with a link to the new feature at the
  commit that created it, all its other fields unchanged; the two slugs differ, the new feature
  reads back when its slug was free, and every other slug reads as before.
\<close>

theorem supersede_links_features:
  assumes "gix_backend (en_gix env) view base" and "uuid_contract (en_uuids env)" and "store_ready r"
    and "add_feature env fresh spec author r = (Inr rc, r', notes)" and "fa_supersedes spec = Some query"
    and "utf8_ok (fa_body spec)" and "\<And>refs. reads_back (en_serde env) (created_frontmatter rc fresh refs (fa_source spec))"
    and "\<And>old i refs. read_feature env r query None = Inr old \<Longrightarrow> utf8_ok (ft_body old)
      \<and> reads_back (en_serde env) (feature_frontmatter (superseded_feature old fresh (ft_commit_id rc)) i refs)"
  shows "query \<noteq> ft_slug rc
    \<and> (\<exists>old b. read_feature env r query None = Inr old \<and> ft_status old \<notin> {FSuperseded, FDuplicate}
        \<and> read_feature env r' query None = Inr ((superseded_feature old fresh (ft_commit_id rc))\<lparr> ft_body := b \<rparr>))
    \<and> (if slug_ids (en_uuids env) r (ft_slug rc) = []
       then \<exists>b. read_feature env r' (ft_slug rc) None = Inr (rc\<lparr> ft_commit_id := [], ft_body := b \<rparr>)
       else \<exists>us. read_feature env r' (ft_slug rc) None = Inl (FMemory (MemoryAmbiguous (ft_slug rc) us)))
    \<and> (\<forall>t. validate_memory_slug t = Inr () \<and> t \<noteq> ft_slug rc \<and> t \<noteq> query
        \<longrightarrow> read_feature env r' t None = read_feature env r t None)"
proof -
  from assms(4) obtain new target rendered hex v r1 opts ns where
    p: "prepare_feature env fresh r spec = Inr (new, target, rendered)" and
    w: "write_memory_by_id (en_gix env) (en_now env) (en_serde env) (en_uuids env) r (ft_slug new) fresh rendered author opts
       = (Inr (hex, v), r1, ns)" "\<not> wo_override opts" and rc: "rc = new\<lparr> ft_commit_id := hex \<rparr>" and
    s: "\<exists>u ns2. supersede_old_feature env fresh (ft_slug new) hex target author r1 = (Inr u, r', ns2)"
    by (rule add_feature_Inr) (rule that, assumption+)
  from p obtain number f where f: "case fa_supersedes spec of None \<Rightarrow> target = None
       | Some query \<Rightarrow> \<exists>t. target = Some t \<and> resolve_feature_target env r query = Inr t"
    "memory_file_to_string (en_serde env) f = Inr rendered" "mf_format f = TomlPlus" "mf_body f = fa_body spec"
    "mf_frontmatter f = created_frontmatter new fresh (add_refs (fa_refs spec) target) (fa_source spec)"
    by (rule prepare_feature_Inr) (rule that, assumption+)
  from f(1) assms(5) obtain t where t: "target = Some t" "resolve_feature_target env r query = Inr t" by auto
  from t(2) obtain old where old: "read_feature env r query None = Inr old"
    "ft_status old \<notin> {FSuperseded, FDuplicate}" "st_slug t = query"
    by (rule resolve_feature_target_Inr) (rule that, assumption+)
  have slugs: "ft_slug rc = ft_slug new" "ft_commit_id rc = hex" by (simp_all add: rc)
  have "utf8_ok (mf_body f)" "mf_frontmatter f = created_frontmatter rc fresh (add_refs (fa_refs spec) target) (fa_source spec)"
    using f(4,5) assms(6) by (simp_all add: rc)
  note A = written_feature_reads [OF assms(1-3) w(2) w(1) f(2,3) this assms(7), unfolded slugs, OF refl]
  note created = create_memory [OF assms(1-3) w(2) w(1)]
  have r1: "store_ready r1" by (rule store_live_ready [OF created(2)])
  let ?spec = "feature_update_default\<lparr> fu_status := Some FSuperseded,
      fu_superseded_by := Some (memory_ref_new fresh hex),
      fu_message := Some (''mark '' @ st_slug t @ '' superseded by '' @ ft_slug new) \<rparr>"
  from s t(1) old(3) obtain u ns2 where u: "update_feature_unlocked env query ?spec author r1 = (Inr u, r', ns2)"
    by (auto simp: supersede_old_feature_def act_Inr)
  from features.reads_Inr [OF created(1) assms(2) old(1)] obtain i where
    vq: "validate_memory_slug query = Inr ()" "slug_ids (en_uuids env) r query = [i]" by metis
  obtain old1 where old1: "read_feature env r1 query None = Inr old1"
    using u by (auto elim!: update_feature_Inr prepare_feature_update_Inr)
  have ne: "query \<noteq> ft_slug new"
    using A vq(2) old1 by auto
  with A vq(1) old1 old(1) have same: "old1 = old" by auto
  have oslug: "ft_slug old = query" "ft_commit_id old = []" using read_feature_slug [OF old(1)] by auto
  have merged: "merge_feature ?spec query old = superseded_feature old fresh hex"
    using oslug by (simp add: merge_feature_def feature_update_default_def or_current_def superseded_feature_def)
  have ur: "u = (superseded_feature old fresh hex)\<lparr> ft_commit_id := ft_commit_id u \<rparr>"
    using update_feature_merged [OF u old1] unfolding same merged .
  have urb: "utf8_ok (ft_body u)" "reads_back (en_serde env) (feature_frontmatter u i refs)" for i refs
    using assms(8) [OF old(1)] by (subst ur; simp add: superseded_feature_def slugs)+
  note B = update_feature_sound [OF assms(1,2) r1 u urb]
  from B obtain b where "read_feature env r' query None = Inr (u\<lparr> ft_commit_id := [], ft_body := b \<rparr>)" by blast
  moreover have "u\<lparr> ft_commit_id := [], ft_body := b \<rparr> = (superseded_feature old fresh hex)\<lparr> ft_body := b \<rparr>"
    by (subst ur) (simp add: superseded_feature_def oslug(2) [symmetric])
  ultimately have Q: "read_feature env r' query None = Inr ((superseded_feature old fresh hex)\<lparr> ft_body := b \<rparr>)" by simp
  have N: "read_feature env r' (ft_slug new) None = read_feature env r1 (ft_slug new) None"
    using B ne created(3) by metis
  show ?thesis unfolding slugs using ne old(1,2) Q A B N by (auto simp: slugs)
qed

text \<open>
  A successful delete removes exactly the one memory under the slug, which carried a feature
  block: the slug is not found afterwards and every other slug reads as before.
\<close>

theorem delete_feature_removes:
  assumes "gix_backend (en_gix env) view base" and "uuid_contract (en_uuids env)" and "store_ready r"
    and "delete_feature env slug author message r = (Inr hex, r', notes)"
  shows "(\<exists>old. read_feature env r slug None = Inr old)
    \<and> read_feature env r' slug None = Inl (FMemory (MemoryNotFound (Some slug) None))
    \<and> (\<forall>t. validate_memory_slug t = Inr () \<and> t \<noteq> slug \<longrightarrow> read_feature env r' t None = read_feature env r t None)"
proof -
  from assms(4) obtain old m msg where old: "read_feature env r slug None = Inr old"
    and m: "resolve_by_slug (en_gix env) (en_uuids env) r slug = Inr m"
    and d: "delete_file_at_path (en_gix env) (en_now env) r (rm_path m) author msg = (Inr hex, r')"
    by (auto simp: delete_feature_def act_Inr bind_res_eq_Inr resolve_memory_def split: sum.splits)
  from d obtain msg' where "commit_files (en_gix env) (en_now env) r msg' [(rm_path m, None)] author = (Inr hex, r')"
    by (auto simp: delete_file_at_path_def split: sum.splits)
  with commit_files_live [OF assms(1,3)] have live: "store_live r" by blast
  from features.reads_Inr [OF live assms(2) old] obtain i bytes where i: "validate_memory_slug slug = Inr ()"
    "slug_ids (en_uuids env) r slug = [i]"
    "read_file (en_gix env) r (memory_path (en_uuids env) slug i) Head = Inr bytes"
    "m = \<lparr> rm_slug = slug, rm_id = i, rm_path = memory_path (en_uuids env) slug i, rm_mode = BySlugOnly \<rparr>"
    using m by (metis sum.inject(2))
  from d i(4) have "delete_file_at_path (en_gix env) (en_now env) r (memory_path (en_uuids env) slug i) author msg
      = (Inr hex, r')" by simp
  from features.reads_deleted [OF assms(1-3) i(1-3) this] old show ?thesis by blast
qed

lemma feature_order_laws:
  "feature_order x y = Greater \<longleftrightarrow> feature_order y x = Less"
  "\<lbrakk> feature_order x y \<noteq> Greater; feature_order y z \<noteq> Greater \<rbrakk> \<Longrightarrow> feature_order x z \<noteq> Greater"
  by (auto simp: feature_order_def split: option.splits if_splits)

interpretation features: tracker_listing list_features_loop classify_feature feature_order
  by unfold_locales (simp, simp, fact feature_order_laws(1), fact feature_order_laws(2))

lemma classify_feature_Inl:
  "classify_feature g f a slug outcome = Inl e \<longleftrightarrow>
     (\<exists>err. outcome = Inl err \<and> (\<forall>p. err \<noteq> ParseErr p) \<and> e = FMemory err)"
  by (auto simp: classify_feature_def feature_from_file_def require_block_def Let_def bind_res_eq_Inl bind_res_eq_Inr ok_or_def
      split: sum.splits import_error.splits feature_error.splits option.splits)

lemma classify_feature_records:
  "(\<exists>p. classify_feature g f a slug outcome = Inr p \<and> x \<in> set (fst p)) \<longleftrightarrow>
     (\<exists>file. outcome = Inr file \<and> feature_from_file slug file [] = Inr x
        \<and> listing_keeps_status feature_status_is_default_hidden (ft_status x) f a)"
  by (auto simp: classify_feature_def feature_from_file_def require_block_def Let_def bind_res_eq_Inl bind_res_eq_Inr ok_or_def
      split: sum.splits import_error.splits feature_error.splits option.splits)

lemma classify_feature_findings:
  "(\<exists>p. classify_feature g f a slug outcome = Inr p \<and> x \<in> set (snd p)) \<longleftrightarrow>
     (\<exists>err. outcome = Inl (ParseErr err) \<and> x = parse_failed_finding g slug err)
     \<or> (\<exists>file. outcome = Inr file \<and> fm_feature (mf_frontmatter file) = None \<and> fm_kind (mf_frontmatter file) = KFeature
          \<and> x = feature_block_missing g slug)"
  by (auto simp: classify_feature_def feature_from_file_def require_block_def Let_def bind_res_eq_Inl bind_res_eq_Inr ok_or_def
      kind_as_str_inject split: sum.splits import_error.splits feature_error.splits option.splits)

text \<open>
  C23. The listing of a group, on every branch: it fails exactly when one slug cannot be read for a
  reason other than its frontmatter, with that reason; otherwise it holds, sorted, exactly the
  records of the memories with a feature block that the filter keeps, and a finding for exactly
  each memory that does not parse or declares the kind without the block.
\<close>

theorem list_features_spec:
  assumes "uuid_contract (en_uuids env)" and "list_memory_slug_dirs (en_gix env) r Head = Inr dirs"
    and "root_tree_id (en_gix env) r Head = Inr root"
  shows "case list_features env r g f a of
      Inl e \<Rightarrow> \<exists>d\<in>set dirs. \<exists>err. read_slug_dir env r Head d = Inl err \<and> (\<forall>p. err \<noteq> ParseErr p) \<and> e = FMemory err
    | Inr None \<Rightarrow> False
    | Inr (Some (rs, fs)) \<Rightarrow>
        sorted_wrt (\<lambda>x y. feature_order x y \<noteq> Greater) rs
        \<and> (\<forall>x. x \<in> set rs \<longleftrightarrow> (\<exists>d\<in>set dirs. \<exists>file. read_slug_dir env r Head d = Inr file
              \<and> feature_from_file (ld_slug d) file [] = Inr x
              \<and> listing_keeps_status feature_status_is_default_hidden (ft_status x) f a))
        \<and> (\<forall>x. x \<in> set fs \<longleftrightarrow> (\<exists>d\<in>set dirs.
              (\<exists>err. read_slug_dir env r Head d = Inl (ParseErr err) \<and> x = parse_failed_finding g (ld_slug d) err)
              \<or> (\<exists>file. read_slug_dir env r Head d = Inr file \<and> fm_feature (mf_frontmatter file) = None
                  \<and> fm_kind (mf_frontmatter file) = KFeature \<and> x = feature_block_missing g (ld_slug d))))"
proof -
  let ?files = "map (\<lambda>d. (ld_slug d, read_slug_dir env r Head d)) dirs"
  have l: "list_features env r g f a =
      map_ok (\<lambda>(out, findings). Some (sort_by feature_order out, findings)) (list_features_loop g f a ?files [] [])"
    by (simp add: list_features_def read_all_slugs_listed [OF assms])
  show ?thesis
  proof (cases "list_features_loop g f a ?files [] []")
    case (Inl e)
    from features.loop_Inl [OF this] show ?thesis by (auto simp: l Inl classify_feature_Inl)
  next
    case (Inr p)
    obtain rs fs where p: "p = (rs, fs)" by fastforce
    from features.loop_Inr [OF Inr [unfolded p]] features.sort_by_sorted show ?thesis
      by (simp add: l Inr p classify_feature_records classify_feature_findings del: split_paired_Ex)
  qed
qed

lemma count_slug_ids:
  assumes "store_live r" "validate_memory_slug slug = Inr ()"
  shows "count_slug_entries env r slug = Inr (length (slug_ids (en_uuids env) r slug))"
  by (simp add: count_slug_entries_def live_slug_listing [OF assms, simplified] slug_ids_def List.map_filter_def)

lemma collect_same: "collect_res (\<lambda>_. x) (replicate n ()) = Inr ys \<Longrightarrow> length ys = n \<and> (\<forall>y\<in>set ys. x = Inr y)"
proof (induction n arbitrary: ys)
  case (Suc n)
  then show ?case by (auto simp: bind_res_eq_Inr)
qed simp

text \<open>
  C29. A rename that returns moved the one feature under the old slug: the returned record is what the
  new slug reads, its content is that of the old file, the old slug is not found afterwards, and
  every third slug reads as before.
\<close>

theorem rename_feature_moves:
  assumes "gix_backend (en_gix env) view base" and "uuid_contract (en_uuids env)" and "store_ready r"
    and "rename_feature env old_slug new_slug author message r = (Inr rcs, r', notes)" and "old_slug \<noteq> new_slug"
    and "read_feature env r old_slug None = Inr old"
  shows "rcs = [old\<lparr> ft_slug := new_slug \<rparr>] \<and> read_feature env r' new_slug None = Inr (old\<lparr> ft_slug := new_slug \<rparr>)
    \<and> read_feature env r' old_slug None = Inl (FMemory (MemoryNotFound (Some old_slug) None))
    \<and> (\<forall>t. validate_memory_slug t = Inr () \<and> t \<noteq> old_slug \<and> t \<noteq> new_slug
        \<longrightarrow> read_feature env r' t None = read_feature env r t None)"
proof -
  from assms(4,5) obtain msg planned hex where v: "validate_memory_slug old_slug = Inr ()" "validate_memory_slug new_slug = Inr ()"
    and p: "plan_slug_rename env FMemory (reject_non_feature old_slug) old_slug new_slug r = Inr planned"
    and c: "commit_files (en_gix env) (en_now env) r msg planned author = (Inr hex, r')"
    and l: "list_features_for_slug env r' new_slug = Inr rcs"
    by (auto simp: rename_feature_def prepare_feature_rename_def act_Inr bind_res_eq_Inr map_ok_def split: sum.splits)
  note m = rename_memories [OF assms(1-3) v assms(5) p c]
  from features.reads_Inr [OF m(1) assms(2) assms(6)] obtain i bytes f where
    i: "slug_ids (en_uuids env) r old_slug = [i]" "head_files r (memory_components (en_uuids env) old_slug i) = Some bytes"
    and f: "parse_memory_file (en_serde env) (utf8_lossy bytes) = Inr f" "feature_from_file old_slug f [] = Inr old"
    by metis
  from m(4) [of i] i have moved: "head_files r' (memory_components (en_uuids env) new_slug i) = Some bytes"
    "i \<in> set (slug_ids (en_uuids env) r' new_slug)" by auto
  from l have all: "length rcs = length (slug_ids (en_uuids env) r' new_slug)"
    "\<forall>rc\<in>set rcs. read_feature env r' new_slug None = Inr rc"
    unfolding list_features_for_slug_def count_slug_ids [OF m(2) v(2)] by (auto dest: collect_same)
  from moved(2) all(1) obtain rc where rc: "rc \<in> set rcs" by (cases rcs) auto
  with all(2) have "read_feature env r' new_slug None = Inr rc" by blast
  from features.reads_Inr [OF m(2) assms(2) this] moved obtain f' where
    i': "slug_ids (en_uuids env) r' new_slug = [i]" and
    "parse_memory_file (en_serde env) (utf8_lossy bytes) = Inr f'" "feature_from_file new_slug f' [] = Inr rc"
    by (metis (no_types, opaque_lifting) empty_iff empty_set option.inject set_ConsD)
  with f have "feature_from_file new_slug f [] = Inr rc" by simp
  with f(2) have rc': "rc = old\<lparr> ft_slug := new_slug \<rparr>"
    by (auto simp: feature_from_file_def require_block_def Let_def bind_res_eq_Inr)
  from all(1) i' rc have "rcs = [rc]" by (cases rcs) auto
  moreover have "read_feature env r' old_slug None = Inl (FMemory (MemoryNotFound (Some old_slug) None))"
    by (simp add: features.reads_live [OF m(2) assms(2) v(1)] features.read_spec_def m(6) [OF i(1)])
  moreover have "read_feature env r' t None = read_feature env r t None"
    if "validate_memory_slug t = Inr ()" "t \<noteq> old_slug" "t \<noteq> new_slug" for t
    by (rule features.reads_frame [OF m(1,2) assms(2) that(1)]) (use m(5) [OF that] in auto)
  ultimately show ?thesis using \<open>read_feature env r' new_slug None = Inr rc\<close> rc' by blast
qed

section \<open>The operations at work\<close>

definition ex_add :: feature_add where
  "ex_add = \<lparr> fa_slug = Some ''f'', fa_title = ''T'', fa_description = ''D'', fa_body = ''b'', fa_status = FRequested,
     fa_number = Some 3, fa_depends_on = [], fa_blocks = [], fa_refs = [], fa_supersedes = None, fa_source = None,
     fa_milestone = None, fa_message = None \<rparr>"

definition ex_feature :: feature_record where
  "ex_feature = new_feature ex_add ''f'' (Some 3)"

definition ex_successor :: feature_add where
  "ex_successor = ex_add\<lparr> fa_slug := Some ''g'', fa_title := ''S'', fa_supersedes := Some ''f'' \<rparr>"

definition ex_new :: feature_record where
  "ex_new = new_feature ex_successor ''g'' (Some 3)"

text \<open>The repositories and the commit of the new feature are computed without the table.\<close>

definition feature_repo :: repo where
  "feature_repo = after_commit first_repo ''create feature f'' [(''memories/f/uu.md'', Some (table_text ''a'' ''b''))]"

definition successor_hex :: string where
  "successor_hex = commit_hex feature_repo ''create feature g (supersedes f)''
     [(''memories/g/uuu.md'', Some (table_text ''c'' ''b''))]"

definition successor_repo :: repo where
  "successor_repo = after_commit feature_repo ''create feature g (supersedes f)''
     [(''memories/g/uuu.md'', Some (table_text ''c'' ''b''))]"

definition ex_table :: "(string \<times> frontmatter) list" where
  "ex_table =
     [(''a'', created_frontmatter ex_feature 1 [] None),
      (''c'', created_frontmatter ex_new 2 [memory_ref_new 1 []] None),
      (''d'', feature_frontmatter (superseded_feature ex_feature 2 successor_hex) 1 [])]"

definition feature_env :: "(ref_editor, string) env" where
  "feature_env = ex_env (table_serde ex_table)"

lemma feature_env_parts [simp]:
  "en_gix feature_env = ref_gix" "en_uuids feature_env = unary_uuids" "en_serde feature_env = table_serde ex_table"
  "en_now feature_env = 0"
  by (simp_all add: feature_env_def ex_env_def)

lemma ex_paths: "memory_path unary_uuids ''f'' 1 = ''memories/f/uu.md''" "memory_path unary_uuids ''g'' 2 = ''memories/g/uuu.md''"
  "memory_path unary_uuids ''g'' 1 = ''memories/g/uu.md''"
  by (simp_all add: memory_path_def unary_uuids_def MEMORIES_DIR_def MEMORY_EXTENSION_def)
    (simp_all add: numeral_2_eq_2)

lemma ex_table_reads_back: "reads_back (en_serde feature_env) fm"
proof -
  have "distinct (map fst ex_table)" by (simp add: ex_table_def)
  moreover have "list_all (\<lambda>s. utf8_ok s \<and> trim s = s \<and> plain_front plus_fence s) (map fst ex_table)"
    by (simp add: ex_table_def, intro conjI) code_simp+
  then have "list_all (\<lambda>(s, fm). utf8_ok s \<and> trim s = s \<and> plain_front plus_fence s) ex_table"
    by (simp add: list_all_iff case_prod_beta)
  ultimately show ?thesis unfolding feature_env_parts by (rule table_serde_reads_back)
qed

definition ex_file :: "string \<Rightarrow> memory_file" where
  "ex_file name = (case parse_memory_file (table_serde ex_table) (table_text name ''b'') of Inr f \<Rightarrow> f
     | Inl _ \<Rightarrow> build_feature_file [] [] [] (feature_metadata_of ex_feature))"

lemma ex_file_parses:
  "parse_memory_file (table_serde ex_table) (table_text ''a'' ''b'') = Inr (ex_file ''a'')" "small_file (ex_file ''a'')"
  by code_simp+

lemma first_repo_live: "store_live first_repo"
proof -
  have "commit_runs first_repo ''m'' [(''f'', Some [])]" by code_simp
  from commit_files_live [OF ref.gix_backend_axioms first_repo_ready commit_runs_result [OF this]] show ?thesis by simp
qed

lemma ex_write_runs:
  "\<exists>v. write_memory_by_id ref_gix 0 (table_serde ex_table) unary_uuids first_repo ''f'' 1 (table_text ''a'' ''b'') ex_author
     \<lparr> wo_mode = BySlugOnly, wo_force = False, wo_message = Some ''create feature f'', wo_override = False \<rparr>
     = (Inr (commit_hex first_repo ''create feature f'' [(''memories/f/uu.md'', Some (table_text ''a'' ''b''))], v), feature_repo,
        write_note (table_serde ex_table) unary_uuids ''memories/f/uu.md'' (table_text ''a'' ''b'')
          (commit_hex first_repo ''create feature f'' [(''memories/f/uu.md'', Some (table_text ''a'' ''b''))]))"
proof -
  have "commit_runs first_repo ''create feature f'' [(''memories/f/uu.md'', Some (table_text ''a'' ''b''))]" by code_simp
  note c = commit_runs_result [OF this, folded feature_repo_def]
  have e: "validate_memory_slug ''f'' = Inr ()" "file_exists ref_gix first_repo ''memories/f/uu.md'' = Inr False"
    "validate_id_mismatch (table_serde ex_table) unary_uuids ''memories/f/uu.md'' (table_text ''a'' ''b'') BySlugOnly False = Inr IdMatch"
    by code_simp+
  show ?thesis
    by (rule exI, rule write_by_id_runs [OF ex_paths(1) e(1,2) ex_file_parses]) (use e c in simp_all)
qed

lemma ex_add_runs:
  obtains hex ns where "add_feature feature_env 1 ex_add ex_author first_repo
    = (Inr (ex_feature\<lparr> ft_commit_id := hex \<rparr>), feature_repo, ns)"
proof -
  have p: "prepare_feature feature_env 1 first_repo ex_add = Inr (ex_feature, None, table_text ''a'' ''b'')"
    by code_simp
  have m: "add_feature_message ex_add ''f'' None = ''create feature f''" "ft_slug ex_feature = ''f''"
    by (simp_all add: add_feature_message_def ex_add_def ex_feature_def new_feature_def)
  from ex_write_runs obtain hex v n where
    w: "write_memory_by_id ref_gix 0 (table_serde ex_table) unary_uuids first_repo ''f'' 1 (table_text ''a'' ''b'') ex_author
     \<lparr> wo_mode = BySlugOnly, wo_force = False, wo_message = Some ''create feature f'', wo_override = False \<rparr>
     = (Inr (hex, v), feature_repo, n)" by blast
  show thesis
    by (rule that, unfold add_feature_def bind_lift feature_env_parts p sum.case prod.case m, rule bind_act_runs,
        rule noted_runs, rule w, simp add: supersede_old_feature_def bind_act_def)
qed


lemma feature_repo_live: "store_live feature_repo"
proof -
  have "commit_runs first_repo ''create feature f'' [(''memories/f/uu.md'', Some (table_text ''a'' ''b''))]" by code_simp
  from commit_files_live [OF ref.gix_backend_axioms first_repo_ready commit_runs_result [OF this]] show ?thesis
    by (simp add: feature_repo_def)
qed

lemma feature_repo_ready: "store_ready feature_repo"
  by (rule store_live_ready [OF feature_repo_live])

theorem list_features_spec_witness:
  "\<exists>fs. list_features feature_env feature_repo ''grp'' None False = Inr (Some ([ex_feature\<lparr> ft_body := [] \<rparr>], fs))
    \<and> length fs = 1 \<and> (\<forall>x\<in>set fs. fi_code x \<noteq> ''feature_block_missing'')"
proof -
  have "case list_features feature_env feature_repo ''grp'' None False of
      Inr (Some (rs, fs)) \<Rightarrow> rs = [ex_feature\<lparr> ft_body := [] \<rparr>] \<and> length fs = 1 \<and> fi_code (hd fs) \<noteq> ''feature_block_missing''
    | _ \<Rightarrow> False" by code_simp
  then obtain fs where l: "list_features feature_env feature_repo ''grp'' None False = Inr (Some ([ex_feature\<lparr> ft_body := [] \<rparr>], fs))"
    "length fs = 1" "fi_code (hd fs) \<noteq> ''feature_block_missing''"
    by (auto split: sum.splits option.splits)
  have "(case list_memory_slug_dirs ref_gix feature_repo Head of Inl _ \<Rightarrow> False | Inr _ \<Rightarrow> True)"
    "(case root_tree_id ref_gix feature_repo Head of Inl _ \<Rightarrow> False | Inr _ \<Rightarrow> True)" by code_simp+
  then obtain dirs root where "list_memory_slug_dirs ref_gix feature_repo Head = Inr dirs"
    "root_tree_id ref_gix feature_repo Head = Inr root" by (auto split: sum.splits)
  with list_features_spec [of feature_env feature_repo dirs root None False "''grp''"] unary_uuids_contract
  have "sorted_wrt (\<lambda>x y. feature_order x y \<noteq> Greater) [ex_feature\<lparr> ft_body := [] \<rparr>]" by (simp add: l(1))
  with l show ?thesis by (cases fs) auto
qed

definition renamed_repo :: repo where
  "renamed_repo = after_commit feature_repo ''mv'' [(''memories/g/uu.md'', Some (table_text ''a'' ''b'')), (''memories/f/uu.md'', None)]"

theorem rename_feature_moves_witness:
  "read_feature feature_env renamed_repo ''g'' None = Inr (ex_feature\<lparr> ft_body := [], ft_slug := ''g'' \<rparr>)
    \<and> read_feature feature_env renamed_repo ''f'' None = Inl (FMemory (MemoryNotFound (Some ''f'') None))"
proof -
  let ?p = "[(''memories/g/uu.md'', Some (table_text ''a'' ''b'')), (''memories/f/uu.md'', None)]"
  have v: "validate_memory_slug ''f'' = Inr ()" "validate_memory_slug ''g'' = Inr ()" by code_simp+
  have "plan_slug_rename feature_env FMemory (reject_non_feature ''f'') ''f'' ''g'' feature_repo = Inr ?p" by code_simp
  then have p: "prepare_feature_rename feature_env feature_repo ''f'' ''g'' (Some ''mv'') = Inr (''mv'', ?p)"
    by (simp add: prepare_feature_rename_def short_message)
  have "commit_runs feature_repo ''mv'' ?p" by code_simp
  note c = commit_runs_result [OF this, folded renamed_repo_def]
  have l: "list_features_for_slug feature_env renamed_repo ''g'' = Inr [ex_feature\<lparr> ft_body := [], ft_slug := ''g'' \<rparr>]"
    by code_simp
  have old: "read_feature feature_env feature_repo ''f'' None = Inr (ex_feature\<lparr> ft_body := [] \<rparr>)" by code_simp
  have r: "rename_feature feature_env ''f'' ''g'' ex_author (Some ''mv'') feature_repo
      = (Inr [ex_feature\<lparr> ft_body := [], ft_slug := ''g'' \<rparr>], renamed_repo, [] @ [])"
    by (simp add: rename_feature_def v p, rule bind_act_runs [where ?ns1.0 = "[]" and ?ns2.0 = "[]", simplified], rule unnoted_runs, rule c, simp add: l)
  from rename_feature_moves [OF _ _ feature_repo_ready r _ old, of ref_view ref_base]
  show ?thesis using ref.gix_backend_axioms unary_uuids_contract by simp
qed

definition superseded_repo :: repo where
  "superseded_repo = after_commit successor_repo ''mark f superseded by g'' [(''memories/f/uu.md'', Some (table_text ''d'' []))]"

lemma ex_table_files:
  "\<exists>f. parse_memory_file (table_serde ex_table) (table_text ''c'' ''b'') = Inr f \<and> small_file f"
  "\<exists>f. parse_memory_file (table_serde ex_table) (table_text ''d'' []) = Inr f \<and> small_file f"
proof -
  have "case parse_memory_file (table_serde ex_table) (table_text ''c'' ''b'') of Inr f \<Rightarrow> small_file f | Inl _ \<Rightarrow> False" by code_simp
  then show "\<exists>f. parse_memory_file (table_serde ex_table) (table_text ''c'' ''b'') = Inr f \<and> small_file f" by (auto split: sum.splits)
  have "case parse_memory_file (table_serde ex_table) (table_text ''d'' []) of Inr f \<Rightarrow> small_file f | Inl _ \<Rightarrow> False" by code_simp
  then show "\<exists>f. parse_memory_file (table_serde ex_table) (table_text ''d'' []) = Inr f \<and> small_file f" by (auto split: sum.splits)
qed

lemma ex_supersede_runs:
  obtains ns where "add_feature feature_env 2 ex_successor ex_author feature_repo
    = (Inr (ex_new\<lparr> ft_commit_id := successor_hex \<rparr>), superseded_repo, ns)"
proof -
  let ?t = "\<lparr> st_slug = ''f'', st_id = 1, st_head_commit = [] \<rparr>"
  let ?m = "\<lparr> rm_slug = ''f'', rm_id = 1, rm_path = ''memories/f/uu.md'', rm_mode = BySlugOnly \<rparr>"
  let ?old = "(superseded_feature ex_feature 2 successor_hex)\<lparr> ft_body := [] \<rparr>"
  let ?spec = "feature_update_default\<lparr> fu_status := Some FSuperseded, fu_superseded_by := Some (memory_ref_new 2 successor_hex),
      fu_message := Some ''mark f superseded by g'' \<rparr>"
  have p: "prepare_feature feature_env 2 feature_repo ex_successor = Inr (ex_new, Some ?t, table_text ''c'' ''b'')"
    by code_simp
  have m: "add_feature_message ex_successor ''g'' (Some ?t) = ''create feature g (supersedes f)''" "ft_slug ex_new = ''g''"
    by (simp_all add: add_feature_message_def ex_successor_def ex_add_def ex_new_def new_feature_def)
  from ex_table_files obtain f h where f: "parse_memory_file (table_serde ex_table) (table_text ''c'' ''b'') = Inr f" "small_file f"
    and h: "parse_memory_file (table_serde ex_table) (table_text ''d'' []) = Inr h" "small_file h" by blast
  have "commit_runs feature_repo ''create feature g (supersedes f)'' [(''memories/g/uuu.md'', Some (table_text ''c'' ''b''))]"
    by code_simp
  note c = commit_runs_result [OF this, folded successor_repo_def successor_hex_def]
  have e: "validate_memory_slug ''g'' = Inr ()" "file_exists ref_gix feature_repo ''memories/g/uuu.md'' = Inr False"
    "validate_id_mismatch (table_serde ex_table) unary_uuids ''memories/g/uuu.md'' (table_text ''c'' ''b'') BySlugOnly False = Inr IdMatch"
    "validate_id_mismatch (table_serde ex_table) unary_uuids ''memories/f/uu.md'' (table_text ''d'' []) BySlugOnly False = Inr IdMatch"
    by code_simp+
  have w: "write_memory_by_id ref_gix 0 (table_serde ex_table) unary_uuids feature_repo ''g'' 2 (table_text ''c'' ''b'') ex_author
     \<lparr> wo_mode = BySlugOnly, wo_force = False, wo_message = Some ''create feature g (supersedes f)'', wo_override = False \<rparr>
     = (Inr (successor_hex, IdMatch), successor_repo,
        write_note (table_serde ex_table) unary_uuids ''memories/g/uuu.md'' (table_text ''c'' ''b'') successor_hex)"
    by (rule write_by_id_runs [OF ex_paths(2) e(1,2) f]) (use e c in simp_all)
  have p2: "prepare_feature_update feature_env successor_repo ''f'' ?spec = Inr (?m, ?old, table_text ''d'' [])"
    by code_simp
  have "commit_runs successor_repo ''mark f superseded by g'' [(''memories/f/uu.md'', Some (table_text ''d'' []))]" by code_simp
  note c2 = commit_runs_result [OF this, folded superseded_repo_def]
  have w2: "write_file_at_path ref_gix 0 (table_serde ex_table) unary_uuids successor_repo ''memories/f/uu.md'' (table_text ''d'' []) ex_author
     \<lparr> wo_mode = BySlugOnly, wo_force = False, wo_message = Some ''mark f superseded by g'' \<rparr>
     = (Inr (commit_hex successor_repo ''mark f superseded by g'' [(''memories/f/uu.md'', Some (table_text ''d'' []))], IdMatch),
        superseded_repo,
        write_note (table_serde ex_table) unary_uuids ''memories/f/uu.md'' (table_text ''d'' [])
          (commit_hex successor_repo ''mark f superseded by g'' [(''memories/f/uu.md'', Some (table_text ''d'' []))]))"
    by (rule write_file_runs [OF h]) (use e c2 in simp_all)
  have s: "\<exists>u ns. update_feature_unlocked feature_env ''f'' ?spec ex_author successor_repo = (Inr u, superseded_repo, ns)"
    by (intro exI, unfold update_feature_unlocked_def bind_lift feature_env_parts p2 sum.case prod.case, rule bind_act_runs,
      rule noted_runs, simp add: feature_update_default_def, rule w2) simp
  then obtain u ns where "update_feature_unlocked feature_env ''f'' ?spec ex_author successor_repo = (Inr u, superseded_repo, ns)" by blast
  then have s: "supersede_old_feature feature_env 2 ''g'' successor_hex (Some ?t) ex_author successor_repo
      = (Inr (), superseded_repo, ns)"
    by (simp add: supersede_old_feature_def bind_act_def)
  show thesis
    by (rule that, unfold add_feature_def bind_lift feature_env_parts p sum.case prod.case m, rule bind_act_runs,
        rule noted_runs, rule w, unfold prod.case, rule bind_act_runs, rule s) simp
qed

theorem supersede_links_features_witness:
  "\<exists>b. read_feature feature_env superseded_repo ''f'' None
      = Inr ((superseded_feature (ex_feature\<lparr> ft_body := [] \<rparr>) 2 successor_hex)\<lparr> ft_body := b \<rparr>)"
proof -
  obtain ns where w: "add_feature feature_env 2 ex_successor ex_author feature_repo
    = (Inr (ex_new\<lparr> ft_commit_id := successor_hex \<rparr>), superseded_repo, ns)" by (rule ex_supersede_runs)
  have old: "read_feature feature_env feature_repo ''f'' None = Inr (ex_feature\<lparr> ft_body := [] \<rparr>)" by code_simp
  have f: "fa_supersedes ex_successor = Some ''f''" "utf8_ok (fa_body ex_successor)"
    by (simp_all add: ex_add_def ex_successor_def byte_def)
  have g: "read_feature feature_env feature_repo ''f'' None = Inr o' \<Longrightarrow> utf8_ok (ft_body o')
      \<and> reads_back (en_serde feature_env) (feature_frontmatter (superseded_feature o' 2 c) i refs)" for o' i refs c
    using ex_table_reads_back by (auto simp: old)
  from supersede_links_features [OF _ _ feature_repo_ready w f ex_table_reads_back g, of ref_view ref_base] old
  show ?thesis using ref.gix_backend_axioms unary_uuids_contract by simp
qed

end
