(* ===== verification/Issues.thy ===== *)
theory Issues
  imports Features
begin

text \<open>
  The issue surface of the store (\<open>mmcp-store\<close>, \<open>issues.rs\<close>), the sister of the feature
  surface: the same operations on memories that carry an issue block, with its own statuses, an
  update that refuses to change nothing, and a listing without findings for missing blocks. A
  memory may carry both blocks, and then both surfaces read it.
\<close>

section \<open>Data\<close>

datatype issue_error =
    IMemory import_error
  | NotAnIssue string string
  | ITitleRequired
  | IXref xref_error
  | ISupersedesUnknown string
  | ISupersedesInvalidStatus string issue_status "memory_ref option"
  | INoChangesSupplied

record issue_add =
  ia_slug :: "string option"
  ia_title :: string
  ia_description :: string
  ia_body :: string
  ia_status :: issue_status
  ia_number :: "32 word option"
  ia_depends_on :: "uuid list"
  ia_blocks :: "uuid list"
  ia_refs :: "memory_ref list"
  ia_supersedes :: "string option"
  ia_source :: "uuid option"
  ia_message :: "string option"

record issue_update =
  iu_title :: "string option"
  iu_description :: "string option"
  iu_body :: "string option"
  iu_status :: "issue_status option"
  iu_depends_on :: "uuid list option"
  iu_blocks :: "uuid list option"
  iu_refs_add :: "memory_ref list option"
  iu_refs_remove :: "uuid list option"
  iu_superseded_by :: "memory_ref option"
  iu_message :: "string option"

definition issue_update_default :: issue_update where
  "issue_update_default =
     \<lparr> iu_title = None, iu_description = None, iu_body = None, iu_status = None, iu_depends_on = None,
       iu_blocks = None, iu_refs_add = None, iu_refs_remove = None, iu_superseded_by = None,
       iu_message = None \<rparr>"

record issue_summary =
  it_slug :: string
  it_title :: string
  it_description :: string
  it_status :: issue_status
  it_number :: "32 word option"
  it_depends_on :: "uuid list"
  it_blocks :: "uuid list"
  it_superseded_by :: "memory_ref option"
  it_commit_id :: string

record issue_record = issue_summary +
  it_body :: string

definition issue_summary_of :: "issue_record \<Rightarrow> issue_summary" where
  "issue_summary_of rc =
     \<lparr> it_slug = it_slug rc, it_title = it_title rc, it_description = it_description rc,
       it_status = it_status rc, it_number = it_number rc, it_depends_on = it_depends_on rc,
       it_blocks = it_blocks rc, it_superseded_by = it_superseded_by rc,
       it_commit_id = it_commit_id rc \<rparr>"

section \<open>Reading\<close>

definition build_issue_file :: "string \<Rightarrow> string \<Rightarrow> string \<Rightarrow> issue_metadata \<Rightarrow> memory_file" where
  "build_issue_file title description body metadata =
     \<lparr> mf_frontmatter = with_issue (frontmatter_new title description KIssue) metadata,
       mf_body = body, mf_format = TomlPlus \<rparr>"

definition issue_from_file :: "string \<Rightarrow> memory_file \<Rightarrow> string \<Rightarrow> issue_error + issue_record" where
  "issue_from_file slug file commit_id =
     (let fm = mf_frontmatter file; kind = kind_as_str (fm_kind fm) in
      bind_res (require_block slug kind (fm_issue fm) NotAnIssue) (\<lambda>m.
        Inr \<lparr> it_slug = slug, it_title = fm_name fm, it_description = fm_description fm,
              it_status = istatus m, it_number = inumber m, it_depends_on = idepends_on m,
              it_blocks = iblocks m, it_superseded_by = isuperseded_by m,
              it_commit_id = commit_id, it_body = mf_body file \<rparr>))"

definition read_issue :: "('ed, 'pod) env \<Rightarrow> repo \<Rightarrow> string \<Rightarrow> string option \<Rightarrow> issue_error + issue_record" where
  "read_issue env r slug at =
     bind_res (map_err (\<lambda>e. IMemory (SlugErr e)) (validate_memory_slug slug)) (\<lambda>_.
     bind_res (map_err IMemory (resolve_memory (en_gix env) (en_uuids env) (en_serde env) r (Some slug) None)) (\<lambda>resolved.
     bind_res (map_err (\<lambda>e. case e of
           PathNotFound _ \<Rightarrow> IMemory (MemoryNotFound (Some slug) (Some (rm_id resolved)))
         | other \<Rightarrow> IMemory (GitErr other))
         (read_file (en_gix env) r (rm_path resolved) (rev_of_arg at))) (\<lambda>bytes.
     bind_res (map_err (\<lambda>e. IMemory (ParseErr e)) (parse_memory_file (en_serde env) (utf8_lossy bytes))) (\<lambda>file.
       issue_from_file slug file []))))"

definition read_issue_refs :: "('ed, 'pod) env \<Rightarrow> repo \<Rightarrow> string \<Rightarrow> issue_error + memory_ref list" where
  "read_issue_refs env r path =
     bind_res (map_err (\<lambda>e. IMemory (GitErr e)) (read_file (en_gix env) r path Head)) (\<lambda>bytes.
       if \<not> utf8_ok bytes then Inl (IMemory (RenderErr (utf8_error_display bytes)))
       else
         map_ok (\<lambda>file. fm_refs (mf_frontmatter file))
           (map_err (\<lambda>e. IMemory (ParseErr e)) (parse_memory_file (en_serde env) bytes)))"

definition supersedable_issue :: "issue_record \<Rightarrow> issue_error + unit" where
  "supersedable_issue rc =
     (case it_status rc of
        ISuperseded \<Rightarrow> Inl (ISupersedesInvalidStatus (it_slug rc) ISuperseded (it_superseded_by rc))
      | IWontfix \<Rightarrow> Inl (ISupersedesInvalidStatus (it_slug rc) IWontfix None)
      | IDuplicate \<Rightarrow> Inl (ISupersedesInvalidStatus (it_slug rc) IDuplicate None)
      | _ \<Rightarrow> Inr ())"

definition resolve_issue_target :: "('ed, 'pod) env \<Rightarrow> repo \<Rightarrow> string \<Rightarrow> issue_error + supersede_target" where
  "resolve_issue_target env r query =
     bind_res (map_err (\<lambda>e. case e of
           IMemory (MemoryNotFound _ _) \<Rightarrow> ISupersedesUnknown query
         | other \<Rightarrow> other) (read_issue env r query None)) (\<lambda>rc.
     bind_res (supersedable_issue rc) (\<lambda>_.
     bind_res (map_err IMemory
         (resolve_memory (en_gix env) (en_uuids env) (en_serde env) r (Some (it_slug rc)) None)) (\<lambda>resolved.
       Inr \<lparr> st_slug = it_slug rc, st_id = rm_id resolved, st_head_commit = it_commit_id rc \<rparr>)))"

section \<open>Update\<close>

definition issue_status_debug :: "issue_status \<Rightarrow> string" where
  "issue_status_debug s =
     (case s of
        IOpen \<Rightarrow> ''Open'' | IClosed \<Rightarrow> ''Closed'' | IWontfix \<Rightarrow> ''Wontfix'' | IBlocked \<Rightarrow> ''Blocked''
      | IDeferred \<Rightarrow> ''Deferred'' | IDuplicate \<Rightarrow> ''Duplicate'' | ISuperseded \<Rightarrow> ''Superseded'')"

definition issue_supersede_error_display :: "issue_supersede_error \<Rightarrow> string" where
  "issue_supersede_error_display e =
     (case e of
        IMissingSupersededBy \<Rightarrow> ''status is superseded but superseded_by is empty''
      | IUnexpectedSupersededBy s \<Rightarrow>
          ''superseded_by is set but status is '' @ issue_status_debug s @ '', expected superseded'')"

definition has_any_change :: "issue_update \<Rightarrow> bool" where
  "has_any_change spec \<longleftrightarrow>
     iu_title spec \<noteq> None \<or> iu_description spec \<noteq> None \<or> iu_body spec \<noteq> None \<or> iu_status spec \<noteq> None
     \<or> iu_depends_on spec \<noteq> None \<or> iu_blocks spec \<noteq> None \<or> iu_refs_add spec \<noteq> None
     \<or> iu_refs_remove spec \<noteq> None \<or> iu_superseded_by spec \<noteq> None"

definition merge_issue :: "issue_update \<Rightarrow> string \<Rightarrow> issue_record \<Rightarrow> issue_record" where
  "merge_issue spec slug current =
     \<lparr> it_slug = slug, it_title = or_current (iu_title spec) (it_title current),
       it_description = or_current (iu_description spec) (it_description current),
       it_status = or_current (iu_status spec) (it_status current), it_number = it_number current,
       it_depends_on = or_current (iu_depends_on spec) (it_depends_on current),
       it_blocks = or_current (iu_blocks spec) (it_blocks current),
       it_superseded_by = (case iu_superseded_by spec of Some x \<Rightarrow> Some x | None \<Rightarrow> it_superseded_by current),
       it_commit_id = [], it_body = or_current (iu_body spec) (it_body current) \<rparr>"

definition issue_metadata_of :: "issue_record \<Rightarrow> issue_metadata" where
  "issue_metadata_of rc =
     \<lparr> istatus = it_status rc, inumber = it_number rc, idepends_on = it_depends_on rc, iblocks = it_blocks rc,
       isuperseded_by = it_superseded_by rc \<rparr>"

definition render_issue ::
  "('ed, 'pod) env \<Rightarrow> memory_file \<Rightarrow> uuid \<Rightarrow> memory_ref list \<Rightarrow> issue_error + string" where
  "render_issue env file i refs =
     map_err (\<lambda>e. IMemory (RenderErr (memory_parse_error_display e)))
       (memory_file_to_string (en_serde env)
         (file\<lparr> mf_frontmatter := with_refs (with_id (mf_frontmatter file) i) refs \<rparr>))"

definition prepare_issue_update ::
  "('ed, 'pod) env \<Rightarrow> repo \<Rightarrow> string \<Rightarrow> issue_update \<Rightarrow> issue_error + (resolved_memory \<times> issue_record \<times> string)" where
  "prepare_issue_update env r slug spec =
     bind_res (map_err IMemory (resolve_memory (en_gix env) (en_uuids env) (en_serde env) r (Some slug) None)) (\<lambda>resolved.
     bind_res (read_issue env r slug None) (\<lambda>current.
     bind_res (read_issue_refs env r (rm_path resolved)) (\<lambda>current_refs.
       let new = merge_issue spec slug current;
           refs = compose_refs current_refs (iu_refs_remove spec) (iu_refs_add spec)
       in bind_res (map_err (\<lambda>e. IMemory (RenderErr (issue_supersede_error_display e)))
              (validate_issue_supersede_invariant (issue_metadata_of new))) (\<lambda>_.
          map_ok (\<lambda>rendered. (resolved, new, rendered))
            (render_issue env
              (build_issue_file (it_title new) (it_description new) (it_body new) (issue_metadata_of new))
              (rm_id resolved) refs)))))"

definition update_issue_unlocked ::
  "('ed, 'pod) env \<Rightarrow> string \<Rightarrow> issue_update \<Rightarrow> resolved_author \<Rightarrow> (issue_error, issue_record) act" where
  "update_issue_unlocked env slug spec author =
     bind_act (lift_res (\<lambda>r. prepare_issue_update env r slug spec)) (\<lambda>(resolved, new, rendered).
     bind_act (err_act IMemory (noted (\<lambda>r. write_file_at_path (en_gix env) (en_now env) (en_serde env) (en_uuids env) r
           (rm_path resolved) rendered author
           \<lparr> wo_mode = rm_mode resolved, wo_force = False,
             wo_message = Some (case iu_message spec of Some m \<Rightarrow> m | None \<Rightarrow> ''update issue '' @ slug) \<rparr>))) (\<lambda>(commit_id, _).
       done_act (new\<lparr> it_commit_id := commit_id \<rparr>)))"

definition update_issue ::
  "('ed, 'pod) env \<Rightarrow> string \<Rightarrow> issue_update \<Rightarrow> resolved_author \<Rightarrow> (issue_error, issue_record) act" where
  "update_issue env slug spec author =
     (if \<not> has_any_change spec then lift_res (\<lambda>_. Inl INoChangesSupplied)
      else
        bind_act (lift_res (\<lambda>r. map_err IMemory
            (resolve_memory (en_gix env) (en_uuids env) (en_serde env) r (Some slug) None))) (\<lambda>_.
          update_issue_unlocked env slug spec author))"

section \<open>Create\<close>

definition issue_slug :: "('ed, 'pod) env \<Rightarrow> issue_add \<Rightarrow> issue_error + string" where
  "issue_slug env spec =
     (if trim (ia_title spec) = [] \<and> ia_slug spec = None then Inl ITitleRequired
      else
        (let slug = (case ia_slug spec of
                       Some raw \<Rightarrow> raw
                     | None \<Rightarrow> slugify_filename (en_slugify env) (en_slug_env env) (en_slug_config env) (ia_title spec))
         in map_ok (\<lambda>_. slug) (map_err (\<lambda>e. IMemory (SlugErr e)) (validate_memory_slug slug))))"

definition new_issue :: "issue_add \<Rightarrow> string \<Rightarrow> 32 word option \<Rightarrow> issue_record" where
  "new_issue spec slug number =
     \<lparr> it_slug = slug, it_title = ia_title spec, it_description = ia_description spec, it_status = ia_status spec,
       it_number = number, it_depends_on = ia_depends_on spec, it_blocks = ia_blocks spec, it_superseded_by = None,
       it_commit_id = [], it_body = ia_body spec \<rparr>"

definition prepare_issue ::
  "('ed, 'pod) env \<Rightarrow> uuid \<Rightarrow> repo \<Rightarrow> issue_add
    \<Rightarrow> issue_error + (issue_record \<times> supersede_target option \<times> string)" where
  "prepare_issue env fresh r spec =
     bind_res (issue_slug env spec) (\<lambda>slug.
     bind_res (case ia_supersedes spec of
         Some query \<Rightarrow> map_ok Some (resolve_issue_target env r query) | None \<Rightarrow> Inr None) (\<lambda>target.
     bind_res (case ia_number spec of
         Some n \<Rightarrow> Inr n | None \<Rightarrow> map_err IMemory (next_ticket_number env r)) (\<lambda>number.
       let new = new_issue spec slug (Some number);
           file = build_issue_file (ia_title spec) (ia_description spec) (ia_body spec) (issue_metadata_of new);
           stamped = file\<lparr> mf_frontmatter := with_source (with_refs (with_id (mf_frontmatter file) fresh)
             (add_refs (ia_refs spec) target)) (ia_source spec) \<rparr>
       in map_ok (\<lambda>rendered. (new, target, rendered))
            (map_err (\<lambda>e. IMemory (RenderErr (memory_parse_error_display e)))
              (memory_file_to_string (en_serde env) stamped)))))"

definition add_issue_message :: "issue_add \<Rightarrow> string \<Rightarrow> supersede_target option \<Rightarrow> string" where
  "add_issue_message spec slug target =
     (case ia_message spec of
        Some m \<Rightarrow> m
      | None \<Rightarrow>
          (case target of
             Some t \<Rightarrow> ''create issue '' @ slug @ '' (supersedes '' @ st_slug t @ '')''
           | None \<Rightarrow> ''create issue '' @ slug))"

definition supersede_old_issue ::
  "('ed, 'pod) env \<Rightarrow> uuid \<Rightarrow> string \<Rightarrow> string \<Rightarrow> supersede_target option \<Rightarrow> resolved_author \<Rightarrow> (issue_error, unit) act" where
  "supersede_old_issue env fresh slug commit_id target author =
     (case target of
        None \<Rightarrow> done_act ()
      | Some t \<Rightarrow>
          bind_act (update_issue_unlocked env (st_slug t)
            (issue_update_default\<lparr> iu_status := Some ISuperseded,
               iu_superseded_by := Some (memory_ref_new fresh commit_id),
               iu_message := Some (''mark '' @ st_slug t @ '' superseded by '' @ slug) \<rparr>) author) (\<lambda>_. done_act ()))"

definition add_issue ::
  "('ed, 'pod) env \<Rightarrow> uuid \<Rightarrow> issue_add \<Rightarrow> resolved_author \<Rightarrow> (issue_error, issue_record) act" where
  "add_issue env fresh spec author =
     bind_act (lift_res (\<lambda>r. prepare_issue env fresh r spec)) (\<lambda>(new, target, rendered).
     bind_act (err_act IMemory (noted (\<lambda>r. write_memory_by_id (en_gix env) (en_now env) (en_serde env) (en_uuids env) r
           (it_slug new) fresh rendered author
           \<lparr> wo_mode = BySlugOnly, wo_force = False,
             wo_message = Some (add_issue_message spec (it_slug new) target), wo_override = False \<rparr>))) (\<lambda>(commit_id, _).
     bind_act (supersede_old_issue env fresh (it_slug new) commit_id target author) (\<lambda>_.
       done_act (new\<lparr> it_commit_id := commit_id \<rparr>))))"

section \<open>Rename and delete\<close>

definition list_issues_for_slug :: "('ed, 'pod) env \<Rightarrow> repo \<Rightarrow> string \<Rightarrow> issue_error + issue_record list" where
  "list_issues_for_slug env r slug =
     bind_res (map_err IMemory (count_slug_entries env r slug)) (\<lambda>count.
       collect_res (\<lambda>_. read_issue env r slug None) (replicate count ()))"

definition reject_non_issue :: "string \<Rightarrow> memory_file \<Rightarrow> issue_error option" where
  "reject_non_issue slug file =
     (case fm_issue (mf_frontmatter file) of
        None \<Rightarrow> Some (NotAnIssue slug (kind_as_str (fm_kind (mf_frontmatter file))))
      | Some _ \<Rightarrow> None)"

definition prepare_issue_rename ::
  "('ed, 'pod) env \<Rightarrow> repo \<Rightarrow> string \<Rightarrow> string \<Rightarrow> string option \<Rightarrow> issue_error + (string \<times> planned_rename)" where
  "prepare_issue_rename env r old_slug new_slug message =
     bind_res (plan_slug_rename env IMemory (reject_non_issue old_slug) old_slug new_slug r) (\<lambda>planned.
       map_ok (\<lambda>msg. (msg, planned)) (map_err IMemory
         (resolve_commit_message message (''rename issue '' @ old_slug @ '' -> '' @ new_slug))))"

definition rename_issue ::
  "('ed, 'pod) env \<Rightarrow> string \<Rightarrow> string \<Rightarrow> resolved_author \<Rightarrow> string option \<Rightarrow> (issue_error, issue_record list) act" where
  "rename_issue env old_slug new_slug author message =
     bind_act (lift_res (\<lambda>r. bind_res (map_err (\<lambda>e. IMemory (SlugErr e)) (validate_memory_slug old_slug)) (\<lambda>_.
         map_err (\<lambda>e. IMemory (SlugErr e)) (validate_memory_slug new_slug)))) (\<lambda>_.
       if old_slug = new_slug then lift_res (\<lambda>r. list_issues_for_slug env r old_slug)
       else
         bind_act (lift_res (\<lambda>r. prepare_issue_rename env r old_slug new_slug message)) (\<lambda>(msg, planned).
         bind_act (err_act IMemory (unnoted (\<lambda>r. commit_files (en_gix env) (en_now env) r msg planned author))) (\<lambda>_.
           lift_res (\<lambda>r. list_issues_for_slug env r new_slug))))"

definition delete_issue ::
  "('ed, 'pod) env \<Rightarrow> string \<Rightarrow> resolved_author \<Rightarrow> string option \<Rightarrow> (issue_error, string) act" where
  "delete_issue env slug author message =
     bind_act (lift_res (\<lambda>r.
         bind_res (map_err IMemory (resolve_memory (en_gix env) (en_uuids env) (en_serde env) r (Some slug) None)) (\<lambda>_.
         bind_res (map_err (\<lambda>e. case e of NotAnIssue _ _ \<Rightarrow> NotAnIssue slug ''other'' | other \<Rightarrow> other)
             (read_issue env r slug None)) (\<lambda>_.
           map_err IMemory (resolve_memory (en_gix env) (en_uuids env) (en_serde env) r (Some slug) None))))) (\<lambda>resolved.
       err_act IMemory (unnoted (\<lambda>r. delete_file_at_path (en_gix env) (en_now env) r (rm_path resolved) author
         (Some (case message of Some m \<Rightarrow> m | None \<Rightarrow> ''delete issue '' @ slug)))))"

section \<open>Listing\<close>

text \<open>One memory of the listing: the records and findings it adds, or the error that ends it.\<close>

definition classify_issue ::
  "string \<Rightarrow> issue_status option \<Rightarrow> bool \<Rightarrow> string \<Rightarrow> import_error + memory_file
    \<Rightarrow> issue_error + (issue_record list \<times> finding list)" where
  "classify_issue g status_filter show_all slug outcome =
     (case outcome of
        Inr file \<Rightarrow>
          (case issue_from_file slug file [] of
             Inr rc \<Rightarrow>
               Inr (if listing_keeps_status issue_status_is_default_hidden (it_status rc) status_filter show_all
                    then [rc] else [], [])
           | Inl (NotAnIssue s kind) \<Rightarrow> Inr ([], [])
           | Inl other \<Rightarrow> Inl other)
      | Inl (ParseErr err) \<Rightarrow> Inr ([], [parse_failed_finding g slug err])
      | Inl other \<Rightarrow> Inl (IMemory other))"

fun list_issues_loop ::
  "string \<Rightarrow> issue_status option \<Rightarrow> bool \<Rightarrow> (string \<times> (import_error + memory_file)) list
    \<Rightarrow> issue_record list \<Rightarrow> finding list \<Rightarrow> issue_error + (issue_record list \<times> finding list)" where
  "list_issues_loop g status_filter show_all [] out findings = Inr (out, findings)"
| "list_issues_loop g status_filter show_all ((slug, outcome) # files) out findings =
     bind_res (classify_issue g status_filter show_all slug outcome) (\<lambda>(rs, fs).
       list_issues_loop g status_filter show_all files (out @ rs) (findings @ fs))"

definition issue_order :: "issue_record \<Rightarrow> issue_record \<Rightarrow> ordering" where
  "issue_order a b =
     (case (it_number a, it_number b) of
        (Some x, Some y) \<Rightarrow> if x < y then Less else if x = y then Equal else Greater
      | (Some _, None) \<Rightarrow> Less
      | (None, Some _) \<Rightarrow> Greater
      | (None, None) \<Rightarrow> cmp_bytes (it_slug a) (it_slug b))"

definition list_issues ::
  "('ed, 'pod) env \<Rightarrow> repo \<Rightarrow> string \<Rightarrow> issue_status option \<Rightarrow> bool
    \<Rightarrow> issue_error + (issue_record list \<times> finding list) option" where
  "list_issues env r g status_filter show_all =
     bind_res (map_err IMemory (read_all_slug_files env r Head)) (\<lambda>files.
       case files of
         None \<Rightarrow> Inr None
       | Some fs \<Rightarrow>
           map_ok (\<lambda>(out, findings). Some (sort_by issue_order out, findings))
             (list_issues_loop g status_filter show_all fs [] []))"

definition list_issue_summaries ::
  "('ed, 'pod) env \<Rightarrow> repo \<Rightarrow> string \<Rightarrow> issue_status option \<Rightarrow> bool
    \<Rightarrow> issue_error + (issue_summary list \<times> finding list) option" where
  "list_issue_summaries env r g status_filter show_all =
     map_ok (map_option (\<lambda>(records, findings). (map issue_summary_of records, findings)))
       (list_issues env r g status_filter show_all)"

section \<open>The operations against the file map\<close>

interpretation issues: tracker_read "\<lambda>env r slug. read_issue env r slug None"
  "\<lambda>slug file. issue_from_file slug file []" IMemory
  by unfold_locales (simp add: read_issue_def rev_of_arg_def)

definition issue_frontmatter :: "issue_record \<Rightarrow> uuid \<Rightarrow> memory_ref list \<Rightarrow> frontmatter" where
  "issue_frontmatter rc i refs =
     with_refs (with_id (with_issue (frontmatter_new (it_title rc) (it_description rc) KIssue) (issue_metadata_of rc)) i) refs"

lemma issue_from_updated:
  assumes "mf_frontmatter h = issue_frontmatter rc i refs" "it_slug rc = slug"
  shows "issue_from_file slug h [] = Inr (rc\<lparr> it_commit_id := [], it_body := mf_body h \<rparr>)"
  using assms by (simp add: issue_from_file_def require_block_def issue_frontmatter_def
      builder_defs issue_metadata_of_def Let_def)

lemma issue_order_laws:
  "issue_order x y = Greater \<longleftrightarrow> issue_order y x = Less"
  "\<lbrakk> issue_order x y \<noteq> Greater; issue_order y z \<noteq> Greater \<rbrakk> \<Longrightarrow> issue_order x z \<noteq> Greater"
  by (auto simp: issue_order_def split: option.splits if_splits)

interpretation issues: tracker_listing list_issues_loop classify_issue issue_order
  by unfold_locales (simp, simp, fact issue_order_laws(1), fact issue_order_laws(2))

lemma classify_issue_Inl:
  "classify_issue g f a slug outcome = Inl e \<longleftrightarrow>
     (\<exists>err. outcome = Inl err \<and> (\<forall>p. err \<noteq> ParseErr p) \<and> e = IMemory err)"
  by (auto simp: classify_issue_def issue_from_file_def require_block_def Let_def bind_res_eq_Inl bind_res_eq_Inr ok_or_def
      split: sum.splits import_error.splits issue_error.splits option.splits)

lemma classify_issue_records:
  "(\<exists>p. classify_issue g f a slug outcome = Inr p \<and> x \<in> set (fst p)) \<longleftrightarrow>
     (\<exists>file. outcome = Inr file \<and> issue_from_file slug file [] = Inr x
        \<and> listing_keeps_status issue_status_is_default_hidden (it_status x) f a)"
  by (auto simp: classify_issue_def issue_from_file_def require_block_def Let_def bind_res_eq_Inl bind_res_eq_Inr ok_or_def
      split: sum.splits import_error.splits issue_error.splits option.splits)

lemma classify_issue_findings:
  "(\<exists>p. classify_issue g f a slug outcome = Inr p \<and> x \<in> set (snd p)) \<longleftrightarrow>
     (\<exists>err. outcome = Inl (ParseErr err) \<and> x = parse_failed_finding g slug err)"
  by (auto simp: classify_issue_def issue_from_file_def require_block_def Let_def bind_res_eq_Inl bind_res_eq_Inr ok_or_def
      split: sum.splits import_error.splits issue_error.splits option.splits)

text \<open>
  C25. The listing of a group, on every branch: it fails exactly when one slug cannot be read for a
  reason other than its frontmatter; otherwise it holds, sorted, exactly the records of the
  memories with an issue block that the filter keeps, whatever their kind, and a finding for
  exactly each memory that does not parse.
\<close>

theorem list_issues_spec:
  assumes "uuid_contract (en_uuids env)" and "list_memory_slug_dirs (en_gix env) r Head = Inr dirs"
    and "root_tree_id (en_gix env) r Head = Inr root"
  shows "case list_issues env r g f a of
      Inl e \<Rightarrow> \<exists>d\<in>set dirs. \<exists>err. read_slug_dir env r Head d = Inl err \<and> (\<forall>p. err \<noteq> ParseErr p) \<and> e = IMemory err
    | Inr None \<Rightarrow> False
    | Inr (Some (rs, fs)) \<Rightarrow>
        sorted_wrt (\<lambda>x y. issue_order x y \<noteq> Greater) rs
        \<and> (\<forall>x. x \<in> set rs \<longleftrightarrow> (\<exists>d\<in>set dirs. \<exists>file. read_slug_dir env r Head d = Inr file
              \<and> issue_from_file (ld_slug d) file [] = Inr x
              \<and> listing_keeps_status issue_status_is_default_hidden (it_status x) f a))
        \<and> (\<forall>x. x \<in> set fs \<longleftrightarrow> (\<exists>d\<in>set dirs. \<exists>err. read_slug_dir env r Head d = Inl (ParseErr err)
              \<and> x = parse_failed_finding g (ld_slug d) err))"
proof -
  let ?files = "map (\<lambda>d. (ld_slug d, read_slug_dir env r Head d)) dirs"
  have l: "list_issues env r g f a =
      map_ok (\<lambda>(out, findings). Some (sort_by issue_order out, findings)) (list_issues_loop g f a ?files [] [])"
    by (simp add: list_issues_def read_all_slugs_listed [OF assms])
  show ?thesis
  proof (cases "list_issues_loop g f a ?files [] []")
    case (Inl e)
    from issues.loop_Inl [OF this] show ?thesis by (auto simp: l Inl classify_issue_Inl)
  next
    case (Inr p)
    obtain rs fs where p: "p = (rs, fs)" by fastforce
    from issues.loop_Inr [OF Inr [unfolded p]] issues.sort_by_sorted show ?thesis
      by (simp add: l Inr p classify_issue_records classify_issue_findings del: split_paired_Ex)
  qed
qed

section \<open>Update\<close>

lemma prepare_issue_update_Inr:
  assumes "prepare_issue_update env r slug spec = Inr (resolved, new, rendered)"
  obtains current current_refs f where
    "resolve_by_slug (en_gix env) (en_uuids env) r slug = Inr resolved"
    "read_issue env r slug None = Inr current" "read_issue_refs env r (rm_path resolved) = Inr current_refs"
    "new = merge_issue spec slug current" "validate_issue_supersede_invariant (issue_metadata_of new) = Inr ()"
    "memory_file_to_string (en_serde env) f = Inr rendered" "mf_format f = TomlPlus" "mf_body f = it_body new"
    "mf_frontmatter f = issue_frontmatter new (rm_id resolved)
       (compose_refs current_refs (iu_refs_remove spec) (iu_refs_add spec))"
proof -
  from assms obtain current current_refs where
    r: "resolve_by_slug (en_gix env) (en_uuids env) r slug = Inr resolved"
      "read_issue env r slug None = Inr current" "read_issue_refs env r (rm_path resolved) = Inr current_refs"
      "new = merge_issue spec slug current" "validate_issue_supersede_invariant (issue_metadata_of new) = Inr ()"
    and w: "render_issue env (build_issue_file (it_title new) (it_description new) (it_body new) (issue_metadata_of new))
        (rm_id resolved) (compose_refs current_refs (iu_refs_remove spec) (iu_refs_add spec)) = Inr rendered"
    by (auto simp: prepare_issue_update_def bind_res_eq_Inr Let_def map_ok_def resolve_memory_def)
  from w have "memory_file_to_string (en_serde env)
      ((build_issue_file (it_title new) (it_description new) (it_body new) (issue_metadata_of new))
        \<lparr> mf_frontmatter := issue_frontmatter new (rm_id resolved)
            (compose_refs current_refs (iu_refs_remove spec) (iu_refs_add spec)) \<rparr>) = Inr rendered"
    by (simp add: render_issue_def build_issue_file_def issue_frontmatter_def)
  from that [OF r this] show thesis by (simp add: build_issue_file_def)
qed

lemma update_issue_Inr:
  assumes "update_issue env slug spec author r = (Inr rc, r', notes)"
  obtains resolved new rendered hex v opts ns where "has_any_change spec"
    "prepare_issue_update env r slug spec = Inr (resolved, new, rendered)"
    "write_file_at_path (en_gix env) (en_now env) (en_serde env) (en_uuids env) r (rm_path resolved) rendered author
       (opts :: write_options) = (Inr (hex, v), r', ns)"
    "rc = new\<lparr> it_commit_id := hex \<rparr>"
proof -
  from assms have u: "has_any_change spec" "update_issue_unlocked env slug spec author r = (Inr rc, r', notes)"
    by (auto simp: update_issue_def split: sum.splits if_splits)
  then obtain resolved new rendered where p: "prepare_issue_update env r slug spec = Inr (resolved, new, rendered)"
    by (cases "prepare_issue_update env r slug spec") (auto simp: update_issue_unlocked_def)
  with u that [OF u(1) p] show thesis by (auto simp: update_issue_unlocked_def act_Inr)
qed


section \<open>The operations at work\<close>

text \<open>The repository with the file of the feature \<open>f\<close>, read as a memory that carries both blocks.\<close>

definition hybrid_issue :: issue_record where
  "hybrid_issue =
     \<lparr> it_slug = ''f'', it_title = ''T'', it_description = ''D'', it_status = IOpen, it_number = Some 3,
       it_depends_on = [], it_blocks = [], it_superseded_by = None, it_commit_id = [], it_body = [] \<rparr>"

definition hybrid_frontmatter :: frontmatter where
  "hybrid_frontmatter = with_issue (created_frontmatter ex_feature 1 [] None) (issue_metadata_of hybrid_issue)"

definition close_spec :: issue_update where
  "close_spec = issue_update_default\<lparr> iu_status := Some IClosed, iu_message := Some ''c'' \<rparr>"

definition issue_table :: "(string \<times> frontmatter) list" where
  "issue_table =
     [(''a'', hybrid_frontmatter), (''e'', issue_frontmatter (hybrid_issue\<lparr> it_status := IClosed \<rparr>) 1 [])]"

definition issue_env :: "(ref_editor, string) env" where
  "issue_env = ex_env (table_serde issue_table)"

definition closed_repo :: repo where
  "closed_repo = after_commit feature_repo ''c'' [(''memories/f/uu.md'', Some (table_text ''e'' []))]"

lemma issue_env_parts [simp]:
  "en_gix issue_env = ref_gix" "en_uuids issue_env = unary_uuids" "en_serde issue_env = table_serde issue_table"
  "en_now issue_env = 0"
  by (simp_all add: issue_env_def ex_env_def)

lemma issue_table_reads_back: "reads_back (en_serde issue_env) fm"
proof -
  have "distinct (map fst issue_table)" by (simp add: issue_table_def)
  moreover have "list_all (\<lambda>s. utf8_ok s \<and> trim s = s \<and> plain_front plus_fence s) (map fst issue_table)"
    by (simp add: issue_table_def, intro conjI) code_simp+
  then have "list_all (\<lambda>(s, fm). utf8_ok s \<and> trim s = s \<and> plain_front plus_fence s) issue_table"
    by (simp add: list_all_iff case_prod_beta)
  ultimately show ?thesis unfolding issue_env_parts by (rule table_serde_reads_back)
qed

lemma hybrid_reads:
  "read_issue issue_env feature_repo ''f'' None = Inr hybrid_issue"
  "read_feature issue_env feature_repo ''f'' None = Inr (ex_feature\<lparr> ft_body := [] \<rparr>)"
  by code_simp+

lemma close_runs:
  obtains hex ns where "update_issue issue_env ''f'' close_spec ex_author feature_repo
    = (Inr (hybrid_issue\<lparr> it_status := IClosed, it_commit_id := hex \<rparr>), closed_repo, ns)"
proof -
  let ?m = "\<lparr> rm_slug = ''f'', rm_id = 1, rm_path = ''memories/f/uu.md'', rm_mode = BySlugOnly \<rparr>"
  have p: "prepare_issue_update issue_env feature_repo ''f'' close_spec
      = Inr (?m, hybrid_issue\<lparr> it_status := IClosed \<rparr>, table_text ''e'' [])" by code_simp
  have r: "resolve_memory ref_gix unary_uuids (table_serde issue_table) feature_repo (Some ''f'') None = Inr ?m" by code_simp
  have ch: "has_any_change close_spec" by code_simp
  have "case parse_memory_file (table_serde issue_table) (table_text ''e'' []) of Inr f \<Rightarrow> small_file f | Inl _ \<Rightarrow> False" by code_simp
  then obtain f where f: "parse_memory_file (table_serde issue_table) (table_text ''e'' []) = Inr f" "small_file f"
    by (auto split: sum.splits)
  have e: "validate_id_mismatch (table_serde issue_table) unary_uuids ''memories/f/uu.md'' (table_text ''e'' []) BySlugOnly False = Inr IdMatch"
    by code_simp
  have "commit_runs feature_repo ''c'' [(''memories/f/uu.md'', Some (table_text ''e'' []))]" by code_simp
  note c = commit_runs_result [OF this, folded closed_repo_def]
  have w: "write_file_at_path ref_gix 0 (table_serde issue_table) unary_uuids feature_repo ''memories/f/uu.md'' (table_text ''e'' []) ex_author
     \<lparr> wo_mode = BySlugOnly, wo_force = False, wo_message = Some ''c'' \<rparr>
     = (Inr (commit_hex feature_repo ''c'' [(''memories/f/uu.md'', Some (table_text ''e'' []))], IdMatch), closed_repo,
        write_note (table_serde issue_table) unary_uuids ''memories/f/uu.md'' (table_text ''e'' [])
          (commit_hex feature_repo ''c'' [(''memories/f/uu.md'', Some (table_text ''e'' []))]))"
    by (rule write_file_runs [OF f]) (use e c in simp_all)
  have u: "\<exists>ns. update_issue_unlocked issue_env ''f'' close_spec ex_author feature_repo
      = (Inr (hybrid_issue\<lparr> it_status := IClosed, it_commit_id := commit_hex feature_repo ''c'' [(''memories/f/uu.md'', Some (table_text ''e'' []))] \<rparr>), closed_repo, ns)"
    by (intro exI, unfold update_issue_unlocked_def bind_lift issue_env_parts p sum.case prod.case, rule bind_act_runs,
      rule noted_runs, simp add: close_spec_def issue_update_default_def, rule w) simp
  then show thesis using that by (auto simp: update_issue_def ch r)
qed


theorem list_issues_spec_witness:
  "\<exists>fs. list_issues issue_env feature_repo ''grp'' None False = Inr (Some ([hybrid_issue], fs))
    \<and> sorted_wrt (\<lambda>x y. issue_order x y \<noteq> Greater) [hybrid_issue]"
proof -
  have "case list_issues issue_env feature_repo ''grp'' None False of
      Inr (Some (rs, fs)) \<Rightarrow> rs = [hybrid_issue] | _ \<Rightarrow> False" by code_simp
  then obtain fs where l: "list_issues issue_env feature_repo ''grp'' None False = Inr (Some ([hybrid_issue], fs))"
    by (auto split: sum.splits option.splits)
  have "(case list_memory_slug_dirs ref_gix feature_repo Head of Inl _ \<Rightarrow> False | Inr _ \<Rightarrow> True)"
    "(case root_tree_id ref_gix feature_repo Head of Inl _ \<Rightarrow> False | Inr _ \<Rightarrow> True)" by code_simp+
  then obtain dirs root where "list_memory_slug_dirs ref_gix feature_repo Head = Inr dirs"
    "root_tree_id ref_gix feature_repo Head = Inr root" by (auto split: sum.splits)
  with list_issues_spec [of issue_env feature_repo dirs root None False "''grp''"] unary_uuids_contract
  have "sorted_wrt (\<lambda>x y. issue_order x y \<noteq> Greater) [hybrid_issue]" by (simp add: l)
  with l show ?thesis by simp
qed

end
