(* ===== verification/Milestones.thy ===== *)
theory Milestones
  imports Features
begin

text \<open>
  Milestones (\<open>mmcp-store\<close>, \<open>milestones/crud.rs\<close> and \<open>milestones/rollup.rs\<close>): create, read,
  update and list, and the status of a milestone computed from the features of its own group. The
  content cache the rollup queries is a parameter: its rows, or the error that building or
  querying it ends with; the query itself is the filter of its SQL.
\<close>

section \<open>Rollup\<close>

datatype rollup_status = RollupPlanning | RollupBlocked | RollupCompleted | RollupInProgress

definition rollup_status_as_str :: "rollup_status \<Rightarrow> string" where
  "rollup_status_as_str s =
     (case s of
        RollupPlanning \<Rightarrow> ''planning'' | RollupBlocked \<Rightarrow> ''blocked''
      | RollupCompleted \<Rightarrow> ''completed'' | RollupInProgress \<Rightarrow> ''in_progress'')"

record milestone_rollup =
  ru_status :: rollup_status
  ru_counted :: nat
  ru_completed :: nat
  ru_blocked :: nat

datatype cache_error =
    CacheOpen string string
  | CacheQuery string
  | CacheGit git_error
  | UnparseableFeatureStatus string feature_status_parse_error
  | MismatchedHome string string

text \<open>The columns of the cache that the query reads.\<close>

record indexed_row =
  ir_kind :: string
  ir_milestone :: "string option"
  ir_group_id :: string
  ir_status :: "string option"

definition fetch_feature_statuses ::
  "uuids \<Rightarrow> indexed_row list \<Rightarrow> uuid \<Rightarrow> uuid \<Rightarrow> cache_error + feature_status list" where
  "fetch_feature_statuses uu rows owner_group_id milestone_id =
     collect_res (\<lambda>raw. map_err (UnparseableFeatureStatus raw) (feature_status_parse raw))
       (List.map_filter ir_status
         (filter (\<lambda>x. ir_kind x = ''feature'' \<and> ir_milestone x = Some (uu_show uu milestone_id)
            \<and> ir_group_id x = uu_show uu owner_group_id) rows))"

definition rollup_fold :: "feature_status list \<Rightarrow> milestone_rollup" where
  "rollup_fold statuses =
     (let counted = filter (\<lambda>s. \<not> (s = FDuplicate \<or> s = FSuperseded)) statuses;
          completed = length (filter (\<lambda>s. s = FCompleted) counted);
          blocked = length (filter (\<lambda>s. s = FBlocked) counted);
          status =
            (if counted = [] then RollupPlanning
             else if blocked > 0 then RollupBlocked
             else if completed = length counted then RollupCompleted
             else RollupInProgress)
      in \<lparr> ru_status = status, ru_counted = length counted, ru_completed = completed, ru_blocked = blocked \<rparr>)"

definition compute_rollup ::
  "uuids \<Rightarrow> cache_error + indexed_row list \<Rightarrow> uuid \<Rightarrow> uuid \<Rightarrow> cache_error + milestone_rollup" where
  "compute_rollup uu cache owner_group_id milestone_id =
     bind_res cache (\<lambda>rows.
       map_ok rollup_fold (fetch_feature_statuses uu rows owner_group_id milestone_id))"

section \<open>Data\<close>

datatype milestone_error =
    MMemory import_error
  | MCache cache_error
  | NotAMilestone string string
  | MTitleRequired
  | MNoChangesSupplied

record milestone_add =
  ma_slug :: "string option"
  ma_title :: string
  ma_description :: string
  ma_body :: string
  ma_status :: milestone_status
  ma_message :: "string option"

record milestone_update =
  mu_title :: "string option"
  mu_description :: "string option"
  mu_body :: "string option"
  mu_status :: "milestone_status option"
  mu_message :: "string option"

definition milestone_has_any_change :: "milestone_update \<Rightarrow> bool" where
  "milestone_has_any_change spec \<longleftrightarrow>
     mu_title spec \<noteq> None \<or> mu_description spec \<noteq> None \<or> mu_body spec \<noteq> None \<or> mu_status spec \<noteq> None"

record milestone_record =
  mi_slug :: string
  mi_title :: string
  mi_description :: string
  mi_body :: string
  mi_status :: milestone_status
  mi_rollup :: milestone_rollup
  mi_commit_id :: string

definition build_milestone_file :: "string \<Rightarrow> string \<Rightarrow> string \<Rightarrow> milestone_metadata \<Rightarrow> memory_file" where
  "build_milestone_file title description body metadata =
     \<lparr> mf_frontmatter = with_milestone (frontmatter_new title description KMilestone) metadata,
       mf_body = body, mf_format = TomlPlus \<rparr>"

definition require_milestone_metadata :: "string \<Rightarrow> memory_file \<Rightarrow> milestone_error + milestone_metadata" where
  "require_milestone_metadata slug file =
     require_block slug (kind_as_str (fm_kind (mf_frontmatter file))) (fm_milestone (mf_frontmatter file)) NotAMilestone"

definition milestone_from_file ::
  "string \<Rightarrow> memory_file \<Rightarrow> string \<Rightarrow> milestone_rollup \<Rightarrow> milestone_metadata \<Rightarrow> milestone_record" where
  "milestone_from_file slug file commit_id rollup metadata =
     \<lparr> mi_slug = slug, mi_title = fm_name (mf_frontmatter file), mi_description = fm_description (mf_frontmatter file),
       mi_body = mf_body file, mi_status = mstatus metadata, mi_rollup = rollup, mi_commit_id = commit_id \<rparr>"

section \<open>Operations\<close>

text \<open>\<open>g\<close> is the group of the entry.\<close>

definition read_milestone ::
  "('ed, 'pod) env \<Rightarrow> cache_error + indexed_row list \<Rightarrow> uuid \<Rightarrow> repo \<Rightarrow> string \<Rightarrow> string option
    \<Rightarrow> milestone_error + milestone_record" where
  "read_milestone env cache g r slug at =
     bind_res (map_err (\<lambda>e. MMemory (SlugErr e)) (validate_memory_slug slug)) (\<lambda>_.
     bind_res (map_err MMemory (resolve_memory (en_gix env) (en_uuids env) (en_serde env) r (Some slug) None)) (\<lambda>resolved.
     bind_res (map_err (\<lambda>e. case e of
           PathNotFound _ \<Rightarrow> MMemory (MemoryNotFound (Some slug) (Some (rm_id resolved)))
         | other \<Rightarrow> MMemory (GitErr other))
         (read_file (en_gix env) r (rm_path resolved)
           (case at of
              Some v \<Rightarrow> if looks_like_commit_sha v then Commit v else Branch v
            | None \<Rightarrow> Head))) (\<lambda>bytes.
     bind_res (map_err (\<lambda>e. MMemory (ParseErr e)) (parse_memory_file (en_serde env) (utf8_lossy bytes))) (\<lambda>file.
     bind_res (require_milestone_metadata slug file) (\<lambda>metadata.
     bind_res (map_err MCache (compute_rollup (en_uuids env) cache g (rm_id resolved))) (\<lambda>rollup.
       Inr (milestone_from_file slug file [] rollup metadata)))))))"

definition render_milestone :: "('ed, 'pod) env \<Rightarrow> memory_file \<Rightarrow> uuid \<Rightarrow> milestone_error + string" where
  "render_milestone env file i =
     map_err (\<lambda>e. MMemory (RenderErr (memory_parse_error_display e)))
       (memory_file_to_string (en_serde env) (file\<lparr> mf_frontmatter := with_id (mf_frontmatter file) i \<rparr>))"

definition prepare_milestone ::
  "('ed, 'pod) env \<Rightarrow> uuid \<Rightarrow> milestone_add \<Rightarrow> milestone_error + (string \<times> string)" where
  "prepare_milestone env fresh spec =
     (if trim (ma_title spec) = [] \<and> ma_slug spec = None then Inl MTitleRequired
      else
        (let slug = (case ma_slug spec of
                       Some raw \<Rightarrow> raw
                     | None \<Rightarrow> slugify_filename (en_slugify env) (en_slug_env env) (en_slug_config env) (ma_title spec))
         in bind_res (map_err (\<lambda>e. MMemory (SlugErr e)) (validate_memory_slug slug)) (\<lambda>_.
              map_ok (Pair slug)
                (render_milestone env
                  (build_milestone_file (ma_title spec) (ma_description spec) (ma_body spec) \<lparr> mstatus = ma_status spec \<rparr>)
                  fresh))))"

definition add_milestone ::
  "('ed, 'pod) env \<Rightarrow> uuid \<Rightarrow> milestone_add \<Rightarrow> resolved_author \<Rightarrow> (milestone_error, milestone_record) act" where
  "add_milestone env fresh spec author =
     bind_act (lift_res (\<lambda>r. prepare_milestone env fresh spec)) (\<lambda>(slug, rendered).
     bind_act (err_act MMemory (noted (\<lambda>r. write_memory_by_id (en_gix env) (en_now env) (en_serde env) (en_uuids env) r
           slug fresh rendered author
           \<lparr> wo_mode = BySlugOnly, wo_force = False,
             wo_message = Some (case ma_message spec of Some m \<Rightarrow> m | None \<Rightarrow> ''create milestone '' @ slug),
             wo_override = False \<rparr>))) (\<lambda>(commit_id, _).
       done_act \<lparr> mi_slug = slug, mi_title = ma_title spec, mi_description = ma_description spec, mi_body = ma_body spec,
         mi_status = ma_status spec,
         mi_rollup = \<lparr> ru_status = RollupPlanning, ru_counted = 0, ru_completed = 0, ru_blocked = 0 \<rparr>,
         mi_commit_id = commit_id \<rparr>))"

definition merge_milestone :: "milestone_update \<Rightarrow> string \<Rightarrow> milestone_record \<Rightarrow> milestone_record" where
  "merge_milestone spec slug current =
     \<lparr> mi_slug = slug, mi_title = or_current (mu_title spec) (mi_title current),
       mi_description = or_current (mu_description spec) (mi_description current),
       mi_body = or_current (mu_body spec) (mi_body current),
       mi_status = or_current (mu_status spec) (mi_status current), mi_rollup = mi_rollup current, mi_commit_id = [] \<rparr>"

definition prepare_milestone_update ::
  "('ed, 'pod) env \<Rightarrow> cache_error + indexed_row list \<Rightarrow> uuid \<Rightarrow> repo \<Rightarrow> string \<Rightarrow> milestone_update
    \<Rightarrow> milestone_error + (resolved_memory \<times> milestone_record \<times> string)" where
  "prepare_milestone_update env cache g r slug spec =
     (if \<not> milestone_has_any_change spec then Inl MNoChangesSupplied
      else
        bind_res (map_err MMemory (resolve_memory (en_gix env) (en_uuids env) (en_serde env) r (Some slug) None)) (\<lambda>resolved.
        bind_res (read_milestone env cache g r slug None) (\<lambda>current.
          let new = merge_milestone spec slug current in
          map_ok (\<lambda>rendered. (resolved, new, rendered))
            (render_milestone env
              (build_milestone_file (mi_title new) (mi_description new) (mi_body new) \<lparr> mstatus = mi_status new \<rparr>)
              (rm_id resolved)))))"

definition update_milestone ::
  "('ed, 'pod) env \<Rightarrow> cache_error + indexed_row list \<Rightarrow> uuid \<Rightarrow> string \<Rightarrow> milestone_update \<Rightarrow> resolved_author
    \<Rightarrow> (milestone_error, milestone_record) act" where
  "update_milestone env cache g slug spec author =
     bind_act (lift_res (\<lambda>r. prepare_milestone_update env cache g r slug spec)) (\<lambda>(resolved, new, rendered).
     bind_act (err_act MMemory (noted (\<lambda>r. write_file_at_path (en_gix env) (en_now env) (en_serde env) (en_uuids env) r
           (rm_path resolved) rendered author
           \<lparr> wo_mode = rm_mode resolved, wo_force = False,
             wo_message = Some (case mu_message spec of Some m \<Rightarrow> m | None \<Rightarrow> ''update milestone '' @ slug) \<rparr>))) (\<lambda>(commit_id, _).
       done_act (new\<lparr> mi_commit_id := commit_id \<rparr>)))"

text \<open>One slug of the listing: the records and findings it adds, or the error that ends it.\<close>

definition classify_milestone ::
  "string \<Rightarrow> bool \<Rightarrow> string \<Rightarrow> milestone_error + milestone_record
    \<Rightarrow> milestone_error + (milestone_record list \<times> finding list)" where
  "classify_milestone label show_all slug outcome =
     (case outcome of
        Inr rc \<Rightarrow> Inr (if show_all \<or> ru_status (mi_rollup rc) \<noteq> RollupCompleted then [rc] else [], [])
      | Inl (NotAMilestone _ _) \<Rightarrow> Inr ([], [])
      | Inl (MMemory (ParseErr err)) \<Rightarrow> Inr ([], [parse_failed_finding label slug err])
      | Inl other \<Rightarrow> Inl other)"

definition list_milestones ::
  "('ed, 'pod) env \<Rightarrow> cache_error + indexed_row list \<Rightarrow> uuid \<Rightarrow> repo \<Rightarrow> bool
    \<Rightarrow> milestone_error + (milestone_record list \<times> finding list)" where
  "list_milestones env cache g r show_all =
     bind_res (map_err (\<lambda>e. MMemory (GitErr e)) (list_memory_slug_dirs (en_gix env) r Head)) (\<lambda>slug_dirs.
       map_ok (\<lambda>ps. (sort_by (\<lambda>a b. cmp_bytes (mi_slug a) (mi_slug b)) (concat (map fst ps)), concat (map snd ps)))
         (collect_res (\<lambda>d. classify_milestone (uu_show (en_uuids env) g) show_all (ld_slug d)
             (read_milestone env cache g r (ld_slug d) None)) slug_dirs))"

section \<open>Properties\<close>

text \<open>
  The rollup is a function of which statuses occur: features that are duplicates or superseded
  are neutral, a blocked feature wins over everything, and only the absence of any other status
  makes the milestone completed; the counts are those of the occurrences. In particular it does
  not depend on the order of the rows.
\<close>

lemma live_statuses:
  "length (filter (\<lambda>s. \<not> (s = FDuplicate \<or> s = FSuperseded)) xs) + count_list xs FDuplicate + count_list xs FSuperseded = length xs"
  by (induction xs) auto

lemma count_live:
  "y \<noteq> FDuplicate \<Longrightarrow> y \<noteq> FSuperseded \<Longrightarrow>
     length (filter (\<lambda>s. s = y) (filter (\<lambda>s. \<not> (s = FDuplicate \<or> s = FSuperseded)) xs)) = count_list xs y"
  by (induction xs) auto

lemma length_filter_full: "length (filter p xs) = length xs \<longleftrightarrow> (\<forall>x\<in>set xs. p x)"
  by (metis filter_id_conv length_filter_less less_irrefl)

lemma rollup_fold_spec:
  "rollup_fold statuses =
     \<lparr> ru_status =
         (if set statuses \<subseteq> {FDuplicate, FSuperseded} then RollupPlanning
          else if FBlocked \<in> set statuses then RollupBlocked
          else if set statuses \<subseteq> {FDuplicate, FSuperseded, FCompleted} then RollupCompleted
          else RollupInProgress),
       ru_counted = length statuses - count_list statuses FDuplicate - count_list statuses FSuperseded,
       ru_completed = count_list statuses FCompleted, ru_blocked = count_list statuses FBlocked \<rparr>"
proof -
  let ?c = "filter (\<lambda>s. \<not> (s = FDuplicate \<or> s = FSuperseded)) statuses"
  have c: "length ?c = length statuses - count_list statuses FDuplicate - count_list statuses FSuperseded"
    using live_statuses [of statuses] by linarith
  have none: "?c = [] \<longleftrightarrow> set statuses \<subseteq> {FDuplicate, FSuperseded}" by (auto simp: filter_empty_conv)
  have blocked: "0 < count_list statuses FBlocked \<longleftrightarrow> FBlocked \<in> set statuses" by (metis count_list_0_iff gr0I less_numeral_extra(3))
  have n: "length (filter (\<lambda>s. s = FCompleted) ?c) = count_list statuses FCompleted"
    "length (filter (\<lambda>s. s = FBlocked) ?c) = count_list statuses FBlocked" by (rule count_live; simp)+
  have "length (filter (\<lambda>s. s = FCompleted) ?c) = length ?c \<longleftrightarrow> set ?c \<subseteq> {FCompleted}"
    by (simp only: length_filter_full) auto
  also have "\<dots> \<longleftrightarrow> set statuses \<subseteq> {FDuplicate, FSuperseded, FCompleted}" by auto
  finally have all: "count_list statuses FCompleted = length ?c \<longleftrightarrow> set statuses \<subseteq> {FDuplicate, FSuperseded, FCompleted}"
    unfolding n .
  show ?thesis unfolding rollup_fold_def Let_def none n all [unfolded c] blocked c ..
qed

definition feature_statuses_of :: "uuids \<Rightarrow> indexed_row list \<Rightarrow> uuid \<Rightarrow> uuid \<Rightarrow> string set" where
  "feature_statuses_of uu rows g m =
     {s. \<exists>x. x \<in> set rows \<and> ir_kind x = ''feature'' \<and> ir_milestone x = Some (uu_show uu m)
        \<and> ir_group_id x = uu_show uu g \<and> ir_status x = Some s}"

lemma fetched_statuses:
  assumes "fetch_feature_statuses uu rows g m = Inr ss"
  shows "feature_status_as_str ` set ss = feature_statuses_of uu rows g m"
proof -
  let ?raws = "List.map_filter ir_status (filter (\<lambda>x. ir_kind x = ''feature'' \<and> ir_milestone x = Some (uu_show uu m)
      \<and> ir_group_id x = uu_show uu g) rows)"
  from assms have "list_all2 (\<lambda>raw s. raw = feature_status_as_str s) ?raws ss"
    unfolding fetch_feature_statuses_def collect_res_Inr_iff
    by (rule list_all2_mono) (simp add: map_err_eq_Inr feature_st.parse_iff)
  then have "?raws = map feature_status_as_str ss" by (induction rule: list_all2_induct) auto
  then have "feature_status_as_str ` set ss = set ?raws" by simp
  also have "\<dots> = feature_statuses_of uu rows g m" by (auto simp: feature_statuses_of_def List.map_filter_def image_iff) (metis option.sel)
  finally show ?thesis .
qed

text \<open>
  C26. What a milestone reports is decided by the features of its own group alone: it is completed
  exactly when some of them is completed and the others are completed, duplicates or superseded,
  and blocked exactly when one of them is. A row of another group, kind or milestone cannot change
  it, and a status that does not parse is an error, never a completed milestone.
\<close>

theorem milestone_status_own_group:
  assumes "compute_rollup uu cache g m = Inr ru"
  shows "\<exists>rows. cache = Inr rows
    \<and> (ru_status ru = RollupPlanning \<longleftrightarrow> feature_statuses_of uu rows g m \<subseteq> {''duplicate'', ''superseded''})
    \<and> (ru_status ru = RollupBlocked \<longleftrightarrow> ''blocked'' \<in> feature_statuses_of uu rows g m)
    \<and> (ru_status ru = RollupCompleted \<longleftrightarrow> ''completed'' \<in> feature_statuses_of uu rows g m
        \<and> feature_statuses_of uu rows g m \<subseteq> {''duplicate'', ''superseded'', ''completed''})
    \<and> feature_statuses_of uu rows g m \<subseteq> set (map feature_status_as_str feature_status_all)"
proof -
  from assms obtain rows ss where c: "cache = Inr rows" "fetch_feature_statuses uu rows g m = Inr ss" "ru = rollup_fold ss"
    by (auto simp: compute_rollup_def bind_res_eq_Inr map_ok_def)
  have inj: "inj feature_status_as_str" by (simp add: inj_def feature_st.as_str_inject)
  note f = fetched_statuses [OF c(2), symmetric]
  have sub: "feature_statuses_of uu rows g m \<subseteq> feature_status_as_str ` A \<longleftrightarrow> set ss \<subseteq> A" for A
    unfolding f by (rule inj_image_subset_iff [OF inj])
  have mem: "feature_status_as_str x \<in> feature_statuses_of uu rows g m \<longleftrightarrow> x \<in> set ss" for x
    unfolding f by (rule inj_image_mem_iff [OF inj])
  note wire = sub [of "{FDuplicate, FSuperseded}"] sub [of "{FDuplicate, FSuperseded, FCompleted}"] mem [of FBlocked] mem [of FCompleted]
  have st: "ru_status ru =
      (if set ss \<subseteq> {FDuplicate, FSuperseded} then RollupPlanning
       else if FBlocked \<in> set ss then RollupBlocked
       else if set ss \<subseteq> {FDuplicate, FSuperseded, FCompleted} then RollupCompleted
       else RollupInProgress)" by (simp add: c(3) rollup_fold_spec)
  have all: "set ss \<subseteq> set feature_status_all" using feature_st.variants_complete by blast
  show ?thesis
  proof (intro exI conjI)
    show "feature_statuses_of uu rows g m \<subseteq> set (map feature_status_as_str feature_status_all)"
      unfolding f by (auto simp: feature_st.variants_complete)
  qed (use c(1) st wire in \<open>auto simp: feature_status_as_str_def split: if_splits\<close>)
qed

text \<open>Two features of the group \<open>1\<close> and a blocked one that another group filed on the same milestone.\<close>

definition ex_row :: "string \<Rightarrow> string \<Rightarrow> indexed_row" where
  "ex_row g s = \<lparr> ir_kind = ''feature'', ir_milestone = Some ''uu'', ir_group_id = g, ir_status = Some s \<rparr>"

theorem milestone_status_own_group_witness:
  "\<exists>ru. compute_rollup unary_uuids (Inr [ex_row ''uu'' ''completed'', ex_row ''uuu'' ''blocked'', ex_row ''uu'' ''superseded'']) 1 1 = Inr ru
    \<and> ru_status ru = RollupCompleted"
proof -
  let ?rows = "[ex_row ''uu'' ''completed'', ex_row ''uuu'' ''blocked'', ex_row ''uu'' ''superseded'']"
  have "case compute_rollup unary_uuids (Inr ?rows) 1 1 of Inr _ \<Rightarrow> True | Inl _ \<Rightarrow> False" by code_simp
  then obtain ru where ru: "compute_rollup unary_uuids (Inr ?rows) 1 1 = Inr ru" by (auto split: sum.splits)
  have "fetch_feature_statuses unary_uuids ?rows 1 1 = Inr [FCompleted, FSuperseded]" by code_simp
  from fetched_statuses [OF this] have s: "feature_statuses_of unary_uuids ?rows 1 1 = {''completed'', ''superseded''}"
    by (simp add: feature_status_as_str_def)
  from milestone_status_own_group [OF ru] obtain rows where "?rows = rows" and
    c: "ru_status ru = RollupCompleted \<longleftrightarrow> ''completed'' \<in> feature_statuses_of unary_uuids rows 1 1
        \<and> feature_statuses_of unary_uuids rows 1 1 \<subseteq> {''duplicate'', ''superseded'', ''completed''}"
    unfolding sum.inject by (elim exE conjE)
  then have "feature_statuses_of unary_uuids rows 1 1 = {''completed'', ''superseded''}" using s by (simp only:)
  with c have "ru_status ru = RollupCompleted" by simp
  with ru show ?thesis by blast
qed

end
