(* ===== verification/Config.thy ===== *)
theory Config
  imports Slugs
begin

text \<open>
  The project and user configuration (\<open>mmcp-core\<close>, \<open>config/\<close>) and the load set of a session
  (\<open>loadset/\<close>): the remotes a config may declare and the checks on them, the names of the
  environment variables that carry their credentials, and the ordered list of groups a project
  pulls. The TOML library is a parameter: a function from text to the parsed structure.
\<close>

section \<open>Remotes\<close>

datatype remote_auth = NoAuth | SshAgent | BearerAuth

datatype remote =
    MmcpServer string string bool bool
  | DirectGit string string remote_auth "string option" bool bool

definition default_include_in_push_all :: bool where "default_include_in_push_all = True"

definition remote_name :: "remote \<Rightarrow> string" where
  "remote_name x = (case x of MmcpServer name _ _ _ \<Rightarrow> name | DirectGit name _ _ _ _ _ \<Rightarrow> name)"

definition remote_is_default :: "remote \<Rightarrow> bool" where
  "remote_is_default x = (case x of MmcpServer _ _ d _ \<Rightarrow> d | DirectGit _ _ _ _ d _ \<Rightarrow> d)"

definition remote_include_in_push_all :: "remote \<Rightarrow> bool" where
  "remote_include_in_push_all x = (case x of MmcpServer _ _ _ i \<Rightarrow> i | DirectGit _ _ _ _ _ i \<Rightarrow> i)"

definition remote_kind :: "remote \<Rightarrow> string" where
  "remote_kind x = (case x of MmcpServer _ _ _ _ \<Rightarrow> ''mmcp-server'' | DirectGit _ _ _ _ _ _ \<Rightarrow> ''direct-git'')"

definition remote_group :: "remote \<Rightarrow> string option" where
  "remote_group x = (case x of MmcpServer _ _ _ _ \<Rightarrow> None | DirectGit _ _ _ g _ _ \<Rightarrow> g)"

datatype config_error =
    ConfigParse string
  | ConfigRender string
  | DuplicateRemoteName string
  | MultipleDefaultRemotes "string list"

record sync_config =
  sc_server_url :: "string option"
  sc_remotes :: "remote list"

definition sync_config_is_empty :: "sync_config \<Rightarrow> bool" where
  "sync_config_is_empty sc \<longleftrightarrow> sc_server_url sc = None \<and> sc_remotes sc = []"

section \<open>Credential variables\<close>

definition SYNC_TOKEN_ENV :: string where "SYNC_TOKEN_ENV = ''MMCP_SYNC_TOKEN''"
definition SYNC_PUSH_TOKEN_ENV :: string where "SYNC_PUSH_TOKEN_ENV = ''MMCP_SYNC_PUSH_TOKEN''"

definition to_ascii_upper :: "char \<Rightarrow> char" where
  "to_ascii_upper c = (if is_ascii_lowercase c then char_of (byte c - 32) else c)"

definition normalized_remote_name :: "string \<Rightarrow> string" where
  "normalized_remote_name name = map (\<lambda>c. if to_ascii_upper c = CHR ''-'' then CHR ''_'' else to_ascii_upper c) name"

definition token_env_name :: "string \<Rightarrow> string" where
  "token_env_name name = ''MMCP_SYNC_TOKEN_'' @ normalized_remote_name name"

definition push_token_env_name :: "string \<Rightarrow> string" where
  "push_token_env_name name = ''MMCP_SYNC_PUSH_TOKEN_'' @ normalized_remote_name name"

definition nonempty_value :: "string option \<Rightarrow> string option" where
  "nonempty_value v = (case v of Some [] \<Rightarrow> None | _ \<Rightarrow> v)"

definition resolve_token_with :: "(string \<Rightarrow> string option) \<Rightarrow> string option" where
  "resolve_token_with get_env = nonempty_value (get_env SYNC_TOKEN_ENV)"

definition resolve_push_token_with :: "(string \<Rightarrow> string option) \<Rightarrow> string option" where
  "resolve_push_token_with get_env = nonempty_value (get_env SYNC_PUSH_TOKEN_ENV)"

section \<open>Validation\<close>

text \<open>The loop over a \<open>HashSet\<close> of keys: the first entry whose key was seen before.\<close>

fun first_repeat :: "('a \<Rightarrow> 'k) \<Rightarrow> 'k set \<Rightarrow> 'a list \<Rightarrow> 'a option" where
  "first_repeat key seen [] = None"
| "first_repeat key seen (x # xs) =
     (if key x \<in> seen then Some x else first_repeat key (insert (key x) seen) xs)"

definition validate_sync_config :: "sync_config \<Rightarrow> config_error + unit" where
  "validate_sync_config sc =
     (case first_repeat (\<lambda>x. normalized_remote_name (remote_name x)) {} (sc_remotes sc) of
        Some x \<Rightarrow> Inl (DuplicateRemoteName (remote_name x))
      | None \<Rightarrow>
          (let default_names = map remote_name (filter remote_is_default (sc_remotes sc)) in
           if length default_names > 1 then Inl (MultipleDefaultRemotes default_names) else Inr ()))"

lemma first_repeat_None:
  "first_repeat key seen xs = None \<longleftrightarrow> distinct (map key xs) \<and> set (map key xs) \<inter> seen = {}"
  by (induction xs arbitrary: seen) auto

lemma first_repeat_Some:
  "first_repeat key seen xs = Some x \<Longrightarrow>
     \<exists>us vs. xs = us @ x # vs \<and> first_repeat key seen us = None \<and> key x \<in> seen \<union> key ` set us"
proof (induction xs arbitrary: seen)
  case (Cons y ys)
  show ?case
  proof (cases "key y \<in> seen")
    case True
    with Cons.prems show ?thesis by (intro exI [of _ "[]"] exI [of _ ys]) simp
  next
    case False
    with Cons.prems have "first_repeat key (insert (key y) seen) ys = Some x" by simp
    from Cons.IH [OF this] obtain us vs where "ys = us @ x # vs" "first_repeat key (insert (key y) seen) us = None"
      "key x \<in> insert (key y) seen \<union> key ` set us" by blast
    with False show ?thesis by (intro exI [of _ "y # us"] exI [of _ vs]) auto
  qed
qed simp

section \<open>The configuration files\<close>

record subscriptions_config =
  su_no_default_global :: bool
  su_auto_detect_languages :: bool
  su_languages :: "string list"
  su_groups :: "string list"
  su_memories :: "string list"
  su_tags :: "string list"

record project_config =
  pc_project_uuid :: uuid
  pc_project_slug :: "string option"
  pc_sync :: sync_config
  pc_project_remote_only :: bool
  pc_subscriptions :: subscriptions_config

record author_config =
  au_name :: "string option"
  au_email :: "string option"
  au_git_fallback :: "bool option"

record limits_config =
  li_max_auto_slug_length :: "nat option"
  li_min_password_length :: "nat option"
  li_max_password_length :: "nat option"
  li_max_handle_length :: "nat option"

record user_config =
  uc_sync :: sync_config
  uc_author :: "author_config option"
  uc_default_group :: "string option option"
  uc_limits :: "limits_config option"

definition project_from_toml :: "(string \<Rightarrow> string + project_config) \<Rightarrow> string \<Rightarrow> config_error + project_config" where
  "project_from_toml toml source =
     bind_res (map_err ConfigParse (toml source)) (\<lambda>cfg.
     bind_res (validate_sync_config (pc_sync cfg)) (\<lambda>_. Inr cfg))"

definition user_from_toml :: "(string \<Rightarrow> string + user_config) \<Rightarrow> string \<Rightarrow> config_error + user_config" where
  "user_from_toml toml source =
     bind_res (map_err ConfigParse (toml source)) (\<lambda>cfg.
     bind_res (validate_sync_config (uc_sync cfg)) (\<lambda>_. Inr cfg))"

section \<open>The load set\<close>

datatype group_ref = GlobalRef | ProjectRef uuid | LanguageRef string | NamedRef string

definition canonical_name :: "uuids \<Rightarrow> group_ref \<Rightarrow> string" where
  "canonical_name uu g =
     (case g of
        GlobalRef \<Rightarrow> ''global''
      | ProjectRef i \<Rightarrow> uu_show uu i
      | LanguageRef lang \<Rightarrow> ''lang/'' @ lang
      | NamedRef name \<Rightarrow> name)"

definition push_unique :: "group_ref list \<Rightarrow> group_ref \<Rightarrow> group_ref list" where
  "push_unique groups candidate = (if candidate \<in> set groups then groups else groups @ [candidate])"

definition resolve_load_set :: "project_config \<Rightarrow> string list \<Rightarrow> group_ref list" where
  "resolve_load_set config detected =
     (let subs = pc_subscriptions config;
          g0 = [ProjectRef (pc_project_uuid config)];
          g1 = (if su_no_default_global subs then g0 else push_unique g0 GlobalRef);
          g2 = fold (\<lambda>lang g. push_unique g (LanguageRef lang)) (su_languages subs) g1;
          g3 = (if su_auto_detect_languages subs then fold (\<lambda>lang g. push_unique g (LanguageRef lang)) detected g2 else g2)
      in fold (\<lambda>extra g. push_unique g (NamedRef extra)) (su_groups subs) g3)"

definition is_group_adopted :: "uuids \<Rightarrow> string \<Rightarrow> project_config \<Rightarrow> bool" where
  "is_group_adopted uu slug cfg \<longleftrightarrow>
     list_ex (\<lambda>s. s = slug) (su_groups (pc_subscriptions cfg))
     \<or> list_ex (\<lambda>lang. slug = canonical_name uu (LanguageRef lang)) (su_languages (pc_subscriptions cfg))"

text \<open>The buckets in their documented order, and the first occurrences of a list.\<close>

definition load_buckets :: "project_config \<Rightarrow> string list \<Rightarrow> group_ref list" where
  "load_buckets config detected =
     (let subs = pc_subscriptions config in
      [ProjectRef (pc_project_uuid config)]
      @ (if su_no_default_global subs then [] else [GlobalRef])
      @ map LanguageRef (su_languages subs)
      @ (if su_auto_detect_languages subs then map LanguageRef detected else [])
      @ map NamedRef (su_groups subs))"

fun first_occurrences :: "'a list \<Rightarrow> 'a list" where
  "first_occurrences [] = []"
| "first_occurrences (x # xs) = x # filter (\<lambda>y. y \<noteq> x) (first_occurrences xs)"

lemma first_occurrences_set [simp]: "set (first_occurrences xs) = set xs"
  by (induction xs) auto

lemma first_occurrences_distinct: "distinct (first_occurrences xs)"
  by (induction xs) simp_all

lemma first_occurrences_append:
  "first_occurrences (xs @ ys) = first_occurrences xs @ filter (\<lambda>y. y \<notin> set xs) (first_occurrences ys)"
proof (induction xs)
  case (Cons x xs)
  have "(\<lambda>y. y \<notin> set xs \<and> y \<noteq> x) = (\<lambda>y. y \<notin> set (x # xs))" by auto
  with Cons show ?case by (simp add: conj_commute)
qed simp

lemma push_unique_first: "push_unique (first_occurrences ys) x = first_occurrences (ys @ [x])"
  by (simp add: push_unique_def first_occurrences_append)

lemma fold_push_unique:
  "fold (\<lambda>x g. push_unique g (f x)) xs (first_occurrences ys) = first_occurrences (ys @ map f xs)"
  by (induction xs arbitrary: ys) (simp_all add: push_unique_first)

section \<open>Properties\<close>

text \<open>
  The load set lists the project, the global group unless disabled, the configured and the
  detected languages and the extra groups in this order, each at its first occurrence: it has no
  duplicates, starts with the project's group and holds exactly these groups.
\<close>

theorem load_set_first_occurrences:
  "resolve_load_set config detected = first_occurrences (load_buckets config detected)
    \<and> distinct (resolve_load_set config detected)
    \<and> hd (resolve_load_set config detected) = ProjectRef (pc_project_uuid config)
    \<and> set (resolve_load_set config detected) = set (load_buckets config detected)"
proof -
  let ?p = "ProjectRef (pc_project_uuid config)"
  have start: "push_unique [?p] y = first_occurrences [?p, y]"
    "fold (\<lambda>x g. push_unique g (f x)) xs [?p] = first_occurrences (?p # map f xs)"
    for y and f :: "string \<Rightarrow> group_ref" and xs
    using push_unique_first [of "[?p]" y] fold_push_unique [of f xs "[?p]"] by simp_all
  have eq: "resolve_load_set config detected = first_occurrences (load_buckets config detected)"
    by (simp add: resolve_load_set_def load_buckets_def Let_def start fold_push_unique del: first_occurrences.simps)
  moreover have "hd (first_occurrences (load_buckets config detected)) = ProjectRef (pc_project_uuid config)"
    by (simp add: load_buckets_def Let_def)
  ultimately show ?thesis by (simp add: first_occurrences_distinct)
qed

end
