(* ===== verification/Group_Index.thy ===== *)
theory Group_Index
  imports Slug_Files Acl
begin

text \<open>
  Group repositories: the manifest committed at the root of each (\<open>mmcp-core\<close>,
  \<open>manifest/group_manifest.rs\<close>), creating one and reading and writing its manifest
  (\<open>mmcp-git\<close>, \<open>native/backend.rs\<close>), and the index of the groups of the local mirror with
  its lookups (\<open>mmcp-store\<close>, \<open>groups.rs\<close> and \<open>resolve_group\<close> of \<open>memory.rs\<close>). TOML is a
  parameter; the directory listing is a list of items; the iteration order of the index's hash
  map and the completion order of the concurrent scan are parameters.
\<close>

section \<open>Manifests\<close>

definition MANIFEST_FILENAME :: string where "MANIFEST_FILENAME = ''.mmcp.toml''"
definition MANIFEST_SCHEMA_VERSION :: "32 word" where "MANIFEST_SCHEMA_VERSION = 1"

datatype group_owner_hint = HintUser user_id | HintOrg org_id

datatype group_scope = ScopeGlobal | ScopeShared | ScopeProject

definition scope_is_default :: "group_scope \<Rightarrow> bool" where
  "scope_is_default s \<longleftrightarrow> s = ScopeProject"

record group_manifest =
  gm_schema_version :: "32 word"
  gm_group_id :: uuid
  gm_slug :: string
  gm_display_name :: "string option"
  gm_owner :: group_owner_hint
  gm_protected :: bool
  gm_scope :: group_scope
  gm_created_at :: int

definition new_user_owned :: "int \<Rightarrow> uuid \<Rightarrow> string \<Rightarrow> user_id \<Rightarrow> group_manifest" where
  "new_user_owned now i slug owner =
     \<lparr> gm_schema_version = MANIFEST_SCHEMA_VERSION, gm_group_id = i, gm_slug = slug, gm_display_name = None,
       gm_owner = HintUser owner, gm_protected = False, gm_scope = ScopeProject, gm_created_at = now \<rparr>"

definition new_org_owned :: "int \<Rightarrow> uuid \<Rightarrow> string \<Rightarrow> org_id \<Rightarrow> group_manifest" where
  "new_org_owned now i slug owner =
     \<lparr> gm_schema_version = MANIFEST_SCHEMA_VERSION, gm_group_id = i, gm_slug = slug, gm_display_name = None,
       gm_owner = HintOrg owner, gm_protected = False, gm_scope = ScopeProject, gm_created_at = now \<rparr>"

definition set_protected :: "bool \<Rightarrow> group_manifest \<Rightarrow> group_manifest" where
  "set_protected p m = m\<lparr> gm_protected := p \<rparr>"

datatype manifest_error =
    ManifestParse string
  | ManifestRender string
  | UnsupportedSchema "32 word" "32 word"

text \<open>The TOML library on manifests.\<close>

record manifest_toml =
  mt_parse :: "string \<Rightarrow> string + group_manifest"
  mt_render :: "group_manifest \<Rightarrow> string + string"

definition manifest_from_toml :: "manifest_toml \<Rightarrow> string \<Rightarrow> manifest_error + group_manifest" where
  "manifest_from_toml mt source =
     bind_res (map_err ManifestParse (mt_parse mt source)) (\<lambda>parsed.
       if gm_schema_version parsed > MANIFEST_SCHEMA_VERSION
       then Inl (UnsupportedSchema (gm_schema_version parsed) MANIFEST_SCHEMA_VERSION)
       else Inr parsed)"

definition manifest_to_toml :: "manifest_toml \<Rightarrow> group_manifest \<Rightarrow> manifest_error + string" where
  "manifest_to_toml mt m = map_err ManifestRender (mt_render mt m)"

text \<open>
  What is relied on: what the library writes is UTF-8 and parses to what was written.
\<close>

definition toml_contract :: "manifest_toml \<Rightarrow> bool" where
  "toml_contract mt \<longleftrightarrow> (\<forall>m s. mt_render mt m = Inr s \<longrightarrow> utf8_ok s \<and> mt_parse mt s = Inr m)"

section \<open>The repository of a group\<close>

definition MMCP_AUTHOR_NAME :: string where "MMCP_AUTHOR_NAME = ''mmcp''"
definition MMCP_AUTHOR_EMAIL :: string where "MMCP_AUTHOR_EMAIL = ''mmcp@mmcp.invalid''"

text \<open>
  The bare repository at a path, \<open>None\<close> when the path does not exist. \<open>init\<close> is what
  \<open>gix::init_bare\<close> makes; \<open>HEAD\<close> is then pinned to the main branch.
\<close>

definition init_bare :: "string + repo \<Rightarrow> string \<Rightarrow> repo option \<Rightarrow> (git_error + unit) \<times> repo option" where
  "init_bare init path r =
     (case r of
        Some r \<Rightarrow> (Inr (), Some r)
      | None \<Rightarrow>
          (case init of
             Inl e \<Rightarrow> (Inl (OpenRepo path e), None)
           | Inr r \<Rightarrow> (Inr (), Some (r\<lparr> g_head := SymbolicHead (branch_ref MAIN_BRANCH) \<rparr>))))"

definition show_manifest_error :: "(manifest_error \<Rightarrow> string) \<Rightarrow> string \<Rightarrow> manifest_error \<Rightarrow> git_error" where
  "show_manifest_error disp op e = ManifestError op (disp e)"

definition read_manifest ::
  "'ed gix \<Rightarrow> manifest_toml \<Rightarrow> (manifest_error \<Rightarrow> string) \<Rightarrow> (string \<Rightarrow> string) \<Rightarrow> repo \<Rightarrow> git_error + group_manifest" where
  "read_manifest g mt disp utf8_disp r =
     bind_res (read_file g r MANIFEST_FILENAME Head) (\<lambda>bytes.
       if \<not> utf8_ok bytes then Inl (ManifestError ''decode'' (utf8_disp bytes))
       else map_err (show_manifest_error disp ''decode'') (manifest_from_toml mt bytes))"

definition write_manifest ::
  "'ed gix \<Rightarrow> int \<Rightarrow> manifest_toml \<Rightarrow> (manifest_error \<Rightarrow> string) \<Rightarrow> repo \<Rightarrow> group_manifest \<Rightarrow> (git_error + string) \<times> repo" where
  "write_manifest g now mt disp r m =
     (case map_err (show_manifest_error disp ''encode'') (manifest_to_toml mt m) of
        Inl e \<Rightarrow> (Inl e, r)
      | Inr rendered \<Rightarrow>
          write_commit g now r (mmcp_commit ''mmcp: initialize group manifest'' [(MANIFEST_FILENAME, Some rendered)]
            MMCP_AUTHOR_NAME MMCP_AUTHOR_EMAIL))"

text \<open>The handle is the id of the group and the path of its repository.\<close>

type_synonym repo_handle = "uuid \<times> string"

definition repo_path :: "uuids \<Rightarrow> string \<Rightarrow> uuid \<Rightarrow> string" where
  "repo_path uu root i = root @ ''/'' @ uu_show uu i @ ''.git''"

definition create_group_repo ::
  "'ed gix \<Rightarrow> int \<Rightarrow> manifest_toml \<Rightarrow> (manifest_error \<Rightarrow> string) \<Rightarrow> (string \<Rightarrow> string) \<Rightarrow> uuids \<Rightarrow> string \<Rightarrow> string + repo
    \<Rightarrow> repo option \<Rightarrow> group_manifest \<Rightarrow> (git_error + repo_handle) \<times> repo option" where
  "create_group_repo g now mt disp utf8_disp uu root init r m =
     (let path = repo_path uu root (gm_group_id m); handle = (gm_group_id m, path) in
      case init_bare init path r of
        (Inl e, r1) \<Rightarrow> (Inl e, r1)
      | (Inr _, None) \<Rightarrow> (Inl (RepoNotFound path), None)
      | (Inr _, Some r1) \<Rightarrow>
          (case read_manifest g mt disp utf8_disp r1 of
             Inr _ \<Rightarrow> (Inr handle, Some r1)
           | Inl _ \<Rightarrow>
               (case write_manifest g now mt disp r1 m of
                  (Inl e, r2) \<Rightarrow> (Inl e, Some r2)
                | (Inr _, r2) \<Rightarrow> (Inr handle, Some r2))))"

section \<open>The index of the local mirror\<close>

record group_entry =
  ge_handle :: repo_handle
  ge_manifest :: group_manifest
  ge_last_rescan :: int

text \<open>An item of the repositories directory: its name when it is UTF-8, whether it is a directory, its repository.\<close>

record repos_item =
  ri_name :: "string option"
  ri_is_dir :: bool
  ri_path :: string
  ri_repo :: repo

definition scan_candidate :: "uuids \<Rightarrow> repos_item \<Rightarrow> (uuid \<times> repos_item) option" where
  "scan_candidate uu it =
     (if \<not> ri_is_dir it then None
      else
        Option.bind (ri_name it) (\<lambda>name.
        Option.bind (strip_suffix name ''.git'') (\<lambda>stem.
        map_option (\<lambda>i. (i, it)) (uu_parse uu stem))))"

definition scan_entry ::
  "'ed gix \<Rightarrow> manifest_toml \<Rightarrow> (manifest_error \<Rightarrow> string) \<Rightarrow> (string \<Rightarrow> string) \<Rightarrow> int \<Rightarrow> uuid \<times> repos_item \<Rightarrow> group_entry option" where
  "scan_entry g mt disp utf8_disp now c =
     (case read_manifest g mt disp utf8_disp (ri_repo (snd c)) of
        Inl _ \<Rightarrow> None
      | Inr m \<Rightarrow>
          if gm_group_id m \<noteq> fst c then None
          else Some \<lparr> ge_handle = (fst c, ri_path (snd c)), ge_manifest = m, ge_last_rescan = now \<rparr>)"

text \<open>The entries in the order their reads complete.\<close>

definition scan_repos_root ::
  "'ed gix \<Rightarrow> manifest_toml \<Rightarrow> (manifest_error \<Rightarrow> string) \<Rightarrow> (string \<Rightarrow> string) \<Rightarrow> uuids \<Rightarrow> int
    \<Rightarrow> (group_entry list \<Rightarrow> group_entry list) \<Rightarrow> repos_item list \<Rightarrow> group_entry list" where
  "scan_repos_root g mt disp utf8_disp uu now completion items =
     completion (List.map_filter (scan_entry g mt disp utf8_disp now) (List.map_filter (scan_candidate uu) items))"

type_synonym group_index = "uuid \<Rightarrow> group_entry option"

definition refresh_index :: "group_entry list \<Rightarrow> group_index" where
  "refresh_index entries = fold (\<lambda>e idx. idx(gm_group_id (ge_manifest e) \<mapsto> e)) entries Map.empty"

definition index_get :: "group_index \<Rightarrow> uuid \<Rightarrow> group_entry option" where
  "index_get idx i = idx i"

text \<open>The non-blocking lookups; \<open>contended\<close> is whether a writer holds the lock.\<close>

definition try_get :: "bool \<Rightarrow> group_index \<Rightarrow> uuid \<Rightarrow> unit + group_entry option" where
  "try_get contended idx i = (if contended then Inl () else Inr (idx i))"

definition try_scope_of :: "bool \<Rightarrow> group_index \<Rightarrow> uuid \<Rightarrow> group_scope option" where
  "try_scope_of contended idx i = (if contended then None else map_option (\<lambda>e. gm_scope (ge_manifest e)) (idx i))"

definition try_list_ids :: "bool \<Rightarrow> (group_index \<Rightarrow> uuid list) \<Rightarrow> group_index \<Rightarrow> uuid list" where
  "try_list_ids contended keys idx = (if contended then [] else keys idx)"

definition index_list :: "(group_index \<Rightarrow> uuid list) \<Rightarrow> group_index \<Rightarrow> group_entry list" where
  "index_list keys idx = List.map_filter idx (keys idx)"

definition resolve_group ::
  "uuids \<Rightarrow> (group_index \<Rightarrow> uuid list) \<Rightarrow> group_index \<Rightarrow> string \<Rightarrow> import_error + group_entry" where
  "resolve_group uu keys idx query =
     (case Option.bind (uu_parse uu query) (index_get idx) of
        Some e \<Rightarrow> Inr e
      | None \<Rightarrow>
          ok_or (GroupNotFound query)
            (find (\<lambda>e. gm_slug (ge_manifest e) = query) (index_list keys idx)))"

text \<open>The keys of a hash map, each once, in some order.\<close>

definition keys_contract :: "(group_index \<Rightarrow> uuid list) \<Rightarrow> bool" where
  "keys_contract keys \<longleftrightarrow> (\<forall>idx. finite (dom idx) \<longrightarrow> distinct (keys idx) \<and> set (keys idx) = dom idx)"

section \<open>Properties\<close>

lemma entry_sound_head: "entry_sound (r\<lparr> g_head := h \<rparr>) = entry_sound r"
  by (rule ext) (simp add: entry_sound_def)

lemma set_map_filter: "y \<in> set (List.map_filter f xs) \<longleftrightarrow> (\<exists>x\<in>set xs. f x = Some y)"
  by (induction xs) (auto simp: List.map_filter_simps split: option.splits)

lemma manifest_written_reads:
  assumes "gix_backend g view base" "repo_ok r" "head_follows_main r" "toml_contract mt"
    "gm_schema_version m \<le> MANIFEST_SCHEMA_VERSION" "write_manifest g now mt disp r m = (Inr hex, r')"
  shows "read_manifest g mt disp ud r' = Inr m \<and> store_ready r'"
proof -
  from assms(6) obtain s where s: "mt_render mt m = Inr s" and
    w: "write_commit g now r (mmcp_commit ''mmcp: initialize group manifest'' [(MANIFEST_FILENAME, Some s)]
      MMCP_AUTHOR_NAME MMCP_AUTHOR_EMAIL) = (Inr hex, r')"
    by (auto simp: write_manifest_def manifest_to_toml_def map_err_def split: sum.splits)
  let ?spec = "mmcp_commit ''mmcp: initialize group manifest'' [(MANIFEST_FILENAME, Some s)] MMCP_AUTHOR_NAME MMCP_AUTHOR_EMAIL"
  have spec: "cs_branch ?spec = MAIN_BRANCH" "cs_files ?spec = [(MANIFEST_FILENAME, Some s)]" by (simp_all add: mmcp_commit_def)
  from write_commit_ok [OF assms(1,2) w] spec obtain i where
    ok: "repo_ok r'" "g_head r' = g_head r" "g_refs r' = (g_refs r)(branch_ref MAIN_BRANCH \<mapsto> i)" by metis
  from ok assms(3) resolve_head_after [OF assms(3) ok(2,3)] have "head_follows_main r'"
    by (auto simp: head_follows_main_def head_id_def split: git_head.splits)
  then have ready: "store_ready r'" using ok by (simp add: store_ready_def)
  from read_after_commit [OF assms(1,2) w spec(1) assms(3)] spec(2) obtain fs where
    fs: "apply_edits [(MANIFEST_FILENAME, Some s)] (branch_files r (branch_ref MAIN_BRANCH)) = Some fs"
    "read_file g r' MANIFEST_FILENAME Head = ok_or (PathNotFound MANIFEST_FILENAME) (fs (path_components MANIFEST_FILENAME))"
    by metis
  from single_edit [OF fs(1)] fs(2) have "read_file g r' MANIFEST_FILENAME Head = Inr s" by simp
  moreover from assms(4) s have "utf8_ok s" "mt_parse mt s = Inr m" by (auto simp: toml_contract_def)
  ultimately have "read_manifest g mt disp ud r' = Inr m"
    using assms(5) by (simp add: read_manifest_def manifest_from_toml_def not_less)
  with ready show ?thesis by simp
qed


text \<open>
  An existing repository whose manifest does not decode is not refused: its manifest is replaced.
  That holds for a manifest of a newer schema too.
\<close>

lemma create_group_overwrites:
  assumes "gix_backend g view base" "toml_contract mt" "store_ready r" "read_manifest g mt disp ud r = Inl e"
    "gm_schema_version m \<le> MANIFEST_SCHEMA_VERSION"
    "create_group_repo g now mt disp ud uu root init (Some r) m = (Inr h, Some r')"
  shows "read_manifest g mt disp ud r' = Inr m"
proof -
  from assms(4,6) obtain hex where w: "write_manifest g now mt disp r m = (Inr hex, r')"
    by (auto simp: create_group_repo_def init_bare_def Let_def split: sum.splits prod.splits)
  from manifest_written_reads [OF assms(1) _ _ assms(2,5) w] assms(3) show ?thesis by (simp add: store_ready_def)
qed

lemma read_manifest_schema:
  "read_manifest g mt disp ud r = Inr m \<Longrightarrow> gm_schema_version m \<le> MANIFEST_SCHEMA_VERSION"
  by (auto simp: read_manifest_def manifest_from_toml_def bind_res_eq_Inr map_err_def split: sum.splits if_splits)

lemma refresh_index_Some:
  "refresh_index es i = Some e \<Longrightarrow> e \<in> set es \<and> gm_group_id (ge_manifest e) = i"
proof -
  have "fold (\<lambda>e idx. idx(gm_group_id (ge_manifest e) \<mapsto> e)) es idx i = Some e \<Longrightarrow>
      idx i = Some e \<or> e \<in> set es \<and> gm_group_id (ge_manifest e) = i" for idx
  proof (induction es arbitrary: idx)
    case (Cons a es)
    from Cons.IH [of "idx(gm_group_id (ge_manifest a) \<mapsto> a)"] Cons.prems show ?case by (auto split: if_splits)
  qed simp
  from this [of Map.empty] show "refresh_index es i = Some e \<Longrightarrow> e \<in> set es \<and> gm_group_id (ge_manifest e) = i"
    by (simp add: refresh_index_def)
qed

lemma refresh_index_dom: "dom (refresh_index es) = (gm_group_id \<circ> ge_manifest) ` set es"
proof -
  have "dom (fold (\<lambda>e idx. idx(gm_group_id (ge_manifest e) \<mapsto> e)) es idx) = dom idx \<union> (gm_group_id \<circ> ge_manifest) ` set es" for idx
    by (induction es arbitrary: idx) auto
  then show ?thesis by (simp add: refresh_index_def)
qed

definition indexable :: "'ed gix \<Rightarrow> manifest_toml \<Rightarrow> (manifest_error \<Rightarrow> string) \<Rightarrow> (string \<Rightarrow> string) \<Rightarrow> uuids \<Rightarrow> uuid \<Rightarrow> repos_item \<Rightarrow> bool" where
  "indexable g mt disp ud uu i it \<longleftrightarrow> ri_is_dir it
     \<and> (\<exists>stem. ri_name it = Some (stem @ ''.git'') \<and> uu_parse uu stem = Some i)
     \<and> (\<exists>m. read_manifest g mt disp ud (ri_repo it) = Inr m \<and> gm_group_id m = i)"

lemma scan_entry_Some:
  "scan_entry g mt disp ud now (i, it) = Some e \<longleftrightarrow>
     (\<exists>m. read_manifest g mt disp ud (ri_repo it) = Inr m \<and> gm_group_id m = i
       \<and> e = \<lparr> ge_handle = (i, ri_path it), ge_manifest = m, ge_last_rescan = now \<rparr>)"
  by (auto simp: scan_entry_def split: sum.splits if_splits)

lemma scan_candidate_Some:
  "scan_candidate uu it = Some (i, it') \<longleftrightarrow> it' = it \<and> ri_is_dir it
     \<and> (\<exists>stem. ri_name it = Some (stem @ ''.git'') \<and> uu_parse uu stem = Some i)"
  by (auto simp: scan_candidate_def bind_eq_Some_conv strip_suffix_Some)

text \<open>
  C20. The index after a scan holds exactly the groups of directories named by their id whose manifest
  can be read and agrees with the name; each is filed under its own id, with the handle of such a
  directory.
\<close>

theorem index_after_scan:
  assumes "\<And>es. mset (completion es) = mset es"
  shows "dom (refresh_index (scan_repos_root g mt disp ud uu now completion items))
      = {i. \<exists>it\<in>set items. indexable g mt disp ud uu i it}
    \<and> (\<forall>i e. refresh_index (scan_repos_root g mt disp ud uu now completion items) i = Some e \<longrightarrow>
        gm_group_id (ge_manifest e) = i \<and> gm_schema_version (ge_manifest e) \<le> MANIFEST_SCHEMA_VERSION
        \<and> (\<exists>it\<in>set items. indexable g mt disp ud uu i it \<and> ge_handle e = (i, ri_path it)
            \<and> read_manifest g mt disp ud (ri_repo it) = Inr (ge_manifest e)))"
proof -
  let ?es = "scan_repos_root g mt disp ud uu now completion items"
  have set: "e \<in> set ?es \<longleftrightarrow> (\<exists>it\<in>set items. \<exists>i. scan_candidate uu it = Some (i, it) \<and> scan_entry g mt disp ud now (i, it) = Some e)" for e
    using arg_cong [OF assms, of set_mset]
    by (auto simp: scan_repos_root_def set_map_filter scan_candidate_Some) (metis scan_candidate_Some)
  show ?thesis
  proof (intro conjI allI impI)
    show "dom (refresh_index ?es) = {i. \<exists>it\<in>set items. indexable g mt disp ud uu i it}"
    proof (intro equalityI subsetI)
      fix i assume "i \<in> {i. \<exists>it\<in>set items. indexable g mt disp ud uu i it}"
      then obtain it m where it: "it \<in> set items" "scan_candidate uu it = Some (i, it)"
        "read_manifest g mt disp ud (ri_repo it) = Inr m" "gm_group_id m = i"
        by (auto simp: indexable_def scan_candidate_Some)
      then have "\<lparr> ge_handle = (i, ri_path it), ge_manifest = m, ge_last_rescan = now \<rparr> \<in> set ?es"
        unfolding set scan_entry_Some by blast
      then show "i \<in> dom (refresh_index ?es)" unfolding refresh_index_dom
        by (rule rev_image_eqI) (simp add: it(4))
    next
      fix i assume "i \<in> dom (refresh_index ?es)"
      then obtain e where "e \<in> set ?es" "gm_group_id (ge_manifest e) = i" by (auto simp: refresh_index_dom)
      then obtain it where "it \<in> set items" "scan_candidate uu it = Some (i, it)" "scan_entry g mt disp ud now (i, it) = Some e"
        unfolding set by (auto simp: scan_entry_Some)
      then show "i \<in> {i. \<exists>it\<in>set items. indexable g mt disp ud uu i it}"
        unfolding scan_candidate_Some scan_entry_Some indexable_def by blast
    qed
    fix i e assume "refresh_index ?es i = Some e"
    from refresh_index_Some [OF this] have e: "e \<in> set ?es" "gm_group_id (ge_manifest e) = i" by blast+
    then obtain it where it: "it \<in> set items" "scan_candidate uu it = Some (i, it)" "scan_entry g mt disp ud now (i, it) = Some e"
      unfolding set by (auto simp: scan_entry_Some)
    then have rd: "read_manifest g mt disp ud (ri_repo it) = Inr (ge_manifest e)" "ge_handle e = (i, ri_path it)"
      by (auto simp: scan_entry_Some)
    show "gm_group_id (ge_manifest e) = i" by (rule e(2))
    show "gm_schema_version (ge_manifest e) \<le> MANIFEST_SCHEMA_VERSION" by (rule read_manifest_schema [OF rd(1)])
    show "\<exists>it\<in>set items. indexable g mt disp ud uu i it \<and> ge_handle e = (i, ri_path it)
            \<and> read_manifest g mt disp ud (ri_repo it) = Inr (ge_manifest e)"
      using it rd e(2) unfolding scan_candidate_Some indexable_def by blast
  qed
qed

text \<open>
  C21. A lookup of a group succeeds exactly when some group of the mirror has the query as its id
  or as its slug, an id before any slug; what it returns is that group's entry.
\<close>

theorem resolve_group_spec:
  assumes "keys_contract keys" and "finite (dom idx)"
  shows "case resolve_group uu keys idx query of
      Inl err \<Rightarrow> err = GroupNotFound query
        \<and> (\<forall>i. uu_parse uu query = Some i \<longrightarrow> idx i = None)
        \<and> (\<forall>i e. idx i = Some e \<longrightarrow> gm_slug (ge_manifest e) \<noteq> query)
    | Inr e \<Rightarrow>
        (case Option.bind (uu_parse uu query) idx of
           Some e' \<Rightarrow> e = e'
         | None \<Rightarrow> gm_slug (ge_manifest e) = query \<and> (\<exists>i. idx i = Some e))"
proof -
  have keys: "set (keys idx) = dom idx" using assms by (simp add: keys_contract_def)
  have get: "index_get idx = idx" by (rule ext) (simp add: index_get_def)
  show ?thesis
  proof (cases "Option.bind (uu_parse uu query) idx")
    case (Some e)
    then show ?thesis by (simp add: resolve_group_def get)
  next
    case None
    show ?thesis
    proof (cases "find (\<lambda>e. gm_slug (ge_manifest e) = query) (index_list keys idx)")
      case None': None
      have "idx i = Some e \<Longrightarrow> gm_slug (ge_manifest e) \<noteq> query" for i e
        using None' keys by (fastforce simp: find_None_iff index_list_def set_map_filter)
      moreover have "uu_parse uu query = Some i \<Longrightarrow> idx i = None" for i using None by simp
      ultimately show ?thesis using None None' by (simp add: resolve_group_def get)
    next
      case (Some e)
      then have "e \<in> set (index_list keys idx)" "gm_slug (ge_manifest e) = query"
        by (auto simp: find_Some_iff)
      with None Some show ?thesis by (auto simp: resolve_group_def get index_list_def set_map_filter)
    qed
  qed
qed

section \<open>Examples\<close>

definition ex_manifest :: group_manifest where
  "ex_manifest = new_user_owned 0 7 ''team'' (UserId 1)"

definition ex_toml :: manifest_toml where
  "ex_toml = \<lparr> mt_parse = (\<lambda>s. if s = ''m'' then Inr ex_manifest else Inl ''unknown''),
     mt_render = (\<lambda>m. if m = ex_manifest then Inr ''m'' else Inl ''unsupported'') \<rparr>"

lemma ex_toml_contract: "toml_contract ex_toml"
  by (auto simp: toml_contract_def ex_toml_def byte_def split: if_splits)

definition group_repo :: repo where
  "group_repo = (case create_group_repo ref_gix 0 ex_toml (\<lambda>_. []) (\<lambda>_. []) unary_uuids ''r'' (Inr empty_repo) None ex_manifest of
     (_, Some r) \<Rightarrow> r | _ \<Rightarrow> empty_repo)"

definition group_handle :: repo_handle where
  "group_handle = (7, repo_path unary_uuids ''r'' 7)"

lemma group_repo_created:
  "create_group_repo ref_gix 0 ex_toml (\<lambda>_. []) (\<lambda>_. []) unary_uuids ''r'' (Inr empty_repo) None ex_manifest
    = (Inr group_handle, Some group_repo)"
proof -
  have "case create_group_repo ref_gix 0 ex_toml (\<lambda>_. []) (\<lambda>_. []) unary_uuids ''r'' (Inr empty_repo) None ex_manifest of
    (Inr h, Some _) \<Rightarrow> h = group_handle | _ \<Rightarrow> False" by code_simp
  then show ?thesis by (auto simp: group_repo_def split: prod.splits sum.splits option.splits)
qed


definition ex_item :: repos_item where
  "ex_item = \<lparr> ri_name = Some ''uuuuuuuu.git'', ri_is_dir = True, ri_path = ''p'', ri_repo = group_repo \<rparr>"

theorem index_after_scan_witness:
  "dom (refresh_index (scan_repos_root ref_gix ex_toml (\<lambda>_. []) (\<lambda>_. []) unary_uuids 0 id [ex_item])) = {7}"
proof -
  have "map_option fst (scan_candidate unary_uuids ex_item) = Some 7" by code_simp
  then have "\<exists>stem. ri_name ex_item = Some (stem @ ''.git'') \<and> uu_parse unary_uuids stem = Some 7" "ri_is_dir ex_item"
    by (auto simp: scan_candidate_Some)
  moreover have "read_manifest ref_gix ex_toml (\<lambda>_. []) (\<lambda>_. []) (ri_repo ex_item) = Inr ex_manifest" "gm_group_id ex_manifest = 7"
    by code_simp+
  ultimately have "indexable ref_gix ex_toml (\<lambda>_. []) (\<lambda>_. []) unary_uuids i ex_item \<longleftrightarrow> i = 7" for i
    unfolding indexable_def by auto
  with index_after_scan [of id ref_gix ex_toml "\<lambda>_. []" "\<lambda>_. []" unary_uuids 0 "[ex_item]"] show ?thesis by simp
qed

definition sorted_keys :: "group_index \<Rightarrow> uuid list" where
  "sorted_keys idx = sorted_list_of_set (dom idx)"

lemma sorted_keys_contract: "keys_contract sorted_keys"
  by (simp add: keys_contract_def sorted_keys_def)

definition ex_entry :: group_entry where
  "ex_entry = \<lparr> ge_handle = group_handle, ge_manifest = ex_manifest, ge_last_rescan = 0 \<rparr>"

theorem resolve_group_spec_witness:
  "resolve_group unary_uuids sorted_keys [7 \<mapsto> ex_entry] ''team'' = Inr ex_entry"
proof -
  have "uu_parse unary_uuids ''team'' = None" by code_simp
  moreover have "gm_slug (ge_manifest ex_entry) = ''team''"
    by (simp add: ex_entry_def ex_manifest_def new_user_owned_def)
  ultimately show ?thesis
    using resolve_group_spec [OF sorted_keys_contract, where idx = "[7 \<mapsto> ex_entry]" and uu = unary_uuids and query = "''team''"]
    by (auto split: sum.splits if_splits)
qed

end
