(* ===== verification/Remotes.thy ===== *)
theory Remotes
  imports Config Group_Index Git_Remote
begin

text \<open>
  The remotes of a sync (\<open>mmcp-store\<close>, \<open>sync/remotes.rs\<close> and \<open>sync/engine_wiring.rs\<close>, with
  the client values of \<open>mmcp-sync\<close>, \<open>client.rs\<close> and \<open>engine/remote.rs\<close>): the user and the
  project configuration merged into one set with a default, and each remote bound to its
  transport and credentials. The process environment is a function; building the HTTP client may
  fail, which is a parameter.
\<close>

section \<open>Errors\<close>

datatype sync_error =
    InvalidVersion string
  | PendingNotFound string
  | SyncGit git_error
  | SyncTransport string
  | RemoteStatus "16 word" string
  | SyncConflict uuid string string
  | PullDiverged uuid string string
  | PushDiverged uuid string
  | NoDefaultRemote
  | UnknownRemote string
  | GroupNotIndexed uuid
  | GroupIndexContended uuid

datatype store_error =
    StoreIo string string string
  | StoreTomlParse string string
  | StoreTomlSerialize string string
  | ConfigDuplicateRemoteName string string
  | ConfigMultipleDefaultRemotes string "string list"
  | StoreGit git_error
  | StoreManifest manifest_error
  | StoreTranscript string
  | StoreSync string sync_error
  | HomeDirUnresolved
  | RemoteNameCollision string
  | DirectGitMissingGroup string
  | AmbiguousDefaultRemote "string list"
  | InvalidRemoteName string
  | DirectGitGroupNotFound string string import_error
  | TempDirUnavailable string string

section \<open>The effective set\<close>

definition USER_LEGACY_REMOTE_NAME :: string where "USER_LEGACY_REMOTE_NAME = ''user-legacy''"
definition PROJECT_LEGACY_REMOTE_NAME :: string where "PROJECT_LEGACY_REMOTE_NAME = ''project-legacy''"

datatype remote_level = UserLevel | ProjectLevel

record resolved_remote =
  rr_remote :: remote
  rr_level :: remote_level
  rr_direct_git_group :: "string option"

definition rr_name :: "resolved_remote \<Rightarrow> string" where
  "rr_name x = remote_name (rr_remote x)"

definition is_legacy_shorthand :: "resolved_remote \<Rightarrow> bool" where
  "is_legacy_shorthand x \<longleftrightarrow> rr_name x = USER_LEGACY_REMOTE_NAME \<or> rr_name x = PROJECT_LEGACY_REMOTE_NAME"

record effective_remotes =
  ef_remotes :: "resolved_remote list"
  ef_default_index :: "nat option"

definition effective_default :: "effective_remotes \<Rightarrow> resolved_remote option" where
  "effective_default ef = map_option (\<lambda>i. ef_remotes ef ! i) (ef_default_index ef)"

definition summary_label :: "effective_remotes \<Rightarrow> string" where
  "summary_label ef =
     (case effective_default ef of
        Some d \<Rightarrow>
          if length (ef_remotes ef) = 1 then rr_name d
          else dec (length (ef_remotes ef)) @ '' remote(s), default '' @ [CHR 0x27] @ rr_name d @ [CHR 0x27]
      | None \<Rightarrow> ''(no remotes configured)'')"

definition legacy_name :: "remote_level \<Rightarrow> string" where
  "legacy_name level = (case level of UserLevel \<Rightarrow> USER_LEGACY_REMOTE_NAME | ProjectLevel \<Rightarrow> PROJECT_LEGACY_REMOTE_NAME)"

definition resolve_direct_git_group ::
  "uuids \<Rightarrow> string option \<Rightarrow> remote_level \<Rightarrow> project_config \<Rightarrow> string \<Rightarrow> store_error + string" where
  "resolve_direct_git_group uu grp level project name =
     (case (grp, level) of
        (Some g, _) \<Rightarrow> Inr g
      | (None, ProjectLevel) \<Rightarrow> Inr (uu_show uu (pc_project_uuid project))
      | (None, UserLevel) \<Rightarrow> Inl (DirectGitMissingGroup name))"

definition is_ascii_alphanumeric :: "char \<Rightarrow> bool" where
  "is_ascii_alphanumeric c \<longleftrightarrow> is_ascii_lowercase c \<or> is_ascii_uppercase c \<or> is_ascii_digit c"

definition validate_remote_name :: "string \<Rightarrow> store_error + unit" where
  "validate_remote_name name =
     (let charset_valid = name \<noteq> [] \<and> list_all (\<lambda>c. is_ascii_alphanumeric c \<or> c = CHR ''-'' \<or> c = CHR ''_'') name;
          normalized = normalized_remote_name name;
          reserved = normalized = normalized_remote_name USER_LEGACY_REMOTE_NAME
            \<or> normalized = normalized_remote_name PROJECT_LEGACY_REMOTE_NAME
      in if charset_valid \<and> \<not> reserved then Inr () else Inl (InvalidRemoteName name))"

definition collect_remote :: "uuids \<Rightarrow> remote_level \<Rightarrow> project_config \<Rightarrow> remote \<Rightarrow> store_error + resolved_remote" where
  "collect_remote uu level project x =
     bind_res (validate_remote_name (remote_name x)) (\<lambda>_.
     bind_res (case x of
         DirectGit _ _ _ grp _ _ \<Rightarrow> map_ok Some (resolve_direct_git_group uu grp level project (remote_name x))
       | MmcpServer _ _ _ _ \<Rightarrow> Inr None) (\<lambda>direct_git_group.
       Inr \<lparr> rr_remote = x, rr_level = level, rr_direct_git_group = direct_git_group \<rparr>))"

definition legacy_entry :: "sync_config \<Rightarrow> remote_level \<Rightarrow> resolved_remote list" where
  "legacy_entry sc level =
     (case nonempty_value (sc_server_url sc) of
        Some url \<Rightarrow>
          [\<lparr> rr_remote = MmcpServer (legacy_name level) url False True, rr_level = level, rr_direct_git_group = None \<rparr>]
      | None \<Rightarrow> [])"

definition collect_level :: "uuids \<Rightarrow> sync_config \<Rightarrow> remote_level \<Rightarrow> project_config \<Rightarrow> store_error + resolved_remote list" where
  "collect_level uu sc level project =
     map_ok (\<lambda>xs. legacy_entry sc level @ xs) (collect_res (collect_remote uu level project) (sc_remotes sc))"

definition check_name_collisions :: "resolved_remote list \<Rightarrow> store_error + unit" where
  "check_name_collisions xs =
     (case first_repeat (\<lambda>x. normalized_remote_name (rr_name x)) {} xs of
        Some x \<Rightarrow> Inl (RemoteNameCollision (rr_name x))
      | None \<Rightarrow> Inr ())"

definition resolve_default_index :: "resolved_remote list \<Rightarrow> store_error + nat option" where
  "resolve_default_index xs =
     (if xs = [] then Inr None
      else
        (case position (\<lambda>x. rr_level x = ProjectLevel \<and> remote_is_default (rr_remote x)) xs of
           Some i \<Rightarrow> Inr (Some i)
         | None \<Rightarrow>
             (case position (\<lambda>x. rr_level x = UserLevel \<and> remote_is_default (rr_remote x)) xs of
                Some i \<Rightarrow> Inr (Some i)
              | None \<Rightarrow>
                  if length xs = 1 then Inr (Some 0) else Inl (AmbiguousDefaultRemote (map rr_name xs)))))"

definition resolve_effective_remotes :: "uuids \<Rightarrow> user_config \<Rightarrow> project_config \<Rightarrow> store_error + effective_remotes" where
  "resolve_effective_remotes uu user project =
     bind_res (collect_level uu (uc_sync user) UserLevel project) (\<lambda>user_remotes.
     bind_res (collect_level uu (pc_sync project) ProjectLevel project) (\<lambda>project_remotes.
     bind_res (check_name_collisions (user_remotes @ project_remotes)) (\<lambda>_.
       let remotes = (if pc_project_remote_only project then [] else user_remotes) @ project_remotes in
       map_ok (\<lambda>d. \<lparr> ef_remotes = remotes, ef_default_index = d \<rparr>) (resolve_default_index remotes))))"

section \<open>Clients and transports\<close>

record sync_client =
  cl_base_url :: string
  cl_bearer_token :: "string option"
  cl_push_credential :: "string option"

definition sync_client_new :: "(unit \<Rightarrow> string option) \<Rightarrow> string \<Rightarrow> sync_error + sync_client" where
  "sync_client_new http base_url =
     (case http () of
        Some e \<Rightarrow> Inl (SyncTransport e)
      | None \<Rightarrow>
          Inr \<lparr> cl_base_url = trim_end_matches CHR ''/'' base_url, cl_bearer_token = None, cl_push_credential = None \<rparr>)"

definition with_bearer :: "string \<Rightarrow> sync_client \<Rightarrow> sync_client" where
  "with_bearer token c = c\<lparr> cl_bearer_token := Some token \<rparr>"

definition with_push_credential :: "string \<Rightarrow> sync_client \<Rightarrow> sync_client" where
  "with_push_credential token c = c\<lparr> cl_push_credential := Some token \<rparr>"

definition git_url_for :: "uuids \<Rightarrow> sync_client \<Rightarrow> uuid \<Rightarrow> string" where
  "git_url_for uu c i = cl_base_url c @ ''/git/'' @ uu_show uu i @ ''.git''"

definition client_git_credentials :: "sync_client \<Rightarrow> credentials" where
  "client_git_credentials c =
     (case nonempty_value (cl_push_credential c) of Some token \<Rightarrow> BearerHttp token | None \<Rightarrow> NoCredentials)"

datatype remote_transport =
    ServerTransport sync_client
  | GitTransport string credentials uuid

definition transport_credentials :: "remote_transport \<Rightarrow> credentials" where
  "transport_credentials t =
     (case t of ServerTransport c \<Rightarrow> client_git_credentials c | GitTransport _ creds _ \<Rightarrow> creds)"

record bound_remote =
  br_name :: string
  br_default :: bool
  br_include_in_push_all :: bool
  br_transport :: remote_transport

definition tracking_ref :: "bound_remote \<Rightarrow> string" where
  "tracking_ref b = ''refs/remotes/'' @ br_name b @ ''/main''"

section \<open>Wiring\<close>

definition resolve_credentials :: "(string \<Rightarrow> string option) \<Rightarrow> resolved_remote \<Rightarrow> string option \<times> string option" where
  "resolve_credentials environ x =
     (if is_legacy_shorthand x then (environ SYNC_TOKEN_ENV, environ SYNC_PUSH_TOKEN_ENV)
      else (environ (token_env_name (rr_name x)), environ (push_token_env_name (rr_name x))))"

definition resolve_group_id ::
  "uuids \<Rightarrow> (group_index \<Rightarrow> uuid list) \<Rightarrow> group_index \<Rightarrow> string \<Rightarrow> string \<Rightarrow> store_error + uuid" where
  "resolve_group_id uu keys idx name group_ref =
     map_ok (\<lambda>e. gm_group_id (ge_manifest e))
       (map_err (DirectGitGroupNotFound name group_ref) (resolve_group uu keys idx group_ref))"

definition build_transport ::
  "(unit \<Rightarrow> string option) \<Rightarrow> uuids \<Rightarrow> (group_index \<Rightarrow> uuid list) \<Rightarrow> group_index \<Rightarrow> (string \<Rightarrow> string option)
    \<Rightarrow> resolved_remote \<Rightarrow> store_error + remote_transport" where
  "build_transport http uu keys idx environ x =
     (case rr_remote x of
        MmcpServer _ url _ _ \<Rightarrow>
          (let (token, push_token) = resolve_credentials environ x in
           map_ok (\<lambda>c.
               let c1 = (case nonempty_value token of Some t \<Rightarrow> with_bearer t c | None \<Rightarrow> c);
                   c2 = (case nonempty_value push_token of Some t \<Rightarrow> with_push_credential t c1 | None \<Rightarrow> c1)
               in ServerTransport c2)
             (map_err (StoreSync url) (sync_client_new http url)))
      | DirectGit _ url auth _ _ _ \<Rightarrow>
          (let group_ref = (case rr_direct_git_group x of Some g \<Rightarrow> g | None \<Rightarrow> []) in
           map_ok (\<lambda>i. GitTransport url
               (case auth of
                  BearerAuth \<Rightarrow>
                    (case nonempty_value (fst (resolve_credentials environ x)) of
                       Some token \<Rightarrow> BearerHttp token | None \<Rightarrow> NoCredentials)
                | _ \<Rightarrow> NoCredentials) i)
             (resolve_group_id uu keys idx (rr_name x) group_ref)))"

definition build_engine_with_env ::
  "(unit \<Rightarrow> string option) \<Rightarrow> uuids \<Rightarrow> (group_index \<Rightarrow> uuid list) \<Rightarrow> group_index \<Rightarrow> (string \<Rightarrow> string option)
    \<Rightarrow> effective_remotes \<Rightarrow> store_error + bound_remote list" where
  "build_engine_with_env http uu keys idx environ ef =
     collect_res (\<lambda>(index, x).
         map_ok (\<lambda>t. \<lparr> br_name = rr_name x, br_default = (ef_default_index ef = Some index),
             br_include_in_push_all = remote_include_in_push_all (rr_remote x), br_transport = t \<rparr>)
           (build_transport http uu keys idx environ x))
       (zip [0..<length (ef_remotes ef)] (ef_remotes ef))"

section \<open>Names and variables\<close>

definition credential_vars :: "resolved_remote \<Rightarrow> string set" where
  "credential_vars x =
     (if is_legacy_shorthand x then {SYNC_TOKEN_ENV, SYNC_PUSH_TOKEN_ENV}
      else {token_env_name (rr_name x), push_token_env_name (rr_name x)})"

definition ref_safe :: "string \<Rightarrow> bool" where
  "ref_safe name \<longleftrightarrow> name \<noteq> [] \<and> list_all (\<lambda>c. is_ascii_alphanumeric c \<or> c = CHR ''-'' \<or> c = CHR ''_'') name"

lemma validate_remote_name_Inr:
  "validate_remote_name name = Inr () \<longleftrightarrow> ref_safe name
     \<and> normalized_remote_name name \<noteq> normalized_remote_name USER_LEGACY_REMOTE_NAME
     \<and> normalized_remote_name name \<noteq> normalized_remote_name PROJECT_LEGACY_REMOTE_NAME"
  by (simp add: validate_remote_name_def ref_safe_def Let_def)

lemma legacy_name_safe: "ref_safe (legacy_name level)"
  by (cases level) (simp_all add: ref_safe_def legacy_name_def USER_LEGACY_REMOTE_NAME_def PROJECT_LEGACY_REMOTE_NAME_def
      is_ascii_alphanumeric_def is_ascii_lowercase_def is_ascii_uppercase_def is_ascii_digit_def byte_def)

definition entry_wf :: "resolved_remote \<Rightarrow> bool" where
  "entry_wf x \<longleftrightarrow> ref_safe (rr_name x)
     \<and> (case rr_remote x of MmcpServer _ _ _ _ \<Rightarrow> rr_direct_git_group x = None
        | DirectGit _ _ _ _ _ _ \<Rightarrow> rr_direct_git_group x \<noteq> None \<and> \<not> is_legacy_shorthand x)"

lemma collect_remote_Inr:
  "collect_remote uu level project x = Inr y \<Longrightarrow>
     rr_remote y = x \<and> rr_level y = level \<and> entry_wf y \<and> \<not> is_legacy_shorthand y"
  by (auto simp: collect_remote_def bind_res_eq_Inr validate_remote_name_Inr entry_wf_def rr_name_def
      is_legacy_shorthand_def map_ok_def split: remote.splits)

lemma collect_level_Inr:
  assumes "collect_level uu sc level project = Inr xs" "x \<in> set xs"
  shows "rr_level x = level \<and> entry_wf x \<and> (is_legacy_shorthand x \<longrightarrow> xs = x # tl xs \<and> rr_name x = legacy_name level)"
proof -
  from assms(1) obtain ys where ys: "collect_res (collect_remote uu level project) (sc_remotes sc) = Inr ys"
    "xs = legacy_entry sc level @ ys" by (auto simp: collect_level_def map_ok_def bind_res_eq_Inr)
  have "\<forall>y\<in>set ys. rr_level y = level \<and> entry_wf y \<and> \<not> is_legacy_shorthand y"
    using ys(1) unfolding collect_res_Inr_iff
    by (auto simp: list_all2_conv_all_nth in_set_conv_nth dest!: collect_remote_Inr)
  moreover have "x \<in> set (legacy_entry sc level) \<Longrightarrow>
      rr_level x = level \<and> entry_wf x \<and> rr_name x = legacy_name level \<and> xs = x # tl xs" for x
    using legacy_name_safe [of level] ys(2)
    by (auto simp: legacy_entry_def entry_wf_def rr_name_def remote_name_def split: option.splits)
  ultimately show ?thesis using assms(2) ys(2) by auto
qed

lemma env_names_inj:
  "token_env_name a = token_env_name b \<longleftrightarrow> normalized_remote_name a = normalized_remote_name b"
  "push_token_env_name a = push_token_env_name b \<longleftrightarrow> normalized_remote_name a = normalized_remote_name b"
  by (simp_all add: token_env_name_def push_token_env_name_def)

lemma env_names_apart:
  "token_env_name a \<noteq> push_token_env_name b" "token_env_name a \<noteq> SYNC_TOKEN_ENV" "token_env_name a \<noteq> SYNC_PUSH_TOKEN_ENV"
  "push_token_env_name a \<noteq> SYNC_TOKEN_ENV" "push_token_env_name a \<noteq> SYNC_PUSH_TOKEN_ENV"
  by (simp_all add: token_env_name_def push_token_env_name_def SYNC_TOKEN_ENV_def SYNC_PUSH_TOKEN_ENV_def)

lemma credential_vars_overlap:
  assumes "credential_vars x \<inter> credential_vars y \<noteq> {}"
  shows "is_legacy_shorthand x \<and> is_legacy_shorthand y
    \<or> normalized_remote_name (rr_name x) = normalized_remote_name (rr_name y)"
  using assms by (auto simp: credential_vars_def env_names_inj env_names_apart env_names_apart [symmetric] split: if_splits)

lemma build_transport_vars:
  assumes "\<forall>v\<in>credential_vars x. e1 v = e2 v"
  shows "build_transport http uu keys idx e1 x = build_transport http uu keys idx e2 x"
proof -
  have "resolve_credentials e1 x = resolve_credentials e2 x"
    using assms by (simp add: resolve_credentials_def credential_vars_def split: if_splits)
  then show ?thesis unfolding build_transport_def by (simp only:)
qed

lemma effective_parts:
  assumes "resolve_effective_remotes uu user project = Inr ef"
  obtains us ps where "collect_level uu (uc_sync user) UserLevel project = Inr us"
    "collect_level uu (pc_sync project) ProjectLevel project = Inr ps"
    "distinct (map (\<lambda>x. normalized_remote_name (rr_name x)) (us @ ps))"
    "ef_remotes ef = (if pc_project_remote_only project then [] else us) @ ps"
    "resolve_default_index (ef_remotes ef) = Inr (ef_default_index ef)"
proof -
  from assms obtain us ps where
    c: "collect_level uu (uc_sync user) UserLevel project = Inr us" "collect_level uu (pc_sync project) ProjectLevel project = Inr ps"
    and n: "check_name_collisions (us @ ps) = Inr ()"
    and d: "map_ok (\<lambda>d. \<lparr> ef_remotes = (if pc_project_remote_only project then [] else us) @ ps, ef_default_index = d \<rparr>)
        (resolve_default_index ((if pc_project_remote_only project then [] else us) @ ps)) = Inr ef"
    by (auto simp: resolve_effective_remotes_def bind_res_eq_Inr Let_def)
  from n have "distinct (map (\<lambda>x. normalized_remote_name (rr_name x)) (us @ ps))"
    unfolding check_name_collisions_def by (simp add: first_repeat_None split: option.splits del: map_append)
  with c d that [of us ps] show thesis by (auto simp: map_ok_def bind_res_eq_Inr)
qed

section \<open>Properties\<close>

text \<open>
  C14. Credentials stay apart: binding a remote reads the environment only at its own variables, and
  no two remotes declared at any level share a variable, even when the project keeps the user's
  remotes out of the effective set; only the entries of the two legacy shorthands share theirs.
\<close>

theorem credentials_isolated:
  assumes "resolve_effective_remotes uu user project = Inr ef"
    and "collect_level uu (uc_sync user) UserLevel project = Inr us"
    and "collect_level uu (pc_sync project) ProjectLevel project = Inr ps"
  shows "set (ef_remotes ef) \<subseteq> set (us @ ps)
    \<and> (\<forall>x\<in>set (us @ ps). \<forall>e1 e2. (\<forall>v\<in>credential_vars x. e1 v = e2 v) \<longrightarrow>
        build_transport http uu keys idx e1 x = build_transport http uu keys idx e2 x)
    \<and> (\<forall>i j. i < j \<and> j < length (us @ ps) \<and> credential_vars ((us @ ps) ! i) \<inter> credential_vars ((us @ ps) ! j) \<noteq> {} \<longrightarrow>
        is_legacy_shorthand ((us @ ps) ! i) \<and> is_legacy_shorthand ((us @ ps) ! j))"
proof (intro conjI allI impI ballI)
  from assms(1) obtain us' ps' where "collect_level uu (uc_sync user) UserLevel project = Inr us'"
    "collect_level uu (pc_sync project) ProjectLevel project = Inr ps'" and
    d: "distinct (map (\<lambda>x. normalized_remote_name (rr_name x)) (us' @ ps'))"
    "ef_remotes ef = (if pc_project_remote_only project then [] else us') @ ps'" by (rule effective_parts)
  with assms(2,3) have e: "us' = us" "ps' = ps" by simp_all
  from d(2) show "set (ef_remotes ef) \<subseteq> set (us @ ps)" by (auto simp: e)
  fix i j assume ij: "i < j \<and> j < length (us @ ps) \<and> credential_vars ((us @ ps) ! i) \<inter> credential_vars ((us @ ps) ! j) \<noteq> {}"
  have "normalized_remote_name (rr_name ((us @ ps) ! i)) \<noteq> normalized_remote_name (rr_name ((us @ ps) ! j))"
    using d(1) ij unfolding e distinct_conv_nth by (auto simp del: map_append simp: nth_map)
  with credential_vars_overlap ij show "is_legacy_shorthand ((us @ ps) ! i)" "is_legacy_shorthand ((us @ ps) ! j)" by blast+
qed (rule build_transport_vars, blast)

text \<open>
  The shared variables of the shorthands are an open door: a project whose file sets only a
  server URL and keeps the user's remotes out is bound to that URL with the token of the
  environment, whoever the token was meant for.
\<close>

lemma legacy_token_shared:
  assumes "sc_server_url (pc_sync project) = Some url" "url \<noteq> []" "sc_remotes (pc_sync project) = []"
    "pc_project_remote_only project" "sc_server_url (uc_sync user) = Some user_url" "sc_remotes (uc_sync user) = []"
    "environ SYNC_TOKEN_ENV = Some token" "token \<noteq> []" "http () = None"
  shows "\<exists>ef b c. resolve_effective_remotes uu user project = Inr ef
    \<and> build_engine_with_env http uu keys idx environ ef = Inr [b] \<and> br_transport b = ServerTransport c
    \<and> cl_base_url c = trim_end_matches CHR ''/'' url \<and> cl_bearer_token c = Some token"
proof -
  let ?e = "\<lparr> rr_remote = MmcpServer PROJECT_LEGACY_REMOTE_NAME url False True, rr_level = ProjectLevel, rr_direct_git_group = None \<rparr>"
  let ?ef = "\<lparr> ef_remotes = [?e], ef_default_index = Some 0 \<rparr>"
  have some: "nonempty_value (Some v) = Some v" if "v \<noteq> []" for v using that by (cases v) (simp_all add: nonempty_value_def)
  have "normalized_remote_name USER_LEGACY_REMOTE_NAME \<noteq> normalized_remote_name PROJECT_LEGACY_REMOTE_NAME" by code_simp
  then have "resolve_effective_remotes uu user project = Inr ?ef"
    using assms(1-6) by (cases user_url)
      (simp_all add: resolve_effective_remotes_def collect_level_def legacy_entry_def nonempty_value_def
        legacy_name_def check_name_collisions_def resolve_default_index_def rr_name_def remote_name_def remote_is_default_def
        split: list.split option.split)
  moreover have "is_legacy_shorthand ?e" by (simp add: is_legacy_shorthand_def rr_name_def remote_name_def)
  ultimately show ?thesis using assms(7-9) some
    by (auto simp: build_engine_with_env_def build_transport_def resolve_credentials_def sync_client_new_def
        with_bearer_def with_push_credential_def Let_def split: option.split)
qed

lemma default_index_cases:
  assumes "resolve_default_index xs = Inr d"
  shows "case d of
      None \<Rightarrow> xs = []
    | Some i \<Rightarrow> i < length xs
        \<and> (if \<exists>x\<in>set xs. rr_level x = ProjectLevel \<and> remote_is_default (rr_remote x)
           then rr_level (xs ! i) = ProjectLevel \<and> remote_is_default (rr_remote (xs ! i))
           else if \<exists>x\<in>set xs. rr_level x = UserLevel \<and> remote_is_default (rr_remote x)
           then rr_level (xs ! i) = UserLevel \<and> remote_is_default (rr_remote (xs ! i))
           else length xs = 1)"
proof (cases "xs = []")
  case True
  with assms show ?thesis by (simp add: resolve_default_index_def)
next
  case False
  let ?p = "\<lambda>x. rr_level x = ProjectLevel \<and> remote_is_default (rr_remote x)"
  let ?u = "\<lambda>x. rr_level x = UserLevel \<and> remote_is_default (rr_remote x)"
  consider i where "position ?p xs = Some i" | i where "position ?p xs = None" "position ?u xs = Some i"
    | "position ?p xs = None" "position ?u xs = None" by (cases "position ?p xs"; cases "position ?u xs") simp_all
  then show ?thesis
  proof cases
    case 1
    with assms False have "d = Some i" by (simp add: resolve_default_index_def)
    with position_Some [OF 1] show ?thesis by (auto dest: nth_mem)
  next
    case 2
    with assms False have "d = Some i" by (simp add: resolve_default_index_def)
    moreover from 2(1) have "\<not> (\<exists>x\<in>set xs. ?p x)" unfolding position_None by blast
    ultimately show ?thesis using position_Some [OF 2(2)] by (auto dest: nth_mem)
  next
    case 3
    with assms False have "length xs = 1" "d = Some 0" by (simp_all add: resolve_default_index_def split: if_splits)
    moreover from 3 have "\<not> (\<exists>x\<in>set xs. ?p x)" "\<not> (\<exists>x\<in>set xs. ?u x)" unfolding position_None by blast+
    ultimately show ?thesis by auto
  qed
qed

lemma default_index_error:
  "resolve_default_index xs = Inl e \<longleftrightarrow>
     length xs \<ge> 2 \<and> (\<forall>x\<in>set xs. \<not> remote_is_default (rr_remote x)) \<and> e = AmbiguousDefaultRemote (map rr_name xs)"
proof -
  let ?p = "\<lambda>x. rr_level x = ProjectLevel \<and> remote_is_default (rr_remote x)"
  let ?u = "\<lambda>x. rr_level x = UserLevel \<and> remote_is_default (rr_remote x)"
  have len: "length xs \<ge> 2 \<longleftrightarrow> xs \<noteq> [] \<and> length xs \<noteq> 1" by (cases xs) (auto simp: Suc_le_eq)
  have lev: "rr_level x = UserLevel \<or> rr_level x = ProjectLevel" for x by (cases "rr_level x") simp_all
  consider i where "position ?p xs = Some i" | i where "position ?p xs = None" "position ?u xs = Some i"
    | "position ?p xs = None" "position ?u xs = None" by (cases "position ?p xs"; cases "position ?u xs") simp_all
  then show ?thesis
  proof cases
    case 1
    then have "\<exists>x\<in>set xs. remote_is_default (rr_remote x)" by (auto dest!: position_Some intro!: bexI [of _ "xs ! i"])
    with 1 show ?thesis by (auto simp: resolve_default_index_def)
  next
    case 2
    then have "\<exists>x\<in>set xs. remote_is_default (rr_remote x)" by (auto dest!: position_Some intro!: bexI [of _ "xs ! i"])
    with 2 show ?thesis by (auto simp: resolve_default_index_def)
  next
    case 3
    then have "\<forall>x\<in>set xs. \<not> remote_is_default (rr_remote x)" unfolding position_None using lev by blast
    with 3 show ?thesis unfolding len by (auto simp: resolve_default_index_def)
  qed
qed

lemma resolve_group_entry:
  assumes "keys_contract keys" "finite (dom idx)" "resolve_group uu keys idx query = Inr e"
  shows "\<exists>i. idx i = Some e"
proof (cases "Option.bind (uu_parse uu query) (index_get idx)")
  case None
  with assms(3) have "find (\<lambda>e. gm_slug (ge_manifest e) = query) (index_list keys idx) = Some e"
    by (auto simp: resolve_group_def ok_or_def split: option.splits)
  then have "e \<in> set (index_list keys idx)" by (auto simp: find_Some_iff)
  with assms(1,2) show ?thesis by (auto simp: index_list_def set_map_filter keys_contract_def)
qed (use assms(3) in \<open>auto simp: resolve_group_def index_get_def bind_eq_Some_conv\<close>)

lemma trim_end_slash: "\<not> ends_with (trim_end_matches c xs) [c]"
proof -
  have "dropWhile (\<lambda>x. x = c) (rev xs) = [] \<or> hd (dropWhile (\<lambda>x. x = c) (rev xs)) \<noteq> c"
    using hd_dropWhile [of "\<lambda>x. x = c" "rev xs"] by blast
  moreover have "ends_with ys [c] \<Longrightarrow> rev ys \<noteq> [] \<and> hd (rev ys) = c" for ys
    by (cases ys rule: rev_cases) (auto simp: ends_with_def strip_suffix_Some)
  ultimately show ?thesis unfolding trim_end_matches_def by (metis rev_rev_ident)
qed

lemma nonempty_value_simps [simp]:
  "nonempty_value None = None" "nonempty_value v \<noteq> Some []" "nonempty_value v = Some t \<longleftrightarrow> v = Some t \<and> t \<noteq> []"
  by (auto simp: nonempty_value_def split: option.splits list.splits)

lemma build_transport_Inr:
  assumes "build_transport http uu keys idx environ x = Inr t" "keys_contract keys" "finite (dom idx)"
    "\<And>i e. idx i = Some e \<Longrightarrow> gm_group_id (ge_manifest e) = i"
  shows "case t of
      ServerTransport c \<Rightarrow> \<not> ends_with (cl_base_url c) ''/'' \<and> cl_bearer_token c \<noteq> Some [] \<and> cl_push_credential c \<noteq> Some []
    | GitTransport url creds i \<Rightarrow> creds \<noteq> BearerHttp [] \<and> idx i \<noteq> None"
proof (cases "rr_remote x")
  case (MmcpServer name url d a)
  obtain token push where c: "resolve_credentials environ x = (token, push)" by fastforce
  from MmcpServer assms(1) c trim_end_slash show ?thesis
    by (auto simp: build_transport_def sync_client_new_def map_ok_def bind_res_eq_Inr with_bearer_def with_push_credential_def
        Let_def split: option.splits)
next
  case (DirectGit name url auth grp d a)
  then obtain i creds where t: "t = GitTransport url creds i" and
    i: "resolve_group_id uu keys idx (rr_name x) (case rr_direct_git_group x of Some g \<Rightarrow> g | None \<Rightarrow> []) = Inr i" and
    creds: "creds = (case auth of
                  BearerAuth \<Rightarrow>
                    (case nonempty_value (fst (resolve_credentials environ x)) of
                       Some token \<Rightarrow> BearerHttp token | None \<Rightarrow> NoCredentials)
                | _ \<Rightarrow> NoCredentials)"
    using assms(1) by (auto simp: build_transport_def Let_def map_ok_def bind_res_eq_Inr)
  from i obtain e where e: "resolve_group uu keys idx (case rr_direct_git_group x of Some g \<Rightarrow> g | None \<Rightarrow> []) = Inr e"
    "i = gm_group_id (ge_manifest e)" by (auto simp: resolve_group_id_def map_ok_def bind_res_eq_Inr map_err_def split: sum.splits)
  from resolve_group_entry [OF assms(2,3) e(1)] obtain k where k: "idx k = Some e" ..
  with assms(4) [OF k] e(2) have "idx i \<noteq> None" by simp
  moreover have "creds \<noteq> BearerHttp []" unfolding creds
    by (auto split: remote_auth.split option.splits)
  ultimately show ?thesis by (simp add: t)
qed

lemma safe_default:
  assumes "resolve_default_index xs = Inr d"
  shows "if xs = [] then d = None else \<exists>i<length xs. d = Some i"
  using default_index_cases [OF assms] assms by (auto simp: resolve_default_index_def split: option.splits if_splits)

lemma tracking_ref_inj: "tracking_ref a = tracking_ref b \<longleftrightarrow> br_name a = br_name b"
  by (simp add: tracking_ref_def)

lemma build_engine_nth:
  assumes "build_engine_with_env http uu keys idx environ ef = Inr bs"
  shows "length bs = length (ef_remotes ef)"
    and "i < length bs \<Longrightarrow> br_name (bs ! i) = rr_name (ef_remotes ef ! i)
      \<and> br_default (bs ! i) = (ef_default_index ef = Some i)
      \<and> br_include_in_push_all (bs ! i) = remote_include_in_push_all (rr_remote (ef_remotes ef ! i))
      \<and> build_transport http uu keys idx environ (ef_remotes ef ! i) = Inr (br_transport (bs ! i))"
proof -
  show l: "length bs = length (ef_remotes ef)" using collect_res_length [OF assms [unfolded build_engine_with_env_def]] by simp
  assume i: "i < length bs"
  show "br_name (bs ! i) = rr_name (ef_remotes ef ! i)
      \<and> br_default (bs ! i) = (ef_default_index ef = Some i)
      \<and> br_include_in_push_all (bs ! i) = remote_include_in_push_all (rr_remote (ef_remotes ef ! i))
      \<and> build_transport http uu keys idx environ (ef_remotes ef ! i) = Inr (br_transport (bs ! i))"
  proof -
    from list_all2_nthD2 [OF assms [unfolded build_engine_with_env_def collect_res_Inr_iff] i] i l
    obtain t where "build_transport http uu keys idx environ (ef_remotes ef ! i) = Inr t"
      "bs ! i = \<lparr> br_name = rr_name (ef_remotes ef ! i), br_default = (ef_default_index ef = Some i),
        br_include_in_push_all = remote_include_in_push_all (rr_remote (ef_remotes ef ! i)), br_transport = t \<rparr>"
      by (auto simp: map_ok_def bind_res_eq_Inr)
    then show ?thesis by simp
  qed
qed

text \<open>
  C18. A bound set is well formed: the remotes in the order of the configuration, each name a safe
  ref component and each tracking ref owned by one remote, exactly one default in a set that is
  not empty, and each transport well typed: a server has no trailing slash and no empty token, a
  plain git remote serves a group of the index and never sends an empty token.
\<close>

definition transport_wf :: "group_index \<Rightarrow> remote_transport \<Rightarrow> bool" where
  "transport_wf idx t =
     (case t of
        ServerTransport c \<Rightarrow> \<not> ends_with (cl_base_url c) ''/'' \<and> cl_bearer_token c \<noteq> Some [] \<and> cl_push_credential c \<noteq> Some []
      | GitTransport url creds i \<Rightarrow> creds \<noteq> BearerHttp [] \<and> idx i \<noteq> None)"

theorem bound_remotes_wellformed:
  assumes "resolve_effective_remotes uu user project = Inr ef"
    and "build_engine_with_env http uu keys idx environ ef = Inr bs"
    and "keys_contract keys" "finite (dom idx)" "\<And>i e. idx i = Some e \<Longrightarrow> gm_group_id (ge_manifest e) = i"
  shows "map br_name bs = map rr_name (ef_remotes ef)
    \<and> (\<forall>b\<in>set bs. ref_safe (br_name b) \<and> transport_wf idx (br_transport b))
    \<and> distinct (map tracking_ref bs)
    \<and> (if bs = [] then ef_default_index ef = None else length (filter br_default bs) = 1)"
proof (intro conjI ballI)
  from assms(1) obtain us ps where
    c: "collect_level uu (uc_sync user) UserLevel project = Inr us" "collect_level uu (pc_sync project) ProjectLevel project = Inr ps"
    and d: "distinct (map (\<lambda>x. normalized_remote_name (rr_name x)) (us @ ps))"
    "ef_remotes ef = (if pc_project_remote_only project then [] else us) @ ps"
    "resolve_default_index (ef_remotes ef) = Inr (ef_default_index ef)" by (rule effective_parts)
  note at = build_engine_nth [OF assms(2)]
  show names: "map br_name bs = map rr_name (ef_remotes ef)" using at by (auto intro!: nth_equalityI)
  have "distinct (map (\<lambda>x. normalized_remote_name (rr_name x)) (ef_remotes ef))" using d(1,2) by (auto split: if_splits)
  then have "distinct (map normalized_remote_name (map rr_name (ef_remotes ef)))" by (simp add: comp_def)
  then have "distinct (map rr_name (ef_remotes ef))" by (rule distinct_map [THEN iffD1, THEN conjunct1])
  moreover have "map tracking_ref bs = map (\<lambda>n. ''refs/remotes/'' @ n @ ''/main'') (map br_name bs)"
    by (simp add: tracking_ref_def)
  ultimately show "distinct (map tracking_ref bs)" by (simp only: names) (simp add: distinct_map inj_on_def)
  show "if bs = [] then ef_default_index ef = None else length (filter br_default bs) = 1"
  proof (cases "bs = []")
    case True
    with at(1) safe_default [OF d(3)] show ?thesis by simp
  next
    case False
    with at(1) have "ef_remotes ef \<noteq> []" by auto
    with at(1) safe_default [OF d(3)] obtain i where i: "i < length bs" "ef_default_index ef = Some i" by auto
    have "{j. j < length bs \<and> br_default (bs ! j)} = {i}" using at(2) i by auto
    with False show ?thesis by (simp add: length_filter_conv_card)
  qed
  fix b assume "b \<in> set bs"
  then obtain i where i: "i < length bs" "b = bs ! i" by (auto simp: in_set_conv_nth)
  with at(1) have x: "ef_remotes ef ! i \<in> set (us @ ps)" using d(2) nth_mem [of i "ef_remotes ef"] by (auto split: if_splits)
  then have "entry_wf (ef_remotes ef ! i)" using collect_level_Inr [OF c(1)] collect_level_Inr [OF c(2)] by auto
  then show "ref_safe (br_name b)" using at(2) [OF i(1)] i(2) by (simp add: entry_wf_def)
  have "build_transport http uu keys idx environ (ef_remotes ef ! i) = Inr (br_transport b)" using at(2) [OF i(1)] i(2) by simp
  from build_transport_Inr [OF this assms(3,4)] assms(5) show "transport_wf idx (br_transport b)" unfolding transport_wf_def by blast
qed

section \<open>A concrete configuration\<close>

definition ex_user :: user_config where
  "ex_user = \<lparr> uc_sync = \<lparr> sc_server_url = None, sc_remotes = [MmcpServer ''a'' ''h/'' True True] \<rparr>,
     uc_author = None, uc_default_group = None, uc_limits = None \<rparr>"

definition ex_project :: project_config where
  "ex_project = \<lparr> pc_project_uuid = 7, pc_project_slug = None,
     pc_sync = \<lparr> sc_server_url = Some ''p'', sc_remotes = [DirectGit ''b'' ''g'' BearerAuth (Some ''team'') True False] \<rparr>,
     pc_project_remote_only = False,
     pc_subscriptions = \<lparr> su_no_default_global = False, su_auto_detect_languages = False, su_languages = [],
       su_groups = [], su_memories = [], su_tags = [] \<rparr> \<rparr>"

definition ex_user_remotes :: "resolved_remote list" where
  "ex_user_remotes = [\<lparr> rr_remote = MmcpServer ''a'' ''h/'' True True, rr_level = UserLevel, rr_direct_git_group = None \<rparr>]"

definition ex_project_remotes :: "resolved_remote list" where
  "ex_project_remotes =
     [\<lparr> rr_remote = MmcpServer PROJECT_LEGACY_REMOTE_NAME ''p'' False True, rr_level = ProjectLevel, rr_direct_git_group = None \<rparr>,
      \<lparr> rr_remote = DirectGit ''b'' ''g'' BearerAuth (Some ''team'') True False, rr_level = ProjectLevel,
        rr_direct_git_group = Some ''team'' \<rparr>]"

definition ex_effective :: effective_remotes where
  "ex_effective = \<lparr> ef_remotes = ex_user_remotes @ ex_project_remotes, ef_default_index = Some 2 \<rparr>"

lemma ex_collected:
  "collect_level unary_uuids (uc_sync ex_user) UserLevel ex_project = Inr ex_user_remotes"
  "collect_level unary_uuids (pc_sync ex_project) ProjectLevel ex_project = Inr ex_project_remotes"
  "resolve_effective_remotes unary_uuids ex_user ex_project = Inr ex_effective"
  by code_simp+

definition ex_environ :: "string \<Rightarrow> string option" where
  "ex_environ v = (if v = ''MMCP_SYNC_TOKEN_B'' then Some ''t'' else None)"

theorem credentials_isolated_witness:
  "build_transport (\<lambda>_. None) unary_uuids sorted_keys Map.empty ex_environ (hd ex_user_remotes)
     = build_transport (\<lambda>_. None) unary_uuids sorted_keys Map.empty (\<lambda>_. None) (hd ex_user_remotes)"
proof -
  have "hd ex_user_remotes \<in> set (ex_user_remotes @ ex_project_remotes)" by (simp add: ex_user_remotes_def)
  moreover have "token_env_name ''a'' = ''MMCP_SYNC_TOKEN_A''" "push_token_env_name ''a'' = ''MMCP_SYNC_PUSH_TOKEN_A''" by code_simp+
  then have "\<forall>v\<in>credential_vars (hd ex_user_remotes). ex_environ v = (\<lambda>_. None) v"
    by (simp add: credential_vars_def ex_user_remotes_def rr_name_def remote_name_def ex_environ_def is_legacy_shorthand_def
        USER_LEGACY_REMOTE_NAME_def PROJECT_LEGACY_REMOTE_NAME_def SYNC_TOKEN_ENV_def SYNC_PUSH_TOKEN_ENV_def)
  ultimately show ?thesis
    using credentials_isolated [OF ex_collected(3,1,2), THEN conjunct2, THEN conjunct1, THEN bspec, THEN spec, THEN spec, THEN mp]
    by simp
qed

lemma ex_bound: "\<exists>bs. build_engine_with_env (\<lambda>_. None) unary_uuids sorted_keys [7 \<mapsto> ex_entry] ex_environ ex_effective = Inr bs
  \<and> map transport_credentials (map br_transport bs) = [NoCredentials, NoCredentials, BearerHttp ''t'']"
proof -
  have "resolve_credentials ex_environ (hd ex_user_remotes) = (None, None)"
    "resolve_credentials ex_environ (hd ex_project_remotes) = (None, None)"
    "resolve_credentials ex_environ (ex_project_remotes ! 1) = (Some ''t'', None)" by code_simp+
  moreover have "uu_parse unary_uuids ''team'' = None" by code_simp
  then have "resolve_group unary_uuids sorted_keys [7 \<mapsto> ex_entry] ''team'' = Inr ex_entry"
    by (simp add: resolve_group_def index_list_def sorted_keys_def ex_entry_def ex_manifest_def new_user_owned_def ok_or_def
        map_filter_simps)
  ultimately show ?thesis
    by (simp add: build_engine_with_env_def ex_effective_def ex_user_remotes_def ex_project_remotes_def build_transport_def
        sync_client_new_def resolve_group_id_def nonempty_value_def upt_rec numeral_3_eq_3 map_err_def client_git_credentials_def
        transport_credentials_def rr_name_def remote_name_def)
qed

theorem bound_remotes_wellformed_witness:
  "\<exists>bs. build_engine_with_env (\<lambda>_. None) unary_uuids sorted_keys [7 \<mapsto> ex_entry] ex_environ ex_effective = Inr bs
    \<and> map br_name bs = [''a'', ''project-legacy'', ''b''] \<and> length (filter br_default bs) = 1"
proof -
  have e: "\<And>i e. [7 \<mapsto> ex_entry] i = Some e \<Longrightarrow> gm_group_id (ge_manifest e) = i"
    by (auto simp: ex_entry_def ex_manifest_def new_user_owned_def split: if_splits)
  have n: "map rr_name (ef_remotes ex_effective) = [''a'', ''project-legacy'', ''b'']" by code_simp
  from ex_bound obtain bs where "build_engine_with_env (\<lambda>_. None) unary_uuids sorted_keys [7 \<mapsto> ex_entry] ex_environ ex_effective = Inr bs" by blast
  moreover have "map br_name bs = map rr_name (ef_remotes ex_effective)
    \<and> (if bs = [] then ef_default_index ex_effective = None else length (filter br_default bs) = 1)"
    using bound_remotes_wellformed [OF ex_collected(3) calculation sorted_keys_contract _ e] by simp
  ultimately show ?thesis using n by (intro exI [of _ bs]) auto
qed

end
