(* ===== verification/Sync_Engine.thy ===== *)
theory Sync_Engine
  imports Remotes
begin

text \<open>
  The sync engine (\<open>mmcp-sync\<close>, \<open>engine/\<close>): which remotes and groups an operation covers, the
  transfer of one group, the bounded runner that overlaps transfers, and push, fetch, pull and
  sync with their reports. The world the engine acts on (local repositories, remotes, the group
  index) is a type parameter; the backend, the control plane and the resolver, which the code
  takes as trait objects, are functions on it in the record \<open>sync_engine\<close>.
\<close>

section \<open>The bounded runner\<close>

text \<open>
  \<open>run_bounded\<close> runs an operation on every item and reports the outcomes in the order of the
  items. The operations take effect in some order, which is a parameter; what the stream
  combinator can do is the step relation below.
\<close>

fun run_tagged ::
  "('a \<Rightarrow> 'k) \<Rightarrow> ('a \<Rightarrow> 'w \<Rightarrow> 'r \<times> 'w) \<Rightarrow> 'a list \<Rightarrow> nat list \<Rightarrow> 'w \<Rightarrow> (nat \<times> 'k \<times> 'r) list \<times> 'w" where
  "run_tagged key_of op items [] w = ([], w)"
| "run_tagged key_of op items (i # order) w =
     (let (r, w1) = op (items ! i) w;
          (rest, w2) = run_tagged key_of op items order w1
      in ((i, key_of (items ! i), r) # rest, w2))"

definition run_bounded ::
  "('a \<Rightarrow> 'k) \<Rightarrow> ('a \<Rightarrow> 'w \<Rightarrow> 'r \<times> 'w) \<Rightarrow> nat list \<Rightarrow> 'a list \<Rightarrow> 'w \<Rightarrow> ('k \<times> 'r) list \<times> 'w" where
  "run_bounded key_of op order items w =
     (let (tagged, w') = run_tagged key_of op items order w
      in (map snd (sort_key fst tagged), w'))"

text \<open>
  The stream: items wait in submission order, at most \<open>n\<close> are in flight, and any of those may
  complete next.
\<close>

record ('a, 'k, 'r) buffer =
  bf_waiting :: "(nat \<times> 'a) list"
  bf_running :: "(nat \<times> 'a) list"
  bf_done :: "(nat \<times> 'k \<times> 'r) list"

definition buffer_start :: "'a list \<Rightarrow> ('a, 'k, 'r) buffer" where
  "buffer_start items = \<lparr> bf_waiting = enumerate 0 items, bf_running = [], bf_done = [] \<rparr>"

inductive buffer_step ::
  "nat \<Rightarrow> ('a \<Rightarrow> 'k) \<Rightarrow> ('a \<Rightarrow> 'w \<Rightarrow> 'r \<times> 'w) \<Rightarrow> ('a, 'k, 'r) buffer \<times> 'w \<Rightarrow> ('a, 'k, 'r) buffer \<times> 'w \<Rightarrow> bool"
  for n key_of op where
  admit: "\<lbrakk> bf_waiting b = x # rest; length (bf_running b) < n \<rbrakk> \<Longrightarrow>
     buffer_step n key_of op (b, w) (b\<lparr> bf_waiting := rest, bf_running := bf_running b @ [x] \<rparr>, w)"
| complete: "\<lbrakk> bf_running b = xs @ (i, x) # ys; op x w = (r, w') \<rbrakk> \<Longrightarrow>
     buffer_step n key_of op (b, w)
       (b\<lparr> bf_running := xs @ ys, bf_done := bf_done b @ [(i, key_of x, r)] \<rparr>, w')"

inductive_cases buffer_stepE: "buffer_step n key_of op s s'"

section \<open>Filters and scopes\<close>

definition MAIN_BRANCH_REF :: string where "MAIN_BRANCH_REF = ''refs/heads/main''"
definition MAX_CONCURRENT_GROUP_TRANSFERS :: nat where "MAX_CONCURRENT_GROUP_TRANSFERS = 6"

datatype sync_filter = FilterGroup uuid | FilterScope group_scope | FilterAll

datatype push_scope = PushDefault | PushAll | PushNamed string

definition group_matches :: "sync_filter \<Rightarrow> uuid \<Rightarrow> (uuid \<Rightarrow> group_scope option) \<Rightarrow> bool" where
  "group_matches filt i scope_of =
     (case filt of
        FilterAll \<Rightarrow> True
      | FilterGroup target \<Rightarrow> target = i
      | FilterScope target \<Rightarrow> scope_of i = Some target)"

definition default_remote :: "bound_remote list \<Rightarrow> sync_error + bound_remote" where
  "default_remote remotes =
     (case find br_default remotes of
        Some b \<Rightarrow> Inr b
      | None \<Rightarrow> (case remotes of [only] \<Rightarrow> Inr only | _ \<Rightarrow> Inl NoDefaultRemote))"

definition resolve_scope :: "bound_remote list \<Rightarrow> push_scope \<Rightarrow> sync_error + bound_remote list" where
  "resolve_scope remotes scope =
     (case scope of
        PushDefault \<Rightarrow> map_ok (\<lambda>b. [b]) (default_remote remotes)
      | PushAll \<Rightarrow> Inr (filter br_include_in_push_all remotes)
      | PushNamed name \<Rightarrow>
          ok_or (UnknownRemote name) (map_option (\<lambda>b. [b]) (find (\<lambda>b. br_name b = name) remotes)))"

definition remote_endpoint :: "uuids \<Rightarrow> bound_remote \<Rightarrow> uuid \<Rightarrow> string \<times> credentials" where
  "remote_endpoint uu b i =
     (case br_transport b of
        ServerTransport c \<Rightarrow> (git_url_for uu c i, client_git_credentials c)
      | GitTransport url creds _ \<Rightarrow> (url, creds))"

definition stderr_indicates_non_fast_forward :: "string \<Rightarrow> bool" where
  "stderr_indicates_non_fast_forward stderr =
     (let lower = to_ascii_lowercase stderr in
      contains_str lower ''non-fast-forward'' \<or> contains_str lower ''fetch first'' \<or> contains_str lower ''rejected'')"

section \<open>Reports\<close>

record server_group =
  rg_group_id :: uuid
  rg_slug :: string
  rg_head_commit :: string

record group_sync_failure =
  gf_group_id :: uuid
  gf_error :: sync_error

record remote_manifest_failure =
  mfail_remote_name :: string
  mfail_error :: sync_error

datatype push_transport_error =
    PushUnsupported string
  | PushTransport string string string

record pushed_group =
  pg_group_id :: uuid
  pg_content_transferred :: bool
  pg_transport_error :: "push_transport_error option"

record remote_push_outcome =
  ro_remote_name :: string
  ro_pushed :: "pushed_group list"
  ro_failed :: "group_sync_failure list"

record fetched_group =
  fg_group_id :: uuid
  fg_remote_name :: string
  fg_slug :: "string option"
  fg_remote_head :: "string option"
  fg_ref_updated :: bool

record fetch_report =
  fr_groups :: "fetched_group list"
  fr_new_groups :: "server_group list"
  fr_failed :: "group_sync_failure list"
  fr_manifest_failures :: "remote_manifest_failure list"

record pull_report =
  pl_updated :: "server_group list"
  pl_new_groups :: "server_group list"
  pl_failed :: "group_sync_failure list"
  pl_manifest_failures :: "remote_manifest_failure list"

record sync_report =
  sr_pulled :: pull_report
  sr_pushed :: "remote_push_outcome list"

definition total_pushed :: "remote_push_outcome list \<Rightarrow> nat" where
  "total_pushed by_remote = sum_list (map (\<lambda>x. length (ro_pushed x)) by_remote)"

definition total_failed :: "remote_push_outcome list \<Rightarrow> nat" where
  "total_failed by_remote = sum_list (map (\<lambda>x. length (ro_failed x)) by_remote)"

definition iter_failures :: "remote_push_outcome list \<Rightarrow> (string \<times> group_sync_failure) list" where
  "iter_failures by_remote = concat (map (\<lambda>x. map (Pair (ro_remote_name x)) (ro_failed x)) by_remote)"

definition iter_partial_failures :: "remote_push_outcome list \<Rightarrow> (string \<times> pushed_group) list" where
  "iter_partial_failures by_remote =
     concat (map (\<lambda>x. map (Pair (ro_remote_name x)) (filter (\<lambda>p. \<not> pg_content_transferred p) (ro_pushed x))) by_remote)"

fun partition_sync_outcomes :: "(uuid \<times> (sync_error + 'r)) list \<Rightarrow> 'r list \<times> group_sync_failure list" where
  "partition_sync_outcomes [] = ([], [])"
| "partition_sync_outcomes ((i, outcome) # rest) =
     (let (successes, failed) = partition_sync_outcomes rest in
      case outcome of
        Inr v \<Rightarrow> (v # successes, failed)
      | Inl e \<Rightarrow> (successes, \<lparr> gf_group_id = i, gf_error = e \<rparr> # failed))"

section \<open>The collaborators\<close>

text \<open>
  What the engine calls, as functions on the world; \<open>se_order\<close> is the order in which the
  transfers of one batch take effect.
\<close>

record 'w sync_engine =
  se_push :: "repo_handle \<Rightarrow> string \<Rightarrow> ref_spec list \<Rightarrow> credentials \<Rightarrow> 'w \<Rightarrow> (git_error + push_report) \<times> 'w"
  se_fetch :: "repo_handle \<Rightarrow> string \<Rightarrow> ref_spec list \<Rightarrow> credentials \<Rightarrow> 'w \<Rightarrow> (git_error + unit) \<times> 'w"
  se_fast_forward :: "repo_handle \<Rightarrow> string \<Rightarrow> string \<Rightarrow> 'w \<Rightarrow> (git_error + ff_outcome) \<times> 'w"
  se_manifest :: "sync_client \<Rightarrow> 'w \<Rightarrow> (sync_error + server_group list) \<times> 'w"
  se_resolve :: "uuid \<Rightarrow> 'w \<Rightarrow> unit + repo_handle option"
  se_group_ids :: "'w \<Rightarrow> uuid list"
  se_scope_of :: "uuid \<Rightarrow> 'w \<Rightarrow> group_scope option"
  se_order :: "'w \<Rightarrow> nat \<Rightarrow> nat list"
  se_uuids :: uuids

definition schedule_ok :: "'w sync_engine \<Rightarrow> bool" where
  "schedule_ok en \<longleftrightarrow> (\<forall>w n. mset (se_order en w n) = mset [0..<n])"

definition in_scope :: "'w sync_engine \<Rightarrow> sync_filter \<Rightarrow> uuid \<Rightarrow> 'w \<Rightarrow> bool" where
  "in_scope en filt i w = group_matches filt i (\<lambda>i. se_scope_of en i w)"

definition local_handle :: "'w sync_engine \<Rightarrow> uuid \<Rightarrow> 'w \<Rightarrow> repo_handle option" where
  "local_handle en i w = (case se_resolve en i w of Inl _ \<Rightarrow> None | Inr h \<Rightarrow> h)"

section \<open>Push\<close>

definition push_one_group ::
  "'w sync_engine \<Rightarrow> bound_remote \<Rightarrow> sync_filter \<Rightarrow> uuid \<Rightarrow> 'w \<Rightarrow> (sync_error + pushed_group option) \<times> 'w" where
  "push_one_group en b filt i w =
     (if \<not> in_scope en filt i w then (Inr None, w)
      else
        (case se_resolve en i w of
           Inl _ \<Rightarrow> (Inl (GroupIndexContended i), w)
         | Inr None \<Rightarrow> (Inl (GroupNotIndexed i), w)
         | Inr (Some h) \<Rightarrow>
             (let (url, creds) = remote_endpoint (se_uuids en) b i in
              case se_push en h url [ref_spec_new MAIN_BRANCH_REF MAIN_BRANCH_REF] creds w of
                (Inr _, w1) \<Rightarrow>
                  (Inr (Some \<lparr> pg_group_id = i, pg_content_transferred = True, pg_transport_error = None \<rparr>), w1)
              | (Inl (Unsupported reason), w1) \<Rightarrow>
                  (Inr (Some \<lparr> pg_group_id = i, pg_content_transferred = False,
                      pg_transport_error = Some (PushUnsupported reason) \<rparr>), w1)
              | (Inl (Transport opn u stderr), w1) \<Rightarrow>
                  if stderr_indicates_non_fast_forward stderr then (Inl (PushDiverged i stderr), w1)
                  else
                    (Inr (Some \<lparr> pg_group_id = i, pg_content_transferred = False,
                        pg_transport_error = Some (PushTransport opn u stderr) \<rparr>), w1)
              | (Inl other, w1) \<Rightarrow> (Inl (SyncGit other), w1))))"

definition push_candidates :: "'w sync_engine \<Rightarrow> bound_remote \<Rightarrow> sync_filter \<Rightarrow> 'w \<Rightarrow> uuid list" where
  "push_candidates en b filt w =
     (case br_transport b of
        ServerTransport _ \<Rightarrow> (case filt of FilterGroup i \<Rightarrow> [i] | _ \<Rightarrow> se_group_ids en w)
      | GitTransport _ _ i \<Rightarrow> [i])"

definition push_remote :: "'w sync_engine \<Rightarrow> sync_filter \<Rightarrow> bound_remote \<Rightarrow> 'w \<Rightarrow> remote_push_outcome \<times> 'w" where
  "push_remote en filt b w =
     (let candidates = push_candidates en b filt w;
          (outcomes, w1) = run_bounded (\<lambda>i. i) (push_one_group en b filt) (se_order en w (length candidates)) candidates w;
          (pushed, failed) = partition_sync_outcomes outcomes
      in (\<lparr> ro_remote_name = br_name b, ro_pushed = List.map_filter (\<lambda>x. x) pushed, ro_failed = failed \<rparr>, w1))"

fun push_remotes :: "'w sync_engine \<Rightarrow> sync_filter \<Rightarrow> bound_remote list \<Rightarrow> 'w \<Rightarrow> remote_push_outcome list \<times> 'w" where
  "push_remotes en filt [] w = ([], w)"
| "push_remotes en filt (b # bs) w =
     (let (x, w1) = push_remote en filt b w; (xs, w2) = push_remotes en filt bs w1 in (x # xs, w2))"

definition engine_push ::
  "'w sync_engine \<Rightarrow> bound_remote list \<Rightarrow> sync_filter \<Rightarrow> push_scope \<Rightarrow> 'w
    \<Rightarrow> (sync_error + remote_push_outcome list) \<times> 'w" where
  "engine_push en remotes filt scope w =
     (case resolve_scope remotes scope of
        Inl e \<Rightarrow> (Inl e, w)
      | Inr targets \<Rightarrow> (let (by_remote, w1) = push_remotes en filt targets w in (Inr by_remote, w1)))"

section \<open>Fetch\<close>

record fetch_candidate =
  fc_remote :: bound_remote
  fc_group_id :: uuid
  fc_slug :: "string option"
  fc_remote_head :: "string option"
  fc_handle :: repo_handle

fun poll_manifests ::
  "'w sync_engine \<Rightarrow> bound_remote list \<Rightarrow> 'w
    \<Rightarrow> ((bound_remote \<times> server_group list) list \<times> remote_manifest_failure list) \<times> 'w" where
  "poll_manifests en [] w = (([], []), w)"
| "poll_manifests en (b # bs) w =
     (case br_transport b of
        ServerTransport c \<Rightarrow>
          (let (answer, w1) = se_manifest en c w; ((manifests, failures), w2) = poll_manifests en bs w1 in
           case answer of
             Inr groups \<Rightarrow> (((b, groups) # manifests, failures), w2)
           | Inl e \<Rightarrow> ((manifests, \<lparr> mfail_remote_name = br_name b, mfail_error = e \<rparr> # failures), w2))
      | GitTransport _ _ _ \<Rightarrow> poll_manifests en bs w)"

text \<open>The groups the manifests advertise: those without a local clone, each once, and the candidates.\<close>

fun advertised ::
  "'w sync_engine \<Rightarrow> sync_filter \<Rightarrow> 'w \<Rightarrow> uuid set \<Rightarrow> (bound_remote \<times> server_group) list
    \<Rightarrow> server_group list \<times> fetch_candidate list" where
  "advertised en filt w seen [] = ([], [])"
| "advertised en filt w seen ((b, x) # rest) =
     (case local_handle en (rg_group_id x) w of
        None \<Rightarrow>
          if rg_group_id x \<in> seen then advertised en filt w seen rest
          else
            (let (new_groups, candidates) = advertised en filt w (insert (rg_group_id x) seen) rest
             in (x # new_groups, candidates))
      | Some h \<Rightarrow>
          (let (new_groups, candidates) = advertised en filt w seen rest in
           if in_scope en filt (rg_group_id x) w
           then (new_groups,
               \<lparr> fc_remote = b, fc_group_id = rg_group_id x, fc_slug = Some (rg_slug x),
                 fc_remote_head = Some (rg_head_commit x), fc_handle = h \<rparr> # candidates)
           else (new_groups, candidates)))"

definition direct_candidate :: "'w sync_engine \<Rightarrow> sync_filter \<Rightarrow> 'w \<Rightarrow> bound_remote \<Rightarrow> fetch_candidate option" where
  "direct_candidate en filt w b =
     (case br_transport b of
        ServerTransport _ \<Rightarrow> None
      | GitTransport _ _ i \<Rightarrow>
          (case local_handle en i w of
             Some h \<Rightarrow>
               if in_scope en filt i w
               then Some \<lparr> fc_remote = b, fc_group_id = i, fc_slug = None, fc_remote_head = None, fc_handle = h \<rparr>
               else None
           | None \<Rightarrow> None))"

definition fetch_one_group :: "'w sync_engine \<Rightarrow> fetch_candidate \<Rightarrow> 'w \<Rightarrow> (sync_error + fetched_group) \<times> 'w" where
  "fetch_one_group en c w =
     (let (url, creds) = remote_endpoint (se_uuids en) (fc_remote c) (fc_group_id c);
          (answer, w1) = se_fetch en (fc_handle c) url [ref_spec_new MAIN_BRANCH_REF (tracking_ref (fc_remote c))] creds w;
          fetched = (\<lambda>updated. \<lparr> fg_group_id = fc_group_id c, fg_remote_name = br_name (fc_remote c),
            fg_slug = fc_slug c, fg_remote_head = fc_remote_head c, fg_ref_updated = updated \<rparr>)
      in case answer of
           Inr _ \<Rightarrow> (Inr (fetched True), w1)
         | Inl (Unsupported _) \<Rightarrow> (Inr (fetched False), w1)
         | Inl (Transport _ _ _) \<Rightarrow> (Inr (fetched False), w1)
         | Inl other \<Rightarrow> (Inl (SyncGit other), w1))"

definition engine_fetch ::
  "'w sync_engine \<Rightarrow> bound_remote list \<Rightarrow> sync_filter \<Rightarrow> 'w \<Rightarrow> (sync_error + fetch_report) \<times> 'w" where
  "engine_fetch en remotes filt w =
     (let ((manifests, failures), w1) = poll_manifests en remotes w;
          (new_groups, from_manifests) =
            advertised en filt w1 {} (concat (map (\<lambda>(b, groups). map (Pair b) groups) manifests));
          candidates = from_manifests @ List.map_filter (direct_candidate en filt w1) remotes;
          (outcomes, w2) = run_bounded fc_group_id (fetch_one_group en) (se_order en w1 (length candidates)) candidates w1;
          (groups, failed) = partition_sync_outcomes outcomes
      in (Inr \<lparr> fr_groups = groups, fr_new_groups = new_groups, fr_failed = failed, fr_manifest_failures = failures \<rparr>, w2))"

section \<open>Pull and sync\<close>

definition fast_forward_one_group ::
  "'w sync_engine \<Rightarrow> fetched_group \<Rightarrow> repo_handle option \<Rightarrow> 'w \<Rightarrow> (sync_error + server_group) \<times> 'w" where
  "fast_forward_one_group en f handle w =
     (let slug = (case fg_slug f of Some s \<Rightarrow> s | None \<Rightarrow> uu_show (se_uuids en) (fg_group_id f));
          head = (case fg_remote_head f of Some h \<Rightarrow> h | None \<Rightarrow> []);
          summary = (\<lambda>head. \<lparr> rg_group_id = fg_group_id f, rg_slug = slug, rg_head_commit = head \<rparr>)
      in case (if fg_ref_updated f then handle else None) of
           None \<Rightarrow> (Inr (summary head), w)
         | Some h \<Rightarrow>
             (case se_fast_forward en h MAIN_BRANCH_REF (''refs/remotes/'' @ fg_remote_name f @ ''/main'') w of
                (Inr (AlreadyAt commit), w1) \<Rightarrow> (Inr (summary commit), w1)
              | (Inr (Advanced _ to), w1) \<Rightarrow> (Inr (summary to), w1)
              | (Inr (NotFastForward loc target), w1) \<Rightarrow> (Inl (PullDiverged (fg_group_id f) loc target), w1)
              | (Inl (RevNotFound _), w1) \<Rightarrow> (Inr (summary head), w1)
              | (Inl (Unsupported _), w1) \<Rightarrow> (Inr (summary head), w1)
              | (Inl other, w1) \<Rightarrow> (Inl (SyncGit other), w1)))"

definition engine_pull ::
  "'w sync_engine \<Rightarrow> bound_remote list \<Rightarrow> sync_filter \<Rightarrow> 'w \<Rightarrow> (sync_error + pull_report) \<times> 'w" where
  "engine_pull en remotes filt w =
     (case default_remote remotes of
        Inl e \<Rightarrow> (Inl e, w)
      | Inr d \<Rightarrow>
          (case engine_fetch en remotes filt w of
             (Inl e, w1) \<Rightarrow> (Inl e, w1)
           | (Inr fetched, w1) \<Rightarrow>
               (let to_advance = filter (\<lambda>f. fg_remote_name f = br_name d) (fr_groups fetched);
                    (outcomes, w2) = run_bounded fg_group_id
                      (\<lambda>f w. fast_forward_one_group en f (local_handle en (fg_group_id f) w) w)
                      (se_order en w1 (length to_advance)) to_advance w1;
                    (updated, new_failed) = partition_sync_outcomes outcomes
                in (Inr \<lparr> pl_updated = updated, pl_new_groups = fr_new_groups fetched,
                      pl_failed = fr_failed fetched @ new_failed,
                      pl_manifest_failures = fr_manifest_failures fetched \<rparr>, w2))))"

definition engine_sync ::
  "'w sync_engine \<Rightarrow> bound_remote list \<Rightarrow> sync_filter \<Rightarrow> 'w \<Rightarrow> (sync_error + sync_report) \<times> 'w" where
  "engine_sync en remotes filt w =
     (case engine_pull en remotes filt w of
        (Inl e, w1) \<Rightarrow> (Inl e, w1)
      | (Inr pulled, w1) \<Rightarrow>
          (case engine_push en remotes filt PushDefault w1 of
             (Inl e, w2) \<Rightarrow> (Inl e, w2)
           | (Inr pushed, w2) \<Rightarrow> (Inr \<lparr> sr_pulled = pulled, sr_pushed = pushed \<rparr>, w2)))"

section \<open>The runner\<close>

lemma run_tagged_index: "map fst (fst (run_tagged key_of op items order w)) = order"
proof (induction order arbitrary: w)
  case (Cons i order)
  obtain r w1 where o: "op (items ! i) w = (r, w1)" by fastforce
  obtain rest w2 where t: "run_tagged key_of op items order w1 = (rest, w2)" by fastforce
  from Cons.IH [of w1] o t show ?case by simp
qed simp

lemma run_tagged_key: "t \<in> set (fst (run_tagged key_of op items order w)) \<Longrightarrow> fst (snd t) = key_of (items ! fst t)"
proof (induction order arbitrary: w)
  case (Cons i order)
  obtain r w1 where o: "op (items ! i) w = (r, w1)" by fastforce
  obtain rest w2 where t: "run_tagged key_of op items order w1 = (rest, w2)" by fastforce
  from Cons.prems o t consider "t = (i, key_of (items ! i), r)" | "t \<in> set rest" by auto
  then show ?case using Cons.IH [of w1] t by cases auto
qed simp

lemma sort_key_permutation:
  assumes "mset (map fst ts) = mset [0..<n]"
  shows "map fst (sort_key fst ts) = [0..<n]"
proof -
  have "mset (map fst (sort_key fst ts)) = mset [0..<n]" using assms by simp
  moreover have "sorted (map fst (sort_key fst ts))" by simp
  ultimately have "sort [0..<n] = map fst (sort_key fst ts)" by (metis properties_for_sort)
  then show ?thesis by (simp add: sort_upt)
qed

lemma run_bounded_keys:
  assumes "mset order = mset [0..<length items]"
  shows "map fst (fst (run_bounded key_of op order items w)) = map key_of items"
proof -
  let ?ts = "fst (run_tagged key_of op items order w)"
  have s: "map fst (sort_key fst ?ts) = [0..<length items]"
    by (rule sort_key_permutation) (simp add: run_tagged_index assms)
  have "map (\<lambda>t. fst (snd t)) (sort_key fst ?ts) = map (\<lambda>t. key_of (items ! fst t)) (sort_key fst ?ts)"
    by (rule map_cong) (auto dest: run_tagged_key)
  also have "\<dots> = map (\<lambda>i. key_of (items ! i)) (map fst (sort_key fst ?ts))" by simp
  also have "\<dots> = map key_of items" unfolding s by (rule nth_equalityI) simp_all
  finally show ?thesis
    by (cases "run_tagged key_of op items order w") (simp add: run_bounded_def comp_def)
qed


text \<open>What the stream can do, step by step, is a run of the batch in some order.\<close>

definition buffer_ids :: "('a, 'k, 'r) buffer \<Rightarrow> nat multiset" where
  "buffer_ids b = mset (map fst (bf_waiting b)) + mset (map fst (bf_running b)) + mset (map fst (bf_done b))"

definition buffer_ok :: "nat \<Rightarrow> ('a \<Rightarrow> 'k) \<Rightarrow> ('a \<Rightarrow> 'w \<Rightarrow> 'r \<times> 'w) \<Rightarrow> 'a list \<Rightarrow> 'w \<Rightarrow> ('a, 'k, 'r) buffer \<times> 'w \<Rightarrow> bool" where
  "buffer_ok n key_of op items w0 s \<longleftrightarrow>
     length (bf_running (fst s)) \<le> n
     \<and> buffer_ids (fst s) = mset [0..<length items]
     \<and> (\<forall>(i, x) \<in> set (bf_waiting (fst s)) \<union> set (bf_running (fst s)). x = items ! i)
     \<and> run_tagged key_of op items (map fst (bf_done (fst s))) w0 = (bf_done (fst s), snd s)"

lemma run_tagged_append:
  "run_tagged key_of op items (is1 @ is2) w =
     (let (xs, w1) = run_tagged key_of op items is1 w; (ys, w2) = run_tagged key_of op items is2 w1 in (xs @ ys, w2))"
  by (induction is1 arbitrary: w) (simp_all add: Let_def split: prod.splits)

lemma buffer_start_ok: "buffer_ok n key_of op items w (buffer_start items, w)"
  by (auto simp: buffer_ok_def buffer_start_def buffer_ids_def in_set_enumerate_eq simp flip: mset_map)

lemma buffer_step_ok:
  assumes "buffer_step n key_of op s s'" "buffer_ok n key_of op items w0 s"
  shows "buffer_ok n key_of op items w0 s'"
  using assms
proof cases
  case (admit b x rest w)
  with assms(2) show ?thesis by (auto simp: buffer_ok_def buffer_ids_def)
next
  case (complete b xs i x ys w r w')
  with assms(2) have "x = items ! i" by (auto simp: buffer_ok_def)
  with complete assms(2) show ?thesis by (auto simp: buffer_ok_def buffer_ids_def run_tagged_append)
qed


definition buffer_work :: "('a, 'k, 'r) buffer \<Rightarrow> nat" where
  "buffer_work b = 2 * length (bf_waiting b) + length (bf_running b)"

lemma buffer_step_work: "buffer_step n key_of op s s' \<Longrightarrow> buffer_work (fst s) = Suc (buffer_work (fst s'))"
  by (erule buffer_stepE) (simp_all add: buffer_work_def)

lemma buffer_run_ok:
  "(buffer_step n key_of op ^^ k) (buffer_start items, w) s \<Longrightarrow>
     buffer_ok n key_of op items w s \<and> k + buffer_work (fst s) = 2 * length items"
proof (induction k arbitrary: s)
  case 0
  then show ?case using buffer_start_ok [of n key_of op items w] by (auto simp: buffer_work_def buffer_start_def)
next
  case (Suc k)
  then obtain s1 where s1: "(buffer_step n key_of op ^^ k) (buffer_start items, w) s1" "buffer_step n key_of op s1 s" by auto
  from Suc.IH [OF s1(1)] buffer_step_ok [OF s1(2)] buffer_step_work [OF s1(2)] show ?case by simp
qed

lemma buffer_step_enabled:
  assumes "0 < n" "bf_waiting b \<noteq> [] \<or> bf_running b \<noteq> []"
  shows "\<exists>s. buffer_step n key_of op (b, w) s"
proof (cases "bf_running b")
  case Nil
  with assms obtain x rest where "bf_waiting b = x # rest" by (cases "bf_waiting b") auto
  with Nil assms(1) show ?thesis by (intro exI) (rule admit, simp_all)
next
  case (Cons p ys)
  obtain i x where p: "p = (i, x)" by fastforce
  obtain r w' where "op x w = (r, w')" by fastforce
  with Cons p show ?thesis by (intro exI) (rule complete [where xs = "[]"], simp_all)
qed



section \<open>Outcomes of a batch\<close>

lemma run_tagged_each: "t \<in> set (fst (run_tagged key_of op items order w)) \<Longrightarrow> \<exists>w0. snd (snd t) = fst (op (items ! fst t) w0)"
proof (induction order arbitrary: w)
  case (Cons i order)
  obtain r w1 where o: "op (items ! i) w = (r, w1)" by fastforce
  obtain rest w2 where t: "run_tagged key_of op items order w1 = (rest, w2)" by fastforce
  from Cons.prems o t consider "t = (i, key_of (items ! i), r)" | "t \<in> set rest" by auto
  then show ?case
  proof cases
    case 1
    with o show ?thesis by (intro exI [of _ w]) simp
  qed (use Cons.IH [of w1] t in auto)
qed simp

lemma run_bounded_each:
  assumes "mset order = mset [0..<length items]"
  shows "list_all2 (\<lambda>x kr. fst kr = key_of x \<and> (\<exists>w0. snd kr = fst (op x w0))) items (fst (run_bounded key_of op order items w))"
proof -
  let ?ts = "sort_key fst (fst (run_tagged key_of op items order w))"
  have e: "fst (run_bounded key_of op order items w) = map snd ?ts"
    by (cases "run_tagged key_of op items order w") (simp add: run_bounded_def)
  have s: "map fst ?ts = [0..<length items]"
    by (rule sort_key_permutation) (simp add: run_tagged_index assms)
  then have l: "length ?ts = length items" by (metis length_map length_upt minus_nat.diff_0)
  have "fst (?ts ! i) = i" if "i < length items" for i
    using that l arg_cong [OF s, of "\<lambda>xs. xs ! i"] by simp
  moreover have "?ts ! i \<in> set (fst (run_tagged key_of op items order w))" if "i < length items" for i
    using that l nth_mem [of i ?ts] by simp
  ultimately have "fst (map snd ?ts ! i) = key_of (items ! i) \<and> (\<exists>w0. snd (map snd ?ts ! i) = fst (op (items ! i) w0))"
    if "i < length items" for i
    using that l run_tagged_key [of "?ts ! i" key_of op items order w] run_tagged_each [of "?ts ! i" key_of op items order w]
    by simp
  then show ?thesis unfolding e using l by (simp add: list_all2_conv_all_nth)
qed

definition batch_step :: "('a \<Rightarrow> 'k) \<Rightarrow> ('a \<Rightarrow> 'w \<Rightarrow> 'r \<times> 'w) \<Rightarrow> 'a list \<Rightarrow> ('k \<times> 'r) set \<Rightarrow> 'w \<Rightarrow> 'w \<Rightarrow> bool" where
  "batch_step key_of op items outcomes w w' \<longleftrightarrow>
     (\<exists>x\<in>set items. \<exists>r. op x w = (r, w') \<and> (key_of x, r) \<in> outcomes)"

lemma run_tagged_trace:
  "set order \<subseteq> {..<length items} \<Longrightarrow> run_tagged key_of op items order w = (ts, w') \<Longrightarrow>
     (batch_step key_of op items (snd ` set ts))\<^sup>*\<^sup>* w w'"
proof (induction order arbitrary: w ts w')
  case (Cons i order)
  obtain r w1 where o: "op (items ! i) w = (r, w1)" by fastforce
  obtain rest w2 where t: "run_tagged key_of op items order w1 = (rest, w2)" by fastforce
  from Cons.prems o t have ts: "ts = (i, key_of (items ! i), r) # rest" "w' = w2" by simp_all
  have "batch_step key_of op items (snd ` set ts) w w1" using Cons.prems(1) o ts(1) by (auto simp: batch_step_def)
  moreover have "batch_step key_of op items (snd ` set rest) \<le> batch_step key_of op items (snd ` set ts)"
    by (auto simp: batch_step_def ts(1) le_fun_def)
  then have "(batch_step key_of op items (snd ` set ts))\<^sup>*\<^sup>* w1 w2"
    using rtranclp_mono Cons.IH [OF _ t] Cons.prems(1) by auto
  ultimately show ?case using ts(2) by (simp add: converse_rtranclp_into_rtranclp)
qed simp

lemma run_bounded_trace:
  assumes "mset order = mset [0..<length items]" "run_bounded key_of op order items w = (outcomes, w')"
  shows "(batch_step key_of op items (set outcomes))\<^sup>*\<^sup>* w w'"
proof -
  obtain ts where t: "run_tagged key_of op items order w = (ts, w')" "outcomes = map snd (sort_key fst ts)"
    using assms(2) by (auto simp: run_bounded_def split: prod.splits)
  have "set order = {..<length items}" using arg_cong [OF assms(1), of set_mset] by (simp add: atLeast0LessThan)
  with run_tagged_trace [OF _ t(1)] t(2) show ?thesis by simp
qed

lemma partition_sync_outcomes_parts:
  "partition_sync_outcomes outcomes = (successes, failed) \<Longrightarrow>
     successes = List.map_filter (\<lambda>(i, r). case r of Inr v \<Rightarrow> Some v | Inl _ \<Rightarrow> None) outcomes
     \<and> failed = List.map_filter (\<lambda>(i, r). case r of Inr _ \<Rightarrow> None | Inl e \<Rightarrow> Some \<lparr> gf_group_id = i, gf_error = e \<rparr>) outcomes"
  by (induction outcomes arbitrary: successes failed rule: partition_sync_outcomes.induct)
    (auto simp: Let_def map_filter_simps split: prod.splits sum.splits)

section \<open>Push covers its candidates\<close>

lemma push_one_group_result:
  assumes "push_one_group en b filt i w = (r, w')"
  shows "if in_scope en filt i w
    then (case r of Inr (Some p) \<Rightarrow> pg_group_id p = i \<and> (pg_content_transferred p \<longleftrightarrow> pg_transport_error p = None)
      | Inr None \<Rightarrow> False | Inl e \<Rightarrow> True)
    else r = Inr None \<and> w' = w"
  using assms by (auto simp: push_one_group_def split: sum.splits option.splits prod.splits git_error.splits if_splits)

lemma partition_ids:
  assumes "list_all2 (\<lambda>i kr. fst kr = i \<and> (case snd kr of Inr (Some p) \<Rightarrow> sc i \<and> pg_group_id p = i | Inr None \<Rightarrow> \<not> sc i | Inl e \<Rightarrow> sc i))
      ids outcomes" "partition_sync_outcomes outcomes = (pushed, failed)"
  shows "mset (map pg_group_id (List.map_filter (\<lambda>x. x) pushed)) + mset (map gf_group_id failed) = mset (filter sc ids)"
  using assms
proof (induction arbitrary: pushed failed rule: list_all2_induct)
  case (Cons i ids kr outcomes)
  obtain k r where kr: "kr = (k, r)" by fastforce
  obtain p f where pf: "partition_sync_outcomes outcomes = (p, f)" by fastforce
  from Cons.IH [OF pf] Cons.hyps(1) Cons.prems kr pf show ?case
    by (auto simp: map_filter_simps split: sum.splits option.splits)
qed (simp add: map_filter_simps)

lemma push_remote_covers:
  assumes "schedule_ok en" "\<And>w. in_scope en filt = (\<lambda>i w. sc i)" "push_remote en filt b w = (x, w')"
  shows "ro_remote_name x = br_name b
    \<and> mset (map pg_group_id (ro_pushed x)) + mset (map gf_group_id (ro_failed x)) = mset (filter sc (push_candidates en b filt w))"
proof -
  let ?ids = "push_candidates en b filt w"
  obtain outcomes w1 where o: "run_bounded (\<lambda>i. i) (push_one_group en b filt) (se_order en w (length ?ids)) ?ids w = (outcomes, w1)" by fastforce
  obtain pushed failed where p: "partition_sync_outcomes outcomes = (pushed, failed)" by fastforce
  from assms(1) have "mset (se_order en w (length ?ids)) = mset [0..<length ?ids]" unfolding schedule_ok_def by blast
  from run_bounded_each [OF this, of "\<lambda>i. i" "push_one_group en b filt" w] o
  have "list_all2 (\<lambda>i kr. fst kr = i \<and> (\<exists>w0. snd kr = fst (push_one_group en b filt i w0))) ?ids outcomes" by simp
  then have "list_all2 (\<lambda>i kr. fst kr = i
      \<and> (case snd kr of Inr (Some p) \<Rightarrow> sc i \<and> pg_group_id p = i | Inr None \<Rightarrow> \<not> sc i | Inl e \<Rightarrow> sc i)) ?ids outcomes"
  proof (rule list_all2_mono)
    fix i and kr :: "uuid \<times> (sync_error + pushed_group option)"
    assume *: "fst kr = i \<and> (\<exists>w0. snd kr = fst (push_one_group en b filt i w0))"
    then obtain w0 where "snd kr = fst (push_one_group en b filt i w0)" by blast
    with push_one_group_result [of en b filt i w0 "snd kr" "snd (push_one_group en b filt i w0)"] assms(2) *
    show "fst kr = i \<and> (case snd kr of Inr (Some p) \<Rightarrow> sc i \<and> pg_group_id p = i | Inr None \<Rightarrow> \<not> sc i | Inl e \<Rightarrow> sc i)"
      by (auto split: sum.splits option.splits if_splits)
  qed
  from partition_ids [OF this p] assms(3) o p show ?thesis by (auto simp: push_remote_def Let_def)
qed

lemma push_remotes_cover:
  assumes "schedule_ok en" "\<And>w. in_scope en filt = (\<lambda>i w. sc i)" "\<And>w. se_group_ids en w = ids"
  shows "push_remotes en filt targets w = (by_remote, w') \<Longrightarrow>
    list_all2 (\<lambda>b x. ro_remote_name x = br_name b
      \<and> mset (map pg_group_id (ro_pushed x)) + mset (map gf_group_id (ro_failed x))
        = mset (filter sc (push_candidates en b filt w))) targets by_remote"
proof (induction targets arbitrary: w by_remote w')
  case (Cons b targets)
  obtain x w1 where x: "push_remote en filt b w = (x, w1)" by fastforce
  obtain xs w2 where xs: "push_remotes en filt targets w1 = (xs, w2)" by fastforce
  have same: "push_candidates en b filt w1 = push_candidates en b filt w" for b
    by (simp add: push_candidates_def assms(3) split: remote_transport.split sync_filter.split)
  from Cons.prems x xs have "by_remote = x # xs" by simp
  with push_remote_covers [OF assms(1,2) x] Cons.IH [OF xs] show ?case by (simp add: same)
qed simp

text \<open>
  C12. A push accounts for everything: one outcome per selected remote in the engine's order, in
  which every candidate group that is in scope appears exactly once, as pushed or as failed,
  whatever the order in which the transfers complete and whatever any of them returns.
\<close>

theorem push_report_covers:
  assumes "schedule_ok en" and "\<And>i w. in_scope en filt i w = sc i" and "\<And>w. se_group_ids en w = ids"
    and "engine_push en remotes filt scope w = (Inr by_remote, w')"
  shows "\<exists>targets. resolve_scope remotes scope = Inr targets
    \<and> list_all2 (\<lambda>b x. ro_remote_name x = br_name b
        \<and> mset (map pg_group_id (ro_pushed x)) + mset (map gf_group_id (ro_failed x))
          = mset (filter sc (push_candidates en b filt w))) targets by_remote
    \<and> total_pushed by_remote + total_failed by_remote
        = sum_list (map (\<lambda>b. length (filter sc (push_candidates en b filt w))) targets)"
proof -
  from assms(4) obtain targets where t: "resolve_scope remotes scope = Inr targets" "push_remotes en filt targets w = (by_remote, w')"
    by (auto simp: engine_push_def split: sum.splits prod.splits)
  have "in_scope en filt = (\<lambda>i w. sc i)" for w :: 'a using assms(2) by blast
  from push_remotes_cover [OF assms(1) this assms(3) t(2)]
  have cover: "list_all2 (\<lambda>b x. ro_remote_name x = br_name b
        \<and> mset (map pg_group_id (ro_pushed x)) + mset (map gf_group_id (ro_failed x))
          = mset (filter sc (push_candidates en b filt w))) targets by_remote" by simp
  then have "total_pushed by_remote + total_failed by_remote
      = sum_list (map (\<lambda>b. length (filter sc (push_candidates en b filt w))) targets)"
  proof (induction rule: list_all2_induct)
    case (Cons b targets x by_remote)
    from Cons.hyps(1) have "length (ro_pushed x) + length (ro_failed x) = length (filter sc (push_candidates en b filt w))"
      by (metis length_map size_mset size_union)
    with Cons.IH show ?case by (simp add: total_pushed_def total_failed_def)
  qed (simp add: total_pushed_def total_failed_def)
  with t(1) cover show ?thesis by blast
qed

text \<open>
  An engine whose remotes come from the configuration always has its default: with at least one
  remote bound, the default scope selects exactly the configured one.
\<close>

lemma default_remote_unique:
  assumes "length (filter br_default bs) = 1"
  shows "\<exists>b. filter br_default bs = [b] \<and> default_remote bs = Inr b"
proof -
  from assms obtain b where b: "filter br_default bs = [b]" by (auto simp: length_Suc_conv)
  then have "find br_default bs = Some b" by (induction bs) (auto split: if_splits)
  with b show ?thesis by (simp add: default_remote_def)
qed

lemma rtranclp_stutter: "r\<^sup>*\<^sup>* a b \<Longrightarrow> (\<And>u v. r u v \<Longrightarrow> u = v \<or> s u v) \<Longrightarrow> s\<^sup>*\<^sup>* a b"
  by (induction rule: rtranclp_induct) (auto intro: rtranclp.rtrancl_into_rtrancl)

section \<open>What a backend promises\<close>

text \<open>The moves of a pull: from the default remote's tracking ref, on groups the report lists.\<close>

definition pull_move ::
  "'w sync_engine \<Rightarrow> (repo_handle \<Rightarrow> string \<Rightarrow> 'w \<Rightarrow> 'w \<Rightarrow> bool) \<Rightarrow> bound_remote \<Rightarrow> server_group list \<Rightarrow> 'w \<Rightarrow> 'w \<Rightarrow> bool" where
  "pull_move en adv d updated u v \<longleftrightarrow>
     (\<exists>x\<in>set updated. \<exists>h. local_handle en (rg_group_id x) u = Some h \<and> adv h (tracking_ref d) u v)"

text \<open>
  The laws the engine relies on: nothing but a fast-forward moves a local branch, and a
  fast-forward that does not report an advance leaves the world alone. \<open>keeps\<close> relates worlds
  that agree on the local branches, \<open>advances h t\<close> a world to one in which the main branch of
  the repository \<open>h\<close> was moved to the ref \<open>t\<close>.
\<close>

locale sync_backend =
  fixes en :: "'w sync_engine" and keeps :: "'w \<Rightarrow> 'w \<Rightarrow> bool"
    and advances :: "repo_handle \<Rightarrow> string \<Rightarrow> 'w \<Rightarrow> 'w \<Rightarrow> bool"
  assumes keeps_refl: "keeps w w"
    and keeps_trans: "keeps u v \<Longrightarrow> keeps v w \<Longrightarrow> keeps u w"
    and manifest_law: "se_manifest en c w = (a, w') \<Longrightarrow> keeps w w'"
    and push_law: "se_push en h url refs creds w = (p, w') \<Longrightarrow> keeps w w'"
    and fetch_law: "se_fetch en h url [ref_spec_new MAIN_BRANCH_REF (tracking_ref b)] creds w = (f, w') \<Longrightarrow> keeps w w'"
    and fast_forward_law: "se_fast_forward en h MAIN_BRANCH_REF t w = (r, w') \<Longrightarrow>
        (case r of Inr (Advanced _ _) \<Rightarrow> advances h t w w' | _ \<Rightarrow> w' = w)"
    and order_law: "mset (se_order en w n) = mset [0..<n]"
begin

lemma keeps_star: "keeps\<^sup>*\<^sup>* u v \<Longrightarrow> keeps u v"
  by (induction rule: rtranclp_induct) (auto intro: keeps_refl keeps_trans)

lemma poll_keeps: "poll_manifests en bs w = (r, w') \<Longrightarrow> keeps w w'"
proof (induction bs arbitrary: w r w')
  case (Cons b bs)
  show ?case
  proof (cases "br_transport b")
    case (ServerTransport c)
    obtain a w1 where a: "se_manifest en c w = (a, w1)" by fastforce
    obtain r1 w2 where r1: "poll_manifests en bs w1 = (r1, w2)" by fastforce
    with Cons.prems ServerTransport a have "w' = w2" by (auto split: sum.splits prod.splits)
    with keeps_trans [OF manifest_law [OF a] Cons.IH [OF r1]] show ?thesis by simp
  qed (use Cons in simp)
qed (simp add: keeps_refl)

lemma fetch_one_keeps: "fetch_one_group en c w = (r, w') \<Longrightarrow> keeps w w'"
  by (auto simp: fetch_one_group_def Let_def split: prod.splits sum.splits git_error.splits dest: fetch_law)

lemma push_one_keeps: "push_one_group en b filt i w = (r, w') \<Longrightarrow> keeps w w'"
  by (auto simp: push_one_group_def Let_def keeps_refl split: if_splits prod.splits sum.splits option.splits git_error.splits dest: push_law)

lemma batch_keeps:
  assumes "run_bounded key_of op (se_order en w0 (length items)) items w = (outcomes, w')"
    "\<And>x w r w'. op x w = (r, w') \<Longrightarrow> keeps w w'"
  shows "keeps w w'"
proof (rule keeps_star)
  have "batch_step key_of op items (set outcomes) \<le> keeps" using assms(2) by (auto simp: batch_step_def)
  with run_bounded_trace [OF order_law assms(1)] show "keeps\<^sup>*\<^sup>* w w'" using rtranclp_mono by blast
qed

lemma fetch_keeps:
  assumes "engine_fetch en remotes filt w = (r, w')"
  shows "keeps w w' \<and> (\<exists>report. r = Inr report)"
proof -
  obtain manifests failures w1 where p: "poll_manifests en remotes w = ((manifests, failures), w1)"
    by (metis surj_pair)
  obtain new_groups cs where a: "advertised en filt w1 {} (concat (map (\<lambda>(b, groups). map (Pair b) groups) manifests)) = (new_groups, cs)"
    by fastforce
  define items where "items = cs @ List.map_filter (direct_candidate en filt w1) remotes"
  obtain outcomes w2 where o: "run_bounded fc_group_id (fetch_one_group en) (se_order en w1 (length items)) items w1 = (outcomes, w2)"
    by fastforce
  obtain groups failed where g: "partition_sync_outcomes outcomes = (groups, failed)" by fastforce
  from assms have "w' = w2" "\<exists>report. r = Inr report"
    unfolding engine_fetch_def Let_def p a prod.case o [unfolded items_def] g by auto
  moreover have "keeps w1 w2" by (rule batch_keeps [OF o]) (rule fetch_one_keeps)
  ultimately show ?thesis using keeps_trans [OF poll_keeps [OF p]] by blast
qed

lemma push_keeps: "engine_push en remotes filt scope w = (r, w') \<Longrightarrow> keeps w w'"
proof -
  have "push_remotes en filt targets w = (xs, w') \<Longrightarrow> keeps w w'" for targets w xs w'
  proof (induction targets arbitrary: w xs w')
    case (Cons b targets)
    then show ?case
      by (auto simp: push_remote_def Let_def split: prod.splits
          intro: keeps_trans [OF batch_keeps [OF _ push_one_keeps]])
  qed (simp add: keeps_refl)
  then show "engine_push en remotes filt scope w = (r, w') \<Longrightarrow> keeps w w'"
    by (auto simp: engine_push_def keeps_refl split: sum.splits prod.splits)
qed

lemma fast_forward_one_move:
  assumes "fast_forward_one_group en f handle w = (r, w')"
  shows "w' = w \<or> (\<exists>x h. r = Inr x \<and> rg_group_id x = fg_group_id f \<and> handle = Some h
    \<and> advances h (''refs/remotes/'' @ fg_remote_name f @ ''/main'') w w')"
proof (cases "if fg_ref_updated f then handle else None")
  case None
  with assms show ?thesis by (simp add: fast_forward_one_group_def)
next
  case (Some h)
  obtain t where t: "t = ''refs/remotes/'' @ fg_remote_name f @ ''/main''" by blast
  obtain a w1 where a: "se_fast_forward en h MAIN_BRANCH_REF t w = (a, w1)" by fastforce
  from Some have h: "handle = Some h" by (simp split: if_splits)
  from assms have "w' = w1" "(\<exists>x y. a = Inr (Advanced x y)) \<longrightarrow> (\<exists>x. r = Inr x \<and> rg_group_id x = fg_group_id f)"
    unfolding fast_forward_one_group_def Let_def Some option.case t [symmetric] a prod.case
    by (auto split: sum.splits git_error.splits ff_outcome.splits)
  with fast_forward_law [OF a] h show ?thesis unfolding t [symmetric]
    by (cases a) (auto split: ff_outcome.splits)
qed

lemma pull_trace:
  assumes "engine_pull en remotes filt w = (Inr report, w')"
  shows "\<exists>d w1. default_remote remotes = Inr d \<and> keeps w w1 \<and> (pull_move en advances d (pl_updated report))\<^sup>*\<^sup>* w1 w'"
proof -
  from assms obtain d fetched w1 where d: "default_remote remotes = Inr d" "engine_fetch en remotes filt w = (Inr fetched, w1)"
    by (auto simp: engine_pull_def split: sum.splits prod.splits)
  define items where "items = filter (\<lambda>f. fg_remote_name f = br_name d) (fr_groups fetched)"
  let ?op = "\<lambda>f w. fast_forward_one_group en f (local_handle en (fg_group_id f) w) w"
  obtain outcomes w2 where o: "run_bounded fg_group_id ?op (se_order en w1 (length items)) items w1 = (outcomes, w2)" by fastforce
  obtain updated failed where g: "partition_sync_outcomes outcomes = (updated, failed)" by fastforce
  from assms d have r: "w' = w2" "pl_updated report = updated"
    unfolding engine_pull_def d sum.case prod.case Let_def items_def [symmetric] o g by auto
  have "u = v \<or> pull_move en advances d updated u v" if "batch_step fg_group_id ?op items (set outcomes) u v" for u v
  proof -
    from that obtain f r where f: "f \<in> set items" "?op f u = (r, v)" "(fg_group_id f, r) \<in> set outcomes"
      unfolding batch_step_def by blast
    have n: "''refs/remotes/'' @ fg_remote_name f @ ''/main'' = tracking_ref d" using f(1) by (simp add: items_def tracking_ref_def)
    have listed: "x \<in> set updated" if "r = Inr x" for x
      using partition_sync_outcomes_parts [OF g, THEN conjunct1] f(3) that by (force simp: set_map_filter)
    from fast_forward_one_move [OF f(2)] consider "v = u"
      | x h where "r = Inr x" "rg_group_id x = fg_group_id f" "local_handle en (fg_group_id f) u = Some h"
        "advances h (tracking_ref d) u v" unfolding n by metis
    then show ?thesis
    proof cases
      case 2
      from 2(3,4) listed [OF 2(1)] show ?thesis unfolding pull_move_def by (intro disjI2 bexI [of _ x] exI [of _ h]) (simp_all add: 2(2))
    qed simp
  qed
  with run_bounded_trace [OF order_law o] have "(pull_move en advances d updated)\<^sup>*\<^sup>* w1 w2" by (rule rtranclp_stutter)
  moreover have "keeps w w1" using fetch_keeps [OF d(2)] ..
  ultimately show ?thesis using d(1) unfolding r by (intro exI conjI)
qed

lemma pull_error: "engine_pull en remotes filt w = (Inl e, w') \<Longrightarrow> w' = w \<and> default_remote remotes = Inl e"
  using fetch_keeps by (fastforce simp: engine_pull_def Let_def split: sum.splits prod.splits)

end

section \<open>The local mirror\<close>

text \<open>
  The engine on the client: the world is the repositories by path, fast-forwards are those of the
  native backend, and the group index answers the lookups, which fail while \<open>busy\<close> holds. The
  effect of a network transfer on the local repository is a parameter.
\<close>

record net =
  nt_fetch :: "string \<Rightarrow> ref_spec list \<Rightarrow> credentials \<Rightarrow> repo \<Rightarrow> (git_error + unit) \<times> repo"
  nt_push :: "string \<Rightarrow> ref_spec list \<Rightarrow> credentials \<Rightarrow> repo \<Rightarrow> (git_error + push_report) \<times> repo"
  nt_manifest :: "sync_client \<Rightarrow> sync_error + server_group list"

definition index_resolve :: "bool \<Rightarrow> group_index \<Rightarrow> uuid \<Rightarrow> unit + repo_handle option" where
  "index_resolve busy idx i = map_ok (map_option ge_handle) (try_get busy idx i)"

definition index_group_ids :: "bool \<Rightarrow> (group_index \<Rightarrow> uuid list) \<Rightarrow> group_index \<Rightarrow> uuid list" where
  "index_group_ids busy keys idx = try_list_ids busy keys idx"

definition index_scope_of :: "bool \<Rightarrow> group_index \<Rightarrow> uuid \<Rightarrow> group_scope option" where
  "index_scope_of busy idx i = try_scope_of busy idx i"

type_synonym mirror = "string \<Rightarrow> repo"

definition at_repo :: "(repo \<Rightarrow> 'a \<times> repo) \<Rightarrow> repo_handle \<Rightarrow> mirror \<Rightarrow> 'a \<times> mirror" where
  "at_repo f h w = (let (a, r) = f (w (snd h)) in (a, w(snd h := r)))"

definition mirror_engine ::
  "'ed gix \<Rightarrow> net \<Rightarrow> uuids \<Rightarrow> (uuid option \<Rightarrow> mirror \<Rightarrow> bool) \<Rightarrow> (group_index \<Rightarrow> uuid list) \<Rightarrow> group_index
    \<Rightarrow> (mirror \<Rightarrow> nat \<Rightarrow> nat list) \<Rightarrow> mirror sync_engine" where
  "mirror_engine g net uu busy keys idx order =
     \<lparr> se_push = (\<lambda>h url refs creds. at_repo (nt_push net url refs creds) h),
       se_fetch = (\<lambda>h url refs creds. at_repo (nt_fetch net url refs creds) h),
       se_fast_forward = (\<lambda>h local_ref target. at_repo (\<lambda>r. fast_forward g r local_ref target) h),
       se_manifest = (\<lambda>c w. (nt_manifest net c, w)),
       se_resolve = (\<lambda>i w. index_resolve (busy (Some i) w) idx i),
       se_group_ids = (\<lambda>w. index_group_ids (busy None w) keys idx),
       se_scope_of = (\<lambda>i w. index_scope_of (busy (Some i) w) idx i),
       se_order = order, se_uuids = uu \<rparr>"

text \<open>
  What is relied on of the transfers: a push leaves the local branch and the objects alone, and a
  fetch whose refspecs write below \<open>refs/remotes/\<close> adds objects and leaves the branch alone.
\<close>

definition branch_kept :: "repo \<Rightarrow> repo \<Rightarrow> bool" where
  "branch_kept r r' \<longleftrightarrow> g_refs r' MAIN_BRANCH_REF = g_refs r MAIN_BRANCH_REF
     \<and> (\<forall>i obj. g_objects r i = Some obj \<longrightarrow> g_objects r' i = Some obj)"

definition net_contract :: "net \<Rightarrow> bool" where
  "net_contract net \<longleftrightarrow>
     (\<forall>url refs creds r. branch_kept r (snd (nt_push net url refs creds r)))
     \<and> (\<forall>url refs creds r. (\<forall>s\<in>set refs. starts_with (rs_remote s) ''refs/remotes/'') \<longrightarrow>
          branch_kept r (snd (nt_fetch net url refs creds r)))"

definition mirror_keeps :: "mirror \<Rightarrow> mirror \<Rightarrow> bool" where
  "mirror_keeps u v \<longleftrightarrow> (\<forall>p. branch_kept (u p) (v p))"

definition mirror_advances :: "repo_handle \<Rightarrow> string \<Rightarrow> mirror \<Rightarrow> mirror \<Rightarrow> bool" where
  "mirror_advances h t u v \<longleftrightarrow>
     (\<exists>target. g_refs (u (snd h)) t = Some target
        \<and> (case g_refs (u (snd h)) MAIN_BRANCH_REF of Some i \<Rightarrow> anc (u (snd h)) i target | None \<Rightarrow> True)
        \<and> v = u(snd h := (u (snd h))\<lparr> g_refs := (g_refs (u (snd h)))(MAIN_BRANCH_REF \<mapsto> target) \<rparr>))"

lemma branch_kept_refl: "branch_kept r r" by (simp add: branch_kept_def)
lemma branch_kept_trans: "branch_kept r s \<Longrightarrow> branch_kept s t \<Longrightarrow> branch_kept r t" by (simp add: branch_kept_def)

lemma at_repo_keeps: "at_repo f h w = (a, w') \<Longrightarrow> (\<And>r. branch_kept r (snd (f r))) \<Longrightarrow> mirror_keeps w w'"
  by (auto simp: at_repo_def mirror_keeps_def branch_kept_refl split: prod.splits) (metis snd_conv)

lemma tracking_ref_remote: "starts_with (tracking_ref b) ''refs/remotes/''"
  unfolding starts_with_iff tracking_ref_def by blast

lemma mirror_backend:
  assumes "gix_backend g view base" "net_contract net" "\<And>w n. mset (order w n) = mset [0..<n]"
  shows "sync_backend (mirror_engine g net uu busy keys idx order) mirror_keeps mirror_advances"
proof unfold_locales
  let ?en = "mirror_engine g net uu busy keys idx order"
  show "mirror_keeps w w" for w by (simp add: mirror_keeps_def branch_kept_refl)
  show "mirror_keeps u w" if "mirror_keeps u v" "mirror_keeps v w" for u v w
    using that branch_kept_trans unfolding mirror_keeps_def by blast
  then show "mirror_keeps w w'" if "se_manifest ?en c w = (a, w')" for c w a w'
    using that by (simp add: mirror_engine_def mirror_keeps_def branch_kept_refl)
  show "mirror_keeps w w'" if "se_push ?en h url refs creds w = (p, w')" for h url refs creds w p w'
    using that assms(2) by (auto simp: mirror_engine_def net_contract_def intro: at_repo_keeps)
  show "mirror_keeps w w'" if "se_fetch ?en h url [ref_spec_new MAIN_BRANCH_REF (tracking_ref b)] creds w = (f, w')"
    for h url b creds w f w'
    using that assms(2) tracking_ref_remote [of b]
    by (auto simp: mirror_engine_def net_contract_def ref_spec_new_def intro!: at_repo_keeps)
  show "mset (se_order ?en w n) = mset [0..<n]" for w n using assms(3) by (simp add: mirror_engine_def)
  fix h t w r w' assume "se_fast_forward ?en h MAIN_BRANCH_REF t w = (r, w')"
  then obtain r1 where f: "fast_forward g (w (snd h)) MAIN_BRANCH_REF t = (r, r1)" "w' = w(snd h := r1)"
    by (auto simp: mirror_engine_def at_repo_def split: prod.splits)
  from gix_backend.fast_forward_cases [OF assms(1) f(1)]
  show "case r of Inr (Advanced _ _) \<Rightarrow> mirror_advances h t w w' | _ \<Rightarrow> w' = w"
    unfolding f(2) by (auto simp: mirror_advances_def split: option.splits if_splits sum.splits ff_outcome.splits)
qed

lemma anc_objects:
  assumes "\<And>i obj. g_objects r i = Some obj \<Longrightarrow> g_objects r' i = Some obj" "anc r a d"
  shows "anc r' a d"
proof -
  have "parent_rel r \<subseteq> parent_rel r'" using assms(1) by (auto simp: parent_rel_def)
  then show ?thesis using assms(2) rtrancl_mono unfolding anc_def by blast
qed

lemma anc_trans: "anc r a b \<Longrightarrow> anc r b c \<Longrightarrow> anc r a c"
  unfolding anc_def by (rule rtrancl_trans)

lemma anc_same_objects: "g_objects r' = g_objects r \<Longrightarrow> anc r' = anc r"
  by (simp add: anc_def parent_rel_def fun_eq_iff)

text \<open>What a pull may have done to the repository at a path, and why.\<close>

definition pulled_ok :: "group_index \<Rightarrow> bound_remote \<Rightarrow> server_group list \<Rightarrow> string \<Rightarrow> repo \<Rightarrow> repo \<Rightarrow> bool" where
  "pulled_ok idx d updated path r r' \<longleftrightarrow>
     (\<forall>i. g_refs r MAIN_BRANCH_REF = Some i \<longrightarrow> (\<exists>j. g_refs r' MAIN_BRANCH_REF = Some j \<and> anc r' i j))
     \<and> (g_refs r' MAIN_BRANCH_REF \<noteq> g_refs r MAIN_BRANCH_REF \<longrightarrow>
          g_refs r' MAIN_BRANCH_REF = g_refs r' (tracking_ref d)
          \<and> (\<exists>x\<in>set updated. \<exists>e. idx (rg_group_id x) = Some e \<and> snd (ge_handle e) = path))"

lemma pulled_ok_kept: "branch_kept r r' \<Longrightarrow> pulled_ok idx d updated path r r'"
  by (auto simp: branch_kept_def pulled_ok_def anc_def)

lemma tracking_not_main: "tracking_ref d \<noteq> MAIN_BRANCH_REF"
  by (simp add: tracking_ref_def MAIN_BRANCH_REF_def)

lemma pulled_ok_move:
  assumes "pulled_ok idx d updated p (w p) (u p)" "mirror_advances h (tracking_ref d) u v"
    "x \<in> set updated" "idx (rg_group_id x) = Some e" "ge_handle e = h"
  shows "pulled_ok idx d updated p (w p) (v p)"
proof (cases "p = snd h")
  case True
  from assms(2) obtain target where t: "g_refs (u p) (tracking_ref d) = Some target"
    "case g_refs (u p) MAIN_BRANCH_REF of Some i \<Rightarrow> anc (u p) i target | None \<Rightarrow> True"
    "v p = (u p)\<lparr> g_refs := (g_refs (u p))(MAIN_BRANCH_REF \<mapsto> target) \<rparr>"
    unfolding mirror_advances_def True [symmetric] by auto
  have a: "anc (v p) = anc (u p)" by (rule anc_same_objects) (simp add: t(3))
  have "g_refs (v p) (tracking_ref d) = Some target" using t(1,3) tracking_not_main [of d] by simp
  moreover have "anc (v p) i target" if "g_refs (w p) MAIN_BRANCH_REF = Some i" for i
    using assms(1) that t(2) anc_trans [of "u p" i _ target] unfolding a by (auto simp: pulled_ok_def)
  moreover have "g_refs (v p) MAIN_BRANCH_REF = Some target" by (simp add: t(3))
  ultimately show ?thesis using assms(3-5) True by (auto simp: pulled_ok_def)
next
  case False
  with assms(2) have "v p = u p" by (auto simp: mirror_advances_def)
  with assms(1) show ?thesis by simp
qed

text \<open>
  C11. A pull only ever moves a local branch forward, and only along the default remote: it fails
  without touching anything when there is no default; otherwise, whatever the transfers return
  and in whatever order they complete, the main branch of every repository keeps its history,
  and where it moved it is at the default remote's tracking ref and its group is reported as
  updated.
\<close>

theorem pull_advances_default_only:
  assumes "gix_backend g view base" and "net_contract net" and "\<And>w n. mset (order w n) = mset [0..<n]"
    and "engine_pull (mirror_engine g net uu busy keys idx order) remotes filt w = (res, w')"
  shows "case res of
      Inl e \<Rightarrow> default_remote remotes = Inl e \<and> w' = w
    | Inr report \<Rightarrow> (\<exists>d. default_remote remotes = Inr d
        \<and> (\<forall>path. pulled_ok idx d (pl_updated report) path (w path) (w' path)))"
proof -
  let ?en = "mirror_engine g net uu busy keys idx order"
  have backend: "sync_backend ?en mirror_keeps mirror_advances" by (rule mirror_backend [OF assms(1-3)])
  show ?thesis
  proof (cases res)
    case (Inl e)
    with sync_backend.pull_error [OF backend] assms(4) show ?thesis by simp
  next
    case (Inr report)
    with sync_backend.pull_trace [OF backend] assms(4) obtain d w1 where d: "default_remote remotes = Inr d" "mirror_keeps w w1"
      "(pull_move ?en mirror_advances d (pl_updated report))\<^sup>*\<^sup>* w1 w'" by blast
    from d(3) have "\<forall>p. pulled_ok idx d (pl_updated report) p (w p) (w' p)"
    proof (induction rule: rtranclp_induct)
      case base
      from d(2) show ?case by (simp add: mirror_keeps_def pulled_ok_kept)
    next
      case (step u v)
      from step(2) obtain x h where x: "x \<in> set (pl_updated report)" "mirror_advances h (tracking_ref d) u v"
        "local_handle ?en (rg_group_id x) u = Some h" by (auto simp: pull_move_def)
      then obtain e where "idx (rg_group_id x) = Some e" "ge_handle e = h"
        by (auto simp: local_handle_def mirror_engine_def index_resolve_def try_get_def split: sum.splits if_splits)
      with pulled_ok_move [OF _ x(2,1)] step(3) show ?case by blast
    qed
    with Inr d(1) show ?thesis by auto
  qed
qed

section \<open>A concrete mirror\<close>

text \<open>A network with one remote: a fetch copies its objects and sets the refs asked for.\<close>

definition copy_net :: "repo \<Rightarrow> net" where
  "copy_net remote =
     \<lparr> nt_fetch = (\<lambda>url refs creds r. (Inr (), r\<lparr> g_objects := g_objects remote ++ g_objects r,
         g_refs := fold (\<lambda>s refs. refs(rs_remote s := g_refs remote (rs_local s))) refs (g_refs r) \<rparr>)),
       nt_push = (\<lambda>url refs creds r. (Inr \<lparr> pr_updated = [], pr_rejected = [] \<rparr>, r)),
       nt_manifest = (\<lambda>c. Inr [\<lparr> rg_group_id = 7, rg_slug = ''team'', rg_head_commit = ''h'' \<rparr>]) \<rparr>"

lemma copy_net_contract: "net_contract (copy_net remote)"
proof -
  have "\<forall>s\<in>set refs. starts_with (rs_remote s) ''refs/remotes/'' \<Longrightarrow>
      fold (\<lambda>s refs. refs(rs_remote s := g_refs remote (rs_local s))) refs m MAIN_BRANCH_REF = m MAIN_BRANCH_REF" for refs m
    by (induction refs arbitrary: m) (auto simp: MAIN_BRANCH_REF_def starts_with_iff)
  then show ?thesis by (auto simp: net_contract_def copy_net_def branch_kept_def map_add_def)
qed

definition team_engine :: "mirror sync_engine" where
  "team_engine = mirror_engine ref_gix (copy_net first_repo) unary_uuids (\<lambda>_ _. False) sorted_keys [7 \<mapsto> ex_entry] (\<lambda>w n. [0..<n])"

interpretation team: sync_backend team_engine mirror_keeps mirror_advances
  unfolding team_engine_def by (rule mirror_backend [OF ref.gix_backend_axioms copy_net_contract]) simp

definition team_remotes :: "bound_remote list" where
  "team_remotes = [\<lparr> br_name = ''a'', br_default = True, br_include_in_push_all = True,
     br_transport = GitTransport ''u'' NoCredentials 7 \<rparr>]"

definition team_mirror :: mirror where
  "team_mirror p = empty_repo"

lemma team_resolves: "local_handle team_engine 7 w = Some group_handle" "in_scope team_engine FilterAll 7 w"
  by (simp_all add: local_handle_def team_engine_def mirror_engine_def index_resolve_def try_get_def ex_entry_def
      in_scope_def group_matches_def)

lemma run_bounded_single: "op x w = (r, w') \<Longrightarrow> run_bounded key_of op [0] [x] w = ([(key_of x, r)], w')"
  by (simp add: run_bounded_def)

lemma first_main: "\<exists>i. g_refs first_repo MAIN_BRANCH_REF = Some i"
  using first_repo_ready by (auto simp: store_ready_def head_follows_main_def MAIN_BRANCH_REF_def branch_ref_def MAIN_BRANCH_def)

definition team_fetched :: repo where
  "team_fetched = snd (nt_fetch (copy_net first_repo) ''u'' [ref_spec_new MAIN_BRANCH_REF ''refs/remotes/a/main''] NoCredentials empty_repo)"

lemma team_fetches:
  "engine_fetch team_engine team_remotes FilterAll team_mirror =
     (Inr \<lparr> fr_groups = [\<lparr> fg_group_id = 7, fg_remote_name = ''a'', fg_slug = None, fg_remote_head = None, fg_ref_updated = True \<rparr>],
        fr_new_groups = [], fr_failed = [], fr_manifest_failures = [] \<rparr>, team_mirror(snd group_handle := team_fetched))"
proof -
  let ?d = "hd team_remotes"
  let ?c = "\<lparr> fc_remote = ?d, fc_group_id = 7, fc_slug = None, fc_remote_head = None, fc_handle = group_handle \<rparr>"
  have d: "direct_candidate team_engine FilterAll team_mirror ?d = Some ?c"
    by (simp add: direct_candidate_def team_remotes_def team_resolves)
  have "fetch_one_group team_engine ?c team_mirror =
    (Inr \<lparr> fg_group_id = 7, fg_remote_name = ''a'', fg_slug = None, fg_remote_head = None, fg_ref_updated = True \<rparr>,
     team_mirror(snd group_handle := team_fetched))"
    by (simp add: fetch_one_group_def team_remotes_def remote_endpoint_def team_engine_def mirror_engine_def at_repo_def
        copy_net_def team_fetched_def tracking_ref_def team_mirror_def)
  note one = run_bounded_single [where op = "fetch_one_group team_engine" and key_of = fc_group_id, OF this]
  have o: "se_order team_engine team_mirror (length [?c]) = [0]" by (simp add: team_engine_def mirror_engine_def)
  have p: "poll_manifests team_engine team_remotes team_mirror = (([], []), team_mirror)" by (simp add: team_remotes_def)
  have l: "List.map_filter (direct_candidate team_engine FilterAll team_mirror) team_remotes = [?c]"
    using d by (simp add: team_remotes_def map_filter_simps)
  show ?thesis unfolding engine_fetch_def p Let_def prod.case
    by (simp add: l o [simplified] one)
qed

lemma team_pulls:
  "\<exists>report w'. engine_pull team_engine team_remotes FilterAll team_mirror = (Inr report, w')
     \<and> map rg_group_id (pl_updated report) = [7] \<and> pl_failed report = []
     \<and> g_refs (w' (snd group_handle)) MAIN_BRANCH_REF = g_refs first_repo MAIN_BRANCH_REF"
proof -
  let ?f = "\<lparr> fg_group_id = 7, fg_remote_name = ''a'', fg_slug = None, fg_remote_head = None, fg_ref_updated = True \<rparr>"
  let ?op = "\<lambda>f w. fast_forward_one_group team_engine f (local_handle team_engine (fg_group_id f) w) w"
  let ?w = "team_mirror(snd group_handle := team_fetched)"
  from first_main obtain i where i: "g_refs first_repo MAIN_BRANCH_REF = Some i" ..
  have refs: "g_refs team_fetched = [''refs/remotes/a/main'' \<mapsto> i]"
    by (simp add: team_fetched_def copy_net_def ref_spec_new_def empty_repo_def i fun_eq_iff)
  define moved where "moved = team_fetched\<lparr> g_refs := (g_refs team_fetched)(MAIN_BRANCH_REF \<mapsto> i) \<rparr>"
  have ff: "fast_forward ref_gix team_fetched MAIN_BRANCH_REF ''refs/remotes/a/main'' = (Inr (Advanced None i), moved)"
    by (simp add: fast_forward_def find_reference_def refs MAIN_BRANCH_REF_def move_ref_def ref_gix_def moved_def)
  have d: "default_remote team_remotes = Inr (hd team_remotes)" by (simp add: default_remote_def team_remotes_def)
  obtain x where x: "?op ?f ?w = (Inr x, ?w(snd group_handle := moved))" "rg_group_id x = 7"
    by (simp add: fast_forward_one_group_def team_resolves)
      (simp add: team_engine_def mirror_engine_def at_repo_def ff)
  note one = run_bounded_single [where op = ?op and key_of = fg_group_id, OF x(1)]
  have o: "se_order team_engine v (Suc 0) = [0]" for v by (simp add: team_engine_def mirror_engine_def)
  have "br_name (hd team_remotes) = ''a''" by (simp add: team_remotes_def)
  then have "engine_pull team_engine team_remotes FilterAll team_mirror =
      (Inr \<lparr> pl_updated = [x], pl_new_groups = [], pl_failed = [], pl_manifest_failures = [] \<rparr>, ?w(snd group_handle := moved))"
    unfolding engine_pull_def d sum.case team_fetches prod.case Let_def by (simp add: o one)
  with x(2) i show ?thesis by (simp add: moved_def)
qed

theorem pull_advances_default_only_witness:
  "\<exists>report w'. engine_pull team_engine team_remotes FilterAll team_mirror = (Inr report, w')
     \<and> g_refs (team_mirror (snd group_handle)) MAIN_BRANCH_REF = None
     \<and> g_refs (w' (snd group_handle)) MAIN_BRANCH_REF \<noteq> None
     \<and> pulled_ok [7 \<mapsto> ex_entry] (hd team_remotes) (pl_updated report) (snd group_handle) empty_repo (w' (snd group_handle))"
proof -
  from team_pulls obtain report w' where p: "engine_pull team_engine team_remotes FilterAll team_mirror = (Inr report, w')"
    "g_refs (w' (snd group_handle)) MAIN_BRANCH_REF = g_refs first_repo MAIN_BRANCH_REF" by blast
  from pull_advances_default_only [OF ref.gix_backend_axioms copy_net_contract _ p(1) [unfolded team_engine_def]]
  have "pulled_ok [7 \<mapsto> ex_entry] (hd team_remotes) (pl_updated report) (snd group_handle)
      (team_mirror (snd group_handle)) (w' (snd group_handle))" by (simp add: default_remote_def team_remotes_def)
  with p first_main show ?thesis by (auto simp: team_mirror_def empty_repo_def)
qed

text \<open>The same mirror pushed.\<close>

theorem push_report_covers_witness:
  "\<exists>x w'. engine_push team_engine team_remotes FilterAll PushAll team_mirror = (Inr [x], w')
     \<and> total_pushed [x] + total_failed [x] = 1"
proof -
  have s: "schedule_ok team_engine" by (simp add: schedule_ok_def team_engine_def mirror_engine_def)
  have sc: "in_scope team_engine FilterAll i w = True" for i w by (simp add: in_scope_def group_matches_def)
  have ids: "se_group_ids team_engine w = [7]" for w
    by (simp add: team_engine_def mirror_engine_def index_group_ids_def try_list_ids_def sorted_keys_def)
  have "resolve_scope team_remotes PushAll = Inr team_remotes" by (simp add: resolve_scope_def team_remotes_def)
  moreover obtain x w' where p: "engine_push team_engine team_remotes FilterAll PushAll team_mirror = (Inr [x], w')"
    unfolding engine_push_def calculation by (cases "push_remote team_engine FilterAll (hd team_remotes) team_mirror")
      (simp add: team_remotes_def)
  moreover have "length (filter (\<lambda>i. True) (push_candidates team_engine (hd team_remotes) FilterAll team_mirror)) = 1"
    by (simp add: team_remotes_def push_candidates_def)
  ultimately show ?thesis using push_report_covers [OF s sc ids p] by (auto simp: team_remotes_def)
qed

section \<open>Two transfers of one repository\<close>

text \<open>
  Inside the backend a transfer is two commands: \<open>ensure_remote\<close> points the one remote called
  \<open>origin\<close> at the URL, then \<open>git fetch\<close> or \<open>git push\<close> talks to whatever \<open>origin\<close> is by then,
  with its own credentials and refspecs. A batch overlaps the transfers of one group from two
  remotes; here are their commands on the shared setting.
\<close>

datatype origin_command = SetOrigin string | TalkToOrigin credentials string

definition transfer_commands :: "string \<Rightarrow> credentials \<Rightarrow> string \<Rightarrow> origin_command list" where
  "transfer_commands url creds refspec = [SetOrigin url, TalkToOrigin creds refspec]"

fun contacts :: "string \<Rightarrow> origin_command list \<Rightarrow> (string \<times> credentials \<times> string) list" where
  "contacts origin [] = []"
| "contacts origin (SetOrigin url # cs) = contacts url cs"
| "contacts origin (TalkToOrigin creds refspec # cs) = (origin, creds, refspec) # contacts origin cs"

text \<open>
  One after the other each talks to its own URL; overlapped, the first remote's credentials and
  tracking ref can meet the second remote's URL.
\<close>

lemma transfers_in_turn:
  "contacts origin (transfer_commands u1 c1 r1 @ transfer_commands u2 c2 r2) = [(u1, c1, r1), (u2, c2, r2)]"
  by (simp add: transfer_commands_def)

lemma transfers_overlapped:
  "\<exists>cs \<in> shuffles (transfer_commands u1 c1 r1) (transfer_commands u2 c2 r2). (u2, c1, r1) \<in> set (contacts origin cs)"
proof
  show "[SetOrigin u1, SetOrigin u2, TalkToOrigin c1 r1, TalkToOrigin c2 r2]
      \<in> shuffles (transfer_commands u1 c1 r1) (transfer_commands u2 c2 r2)"
    by (simp add: transfer_commands_def Cons_in_shuffles_iff)
qed simp

end
