(* ===== verification/Home.thy ===== *)
theory Home
  imports Remotes Memory_Store
begin

text \<open>
  The home directory and the configuration files (\<open>mmcp-store\<close>, \<open>home.rs\<close> and \<open>config.rs\<close>):
  the layout under the home root, the search for a project's root, and reading and writing the
  project's and the user's configuration. The file system maps a path, as it is written, to a
  file or a folder; what the operating system refuses, and what a failed write leaves, is a
  parameter of every call, as are the environment, the TOML library and git's global settings.
\<close>

section \<open>Paths\<close>

text \<open>
  \<open>Path::join\<close> and \<open>Path::parent\<close> on Unix: empty components and those that are a dot are no
  components, unless the dot leads a relative path.
\<close>

definition path_join :: "string \<Rightarrow> string \<Rightarrow> string" where
  "path_join base p =
     (if starts_with p ''/'' then p
      else if base = [] \<or> last base = CHR ''/'' then base @ p
      else base @ ''/'' @ p)"

definition path_head :: "string \<Rightarrow> string" where
  "path_head p =
     (if starts_with p ''/'' then ''/''
      else if p = ''.'' \<or> starts_with p ''./'' then ''.'' else [])"

definition drop_blank :: "string list \<Rightarrow> string list" where
  "drop_blank ps = rev (dropWhile (\<lambda>c. c = [] \<or> c = ''.'') (rev ps))"

definition path_body :: "string \<Rightarrow> string list" where
  "path_body p = drop_blank (split_on CHR ''/'' (drop (length (path_head p)) p))"

definition path_parent :: "string \<Rightarrow> string option" where
  "path_parent p =
     (case path_body p of
        [] \<Rightarrow> (if path_head p = ''.'' then Some [] else None)
      | ps \<Rightarrow> Some (path_head p @ join_with ''/'' (drop_blank (butlast ps))))"

lemma join_with_butlast:
  "ps \<noteq> [] \<Longrightarrow> join_with s ps = (if butlast ps = [] then [] else join_with s (butlast ps) @ s) @ last ps"
proof (induction ps)
  case (Cons x ps)
  then show ?case by (cases ps) (auto simp: join_with_Cons)
qed simp

lemma join_with_append:
  "ps \<noteq> [] \<Longrightarrow> qs \<noteq> [] \<Longrightarrow> join_with s (ps @ qs) = join_with s ps @ s @ join_with s qs"
proof (induction ps)
  case (Cons x ps)
  then show ?case by (cases ps) (simp_all add: join_with_Cons)
qed simp

lemma length_join_prefix: "length (join_with s ps) \<le> length (join_with s (ps @ qs))"
  by (cases "ps = [] \<or> qs = []") (auto simp: join_with_append)

lemma drop_blank_split: "\<exists>bs. ps = drop_blank ps @ bs"
proof -
  have "rev ps = takeWhile (\<lambda>c. c = [] \<or> c = ''.'') (rev ps) @ dropWhile (\<lambda>c. c = [] \<or> c = ''.'') (rev ps)" by simp
  then have "ps = drop_blank ps @ rev (takeWhile (\<lambda>c. c = [] \<or> c = ''.'') (rev ps))"
    unfolding drop_blank_def by (metis rev_append rev_rev_ident)
  then show ?thesis ..
qed

lemma drop_blank_last: "drop_blank ps \<noteq> [] \<Longrightarrow> last (drop_blank ps) \<noteq> []"
proof -
  assume "drop_blank ps \<noteq> []"
  then have ne: "dropWhile (\<lambda>c. c = [] \<or> c = ''.'') (rev ps) \<noteq> []" unfolding drop_blank_def by simp
  then show ?thesis using hd_dropWhile [OF ne] unfolding drop_blank_def by (simp only: last_rev ne) simp
qed

lemma drop_blank_length: "length (join_with s (drop_blank ps)) \<le> length (join_with s ps)"
  using drop_blank_split [of ps] length_join_prefix [of s "drop_blank ps"] by metis

lemma path_head_prefix: "p = path_head p @ drop (length (path_head p)) p"
  by (auto simp: path_head_def starts_with_iff)

lemma path_parent_shorter:
  assumes "path_parent p = Some q"
  shows "length q < length p"
proof (cases "path_body p")
  case Nil
  with assms have "path_head p = ''.''" "q = []" by (auto simp: path_parent_def split: if_splits)
  then show ?thesis using path_head_prefix [of p] by (cases p) auto
next
  case (Cons c cs)
  let ?ps = "path_body p" and ?b = "drop (length (path_head p)) p"
  have ne: "?ps \<noteq> []" "last ?ps \<noteq> []"
    using Cons drop_blank_last [of "split_on CHR ''/'' ?b"] by (auto simp: path_body_def)
  have q: "q = path_head p @ join_with ''/'' (drop_blank (butlast ?ps))"
    using assms Cons by (simp add: path_parent_def)
  have "length (join_with ''/'' (drop_blank (butlast ?ps))) \<le> length (join_with ''/'' (butlast ?ps))"
    by (rule drop_blank_length)
  also have "\<dots> < length (join_with ''/'' ?ps)"
    using ne by (subst join_with_butlast [OF ne(1)]) auto
  also have "\<dots> \<le> length ?b"
    using drop_blank_length [of "''/''" "split_on CHR ''/'' ?b"] by (simp add: path_body_def)
  finally have "length q < length (path_head p) + length ?b" using q by simp
  also have "\<dots> = length p" using arg_cong [OF path_head_prefix [of p], of length] by simp
  finally show ?thesis .
qed

function path_ancestors :: "string \<Rightarrow> string list" where
  "path_ancestors p = p # (case path_parent p of None \<Rightarrow> [] | Some q \<Rightarrow> path_ancestors q)"
  by pat_completeness auto
termination by (relation "measure length") (simp_all add: path_parent_shorter)

declare path_ancestors.simps [simp del]

section \<open>The file system\<close>

datatype node = FileNode string | FolderNode

type_synonym disk = "string \<Rightarrow> node option"

datatype io_error = NotFoundError string | OtherIo string

fun show_io :: "io_error \<Rightarrow> string" where
  "show_io (NotFoundError e) = e"
| "show_io (OtherIo e) = e"

text \<open>
  What the operating system does at a call: the paths it cannot inspect, read, write (and what is
  then left there), rename to or make, whether it fails to remove a file, and its messages.
\<close>

record os_faults =
  os_stat :: "string \<Rightarrow> bool"
  os_read :: "string \<Rightarrow> string option"
  os_write :: "string \<Rightarrow> (string \<times> node option) option"
  os_rename :: "string \<Rightarrow> string option"
  os_make :: "string \<Rightarrow> string option"
  os_stuck :: bool
  os_missing :: string
  os_folder :: string
  os_not_folder :: string
  os_utf8 :: "string \<Rightarrow> string"

definition fs_exists :: "os_faults \<Rightarrow> disk \<Rightarrow> string \<Rightarrow> bool" where
  "fs_exists fo d p \<longleftrightarrow> d p \<noteq> None \<and> \<not> os_stat fo p"

definition fs_read :: "os_faults \<Rightarrow> disk \<Rightarrow> string \<Rightarrow> io_error + string" where
  "fs_read fo d p =
     (case os_read fo p of
        Some e \<Rightarrow> Inl (OtherIo e)
      | None \<Rightarrow>
          (case d p of
             None \<Rightarrow> Inl (NotFoundError (os_missing fo))
           | Some FolderNode \<Rightarrow> Inl (OtherIo (os_folder fo))
           | Some (FileNode bytes) \<Rightarrow> Inr bytes))"

definition fs_read_to_string :: "os_faults \<Rightarrow> disk \<Rightarrow> string \<Rightarrow> io_error + string" where
  "fs_read_to_string fo d p =
     bind_res (fs_read fo d p) (\<lambda>bytes. if utf8_ok bytes then Inr bytes else Inl (OtherIo (os_utf8 fo bytes)))"

definition fs_write :: "os_faults \<Rightarrow> disk \<Rightarrow> string \<Rightarrow> string \<Rightarrow> (string + unit) \<times> disk" where
  "fs_write fo d p bytes =
     (case os_write fo p of
        Some (e, left) \<Rightarrow> (Inl e, d(p := left))
      | None \<Rightarrow>
          (case d p of
             Some FolderNode \<Rightarrow> (Inl (os_folder fo), d)
           | _ \<Rightarrow> (Inr (), d(p \<mapsto> FileNode bytes))))"

definition fs_rename :: "os_faults \<Rightarrow> disk \<Rightarrow> string \<Rightarrow> string \<Rightarrow> (string + unit) \<times> disk" where
  "fs_rename fo d p q =
     (case os_rename fo q of
        Some e \<Rightarrow> (Inl e, d)
      | None \<Rightarrow>
          (case d p of
             None \<Rightarrow> (Inl (os_missing fo), d)
           | Some n \<Rightarrow> if d q = Some FolderNode then (Inl (os_folder fo), d) else (Inr (), d(p := None, q \<mapsto> n))))"

definition fs_remove_file :: "os_faults \<Rightarrow> disk \<Rightarrow> string \<Rightarrow> disk" where
  "fs_remove_file fo d p = (if os_stuck fo then d else d(p := None))"

text \<open>\<open>create_dir_all\<close>: the path and every ancestor of it, the empty one left out, the outermost first.\<close>

fun make_folders :: "os_faults \<Rightarrow> disk \<Rightarrow> string list \<Rightarrow> (string + unit) \<times> disk" where
  "make_folders fo d [] = (Inr (), d)"
| "make_folders fo d (p # ps) =
     (case d p of
        Some FolderNode \<Rightarrow> make_folders fo d ps
      | Some (FileNode _) \<Rightarrow> (Inl (os_not_folder fo), d)
      | None \<Rightarrow>
          (case os_make fo p of
             Some e \<Rightarrow> (Inl e, d)
           | None \<Rightarrow> make_folders fo (d(p \<mapsto> FolderNode)) ps))"

definition fs_create_dir_all :: "os_faults \<Rightarrow> disk \<Rightarrow> string \<Rightarrow> (string + unit) \<times> disk" where
  "fs_create_dir_all fo d p = make_folders fo d (rev (filter (\<lambda>q. q \<noteq> []) (path_ancestors p)))"

lemma make_folders_keeps: "make_folders fo d ps = (x, d') \<Longrightarrow> d q \<noteq> None \<Longrightarrow> d' q = d q"
proof (induction ps arbitrary: d)
  case (Cons p ps)
  show ?case
  proof (cases "d p")
    case None
    show ?thesis
    proof (cases "os_make fo p")
      case None
      with Cons.prems \<open>d p = None\<close> have m: "make_folders fo (d(p \<mapsto> FolderNode)) ps = (x, d')" by simp
      from Cons.prems \<open>d p = None\<close> have q: "q \<noteq> p" by auto
      then have "(d(p \<mapsto> FolderNode)) q \<noteq> None" using Cons.prems(2) by simp
      from Cons.IH [OF m this] q show ?thesis by simp
    qed (use Cons.prems \<open>d p = None\<close> in simp)
  next
    case (Some n)
    with Cons.prems show ?thesis by (cases n) (auto intro: Cons.IH)
  qed
qed simp

section \<open>The home directory\<close>

definition DEFAULT_MMCP_DIR :: string where "DEFAULT_MMCP_DIR = ''.mmcp''"
definition REPOS_SUBDIR :: string where "REPOS_SUBDIR = ''repos''"
definition SESSIONS_SUBDIR :: string where "SESSIONS_SUBDIR = ''sessions''"
definition USER_CONFIG_FILE :: string where "USER_CONFIG_FILE = ''config.toml''"

type_synonym env_vars = "string \<Rightarrow> string option"

definition resolve_user_home :: "env_vars \<Rightarrow> store_error + string" where
  "resolve_user_home vars =
     (case vars ''HOME'' of
        Some home \<Rightarrow> Inr home
      | None \<Rightarrow> (case vars ''USERPROFILE'' of Some profile \<Rightarrow> Inr profile | None \<Rightarrow> Inl HomeDirUnresolved))"

definition discover_home :: "env_vars \<Rightarrow> store_error + string" where
  "discover_home vars =
     (case vars ''MMCP_HOME'' of
        Some explicit \<Rightarrow> Inr explicit
      | None \<Rightarrow> bind_res (resolve_user_home vars) (\<lambda>home. Inr (path_join home DEFAULT_MMCP_DIR)))"

definition repos_root :: "string \<Rightarrow> string" where
  "repos_root root = path_join root REPOS_SUBDIR"

definition sessions_root :: "string \<Rightarrow> string" where
  "sessions_root root = path_join root SESSIONS_SUBDIR"

definition user_config_path :: "string \<Rightarrow> string" where
  "user_config_path root = path_join root USER_CONFIG_FILE"

section \<open>The configuration files\<close>

text \<open>The TOML library on a type of configuration; what it writes is UTF-8 and parses to what was written.\<close>

record 'c config_toml =
  ct_parse :: "string \<Rightarrow> string + 'c"
  ct_render :: "'c \<Rightarrow> string + string"

definition config_toml_contract :: "'c config_toml \<Rightarrow> bool" where
  "config_toml_contract ct \<longleftrightarrow> (\<forall>c s. ct_render ct c = Inr s \<longrightarrow> utf8_ok s \<and> ct_parse ct s = Inr c)"

definition config_to_toml :: "'c config_toml \<Rightarrow> 'c \<Rightarrow> config_error + string" where
  "config_to_toml ct c = map_err ConfigRender (ct_render ct c)"

definition attach_path :: "string \<Rightarrow> config_error \<Rightarrow> store_error" where
  "attach_path path e =
     (case e of
        ConfigParse s \<Rightarrow> StoreTomlParse path s
      | ConfigRender s \<Rightarrow> StoreTomlSerialize path s
      | DuplicateRemoteName name \<Rightarrow> ConfigDuplicateRemoteName path name
      | MultipleDefaultRemotes names \<Rightarrow> ConfigMultipleDefaultRemotes path names)"

function find_project_root :: "os_faults \<Rightarrow> disk \<Rightarrow> string \<Rightarrow> string option" where
  "find_project_root fo d dir =
     (if fs_exists fo d (path_join dir MANIFEST_FILENAME) then Some dir
      else (case path_parent dir of None \<Rightarrow> None | Some up \<Rightarrow> find_project_root fo d up))"
  by pat_completeness auto
termination by (relation "measure (\<lambda>(_, _, dir). length dir)") (simp_all add: path_parent_shorter)

declare find_project_root.simps [simp del]

definition config_path_for :: "string \<Rightarrow> string" where
  "config_path_for root = path_join root MANIFEST_FILENAME"

definition load_project :: "os_faults \<Rightarrow> project_config config_toml \<Rightarrow> disk \<Rightarrow> string \<Rightarrow> store_error + project_config" where
  "load_project fo ct d root =
     (let path = config_path_for root in
      bind_res (map_err (\<lambda>e. StoreIo path ''read'' (show_io e)) (fs_read_to_string fo d path)) (\<lambda>text.
      map_err (attach_path path) (project_from_toml (ct_parse ct) text)))"

text \<open>Writing a configuration: validated and rendered, then written over what is there.\<close>

definition write_config :: "os_faults \<Rightarrow> disk \<Rightarrow> string \<Rightarrow> string \<Rightarrow> (store_error + unit) \<times> disk" where
  "write_config fo d path text =
     (case fs_write fo d path text of
        (Inl e, d') \<Rightarrow> (Inl (StoreIo path ''write'' e), d')
      | (Inr _, d') \<Rightarrow> (Inr (), d'))"

definition save_project :: "os_faults \<Rightarrow> project_config config_toml \<Rightarrow> disk \<Rightarrow> string \<Rightarrow> project_config \<Rightarrow> (store_error + unit) \<times> disk" where
  "save_project fo ct d root config =
     (let path = config_path_for root in
      case map_err (attach_path path)
             (bind_res (validate_sync_config (pc_sync config)) (\<lambda>_. config_to_toml ct config)) of
        Inl e \<Rightarrow> (Inl e, d)
      | Inr text \<Rightarrow> write_config fo d path text)"

definition default_user_config :: user_config where
  "default_user_config =
     \<lparr> uc_sync = \<lparr> sc_server_url = None, sc_remotes = [] \<rparr>, uc_author = None, uc_default_group = None, uc_limits = None \<rparr>"

definition load_user_config :: "os_faults \<Rightarrow> user_config config_toml \<Rightarrow> disk \<Rightarrow> string \<Rightarrow> store_error + user_config" where
  "load_user_config fo ct d root =
     (let path = user_config_path root in
      if \<not> fs_exists fo d path then Inr default_user_config
      else
        bind_res (map_err (\<lambda>e. StoreIo path ''read'' (show_io e)) (fs_read_to_string fo d path)) (\<lambda>text.
        map_err (attach_path path) (user_from_toml (ct_parse ct) text)))"

definition save_user_config ::
  "os_faults \<Rightarrow> user_config config_toml \<Rightarrow> disk \<Rightarrow> string \<Rightarrow> user_config \<Rightarrow> (store_error + unit) \<times> disk" where
  "save_user_config fo ct d root cfg =
     (let path = user_config_path root in
      case map_err (attach_path path) (validate_sync_config (uc_sync cfg)) of
        Inl e \<Rightarrow> (Inl e, d)
      | Inr _ \<Rightarrow>
          (case (case path_parent path of
                   None \<Rightarrow> (Inr (), d)
                 | Some parent \<Rightarrow>
                     (case fs_create_dir_all fo d parent of
                        (Inl e, d') \<Rightarrow> (Inl (StoreIo parent ''create directory'' e), d')
                      | (Inr _, d') \<Rightarrow> (Inr (), d'))) of
             (Inl e, d1) \<Rightarrow> (Inl e, d1)
           | (Inr _, d1) \<Rightarrow>
               (case map_err (attach_path path) (config_to_toml ct cfg) of
                  Inl e \<Rightarrow> (Inl e, d1)
                | Inr text \<Rightarrow> write_config fo d1 path text)))"

section \<open>The author of a commit\<close>

text \<open>Git's global settings, \<open>None\<close> when they cannot be read; the keys are dotted.\<close>

type_synonym git_globals = "(string \<Rightarrow> string \<Rightarrow> string option) option"

definition read_git_global :: "git_globals \<Rightarrow> string \<Rightarrow> string option" where
  "read_git_global globals key =
     (case globals of
        None \<Rightarrow> None
      | Some lookup \<Rightarrow>
          (case split_once CHR ''.'' key of
             None \<Rightarrow> None
           | Some (sect, name) \<Rightarrow> nonempty_value (lookup sect name)))"

definition resolve_author ::
  "os_faults \<Rightarrow> user_config config_toml \<Rightarrow> git_globals \<Rightarrow> disk \<Rightarrow> string \<Rightarrow> resolved_author" where
  "resolve_author fo ct globals d root =
     (let cfg = (case load_user_config fo ct d root of Inl _ \<Rightarrow> default_user_config | Inr c \<Rightarrow> c);
          name = Option.bind (uc_author cfg) author_config.au_name;
          email = Option.bind (uc_author cfg) author_config.au_email;
          git_fallback = (case Option.bind (uc_author cfg) au_git_fallback of None \<Rightarrow> False | Some b \<Rightarrow> b);
          name = (if git_fallback \<and> name = None then read_git_global globals ''user.name'' else name);
          email = (if git_fallback \<and> email = None then read_git_global globals ''user.email'' else email)
      in \<lparr> au_name = (case name of None \<Rightarrow> MMCP_AUTHOR_NAME | Some n \<Rightarrow> n),
           au_email = (case email of None \<Rightarrow> MMCP_AUTHOR_EMAIL | Some m \<Rightarrow> m) \<rparr>)"


section \<open>Facts\<close>

lemma project_root_nearest:
  "find_project_root fo d start
     = find (\<lambda>dir. fs_exists fo d (path_join dir MANIFEST_FILENAME)) (path_ancestors start)"
proof (induction start rule: length_induct)
  case (1 start)
  show ?case
  proof (cases "path_parent start")
    case None
    then show ?thesis by (subst find_project_root.simps, subst path_ancestors.simps) simp
  next
    case (Some up)
    then have "length up < length start" by (rule path_parent_shorter)
    with 1 Some show ?thesis by (subst find_project_root.simps, subst path_ancestors.simps) simp
  qed
qed

lemma write_config_result:
  "write_config fo d path source = (Inr (), d') \<longleftrightarrow> os_write fo path = None \<and> d path \<noteq> Some FolderNode
     \<and> d' = d(path \<mapsto> FileNode source)"
  by (auto simp: write_config_def fs_write_def split: option.splits node.splits prod.splits)

lemma project_file_reads:
  assumes "d path = Some (FileNode source)" "os_read fo path = None" "utf8_ok source"
  shows "fs_read_to_string fo d path = Inr source"
  using assms by (simp add: fs_read_to_string_def fs_read_def)

lemma save_project_result:
  assumes "config_toml_contract ct" "save_project fo ct d root config = (Inr (), d')"
  shows "\<exists>source. d' = d(config_path_for root \<mapsto> FileNode source) \<and> utf8_ok source
          \<and> project_from_toml (ct_parse ct) source = Inr config"
  using assms
  by (auto simp: save_project_def project_from_toml_def config_to_toml_def config_toml_contract_def Let_def
      map_err_eq_Inr bind_res_eq_Inr write_config_result split: sum.splits)

lemma save_project_rejected:
  "validate_sync_config (pc_sync config) = Inl e
    \<Longrightarrow> save_project fo ct d root config = (Inl (attach_path (config_path_for root) e), d)"
  by (simp add: save_project_def Let_def)

lemma loaded_project_valid:
  assumes "load_project fo ct d root = Inr config"
  shows "validate_sync_config (pc_sync config) = Inr ()"
  using assms by (auto simp: load_project_def project_from_toml_def Let_def map_err_eq_Inr bind_res_eq_Inr)

text \<open>A user configuration that cannot be read leaves the fallback author, without an error.\<close>

lemma broken_config_author:
  "load_user_config fo ct d root = Inl e
    \<Longrightarrow> resolve_author fo ct globals d root = \<lparr> au_name = MMCP_AUTHOR_NAME, au_email = MMCP_AUTHOR_EMAIL \<rparr>"
  by (simp add: resolve_author_def default_user_config_def)

text \<open>Without the opt-in git's settings are not consulted.\<close>

lemma git_settings_opt_in:
  assumes "load_user_config fo ct d root = Inr cfg" "Option.bind (uc_author cfg) au_git_fallback \<noteq> Some True"
  shows "resolve_author fo ct globals d root = resolve_author fo ct None d root"
  using assms by (auto simp: resolve_author_def Let_def split: option.splits bool.splits)

section \<open>Properties\<close>

text \<open>
  Saving a project's configuration either reports an error or leaves a file from which the
  same configuration loads, and touches no other path; a configuration whose remotes are not
  valid is rejected before the disk is touched.
\<close>

theorem project_config_saved:
  assumes "config_toml_contract ct" "save_project fo ct d root config = (res, d')"
    "os_read fo' (config_path_for root) = None"
  shows "(case res of
            Inl _ \<Rightarrow> True
          | Inr _ \<Rightarrow> load_project fo' ct d' root = Inr config)
    \<and> (\<forall>p. p = config_path_for root \<or> d' p = d p)
    \<and> (validate_sync_config (pc_sync config) = Inr () \<or> (\<exists>e. res = Inl e) \<and> d' = d)"
proof (intro conjI)
  show "case res of Inl _ \<Rightarrow> True | Inr _ \<Rightarrow> load_project fo' ct d' root = Inr config"
  proof (cases res)
    case (Inr u)
    then obtain source where t: "d' = d(config_path_for root \<mapsto> FileNode source)" "utf8_ok source"
      "project_from_toml (ct_parse ct) source = Inr config"
      using save_project_result [OF assms(1)] assms(2) by (metis unit.exhaust)
    then have "fs_read_to_string fo' d' (config_path_for root) = Inr source"
      using assms(3) by (intro project_file_reads) simp_all
    with t Inr show ?thesis by (simp add: load_project_def Let_def)
  qed simp
  show "\<forall>p. p = config_path_for root \<or> d' p = d p"
    using assms(2) by (auto simp: save_project_def write_config_def fs_write_def Let_def
        split: sum.splits option.splits node.splits prod.splits if_splits)
  show "validate_sync_config (pc_sync config) = Inr () \<or> (\<exists>e. res = Inl e) \<and> d' = d"
    using save_project_rejected assms(2) by (cases "validate_sync_config (pc_sync config)") auto
qed

text \<open>An operating system that refuses nothing, and a TOML library that knows one configuration.\<close>

definition calm_os :: os_faults where
  "calm_os =
     \<lparr> os_stat = (\<lambda>_. False), os_read = (\<lambda>_. None), os_write = (\<lambda>_. None), os_rename = (\<lambda>_. None),
       os_make = (\<lambda>_. None), os_stuck = False, os_missing = ''not found'', os_folder = ''is a directory'',
       os_not_folder = ''not a directory'', os_utf8 = (\<lambda>_. ''not utf-8'') \<rparr>"

definition one_config_toml :: "'c \<Rightarrow> 'c config_toml" where
  "one_config_toml c =
     \<lparr> ct_parse = (\<lambda>s. if s = ''c'' then Inr c else Inl ''unknown''),
       ct_render = (\<lambda>x. if x = c then Inr ''c'' else Inl ''unsupported'') \<rparr>"

lemma one_config_toml_contract: "config_toml_contract (one_config_toml c)"
  by (auto simp: config_toml_contract_def one_config_toml_def byte_def)

definition ex_project_config :: project_config where
  "ex_project_config =
     \<lparr> pc_project_uuid = 7, pc_project_slug = None,
       pc_sync = \<lparr> sc_server_url = None, sc_remotes = [MmcpServer ''origin'' ''https://x'' True True] \<rparr>,
       pc_project_remote_only = False,
       pc_subscriptions = \<lparr> su_no_default_global = False, su_auto_detect_languages = False, su_languages = [],
         su_groups = [], su_memories = [], su_tags = [] \<rparr> \<rparr>"

definition ex_saved_disk :: disk where
  "ex_saved_disk = [''p'' \<mapsto> FolderNode, ''p/.mmcp.toml'' \<mapsto> FileNode ''c'']"

lemma ex_project_saves:
  "save_project calm_os (one_config_toml ex_project_config) [''p'' \<mapsto> FolderNode] ''p'' ex_project_config
     = (Inr (), ex_saved_disk)"
proof -
  have v: "validate_sync_config (pc_sync ex_project_config) = Inr ()"
    by (simp add: validate_sync_config_def ex_project_config_def remote_is_default_def)
  have p: "config_path_for ''p'' = ''p/.mmcp.toml''" by code_simp
  show ?thesis
    by (simp add: save_project_def v p config_to_toml_def one_config_toml_def write_config_def fs_write_def calm_os_def
        ex_saved_disk_def Let_def)
qed

theorem project_config_saved_witness:
  "load_project calm_os (one_config_toml ex_project_config) ex_saved_disk ''p'' = Inr ex_project_config"
  using project_config_saved [OF one_config_toml_contract ex_project_saves, of calm_os]
  by (simp add: calm_os_def)

end
