(* ===== verification/Sessions.thy ===== *)
theory Sessions
  imports Home
begin

text \<open>
  The state of a client session (\<open>mmcp-store\<close>, \<open>sessions.rs\<close>), the detection of a compacted
  transcript by its signature (\<open>mmcp-session\<close>, \<open>compaction.rs\<close>) and the prompt hook that drives
  them (\<open>mmcp-client\<close>, \<open>commands/hook.rs\<close>). The hash, the TOML library and the clock are
  parameters; the turn counter is an \<open>i32\<close>, and the build says whether its overflow panics.
\<close>

section \<open>Signatures\<close>

record transcript_signature =
  ts_length :: "64 word"
  ts_digest :: string

definition encode_signature :: "transcript_signature \<Rightarrow> string" where
  "encode_signature s = dec (unat (ts_length s)) @ '':'' @ ts_digest s"

text \<open>\<open>str::parse::<u64>\<close>: an optional plus sign, then decimal digits within the width.\<close>

fun u64_digits :: "nat \<Rightarrow> string \<Rightarrow> nat option" where
  "u64_digits acc [] = Some acc"
| "u64_digits acc (c # cs) =
     (if \<not> is_ascii_digit c then None
      else if 10 * acc + (byte c - 48) \<ge> 2 ^ 64 then None
      else u64_digits (10 * acc + (byte c - 48)) cs)"

definition parse_u64 :: "string \<Rightarrow> 64 word option" where
  "parse_u64 s =
     (let ds = (case s of CHR ''+'' # rest \<Rightarrow> rest | _ \<Rightarrow> s) in
      if ds = [] then None else map_option of_nat (u64_digits 0 ds))"

definition decode_signature :: "string \<Rightarrow> transcript_signature option" where
  "decode_signature encoded =
     (case split_once CHR '':'' encoded of
        None \<Rightarrow> None
      | Some (len, digest) \<Rightarrow>
          map_option (\<lambda>n. \<lparr> ts_length = n, ts_digest = digest \<rparr>) (parse_u64 len))"

definition nibble_char :: "nat \<Rightarrow> char" where
  "nibble_char n = (if n < 10 then digit_char n else char_of (87 + n))"

definition hex_bytes :: "string \<Rightarrow> string" where
  "hex_bytes bs = concat (map (\<lambda>b. [nibble_char (byte b div 16), nibble_char (byte b mod 16)]) bs)"

definition compute_signature ::
  "os_faults \<Rightarrow> (string \<Rightarrow> string) \<Rightarrow> disk \<Rightarrow> string \<Rightarrow> string + transcript_signature option" where
  "compute_signature fo sha d path =
     (if \<not> fs_exists fo d path then Inr None
      else
        bind_res (map_err show_io (fs_read fo d path)) (\<lambda>bytes.
          Inr (Some \<lparr> ts_length = of_nat (length bytes), ts_digest = hex_bytes (sha bytes) \<rparr>)))"

definition detect_compaction :: "transcript_signature option \<Rightarrow> transcript_signature \<Rightarrow> bool" where
  "detect_compaction previous current =
     (case previous of
        None \<Rightarrow> False
      | Some prev \<Rightarrow>
          if ts_length current < ts_length prev then True
          else if ts_length current = ts_length prev \<and> ts_digest current \<noteq> ts_digest prev then True
          else False)"

section \<open>Session files\<close>

record memory_read =
  mr_memory_id :: uuid
  mr_turn :: "32 word"
  mr_version :: "string option"
  mr_verified :: bool
  mr_read_at :: int

record session_state =
  ss_session_id :: string
  ss_user_id :: "uuid option"
  ss_project_uuid :: "uuid option"
  ss_turn_counter :: "32 word"
  ss_transcript_path :: "string option"
  ss_transcript_signature :: "transcript_signature option"
  ss_post_compaction :: bool
  ss_started_at :: int
  ss_last_seen_at :: int
  ss_reads :: "memory_read list"

definition new_session :: "string \<Rightarrow> int \<Rightarrow> session_state" where
  "new_session i now =
     \<lparr> ss_session_id = i, ss_user_id = None, ss_project_uuid = None, ss_turn_counter = 0,
       ss_transcript_path = None, ss_transcript_signature = None, ss_post_compaction = False,
       ss_started_at = now, ss_last_seen_at = now, ss_reads = [] \<rparr>"

text \<open>What a call may end in besides its result: a reported error, or a panic.\<close>

datatype session_error = SessionFailed store_error | SessionPanic

definition path_for :: "string \<Rightarrow> string \<Rightarrow> string" where
  "path_for root i = path_join root (i @ ''.toml'')"

text \<open>\<open>Path::with_extension\<close> on a path whose last component is a name.\<close>

definition with_extension :: "string \<Rightarrow> string \<Rightarrow> string" where
  "with_extension p ext =
     (let (dir, name) = (case rsplit_once CHR ''/'' p of Some (a, b) \<Rightarrow> (a @ ''/'', b) | None \<Rightarrow> ([], p));
          stem = (case rsplit_once CHR ''.'' name of Some (a, _) \<Rightarrow> (if a = [] then name else a) | None \<Rightarrow> name)
      in dir @ stem @ ''.'' @ ext)"

definition session_tmp :: "string \<Rightarrow> string \<Rightarrow> string" where
  "session_tmp root i = with_extension (path_for root i) ''toml.tmp''"

text \<open>The environment of a store: its folder, the TOML library, the hash and the build's overflow checks.\<close>

record session_env =
  se_root :: string
  se_toml :: "session_state config_toml"
  se_sha :: "string \<Rightarrow> string"
  se_checked :: bool

definition open_sessions :: "os_faults \<Rightarrow> disk \<Rightarrow> string \<Rightarrow> (store_error + unit) \<times> disk" where
  "open_sessions fo d root =
     (case fs_create_dir_all fo d root of
        (Inl e, d') \<Rightarrow> (Inl (StoreIo root ''create directory'' e), d')
      | (Inr _, d') \<Rightarrow> (Inr (), d'))"

definition load_session :: "os_faults \<Rightarrow> session_env \<Rightarrow> disk \<Rightarrow> string \<Rightarrow> store_error + session_state option" where
  "load_session fo en d i =
     (let path = path_for (se_root en) i in
      case fs_read_to_string fo d path of
        Inr source \<Rightarrow> map_ok Some (map_err (StoreTomlParse path) (ct_parse (se_toml en) source))
      | Inl (NotFoundError _) \<Rightarrow> Inr None
      | Inl (OtherIo e) \<Rightarrow> Inl (StoreIo path ''read'' e))"

definition save_session :: "os_faults \<Rightarrow> session_env \<Rightarrow> disk \<Rightarrow> session_state \<Rightarrow> (store_error + unit) \<times> disk" where
  "save_session fo en d s =
     (let path = path_for (se_root en) (ss_session_id s) in
      case map_err (StoreTomlSerialize path) (ct_render (se_toml en) s) of
        Inl e \<Rightarrow> (Inl e, d)
      | Inr source \<Rightarrow>
          (let tmp = session_tmp (se_root en) (ss_session_id s) in
           case fs_write fo d tmp source of
             (Inl e, d1) \<Rightarrow> (Inl (StoreIo tmp ''write'' e), d1)
           | (Inr _, d1) \<Rightarrow>
               (case fs_rename fo d1 tmp path of
                  (Inl e, d2) \<Rightarrow> (Inl (StoreIo path ''rename'' e), fs_remove_file fo d2 tmp)
                | (Inr _, d2) \<Rightarrow> (Inr (), d2))))"

definition load_or_init :: "os_faults \<Rightarrow> session_env \<Rightarrow> disk \<Rightarrow> string \<Rightarrow> int \<Rightarrow> store_error + session_state" where
  "load_or_init fo en d i now =
     map_ok (\<lambda>s. case s of Some s \<Rightarrow> s | None \<Rightarrow> new_session i now) (load_session fo en d i)"

section \<open>The operations\<close>

text \<open>Every write ends by saving a state and returning a value.\<close>

definition saving ::
  "os_faults \<Rightarrow> session_env \<Rightarrow> disk \<Rightarrow> session_state \<Rightarrow> 'a \<Rightarrow> (session_error + 'a) \<times> disk" where
  "saving fo en d s x =
     (case save_session fo en d s of
        (Inl e, d') \<Rightarrow> (Inl (SessionFailed e), d')
      | (Inr _, d') \<Rightarrow> (Inr x, d'))"

definition upsert_session ::
  "os_faults \<Rightarrow> session_env \<Rightarrow> int \<Rightarrow> disk \<Rightarrow> string \<Rightarrow> uuid option \<Rightarrow> uuid option \<Rightarrow> string option
    \<Rightarrow> (session_error + session_state) \<times> disk" where
  "upsert_session fo en now d i user project transcript =
     (case load_or_init fo en d i now of
        Inl e \<Rightarrow> (Inl (SessionFailed e), d)
      | Inr s \<Rightarrow>
          (let s = s\<lparr> ss_user_id := user, ss_project_uuid := project, ss_transcript_path := transcript,
                     ss_last_seen_at := now \<rparr>
           in saving fo en d s s))"

definition i32_max :: "32 word" where "i32_max = 2147483647"

definition bump_turn ::
  "os_faults \<Rightarrow> session_env \<Rightarrow> int \<Rightarrow> disk \<Rightarrow> string \<Rightarrow> (session_error + 32 word) \<times> disk" where
  "bump_turn fo en now d i =
     (case load_or_init fo en d i now of
        Inl e \<Rightarrow> (Inl (SessionFailed e), d)
      | Inr s \<Rightarrow>
          if se_checked en \<and> ss_turn_counter s = i32_max then (Inl SessionPanic, d)
          else
            (let s = s\<lparr> ss_turn_counter := ss_turn_counter s + 1, ss_last_seen_at := now \<rparr>
             in saving fo en d s (ss_turn_counter s)))"

definition check_transcript ::
  "os_faults \<Rightarrow> session_env \<Rightarrow> int \<Rightarrow> disk \<Rightarrow> string \<Rightarrow> (session_error + bool) \<times> disk" where
  "check_transcript fo en now d i =
     (case load_or_init fo en d i now of
        Inl e \<Rightarrow> (Inl (SessionFailed e), d)
      | Inr s \<Rightarrow>
          (case ss_transcript_path s of
             None \<Rightarrow> saving fo en d (s\<lparr> ss_last_seen_at := now \<rparr>) False
           | Some path \<Rightarrow>
               (case compute_signature fo (se_sha en) d path of
                  Inl e \<Rightarrow> (Inl (SessionFailed (StoreTranscript e)), d)
                | Inr None \<Rightarrow> saving fo en d (s\<lparr> ss_last_seen_at := now \<rparr>) False
                | Inr (Some current) \<Rightarrow>
                    (let compacted = detect_compaction (ss_transcript_signature s) current;
                         s = s\<lparr> ss_transcript_signature := Some current \<rparr>;
                         s = (if compacted then s\<lparr> ss_post_compaction := True \<rparr> else s)
                     in saving fo en d (s\<lparr> ss_last_seen_at := now \<rparr>) compacted))))"

definition acknowledge_compaction ::
  "os_faults \<Rightarrow> session_env \<Rightarrow> int \<Rightarrow> disk \<Rightarrow> string \<Rightarrow> (session_error + unit) \<times> disk" where
  "acknowledge_compaction fo en now d i =
     (case load_or_init fo en d i now of
        Inl e \<Rightarrow> (Inl (SessionFailed e), d)
      | Inr s \<Rightarrow> saving fo en d (s\<lparr> ss_post_compaction := False, ss_last_seen_at := now \<rparr>) ())"

definition record_read ::
  "os_faults \<Rightarrow> session_env \<Rightarrow> int \<Rightarrow> disk \<Rightarrow> string \<Rightarrow> uuid \<Rightarrow> 32 word \<Rightarrow> string option \<Rightarrow> bool
    \<Rightarrow> (session_error + unit) \<times> disk" where
  "record_read fo en now d i memory turn version verified =
     (case load_or_init fo en d i now of
        Inl e \<Rightarrow> (Inl (SessionFailed e), d)
      | Inr s \<Rightarrow>
          (let r = \<lparr> mr_memory_id = memory, mr_turn = turn, mr_version = version, mr_verified = verified,
                     mr_read_at = now \<rparr>
           in saving fo en d (s\<lparr> ss_reads := ss_reads s @ [r], ss_last_seen_at := now \<rparr>) ()))"

definition has_read :: "os_faults \<Rightarrow> session_env \<Rightarrow> disk \<Rightarrow> string \<Rightarrow> uuid \<Rightarrow> store_error + bool" where
  "has_read fo en d i memory =
     map_ok (\<lambda>s. case s of None \<Rightarrow> False | Some s \<Rightarrow> list_ex (\<lambda>r. mr_memory_id r = memory) (ss_reads s))
       (load_session fo en d i)"

definition is_post_compaction :: "os_faults \<Rightarrow> session_env \<Rightarrow> disk \<Rightarrow> string \<Rightarrow> store_error + bool" where
  "is_post_compaction fo en d i =
     map_ok (\<lambda>s. case s of None \<Rightarrow> False | Some s \<Rightarrow> ss_post_compaction s) (load_session fo en d i)"

section \<open>The hook\<close>

record hook_payload =
  hp_session_id :: string
  hp_transcript_path :: "string option"
  hp_cwd :: "string option"

text \<open>The steps of the hook, by the context its error carries; a panic is not caught.\<close>

datatype hook_error =
    HookReading string
  | HookParsing string
  | HookHome store_error
  | HookOpening store_error
  | HookUpserting store_error
  | HookChecking store_error
  | HookBumping store_error
  | HookPanic

fun hook_failed :: "(store_error \<Rightarrow> hook_error) \<Rightarrow> session_error \<Rightarrow> hook_error" where
  "hook_failed context (SessionFailed e) = context e"
| "hook_failed context SessionPanic = HookPanic"

text \<open>The second result is the error the hook logs instead of failing.\<close>

definition project_uuid_from_cwd ::
  "os_faults \<Rightarrow> project_config config_toml \<Rightarrow> disk \<Rightarrow> string option \<Rightarrow> uuid option \<times> store_error option" where
  "project_uuid_from_cwd fo ct d cwd =
     (case Option.bind cwd (find_project_root fo d) of
        None \<Rightarrow> (None, None)
      | Some root \<Rightarrow>
          (case load_project fo ct d root of
             Inr cfg \<Rightarrow> (Some (pc_project_uuid cfg), None)
           | Inl e \<Rightarrow> (None, Some e)))"

text \<open>\<open>format!("{n}")\<close> of an \<open>i32\<close>.\<close>

definition show_i32 :: "32 word \<Rightarrow> string" where
  "show_i32 n = (if sint n < 0 then ''-'' @ dec (nat (- sint n)) else dec (nat (sint n)))"

definition hook_line :: "uuids \<Rightarrow> string \<Rightarrow> 32 word \<Rightarrow> uuid \<Rightarrow> bool \<Rightarrow> string" where
  "hook_line uu i turn message compacted =
     ''[mmcp session='' @ i @ '' turn=#'' @ show_i32 turn @ '' id='' @ uu_show uu message
       @ (if compacted then '' post-compaction'' else []) @ '']''"

text \<open>
  One run of the hook: the input, the JSON library, the environment, the clock at each of the
  three calls and the message id are parameters; the store's folder is the one of the home.
\<close>

definition user_prompt ::
  "os_faults \<Rightarrow> session_env \<Rightarrow> project_config config_toml \<Rightarrow> uuids \<Rightarrow> (string \<Rightarrow> string + hook_payload) \<Rightarrow> env_vars
    \<Rightarrow> int \<times> int \<times> int \<Rightarrow> uuid \<Rightarrow> string + string \<Rightarrow> disk \<Rightarrow> (hook_error + string) \<times> disk" where
  "user_prompt fo en ct uu json vars clock message stdin d =
     (case bind_res (map_err HookReading stdin) (\<lambda>raw. map_err HookParsing (json raw)) of
        Inl e \<Rightarrow> (Inl e, d)
      | Inr payload \<Rightarrow>
          (case discover_home vars of
             Inl e \<Rightarrow> (Inl (HookHome e), d)
           | Inr home \<Rightarrow>
               (let en = en\<lparr> se_root := sessions_root home \<rparr>; i = hp_session_id payload;
                    (now1, now2, now3) = clock in
                case open_sessions fo d (se_root en) of
                  (Inl e, d1) \<Rightarrow> (Inl (HookOpening e), d1)
                | (Inr _, d1) \<Rightarrow>
                    (case upsert_session fo en now1 d1 i None (fst (project_uuid_from_cwd fo ct d1 (hp_cwd payload)))
                            (hp_transcript_path payload) of
                       (Inl e, d2) \<Rightarrow> (Inl (hook_failed HookUpserting e), d2)
                     | (Inr _, d2) \<Rightarrow>
                         (case check_transcript fo en now2 d2 i of
                            (Inl e, d3) \<Rightarrow> (Inl (hook_failed HookChecking e), d3)
                          | (Inr compacted, d3) \<Rightarrow>
                              (case bump_turn fo en now3 d3 i of
                                 (Inl e, d4) \<Rightarrow> (Inl (hook_failed HookBumping e), d4)
                               | (Inr turn, d4) \<Rightarrow> (Inr (hook_line uu i turn message compacted), d4)))))))"

section \<open>The abstract session\<close>

datatype session_op =
    Upsert "uuid option" "uuid option" "string option"
  | Bump
  | Check
  | Acknowledge
  | Record uuid "32 word" "string option" bool

datatype session_value = VSession session_state | VTurn "32 word" | VCompacted bool | VDone

definition run_session_op ::
  "os_faults \<Rightarrow> session_env \<Rightarrow> int \<Rightarrow> disk \<Rightarrow> string \<Rightarrow> session_op \<Rightarrow> (session_error + session_value) \<times> disk" where
  "run_session_op fo en now d i op =
     (case op of
        Upsert user project transcript \<Rightarrow> apfst (map_ok VSession) (upsert_session fo en now d i user project transcript)
      | Bump \<Rightarrow> apfst (map_ok VTurn) (bump_turn fo en now d i)
      | Check \<Rightarrow> apfst (map_ok VCompacted) (check_transcript fo en now d i)
      | Acknowledge \<Rightarrow> apfst (map_ok (\<lambda>_. VDone)) (acknowledge_compaction fo en now d i)
      | Record memory turn version verified \<Rightarrow>
          apfst (map_ok (\<lambda>_. VDone)) (record_read fo en now d i memory turn version verified))"

text \<open>
  What an operation does to the state of its session, given the signature of the transcript: the
  specification the files implement.
\<close>

definition session_effect ::
  "session_op \<Rightarrow> int \<Rightarrow> transcript_signature option \<Rightarrow> session_state \<Rightarrow> session_state \<times> session_value" where
  "session_effect op now signature s =
     (let s = s\<lparr> ss_last_seen_at := now \<rparr> in
      case op of
        Upsert user project transcript \<Rightarrow>
          (let s = s\<lparr> ss_user_id := user, ss_project_uuid := project, ss_transcript_path := transcript \<rparr>
           in (s, VSession s))
      | Bump \<Rightarrow> (s\<lparr> ss_turn_counter := ss_turn_counter s + 1 \<rparr>, VTurn (ss_turn_counter s + 1))
      | Check \<Rightarrow>
          (case signature of
             None \<Rightarrow> (s, VCompacted False)
           | Some c \<Rightarrow>
               (let compacted = detect_compaction (ss_transcript_signature s) c in
                (s\<lparr> ss_transcript_signature := Some c, ss_post_compaction := ss_post_compaction s \<or> compacted \<rparr>,
                 VCompacted compacted)))
      | Acknowledge \<Rightarrow> (s\<lparr> ss_post_compaction := False \<rparr>, VDone)
      | Record memory turn version verified \<Rightarrow>
          (s\<lparr> ss_reads := ss_reads s @ [\<lparr> mr_memory_id = memory, mr_turn = turn, mr_version = version,
                mr_verified = verified, mr_read_at = now \<rparr>] \<rparr>, VDone))"

definition op_signature ::
  "os_faults \<Rightarrow> session_env \<Rightarrow> disk \<Rightarrow> session_op \<Rightarrow> session_state \<Rightarrow> string + transcript_signature option" where
  "op_signature fo en d op s =
     (case (op, ss_transcript_path s) of
        (Check, Some path) \<Rightarrow> compute_signature fo (se_sha en) d path
      | _ \<Rightarrow> Inr None)"

definition initial_session :: "session_state option \<Rightarrow> string \<Rightarrow> int \<Rightarrow> session_state" where
  "initial_session cur i now = (case cur of Some s \<Rightarrow> s | None \<Rightarrow> new_session i now)"

lemma saving_map: "apfst (map_ok f) (saving fo en d s x) = saving fo en d s (f x)"
  by (simp add: saving_def split: prod.splits sum.splits)

lemma run_session_op_shape:
  "run_session_op fo en now d i op =
     (case load_or_init fo en d i now of
        Inl e \<Rightarrow> (Inl (SessionFailed e), d)
      | Inr s \<Rightarrow>
          if op = Bump \<and> se_checked en \<and> ss_turn_counter s = i32_max then (Inl SessionPanic, d)
          else
            (case op_signature fo en d op s of
               Inl e \<Rightarrow> (Inl (SessionFailed (StoreTranscript e)), d)
             | Inr signature \<Rightarrow>
                 saving fo en d (fst (session_effect op now signature s)) (snd (session_effect op now signature s))))"
proof (cases "load_or_init fo en d i now")
  case (Inl e)
  then show ?thesis
    by (cases op) (simp_all add: run_session_op_def upsert_session_def bump_turn_def check_transcript_def
        acknowledge_compaction_def record_read_def)
next
  case (Inr s)
  then show ?thesis
    by (cases s; cases op) (auto simp: run_session_op_def upsert_session_def bump_turn_def check_transcript_def
        acknowledge_compaction_def record_read_def op_signature_def session_effect_def saving_map Let_def
        split: option.splits sum.splits)
qed

section \<open>Session files under faults\<close>

lemma path_for_ends: "\<exists>p. path_for root i = p @ ''.toml''"
  unfolding path_for_def path_join_def by (metis append.assoc)

lemma session_tmp_ends: "\<exists>p. session_tmp root i = p @ ''.tmp''"
  unfolding session_tmp_def with_extension_def
  by (auto simp: Let_def split: prod.splits option.splits)

lemma session_tmp_apart: "session_tmp root i \<noteq> path_for root j"
proof
  assume eq: "session_tmp root i = path_for root j"
  obtain p q where "session_tmp root i = p @ ''.tmp''" "path_for root j = q @ ''.toml''"
    using path_for_ends session_tmp_ends by metis
  with eq have "p @ ''.tmp'' = q @ ''.toml''" by simp
  then have "last (p @ ''.tmp'') = last (q @ ''.toml'')" by simp
  then show False by simp
qed

lemma save_session_frame:
  assumes "save_session fo en d s = (res, d')"
  shows "(p \<noteq> path_for (se_root en) (ss_session_id s) \<and> p \<noteq> session_tmp (se_root en) (ss_session_id s) \<longrightarrow> d' p = d p)
    \<and> (\<forall>e. res = Inl e \<longrightarrow> d' (path_for (se_root en) (ss_session_id s)) = d (path_for (se_root en) (ss_session_id s)))"
  using assms session_tmp_apart [of "se_root en" "ss_session_id s" "ss_session_id s"]
  by (auto simp: save_session_def fs_write_def fs_rename_def fs_remove_file_def Let_def
      split: sum.splits prod.splits option.splits node.splits if_splits)

lemma save_session_result:
  assumes "save_session fo en d s = (Inr (), d')"
  shows "\<exists>source. ct_render (se_toml en) s = Inr source
    \<and> d' (path_for (se_root en) (ss_session_id s)) = Some (FileNode source)"
  using assms session_tmp_apart [of "se_root en" "ss_session_id s" "ss_session_id s"]
  by (auto simp: save_session_def fs_write_def fs_rename_def map_err_def Let_def
      split: sum.splits prod.splits option.splits node.splits if_splits)

lemma calm_read: "fs_read_to_string calm_os d p =
  (case d p of None \<Rightarrow> Inl (NotFoundError ''not found'') | Some FolderNode \<Rightarrow> Inl (OtherIo ''is a directory'')
   | Some (FileNode bytes) \<Rightarrow> if utf8_ok bytes then Inr bytes else Inl (OtherIo ''not utf-8''))"
  by (simp add: fs_read_to_string_def fs_read_def calm_os_def split: option.splits node.splits)

lemma read_to_string_calm:
  "fs_read_to_string fo d p = Inr source \<Longrightarrow> fs_read_to_string calm_os d p = Inr source"
  "fs_read_to_string fo d p = Inl (NotFoundError e) \<Longrightarrow> \<exists>e. fs_read_to_string calm_os d p = Inl (NotFoundError e)"
  by (auto simp: calm_os_def fs_read_to_string_def fs_read_def bind_res_def split: option.splits node.splits sum.splits if_splits)

lemma load_session_calm:
  assumes "load_session fo en d i = Inr cur"
  shows "load_session calm_os en d i = Inr cur"
proof (cases "fs_read_to_string fo d (path_for (se_root en) i)")
  case (Inr source)
  with assms read_to_string_calm(1) [OF Inr] show ?thesis by (simp add: load_session_def Let_def)
next
  case (Inl e)
  show ?thesis
  proof (cases e)
    case (NotFoundError m)
    with Inl have "fs_read_to_string fo d (path_for (se_root en) i) = Inl (NotFoundError m)" by simp
    then obtain m' where "fs_read_to_string calm_os d (path_for (se_root en) i) = Inl (NotFoundError m')"
      using read_to_string_calm(2) by blast
    with assms Inl NotFoundError show ?thesis by (simp add: load_session_def Let_def)
  qed (use assms Inl in \<open>simp add: load_session_def Let_def\<close>)
qed

lemma save_session_loads:
  assumes "config_toml_contract (se_toml en)" "save_session fo en d s = (Inr (), d')"
  shows "load_session calm_os en d' (ss_session_id s) = Inr (Some s)"
proof -
  obtain source where "ct_render (se_toml en) s = Inr source"
    and "d' (path_for (se_root en) (ss_session_id s)) = Some (FileNode source)"
    using save_session_result [OF assms(2)] by blast
  with assms(1) show ?thesis by (simp add: load_session_def calm_read config_toml_contract_def Let_def)
qed

definition own_file :: "session_env \<Rightarrow> disk \<Rightarrow> string \<Rightarrow> bool" where
  "own_file en d i \<longleftrightarrow>
     (case load_session calm_os en d i of Inr (Some s) \<Rightarrow> ss_session_id s = i | _ \<Rightarrow> True)"

lemma load_or_init_Inr:
  assumes "load_or_init fo en d i now = Inr s" "own_file en d i"
  shows "(\<exists>cur. load_session calm_os en d i = Inr cur \<and> s = initial_session cur i now) \<and> ss_session_id s = i"
proof -
  obtain cur where cur: "load_session fo en d i = Inr cur" "s = initial_session cur i now"
    using assms(1) by (auto simp: load_or_init_def map_ok_def bind_res_eq_Inr initial_session_def)
  from load_session_calm [OF cur(1)] assms(2) cur(2) show ?thesis
    by (auto simp: own_file_def initial_session_def new_session_def split: option.splits)
qed

lemma session_effect_id [simp]: "ss_session_id (fst (session_effect op now g s)) = ss_session_id s"
  by (cases op) (simp_all add: session_effect_def Let_def split: option.splits)

lemma run_session_op_result:
  assumes "own_file en d i" "run_session_op fo en now d i op = (Inr v, d')"
  obtains cur signature where "load_session calm_os en d i = Inr cur"
    "op_signature fo en d op (initial_session cur i now) = Inr signature"
    "v = snd (session_effect op now signature (initial_session cur i now))"
    "save_session fo en d (fst (session_effect op now signature (initial_session cur i now))) = (Inr (), d')"
    "ss_session_id (initial_session cur i now) = i"
proof -
  obtain s where s: "load_or_init fo en d i now = Inr s"
    using assms(2) by (cases "load_or_init fo en d i now") (simp_all add: run_session_op_shape)
  then obtain g where g: "op_signature fo en d op s = Inr g"
    using assms(2) by (cases "op_signature fo en d op s") (simp_all add: run_session_op_shape split: if_splits)
  have "saving fo en d (fst (session_effect op now g s)) (snd (session_effect op now g s)) = (Inr v, d')"
    using assms(2) s g by (simp add: run_session_op_shape split: if_splits)
  then have "v = snd (session_effect op now g s)" "save_session fo en d (fst (session_effect op now g s)) = (Inr (), d')"
    by (auto simp: saving_def split: prod.splits sum.splits)
  with that load_or_init_Inr [OF s assms(1)] g show ?thesis by blast
qed

lemma run_session_op_frame:
  assumes "own_file en d i" "run_session_op fo en now d i op = (res, d')"
  shows "(p \<noteq> path_for (se_root en) i \<and> p \<noteq> session_tmp (se_root en) i \<longrightarrow> d' p = d p)
    \<and> (\<forall>e. res = Inl e \<longrightarrow> d' (path_for (se_root en) i) = d (path_for (se_root en) i))"
proof (cases "load_or_init fo en d i now")
  case (Inl e)
  with assms(2) show ?thesis by (auto simp: run_session_op_shape)
next
  case (Inr s)
  then have i: "ss_session_id s = i" using load_or_init_Inr assms(1) by blast
  show ?thesis
  proof (cases "d' = d")
    case False
    with assms(2) Inr obtain g where
      "saving fo en d (fst (session_effect op now g s)) (snd (session_effect op now g s)) = (res, d')"
      by (auto simp: run_session_op_shape split: if_splits sum.splits)
    then obtain sv where "save_session fo en d (fst (session_effect op now g s)) = (sv, d')"
      "\<forall>e. res = Inl e \<longrightarrow> (\<exists>e. sv = Inl e)"
      by (auto simp: saving_def split: prod.splits sum.splits)
    then show ?thesis using save_session_frame [of fo en d _ sv d' p] i by fastforce
  qed simp
qed

lemma own_file_same:
  "d' (path_for (se_root en) i) = d (path_for (se_root en) i) \<Longrightarrow> load_session calm_os en d' i = load_session calm_os en d i"
  by (simp add: load_session_def calm_read Let_def)

text \<open>
  C15. Whatever the operating system refuses, an operation on a session either reports an error
  and leaves the session's file as it was, or applies exactly the effect the specification gives
  it to the stored state (a fresh one when there is no file) and stores the result, which loads
  back; apart from the session's own file and its temporary sibling no path changes.
\<close>

theorem session_op_refines:
  assumes "config_toml_contract (se_toml en)" "own_file en d i" "run_session_op fo en now d i op = (res, d')"
  shows "(case res of
            Inl _ \<Rightarrow> d' (path_for (se_root en) i) = d (path_for (se_root en) i)
          | Inr v \<Rightarrow>
              (\<exists>cur signature. load_session calm_os en d i = Inr cur
                \<and> op_signature fo en d op (initial_session cur i now) = Inr signature
                \<and> v = snd (session_effect op now signature (initial_session cur i now))
                \<and> load_session calm_os en d' i
                    = Inr (Some (fst (session_effect op now signature (initial_session cur i now))))))
    \<and> (\<forall>p. p = path_for (se_root en) i \<or> p = session_tmp (se_root en) i \<or> d' p = d p)"
proof (intro conjI)
  show "\<forall>p. p = path_for (se_root en) i \<or> p = session_tmp (se_root en) i \<or> d' p = d p"
    using run_session_op_frame [OF assms(2,3)] by blast
  show "case res of
            Inl _ \<Rightarrow> d' (path_for (se_root en) i) = d (path_for (se_root en) i)
          | Inr v \<Rightarrow>
              (\<exists>cur signature. load_session calm_os en d i = Inr cur
                \<and> op_signature fo en d op (initial_session cur i now) = Inr signature
                \<and> v = snd (session_effect op now signature (initial_session cur i now))
                \<and> load_session calm_os en d' i
                    = Inr (Some (fst (session_effect op now signature (initial_session cur i now)))))"
  proof (cases res)
    case (Inl e)
    then show ?thesis using run_session_op_frame [OF assms(2,3)] by simp
  next
    case (Inr v)
    from run_session_op_result [OF assms(2) assms(3) [unfolded Inr]] obtain cur g where
      c: "load_session calm_os en d i = Inr cur" "op_signature fo en d op (initial_session cur i now) = Inr g"
        "v = snd (session_effect op now g (initial_session cur i now))"
        "save_session fo en d (fst (session_effect op now g (initial_session cur i now))) = (Inr (), d')"
        "ss_session_id (initial_session cur i now) = i" .
    from save_session_loads [OF assms(1) c(4)] c(5) have
      "load_session calm_os en d' i = Inr (Some (fst (session_effect op now g (initial_session cur i now))))" by simp
    with c Inr show ?thesis by auto
  qed
qed

section \<open>Signatures as text\<close>

lemma u64_digits_snoc:
  "u64_digits acc (xs @ [c]) = Option.bind (u64_digits acc xs) (\<lambda>v. u64_digits v [c])"
  by (induction xs arbitrary: acc) auto

lemma digit_char_digit: "k < 10 \<Longrightarrow> is_ascii_digit (digit_char k) \<and> byte (digit_char k) = 48 + k"
  by (simp add: is_ascii_digit_def digit_char_def byte_def)

lemma dec_digits: "c \<in> set (dec n) \<Longrightarrow> is_ascii_digit c"
proof (induction n rule: dec.induct)
  case (1 n)
  then show ?case using digit_char_digit by (subst (asm) (2) dec.simps) (auto split: if_splits)
qed

lemma u64_digits_dec: "n < 2 ^ 64 \<Longrightarrow> u64_digits 0 (dec n) = Some n"
proof (induction n rule: dec.induct)
  case (1 n)
  have step: "u64_digits v [digit_char k] = Some (10 * v + k)" if "k < 10" "10 * v + k < 2 ^ 64" for v k
    using digit_char_digit [OF that(1)] that(2) by simp
  show ?case
  proof (cases "n < 10")
    case True
    then show ?thesis using step [of n 0] "1.prems" by (subst dec.simps) simp
  next
    case False
    then have "u64_digits 0 (dec (n div 10)) = Some (n div 10)" using 1 by simp
    moreover have "10 * (n div 10) + n mod 10 = n" by simp
    ultimately show ?thesis
      using step [of "n mod 10" "n div 10"] "1.prems" False by (subst dec.simps) (simp add: u64_digits_snoc)
  qed
qed

lemma parse_u64_dec: "parse_u64 (dec (unat w)) = Some w" for w :: "64 word"
proof -
  have "unat w < 2 ^ LENGTH(64)" by (rule unsigned_less)
  then have lt: "unat w < 2 ^ 64" by simp
  have "hd (dec (unat w)) \<noteq> CHR ''+''"
    using dec_digits [of "hd (dec (unat w))" "unat w"] by (auto simp: is_ascii_digit_def byte_def)
  then have "(case dec (unat w) of CHR ''+'' # rest \<Rightarrow> rest | _ \<Rightarrow> dec (unat w)) = dec (unat w)"
    by (cases "dec (unat w)") (auto split: char.splits bool.splits)
  then show ?thesis by (simp add: parse_u64_def Let_def u64_digits_dec [OF lt])
qed

lemma signature_roundtrip: "decode_signature (encode_signature s) = Some s"
proof -
  have "CHR '':'' \<notin> set (dec (unat (ts_length s)))"
    using dec_digits by (fastforce simp: is_ascii_digit_def byte_def)
  then have "split_once CHR '':'' (encode_signature s) = Some (dec (unat (ts_length s)), ts_digest s)"
    by (simp add: split_once_Some encode_signature_def)
  then show ?thesis by (simp add: decode_signature_def parse_u64_dec)
qed

text \<open>A rewritten transcript that is longer than the signed one is taken for progress, whatever it holds.\<close>

lemma longer_transcript_unnoticed:
  "ts_length prev < ts_length current \<Longrightarrow> \<not> detect_compaction (Some prev) current"
  by (auto simp: detect_compaction_def)

text \<open>Without overflow checks the counter wraps to the least \<open>i32\<close>; with them the hook panics.\<close>

lemma turn_counter_overflow:
  assumes "load_or_init fo en d i now = Inr s" "ss_turn_counter s = i32_max"
  shows "se_checked en \<Longrightarrow> bump_turn fo en now d i = (Inl SessionPanic, d)"
    and "\<not> se_checked en \<Longrightarrow> fst (bump_turn fo en now d i) = Inr n \<Longrightarrow> sint n = - 2147483648"
  using assms by (auto simp: bump_turn_def i32_max_def saving_def Let_def split: prod.splits sum.splits)

section \<open>The history of a session\<close>

text \<open>
  A session is driven by calls, each under its own faults and clock, while the client writes and
  removes files; the log pairs every operation with what it returned.
\<close>

datatype session_event = Call os_faults int session_op | ClientWrites string "string option"

type_synonym session_log = "(session_op \<times> (session_error + session_value)) list"

fun run_session_events :: "session_env \<Rightarrow> string \<Rightarrow> session_event list \<Rightarrow> disk \<Rightarrow> session_log \<times> disk" where
  "run_session_events en i [] d = ([], d)"
| "run_session_events en i (Call fo now op # es) d =
     (let (res, d1) = run_session_op fo en now d i op; (log, d2) = run_session_events en i es d1
      in ((op, res) # log, d2))"
| "run_session_events en i (ClientWrites p content # es) d =
     run_session_events en i es (d(p := map_option FileNode content))"

fun client_apart :: "session_env \<Rightarrow> string \<Rightarrow> session_event \<Rightarrow> bool" where
  "client_apart en i (Call _ _ _) = True"
| "client_apart en i (ClientWrites p _) = (p \<noteq> path_for (se_root en) i)"

fun is_turn :: "session_op \<times> (session_error + session_value) \<Rightarrow> bool" where
  "is_turn (_, Inr (VTurn _)) = True"
| "is_turn _ = False"

fun log_flag :: "bool \<Rightarrow> session_op \<times> (session_error + session_value) \<Rightarrow> bool" where
  "log_flag b (Acknowledge, Inr _) = False"
| "log_flag b (_, Inr (VCompacted c)) = (b \<or> c)"
| "log_flag b _ = b"

fun log_reads :: "session_op \<times> (session_error + session_value) \<Rightarrow> (uuid \<times> 32 word \<times> string option \<times> bool) list" where
  "log_reads (Record memory turn version verified, Inr _) = [(memory, turn, version, verified)]"
| "log_reads _ = []"

definition read_key :: "memory_read \<Rightarrow> uuid \<times> 32 word \<times> string option \<times> bool" where
  "read_key r = (mr_memory_id r, mr_turn r, mr_version r, mr_verified r)"

lemma session_effect_log:
  fixes op now g s
  defines "s' \<equiv> fst (session_effect op now g s)" and "entry \<equiv> (op, Inr (snd (session_effect op now g s)))"
  shows "ss_turn_counter s' = ss_turn_counter s + (if is_turn entry then 1 else 0)"
    "ss_post_compaction s' = log_flag (ss_post_compaction s) entry"
    "map read_key (ss_reads s') = map read_key (ss_reads s) @ log_reads entry"
  unfolding s'_def entry_def
  by (cases op; auto simp: session_effect_def read_key_def Let_def split: option.splits)+

lemma log_failed [simp]:
  "is_turn (op, Inl e) = False" "log_flag b (op, Inl e) = b" "log_reads (op, Inl e) = []"
  by (cases op; simp)+

text \<open>
  C16. Through any sequence of calls, failing or not, and any writes of the client elsewhere: the
  stored turn counter advances by one for each turn reported, the session is flagged exactly
  when a compaction was reported since the last successful acknowledgement, and the reads
  recorded are the ones stored, in order.
\<close>

theorem session_history:
  assumes "config_toml_contract (se_toml en)" "load_session calm_os en d i = Inr (Some s)" "ss_session_id s = i"
    "list_all (client_apart en i) events" "run_session_events en i events d = (log, d')"
  shows "\<exists>s'. load_session calm_os en d' i = Inr (Some s') \<and> ss_session_id s' = i
    \<and> ss_turn_counter s' = ss_turn_counter s + of_nat (length (filter is_turn log))
    \<and> ss_post_compaction s' = foldl log_flag (ss_post_compaction s) log
    \<and> map read_key (ss_reads s') = map read_key (ss_reads s) @ concat (map log_reads log)"
  using assms(2-)
proof (induction events arbitrary: d s log)
  case Nil
  then show ?case by simp
next
  case (Cons e es)
  show ?case
  proof (cases e)
    case (ClientWrites p content)
    let ?d = "d(p := map_option FileNode content)"
    from Cons.prems ClientWrites have "?d (path_for (se_root en) i) = d (path_for (se_root en) i)" by auto
    then have "load_session calm_os en ?d i = Inr (Some s)" using own_file_same Cons.prems(1) by metis
    moreover from Cons.prems ClientWrites have "list_all (client_apart en i) es"
      "run_session_events en i es ?d = (log, d')" by simp_all
    ultimately show ?thesis by (intro Cons.IH Cons.prems(2))
  next
    case (Call fo now op)
    obtain res d1 where r: "run_session_op fo en now d i op = (res, d1)" by fastforce
    obtain rest where l: "run_session_events en i es d1 = (rest, d')" "log = (op, res) # rest"
      using Cons.prems(4) Call r by (auto split: prod.splits)
    have own: "own_file en d i" using Cons.prems(1,2) by (simp add: own_file_def)
    have apart: "list_all (client_apart en i) es" using Cons.prems(3) by simp
    show ?thesis
    proof (cases res)
      case (Inl x)
      have "load_session calm_os en d1 i = Inr (Some s)"
        using run_session_op_frame [OF own r] Inl own_file_same [of d1 en i d] Cons.prems(1) by simp
      from Cons.IH [OF this Cons.prems(2) apart l(1)] l(2) Inl show ?thesis by simp
    next
      case (Inr v)
      obtain g where
        g: "v = snd (session_effect op now g s)" "save_session fo en d (fst (session_effect op now g s)) = (Inr (), d1)"
      proof (rule run_session_op_result [OF own r [unfolded Inr]])
        fix cur g
        assume c: "load_session calm_os en d i = Inr cur" "v = snd (session_effect op now g (initial_session cur i now))"
          "save_session fo en d (fst (session_effect op now g (initial_session cur i now))) = (Inr (), d1)"
        from c(1) Cons.prems(1) have "cur = Some s" by simp
        with c(2,3) that show ?thesis by (simp add: initial_session_def)
      qed
      let ?s = "fst (session_effect op now g s)"
      have "load_session calm_os en d1 i = Inr (Some ?s)" "ss_session_id ?s = i"
        using save_session_loads [OF assms(1) g(2)] Cons.prems(2) by simp_all
      from Cons.IH [OF this apart l(1)] show ?thesis
        unfolding l(2) Inr g(1) using session_effect_log [of op now g s] by (auto simp: algebra_simps)
    qed
  qed
qed

section \<open>The hook and the stored session\<close>

lemma session_step:
  assumes "config_toml_contract (se_toml en)" "own_file en d i" "run_session_op fo en now d i op = (Inr v, d')"
  obtains cur g where "load_session calm_os en d i = Inr cur" "v = snd (session_effect op now g (initial_session cur i now))"
    "load_session calm_os en d' i = Inr (Some (fst (session_effect op now g (initial_session cur i now))))"
    "own_file en d' i"
proof (rule run_session_op_result [OF assms(2,3)])
  fix cur g
  let ?s = "initial_session cur i now"
  assume c: "load_session calm_os en d i = Inr cur" "v = snd (session_effect op now g ?s)"
    "save_session fo en d (fst (session_effect op now g ?s)) = (Inr (), d')" "ss_session_id ?s = i"
  from save_session_loads [OF assms(1) c(3)] c(4)
  have l: "load_session calm_os en d' i = Inr (Some (fst (session_effect op now g ?s)))" by simp
  with c(4) have "own_file en d' i" by (simp add: own_file_def)
  with that [OF c(1,2) l] show ?thesis .
qed

lemma session_next:
  assumes "config_toml_contract (se_toml en)" "own_file en d i" "load_session calm_os en d i = Inr (Some s)"
    "run_session_op fo en now d i op = (Inr v, d')"
  shows "\<exists>g. v = snd (session_effect op now g s)
    \<and> load_session calm_os en d' i = Inr (Some (fst (session_effect op now g s))) \<and> own_file en d' i"
proof (rule session_step [OF assms(1,2,4)])
  fix cur g
  assume c: "load_session calm_os en d i = Inr cur" "v = snd (session_effect op now g (initial_session cur i now))"
    "load_session calm_os en d' i = Inr (Some (fst (session_effect op now g (initial_session cur i now))))"
    "own_file en d' i"
  from c(1) assms(3) have "cur = Some s" by simp
  then have "initial_session cur i now = s" by (simp add: initial_session_def)
  with c show ?thesis by metis
qed

lemma make_folders_only:
  "make_folders fo d ps = (x, d') \<Longrightarrow> d' q = d q \<or> d' q = Some FolderNode"
proof (induction ps arbitrary: d)
  case (Cons p ps)
  show ?case
  proof (cases "d p")
    case None
    show ?thesis
    proof (cases "os_make fo p")
      case None
      with Cons.prems \<open>d p = None\<close> have "make_folders fo (d(p \<mapsto> FolderNode)) ps = (x, d')" by simp
      from Cons.IH [OF this] show ?thesis by (cases "q = p") simp_all
    qed (use Cons.prems \<open>d p = None\<close> in simp)
  next
    case (Some n)
    with Cons.prems show ?thesis by (cases n) (use Cons.IH in auto)
  qed
qed simp

lemma open_sessions_loads:
  assumes "open_sessions fo d root = (x, d1)" "load_session calm_os en d1 i = Inr (Some s)"
  shows "load_session calm_os en d i = Inr (Some s)"
proof -
  let ?p = "path_for (se_root en) i"
  have "\<exists>y. make_folders fo d (rev (filter (\<lambda>q. q \<noteq> []) (path_ancestors root))) = (y, d1)"
    using assms(1) by (auto simp: open_sessions_def fs_create_dir_all_def split: prod.splits sum.splits)
  then have "d1 ?p = d ?p \<or> d1 ?p = Some FolderNode" using make_folders_only by metis
  moreover have "d1 ?p \<noteq> Some FolderNode" using assms(2) by (auto simp: load_session_def calm_read Let_def)
  ultimately show ?thesis using assms(2) own_file_same by metis
qed

lemma open_sessions_own: "open_sessions fo d root = (x, d1) \<Longrightarrow> own_file en d i \<Longrightarrow> own_file en d1 i"
  using open_sessions_loads [of fo d root x d1 en i]
  by (fastforce simp: own_file_def split: sum.splits option.splits)


section \<open>Examples\<close>

text \<open>A TOML library that knows the listed texts.\<close>

definition listed_toml :: "(string \<times> 'c) list \<Rightarrow> 'c config_toml" where
  "listed_toml table =
     \<lparr> ct_parse = (\<lambda>s. case map_of table s of None \<Rightarrow> Inl ''unknown'' | Some c \<Rightarrow> Inr c),
       ct_render = (\<lambda>c. case find (\<lambda>e. snd e = c) table of None \<Rightarrow> Inl ''unsupported'' | Some e \<Rightarrow> Inr (fst e)) \<rparr>"

lemma listed_toml_contract:
  assumes "distinct (map fst table)" "list_all (\<lambda>e. utf8_ok (fst e)) table"
  shows "config_toml_contract (listed_toml table)"
proof -
  have "utf8_ok (fst e) \<and> map_of table (fst e) = Some c" if "find (\<lambda>e. snd e = c) table = Some e" for c e
  proof -
    from that have "snd e = c" "e \<in> set table" by (auto simp: find_Some_iff)
    with assms show ?thesis by (auto simp: list_all_iff intro!: map_of_is_SomeI)
  qed
  then show ?thesis by (auto simp: config_toml_contract_def listed_toml_def split: option.splits)
qed

definition ex_signed :: session_state where
  "ex_signed = (new_session ''s'' 0)\<lparr> ss_transcript_path := Some ''/t'', ss_turn_counter := 4,
     ss_transcript_signature := Some \<lparr> ts_length = 9, ts_digest = ''00'' \<rparr> \<rparr>"

definition ex_compacted :: session_state where
  "ex_compacted = ex_signed\<lparr> ss_last_seen_at := 1, ss_post_compaction := True,
     ss_transcript_signature := Some \<lparr> ts_length = 2, ts_digest = ''61'' \<rparr> \<rparr>"

definition ex_bumped :: session_state where
  "ex_bumped = ex_compacted\<lparr> ss_last_seen_at := 2, ss_turn_counter := 5 \<rparr>"

definition ex_session_env :: session_env where
  "ex_session_env = \<lparr> se_root = ''/s'',
     se_toml = listed_toml [(''a'', ex_signed), (''b'', ex_compacted), (''c'', ex_bumped)],
     se_sha = (\<lambda>_. ''a''), se_checked = True \<rparr>"

definition ex_session_disk :: disk where
  "ex_session_disk = [''/s/s.toml'' \<mapsto> FileNode ''a'', ''/t'' \<mapsto> FileNode ''the start'']"

text \<open>The client compacts the transcript; the check sees it, a bump fails at its write, the next succeeds.\<close>

definition ex_events :: "session_event list" where
  "ex_events =
     [ClientWrites ''/t'' (Some ''it''), Call calm_os 1 Check,
      Call (calm_os\<lparr> os_write := (\<lambda>_. Some (''disk full'', None)) \<rparr>) 2 Bump, Call calm_os 2 Bump]"

lemma ex_session_toml_contract: "config_toml_contract (se_toml ex_session_env)"
  unfolding ex_session_env_def session_env.simps by (rule listed_toml_contract) (simp_all add: byte_def)

lemma ex_session_loads: "load_session calm_os ex_session_env ex_session_disk ''s'' = Inr (Some ex_signed)"
  by code_simp

definition ex_log :: session_log where
  "ex_log = [(Check, Inr (VCompacted True)),
     (Bump, Inl (SessionFailed (StoreIo ''/s/s.toml.tmp'' ''write'' ''disk full''))), (Bump, Inr (VTurn 5))]"

lemma ex_events_log: "fst (run_session_events ex_session_env ''s'' ex_events ex_session_disk) = ex_log"
  by code_simp

theorem session_history_witness:
  "\<exists>s'. load_session calm_os ex_session_env (snd (run_session_events ex_session_env ''s'' ex_events ex_session_disk)) ''s''
       = Inr (Some s') \<and> ss_turn_counter s' = 5 \<and> ss_post_compaction s'"
proof -
  have run: "run_session_events ex_session_env ''s'' ex_events ex_session_disk
      = (ex_log, snd (run_session_events ex_session_env ''s'' ex_events ex_session_disk))"
    using ex_events_log by (metis prod.collapse)
  have apart: "list_all (client_apart ex_session_env ''s'') ex_events" by code_simp
  have i: "ss_session_id ex_signed = ''s''" by (simp add: ex_signed_def new_session_def)
  from session_history [OF ex_session_toml_contract ex_session_loads i apart run] show ?thesis
    by (auto simp: ex_log_def ex_signed_def new_session_def)
qed

theorem session_op_refines_witness:
  "load_session calm_os ex_session_env (snd (run_session_op calm_os ex_session_env 1
       (ex_session_disk(''/t'' \<mapsto> FileNode ''it'')) ''s'' Check)) ''s'' = Inr (Some ex_compacted)"
proof -
  let ?d = "ex_session_disk(''/t'' \<mapsto> FileNode ''it'')"
  have l: "load_session calm_os ex_session_env ?d ''s'' = Inr (Some ex_signed)" by code_simp
  have own: "own_file ex_session_env ?d ''s''" by (simp add: own_file_def l) (simp add: ex_signed_def new_session_def)
  have g: "op_signature calm_os ex_session_env ?d Check ex_signed = Inr (Some \<lparr> ts_length = 2, ts_digest = ''61'' \<rparr>)"
    by code_simp
  have v: "fst (run_session_op calm_os ex_session_env 1 ?d ''s'' Check) = Inr (VCompacted True)" by code_simp
  then have r: "run_session_op calm_os ex_session_env 1 ?d ''s'' Check
      = (Inr (VCompacted True), snd (run_session_op calm_os ex_session_env 1 ?d ''s'' Check))"
    by (metis prod.collapse)
  have e: "fst (session_effect Check 1 (Some \<lparr> ts_length = 2, ts_digest = ''61'' \<rparr>) ex_signed) = ex_compacted"
    by code_simp
  from session_op_refines [OF ex_session_toml_contract own r] show ?thesis
    by (auto simp: l g e initial_session_def)
qed

text \<open>The first prompt of a session whose client names no transcript and no project.\<close>

definition ex_first :: "int \<Rightarrow> session_state" where
  "ex_first now = (new_session ''s'' 1)\<lparr> ss_last_seen_at := now \<rparr>"

definition ex_hook_env :: session_env where
  "ex_hook_env = \<lparr> se_root = ''/h'',
     se_toml = listed_toml [(''a'', ex_first 1), (''b'', ex_first 2), (''c'', (ex_first 3)\<lparr> ss_turn_counter := 1 \<rparr>)],
     se_sha = (\<lambda>_. ''a''), se_checked = True \<rparr>"

definition ex_vars :: env_vars where "ex_vars = [''MMCP_HOME'' \<mapsto> ''/h'']"

definition ex_payload :: hook_payload where
  "ex_payload = \<lparr> hp_session_id = ''s'', hp_transcript_path = None, hp_cwd = None \<rparr>"

definition ex_hook :: "(hook_error + string) \<times> disk" where
  "ex_hook = user_prompt calm_os ex_hook_env (one_config_toml ex_project_config) unary_uuids (\<lambda>_. Inr ex_payload)
     ex_vars (1, 2, 3) 2 (Inr []) (\<lambda>_. None)"

definition ex_line :: string where "ex_line = hook_line unary_uuids ''s'' 1 2 False"

lemma ex_hook_prints: "fst ex_hook = Inr ex_line"
  by code_simp



end
