(* ===== verification/Project_Scope.thy ===== *)
theory Project_Scope
  imports Home Group_Index Features
begin

text \<open>
  Which group a tracker call works on (\<open>mmcp-store\<close>, \<open>features.rs\<close>): the one named by the
  caller, or the group of the project whose root is found above the working directory. It joins
  the configuration files of the theory Home with the index of the theory Group_Index.
\<close>

definition resolve_project_group ::
  "os_faults \<Rightarrow> project_config config_toml \<Rightarrow> (store_error \<Rightarrow> string) \<Rightarrow> uuids \<Rightarrow> disk \<Rightarrow> group_index \<Rightarrow> string
    \<Rightarrow> feature_error + group_entry \<times> string" where
  "resolve_project_group fo ct disp uu d groups cwd =
     bind_res (ok_or ProjectNotFound (find_project_root fo d cwd)) (\<lambda>root.
     bind_res (map_err (\<lambda>e. ProjectConfigBroken (path_join root ''.mmcp.toml'') (disp e)) (load_project fo ct d root)) (\<lambda>cfg.
     bind_res (ok_or (ProjectGroupMissing (uu_show uu (pc_project_uuid cfg))) (index_get groups (pc_project_uuid cfg))) (\<lambda>entry.
     Inr (entry, root))))"

definition resolve_project_group_with_selector ::
  "os_faults \<Rightarrow> project_config config_toml \<Rightarrow> (store_error \<Rightarrow> string) \<Rightarrow> uuids \<Rightarrow> (group_index \<Rightarrow> uuid list) \<Rightarrow> disk \<Rightarrow> group_index
    \<Rightarrow> string option \<Rightarrow> string \<Rightarrow> feature_error + group_entry \<times> string" where
  "resolve_project_group_with_selector fo ct disp uu keys d groups project cwd =
     (case project of
        Some query \<Rightarrow>
          map_ok (\<lambda>entry. (entry, cwd)) (map_err (\<lambda>_. UnknownProject query) (resolve_group uu keys groups query))
      | None \<Rightarrow> resolve_project_group fo ct disp uu d groups cwd)"

text \<open>
  Without a selector the project is the one of the innermost directory that holds a
  configuration, whether or not it can be read: an unreadable or unindexed inner project is an
  error, never a reason to look further up.
\<close>

lemma resolve_project_group_innermost:
  assumes "resolve_project_group fo ct disp uu d groups cwd = Inr (entry, root)"
  shows "\<exists>inner outer cfg. path_ancestors cwd = inner @ root # outer
    \<and> (\<forall>dir\<in>set inner. \<not> fs_exists fo d (path_join dir MANIFEST_FILENAME))
    \<and> load_project fo ct d root = Inr cfg \<and> index_get groups (pc_project_uuid cfg) = Some entry"
proof -
  from assms have "find_project_root fo d cwd = Some root"
    and c: "\<exists>cfg. load_project fo ct d root = Inr cfg \<and> index_get groups (pc_project_uuid cfg) = Some entry"
    by (auto simp: resolve_project_group_def bind_res_eq_Inr map_err_eq_Inr ok_or_eq_Inr)
  then obtain k where k: "k < length (path_ancestors cwd)" "path_ancestors cwd ! k = root"
    "\<forall>j<k. \<not> fs_exists fo d (path_join (path_ancestors cwd ! j) MANIFEST_FILENAME)"
    by (auto simp: project_root_nearest find_Some_iff)
  have "path_ancestors cwd = take k (path_ancestors cwd) @ root # drop (Suc k) (path_ancestors cwd)"
    using id_take_nth_drop [OF k(1)] k(2) by simp
  moreover have "\<forall>dir\<in>set (take k (path_ancestors cwd)). \<not> fs_exists fo d (path_join dir MANIFEST_FILENAME)"
    using k(1,3) by (auto simp: in_set_conv_nth)
  ultimately show ?thesis using c by blast
qed

end
