(* ===== verification/Diagnostics.thy ===== *)
theory Diagnostics
  imports Milestones Home Group_Index Body
begin

text \<open>
  The checks of the mirror (\<open>mmcp-store\<close>, \<open>diagnostics.rs\<close>): the quick health check of a group,
  the deep analysis of a group, the passes that cross groups, and the check of the user's and the
  project's configuration. Every finding is a record with its stable code and its message. The
  texts of library errors, the Markdown parser and the iteration orders of the hash maps are
  parameters.
\<close>

section \<open>Findings and reports\<close>

record group_report =
  gr_group_id :: string
  gr_slug :: string
  gr_manifest_ok :: bool
  gr_memory_count :: nat
  gr_findings :: "finding list"

record diag_report =
  dr_project_findings :: "finding list"
  dr_groups :: "group_report list"

text \<open>
  What the checks are given besides the store's environment; \<open>dg_repo\<close> is the repository behind
  the handle of an entry.
\<close>

record ('ed, 'pod) diag_env =
  dg_env :: "('ed, 'pod) env"
  dg_toml :: manifest_toml
  dg_manifest_text :: "manifest_error \<Rightarrow> string"
  dg_utf8_text :: "string \<Rightarrow> string"
  dg_git_text :: "git_error \<Rightarrow> string"
  dg_body_text :: "body_parse_error \<Rightarrow> string"
  dg_markdown :: markdown
  dg_repo :: "group_entry \<Rightarrow> repo"

definition finding_of :: "string \<Rightarrow> string option \<Rightarrow> string \<Rightarrow> string \<Rightarrow> string \<Rightarrow> finding" where
  "finding_of g slug severity code message =
     \<lparr> fi_group = g, fi_slug = slug, fi_severity = severity, fi_code = code, fi_message = message \<rparr>"

definition em_dash :: string where "em_dash = [CHR 0xE2, CHR 0x80, CHR 0x94]"
definition quote_mark :: string where "quote_mark = [CHR 0x27]"
definition double_quote :: string where "double_quote = [CHR 0x22]"

text \<open>\<open>format!("{n}")\<close> of a signed integer.\<close>

definition show_signed :: "int \<Rightarrow> string" where
  "show_signed n = (if n < 0 then ''-'' @ dec (nat (- n)) else dec (nat n))"

section \<open>Health\<close>

definition entry_id :: "('ed, 'pod) diag_env \<Rightarrow> group_entry \<Rightarrow> string" where
  "entry_id de e = uu_show (en_uuids (dg_env de)) (gm_group_id (ge_manifest e))"

definition handle_id :: "('ed, 'pod) diag_env \<Rightarrow> group_entry \<Rightarrow> string" where
  "handle_id de e = uu_show (en_uuids (dg_env de)) (fst (ge_handle e))"

definition diag_manifest :: "('ed, 'pod) diag_env \<Rightarrow> group_entry \<Rightarrow> git_error + group_manifest" where
  "diag_manifest de e =
     read_manifest (en_gix (dg_env de)) (dg_toml de) (dg_manifest_text de) (dg_utf8_text de) (dg_repo de e)"

definition health_manifest :: "('ed, 'pod) diag_env \<Rightarrow> group_entry \<Rightarrow> bool \<times> finding list" where
  "health_manifest de e =
     (case diag_manifest de e of
        Inr m \<Rightarrow>
          (True,
           (if gm_schema_version m > MANIFEST_SCHEMA_VERSION
            then [finding_of (entry_id de e) None ''error'' ''manifest_schema_too_new''
                    (''manifest schema_version '' @ dec (unat (gm_schema_version m)) @ '' is newer than supported ''
                     @ dec (unat MANIFEST_SCHEMA_VERSION))]
            else [])
           @ (if gm_slug m = []
              then [finding_of (entry_id de e) None ''error'' ''manifest_slug_empty'' ''manifest slug is empty'']
              else []))
      | Inl err \<Rightarrow>
          (False,
           [finding_of (entry_id de e) None ''error'' ''manifest_unreadable'' (''manifest unreadable: '' @ dg_git_text de err)]))"

definition diag_read :: "('ed, 'pod) diag_env \<Rightarrow> group_entry \<Rightarrow> memory_file_ref \<Rightarrow> git_error + string" where
  "diag_read de e file = read_file (en_gix (dg_env de)) (dg_repo de e) (fr_path file) Head"

definition diag_files :: "('ed, 'pod) diag_env \<Rightarrow> group_entry \<Rightarrow> git_error + memory_file_ref list" where
  "diag_files de e = list_all_memory_files (en_gix (dg_env de)) (en_uuids (dg_env de)) (dg_repo de e) Head"

definition health_memory :: "('ed, 'pod) diag_env \<Rightarrow> group_entry \<Rightarrow> memory_file_ref \<Rightarrow> finding list" where
  "health_memory de e file =
     (case diag_read de e file of
        Inr bytes \<Rightarrow>
          if \<not> utf8_ok bytes then [not_utf8_finding (entry_id de e) (fr_slug file) (utf8_error_display bytes)]
          else
            (case parse_memory_file (en_serde (dg_env de)) bytes of
               Inl err \<Rightarrow> [parse_failed_finding (entry_id de e) (fr_slug file) err]
             | Inr _ \<Rightarrow> [])
      | Inl err \<Rightarrow>
          [finding_of (entry_id de e) (Some (fr_slug file)) ''error'' ''memory_read_failed''
             (''cannot read: '' @ dg_git_text de err)])"

definition health_check_group :: "('ed, 'pod) diag_env \<Rightarrow> group_entry \<Rightarrow> group_report" where
  "health_check_group de e =
     (let (manifest_ok, findings) = health_manifest de e in
      case diag_files de e of
        Inl err \<Rightarrow>
          \<lparr> gr_group_id = entry_id de e, gr_slug = gm_slug (ge_manifest e), gr_manifest_ok = manifest_ok, gr_memory_count = 0,
            gr_findings = findings @ [finding_of (entry_id de e) None ''warning'' ''memories_list_failed''
              (''cannot list memories/: '' @ dg_git_text de err)] \<rparr>
      | Inr files \<Rightarrow>
          \<lparr> gr_group_id = entry_id de e, gr_slug = gm_slug (ge_manifest e), gr_manifest_ok = manifest_ok,
            gr_memory_count = length files, gr_findings = findings @ concat (map (health_memory de e) files) \<rparr>)"

definition health_check_all ::
  "('ed, 'pod) diag_env \<Rightarrow> (group_index \<Rightarrow> uuid list) \<Rightarrow> group_index \<Rightarrow> group_report list" where
  "health_check_all de keys groups = map (health_check_group de) (index_list keys groups)"

section \<open>Slugs and names\<close>

definition STOPWORDS :: "string list" where
  "STOPWORDS =
     [''the'', ''and'', ''for'', ''with'', ''from'', ''into'', ''that'', ''this'', ''but'', ''not'', ''are'', ''you'',
      ''have'', ''has'', ''was'', ''were'', ''will'']"

definition slug_tokens :: "string \<Rightarrow> string list" where
  "slug_tokens s = filter (\<lambda>t. length t \<ge> 3 \<and> t \<notin> set STOPWORDS) (split_on CHR ''-'' s)"

definition tokens_overlap :: "string \<Rightarrow> string \<Rightarrow> bool" where
  "tokens_overlap a b \<longleftrightarrow> list_ex (\<lambda>t. list_ex (\<lambda>u. u = t) (slug_tokens b)) (slug_tokens a)"

definition scope_str :: "group_scope \<Rightarrow> string" where
  "scope_str s = (case s of ScopeGlobal \<Rightarrow> ''global'' | ScopeShared \<Rightarrow> ''shared'' | ScopeProject \<Rightarrow> ''project'')"

section \<open>The deep checks of one group\<close>

definition deep_manifest :: "('ed, 'pod) diag_env \<Rightarrow> group_entry \<Rightarrow> finding list" where
  "deep_manifest de e =
     (case diag_manifest de e of
        Inl _ \<Rightarrow> []
      | Inr m \<Rightarrow>
          (let g = entry_id de e; dir_uuid = handle_id de e;
               manifest_uuid = uu_show (en_uuids (dg_env de)) (gm_group_id m) in
           (if dir_uuid \<noteq> manifest_uuid
            then [finding_of g None ''error'' ''manifest_group_id_mismatch''
                    (''manifest group_id '' @ manifest_uuid @ '' does not match directory UUID '' @ dir_uuid)]
            else [])
           @ (if gm_created_at m \<le> 0
              then [finding_of g None ''warning'' ''manifest_created_at_invalid''
                      (''manifest created_at is '' @ show_signed (gm_created_at m) @ '', expected positive timestamp'')]
              else [])
           @ (if gm_display_name m = None
              then [finding_of g None ''info'' ''manifest_no_display_name'' ''manifest has no display_name set'']
              else [])))"

definition parsed_memory :: "('ed, 'pod) diag_env \<Rightarrow> group_entry \<Rightarrow> memory_file_ref \<Rightarrow> (memory_file_ref \<times> memory_file) option" where
  "parsed_memory de e file =
     (case diag_read de e file of
        Inl _ \<Rightarrow> None
      | Inr bytes \<Rightarrow>
          if \<not> utf8_ok bytes then None
          else
            (case parse_memory_file (en_serde (dg_env de)) bytes of
               Inl _ \<Rightarrow> None
             | Inr m \<Rightarrow> Some (file, m)))"

definition quality_findings :: "string \<Rightarrow> string \<Rightarrow> memory_file \<Rightarrow> finding list" where
  "quality_findings g slug m =
     (let fm = mf_frontmatter m in
      (if fm_name fm = [] then [finding_of g (Some slug) ''error'' ''memory_name_empty'' ''name is empty''] else [])
      @ (if fm_description fm = []
         then [finding_of g (Some slug) ''error'' ''memory_description_empty'' ''description is empty''] else [])
      @ (if trim (mf_body m) = [] then [finding_of g (Some slug) ''warning'' ''memory_body_empty'' ''body is empty''] else [])
      @ (if fm_tags fm = []
         then [finding_of g (Some slug) ''info'' ''memory_no_tags'' ''no tags set (reduces discoverability)''] else [])
      @ (case fm_version fm of
           None \<Rightarrow> []
         | Some v \<Rightarrow>
             if vmajor v = 0 \<and> vminor v = 0 \<and> vpatch v = 0
             then [finding_of g (Some slug) ''info'' ''memory_version_zero'' ''version is 0.0.0 (not yet published?)'']
             else []))"

definition drift_findings :: "('ed, 'pod) diag_env \<Rightarrow> string \<Rightarrow> string \<Rightarrow> memory_file \<Rightarrow> finding list" where
  "drift_findings de g slug m =
     (let env = dg_env de; name = fm_name (mf_frontmatter m);
          name_slug = slugify_filename (en_slugify env) (en_slug_env env) (en_slug_config env) name in
      if name_slug \<noteq> [] \<and> name_slug \<noteq> slug \<and> \<not> tokens_overlap slug name_slug
      then [finding_of g (Some slug) ''info'' ''slug_name_drift''
              (''slug '' @ quote_mark @ slug @ quote_mark @ '' and name '' @ quote_mark @ name @ quote_mark
               @ '' share no common tokens (slugified name: '' @ quote_mark @ name_slug @ quote_mark @ '') '' @ em_dash
               @ '' rename may have drifted'')]
      else [])"

definition identity_findings :: "('ed, 'pod) diag_env \<Rightarrow> string \<Rightarrow> memory_file_ref \<Rightarrow> memory_file \<Rightarrow> finding list" where
  "identity_findings de g file m =
     (let uu = en_uuids (dg_env de); slug = fr_slug file in
      case fm_id (mf_frontmatter m) of
        None \<Rightarrow>
          [finding_of g (Some slug) ''error'' ''memory_missing_id''
             (''frontmatter has no `id`; expected '' @ uu_show uu (fr_id file)
              @ '' (FR-028 requires every memory to carry its UUID)'')]
      | Some fid \<Rightarrow>
          if fid \<noteq> fr_id file
          then [finding_of g (Some slug) ''error'' ''memory_id_filename_mismatch''
                  (''frontmatter id '' @ uu_show uu fid @ '' does not match filename id '' @ uu_show uu (fr_id file)
                   @ '' at '' @ fr_path file)]
          else [])"

definition feature_findings :: "('ed, 'pod) diag_env \<Rightarrow> string \<Rightarrow> memory_file_ref \<Rightarrow> memory_file \<Rightarrow> finding list" where
  "feature_findings de g file m =
     (let fm = mf_frontmatter m; slug = fr_slug file; self_id = fr_id file in
      (if fm_kind fm = KFeature \<and> Option.bind (fm_feature fm) fnumber = None
       then [finding_of g (Some slug) ''info'' ''feature_no_number''
               ''feature has no `number` metadata (FR-027 auto-assigns on create)'']
       else [])
      @ (case fm_feature fm of
           None \<Rightarrow>
             (if fm_kind fm = KFeature
              then [finding_of g (Some slug) ''error'' ''feature_no_subtable''
                      (''kind = '' @ double_quote @ ''feature'' @ double_quote @ '' but frontmatter has no `[feature]` subtable'')]
              else [])
         | Some _ \<Rightarrow>
             (if fm_kind fm \<noteq> KFeature
              then [finding_of g (Some slug) ''error'' ''non_feature_has_subtable''
                      (''kind = '' @ double_quote @ kind_as_str (fm_kind fm) @ double_quote
                       @ '' carries a stray `[feature]` subtable; only `feature` should'')]
              else []))
      @ (case fm_feature fm of
           None \<Rightarrow> []
         | Some feat \<Rightarrow>
             concat (map (\<lambda>(field, refs).
               if self_id \<in> set refs
               then [finding_of g (Some slug) ''info'' ''feature_self_reference''
                       (''feature `'' @ field @ ''` references its own id '' @ uu_show (en_uuids (dg_env de)) self_id
                        @ '' (self-reference)'')]
               else [])
               [(''depends_on'', fdepends_on feat), (''blocks'', fblocks feat)])))"

definition scope_findings :: "group_scope \<Rightarrow> string \<Rightarrow> string \<Rightarrow> memory_file \<Rightarrow> finding list" where
  "scope_findings scope g slug m =
     (if fm_mandatory (mf_frontmatter m) \<and> scope \<noteq> ScopeGlobal
      then [finding_of g (Some slug) ''info'' ''mandatory_in_non_global_scope''
              (''mandatory memory in `scope = '' @ double_quote @ scope_str scope @ double_quote @ ''` group '' @ em_dash
               @ '' FR-025 only fans it out to matching projects; set group scope to `global` for cross-project propagation'')]
      else [])"

definition body_findings :: "('ed, 'pod) diag_env \<Rightarrow> string \<Rightarrow> string \<Rightarrow> memory_file \<Rightarrow> finding list" where
  "body_findings de g slug m =
     (case parse_sections (dg_markdown de) (mf_body m) of
        Inl err \<Rightarrow>
          [finding_of g (Some slug) ''warning'' ''memory_body_sections_invalid''
             (''body failed FR-026 section parse: '' @ dg_body_text de err)]
      | Inr _ \<Rightarrow> [])"

definition memory_findings :: "('ed, 'pod) diag_env \<Rightarrow> group_entry \<Rightarrow> memory_file_ref \<times> memory_file \<Rightarrow> finding list" where
  "memory_findings de e p =
     (let (file, m) = p; g = entry_id de e; slug = fr_slug file in
      quality_findings g slug m @ drift_findings de g slug m @ identity_findings de g file m
      @ feature_findings de g file m @ scope_findings (gm_scope (ge_manifest e)) g slug m @ body_findings de g slug m)"

text \<open>The supersede links and the numbers of the features of a group, with what they are checked against.\<close>

type_synonym parsed = "(memory_file_ref \<times> memory_file) list"

definition features_by_id :: "parsed \<Rightarrow> uuid \<Rightarrow> (string \<times> feature_status \<times> memory_ref list) option" where
  "features_by_id ps =
     map_of (rev (List.map_filter (\<lambda>(file, m).
       map_option (\<lambda>feat. (fr_id file, (fr_slug file, fstatus feat, fm_refs (mf_frontmatter m)))) (fm_feature (mf_frontmatter m))) ps))"

definition supersede_links :: "parsed \<Rightarrow> (string \<times> uuid \<times> memory_ref) list" where
  "supersede_links ps =
     List.map_filter (\<lambda>(file, m).
       map_option (\<lambda>link. (fr_slug file, fr_id file, link))
         (Option.bind (fm_feature (mf_frontmatter m)) fsuperseded_by)) ps"

definition supersede_findings :: "('ed, 'pod) diag_env \<Rightarrow> string \<Rightarrow> parsed \<Rightarrow> string \<times> uuid \<times> memory_ref \<Rightarrow> finding list" where
  "supersede_findings de g ps link =
     (let (old_slug, old_uuid, r) = link in
      case features_by_id ps (rtarget r) of
        None \<Rightarrow>
          [finding_of g (Some old_slug) ''warning'' ''supersede_target_missing''
             (''supersede target '' @ uu_show (en_uuids (dg_env de)) (rtarget r) @ '' is not present in this group ''
              @ em_dash @ '' cross-group supersede is not supported in v1'')]
      | Some (new_slug, _, new_refs) \<Rightarrow>
          if \<not> list_ex (\<lambda>x. rtarget x = old_uuid) new_refs
          then [finding_of g (Some old_slug) ''warning'' ''supersede_one_sided''
                  (''supersede chain one-sided: `'' @ old_slug @ ''` points at `'' @ new_slug
                   @ ''` via superseded_by, but `'' @ new_slug @ ''`'' @ quote_mark @ ''s `refs` does not reference `'' @ old_slug
                   @ ''` back'')]
          else [])"

definition feature_numbers :: "parsed \<Rightarrow> (32 word \<times> string) list" where
  "feature_numbers ps =
     List.map_filter (\<lambda>(file, m).
       map_option (\<lambda>n. (n, fr_slug file)) (Option.bind (fm_feature (mf_frontmatter m)) fnumber)) ps"

definition slugs_with_number :: "parsed \<Rightarrow> 32 word \<Rightarrow> string list" where
  "slugs_with_number ps n = map snd (filter (\<lambda>e. fst e = n) (feature_numbers ps))"

text \<open>\<open>order\<close> is the iteration order of the map from numbers to slugs.\<close>

definition number_findings :: "(32 word list \<Rightarrow> 32 word list) \<Rightarrow> string \<Rightarrow> parsed \<Rightarrow> finding list" where
  "number_findings order g ps =
     concat (map (\<lambda>n.
       (let slugs = slugs_with_number ps n in
        if length slugs > 1
        then map (\<lambda>slug. finding_of g (Some slug) ''warning'' ''feature_number_duplicate''
               (''feature number '' @ dec (unat n) @ '' is shared with '' @ dec (length slugs - 1) @ '' other feature(s): ''
                @ join_with '', '' (filter (\<lambda>s. s \<noteq> slug) slugs))) slugs
        else []))
       (order (remdups (map fst (feature_numbers ps)))))"

definition slug_dir_findings :: "('ed, 'pod) diag_env \<Rightarrow> string \<Rightarrow> slug_dir \<Rightarrow> finding list" where
  "slug_dir_findings de g sd =
     (let valid = (\<lambda>filename.
            case strip_suffix filename MEMORY_EXTENSION of
              None \<Rightarrow> False
            | Some stem \<Rightarrow> uu_parse (en_uuids (dg_env de)) stem \<noteq> None) in
      concat (map (\<lambda>filename.
        case strip_suffix filename MEMORY_EXTENSION of
          None \<Rightarrow>
            [finding_of g (Some (ld_slug sd)) ''warning'' ''slug_dir_non_memory_file''
               (''non-memory file '' @ quote_mark @ filename @ quote_mark @ '' under '' @ ld_dir sd @ ''/ (expected `<uuid>.md`)'')]
        | Some stem \<Rightarrow>
            if uu_parse (en_uuids (dg_env de)) stem = None
            then [finding_of g (Some (ld_slug sd)) ''error'' ''slug_dir_bad_filename''
                    (''memory filename '' @ quote_mark @ filename @ quote_mark @ '' under '' @ ld_dir sd
                     @ ''/ is not a valid UUID'')]
            else []) (ld_filenames sd))
      @ (if length (filter valid (ld_filenames sd)) = 0
         then [finding_of g (Some (ld_slug sd)) ''info'' ''slug_dir_empty''
                 (''slug directory '' @ ld_dir sd @ ''/ has no memory files (leftover from a rename or delete?)'')]
         else []))"

definition diagnose_group ::
  "('ed, 'pod) diag_env \<Rightarrow> (32 word list \<Rightarrow> 32 word list) \<Rightarrow> group_entry \<Rightarrow> group_report" where
  "diagnose_group de order e =
     (let report = health_check_group de e; g = gr_group_id report;
          files = (case diag_files de e of Inl _ \<Rightarrow> [] | Inr fs \<Rightarrow> fs);
          parsed = List.map_filter (parsed_memory de e) files;
          dirs = (case list_memory_slug_dirs (en_gix (dg_env de)) (dg_repo de e) Head of Inl _ \<Rightarrow> [] | Inr ds \<Rightarrow> ds)
      in report\<lparr> gr_findings := gr_findings report
           @ deep_manifest de e
           @ (if gr_memory_count report = 0 then [finding_of g None ''info'' ''group_empty'' ''group has zero memories''] else [])
           @ concat (map (memory_findings de e) parsed)
           @ concat (map (supersede_findings de g parsed) (supersede_links parsed))
           @ number_findings order g parsed
           @ concat (map (slug_dir_findings de g) dirs) \<rparr>)"

section \<open>The frontmatter of a group\<close>

text \<open>\<open>None\<close> is a file that cannot be read, decoded or parsed.\<close>

type_synonym group_corpus = "(memory_file_ref \<times> frontmatter option) list"

definition build_frontmatter_corpus ::
  "'pod serde \<Rightarrow> memory_file_ref list \<Rightarrow> (string list \<Rightarrow> git_error + batch) \<Rightarrow> group_corpus" where
  "build_frontmatter_corpus sd files read_all =
     (let bytes_by_path = (case read_all (map fr_path files) of Inl _ \<Rightarrow> Map.empty | Inr b \<Rightarrow> map_of (rev b)) in
      map (\<lambda>file.
        (file,
         (case bytes_by_path (fr_path file) of
            Some (Inr bytes) \<Rightarrow>
              if \<not> utf8_ok bytes then None
              else (case parse_frontmatter sd bytes of Inl _ \<Rightarrow> None | Inr fm \<Rightarrow> Some fm)
          | _ \<Rightarrow> None))) files)"

definition read_group_frontmatter_corpus :: "('ed, 'pod) diag_env \<Rightarrow> group_entry \<Rightarrow> git_error + group_corpus" where
  "read_group_frontmatter_corpus de e =
     map_ok (\<lambda>files. build_frontmatter_corpus (en_serde (dg_env de)) files
         (\<lambda>paths. read_files (en_gix (dg_env de)) (dg_repo de e) paths Head))
       (diag_files de e)"

definition diag_corpus :: "('ed, 'pod) diag_env \<Rightarrow> group_entry \<Rightarrow> group_corpus" where
  "diag_corpus de e = (case read_group_frontmatter_corpus de e of Inl _ \<Rightarrow> [] | Inr c \<Rightarrow> c)"

section \<open>The passes over all groups\<close>

text \<open>A finding goes to the first report with the group's id.\<close>

fun push_findings :: "string \<Rightarrow> finding list \<Rightarrow> group_report list \<Rightarrow> group_report list" where
  "push_findings g fs [] = []"
| "push_findings g fs (r # rs) =
     (if gr_group_id r = g then r\<lparr> gr_findings := gr_findings r @ fs \<rparr> # rs else r # push_findings g fs rs)"

text \<open>The groups a slug appears in, one entry per report whose corpus has it.\<close>

definition slug_groups :: "('ed, 'pod) diag_env \<Rightarrow> (group_entry \<times> group_corpus) list \<Rightarrow> string \<Rightarrow> string list" where
  "slug_groups de cs slug =
     map (\<lambda>(e, _). entry_id de e) (filter (\<lambda>(_, c). slug \<in> set (map (\<lambda>(file, _). fr_slug file) c)) cs)"

definition duplicate_slug_pass ::
  "('ed, 'pod) diag_env \<Rightarrow> (group_entry \<times> group_corpus) list \<Rightarrow> string \<Rightarrow> group_report list \<Rightarrow> group_report list" where
  "duplicate_slug_pass de cs slug reports =
     (let group_ids = slug_groups de cs slug in
      if length group_ids > 1
      then map (\<lambda>r.
        if gr_group_id r \<in> set group_ids
        then r\<lparr> gr_findings := gr_findings r @ [finding_of (gr_group_id r) (Some slug) ''info'' ''slug_cross_group_duplicate''
               (''slug '' @ quote_mark @ slug @ quote_mark @ '' also exists in '' @ dec (length group_ids - 1)
                @ '' other group(s)'')] \<rparr>
        else r) reports
      else reports)"

record memory_record =
  mr_group_id :: string
  mr_slug :: string
  mr_kind :: memory_kind

text \<open>The registry of every memory that parses, with its id, in the order of the pass.\<close>

definition memory_registry :: "('ed, 'pod) diag_env \<Rightarrow> (group_entry \<times> group_corpus) list \<Rightarrow> (uuid \<times> memory_record) list" where
  "memory_registry de cs =
     concat (map (\<lambda>(e, c).
       List.map_filter (\<lambda>(file, fm).
         map_option (\<lambda>fm. (fr_id file,
           \<lparr> mr_group_id = handle_id de e, mr_slug = fr_slug file, mr_kind = fm_kind fm \<rparr>)) fm) c) cs)"

definition records_of :: "(uuid \<times> memory_record) list \<Rightarrow> uuid \<Rightarrow> memory_record list" where
  "records_of reg i = map snd (filter (\<lambda>p. fst p = i) reg)"

definition location :: "memory_record \<Rightarrow> string" where
  "location x = mr_group_id x @ ''/'' @ mr_slug x"

definition duplicate_id_pass ::
  "('ed, 'pod) diag_env \<Rightarrow> (uuid \<times> memory_record) list \<Rightarrow> uuid \<Rightarrow> group_report list \<Rightarrow> group_report list" where
  "duplicate_id_pass de reg i reports =
     (let records = records_of reg i in
      if length records > 1
      then fold (\<lambda>x. push_findings (mr_group_id x)
        [finding_of (mr_group_id x) (Some (mr_slug x)) ''error'' ''memory_id_duplicate''
           (''duplicate memory id '' @ uu_show (en_uuids (dg_env de)) i @ '' also exists at ''
            @ join_with '', '' (filter (\<lambda>loc. loc \<noteq> location x) (map location records)))]) records reports
      else reports)"

text \<open>A reference of a feature: unknown, or known with another kind than the one it must have.\<close>

definition feature_ref_findings ::
  "('ed, 'pod) diag_env \<Rightarrow> (uuid \<times> memory_record) list \<Rightarrow> string \<Rightarrow> string \<Rightarrow> feature_metadata \<Rightarrow> finding list" where
  "feature_ref_findings de reg g slug feat =
     concat (map (\<lambda>(field, refs). concat (map (\<lambda>i.
       case records_of reg i of
         [] \<Rightarrow>
           [finding_of g (Some slug) ''warning'' ''feature_ref_dangling''
              (''feature `'' @ field @ ''` references unknown memory '' @ uu_show (en_uuids (dg_env de)) i @ '' ''
               @ em_dash @ '' dangling cross-reference'')]
       | x # _ \<Rightarrow>
           if mr_kind x \<noteq> KFeature
           then [finding_of g (Some slug) ''warning'' ''feature_ref_wrong_kind''
                   (''feature `'' @ field @ ''` points at '' @ uu_show (en_uuids (dg_env de)) i @ '' which is kind = ''
                    @ double_quote @ kind_as_str (mr_kind x) @ double_quote @ '', not `feature`'')]
           else []) refs))
       [(''depends_on'', fdepends_on feat), (''blocks'', fblocks feat)])"

definition milestone_ref_findings ::
  "('ed, 'pod) diag_env \<Rightarrow> (uuid \<times> memory_record) list \<Rightarrow> string \<Rightarrow> string \<Rightarrow> feature_metadata \<Rightarrow> finding list" where
  "milestone_ref_findings de reg g slug feat =
     (case fmilestone feat of
        None \<Rightarrow> []
      | Some i \<Rightarrow>
          (case records_of reg i of
             [] \<Rightarrow>
               [finding_of g (Some slug) ''warning'' ''milestone_ref_dangling''
                  (''feature `milestone` references unknown memory '' @ uu_show (en_uuids (dg_env de)) i @ '' ''
                   @ em_dash @ '' orphaned milestone reference'')]
           | x # _ \<Rightarrow>
               if mr_kind x \<noteq> KMilestone
               then [finding_of g (Some slug) ''warning'' ''milestone_ref_wrong_kind''
                       (''feature `milestone` points at '' @ uu_show (en_uuids (dg_env de)) i @ '' which is kind = ''
                        @ double_quote @ kind_as_str (mr_kind x) @ double_quote @ '', not `milestone` '' @ em_dash
                        @ '' stale milestone reference'')]
               else []))"

definition cross_ref_findings ::
  "('ed, 'pod) diag_env \<Rightarrow> (uuid \<times> memory_record) list \<Rightarrow> group_entry \<Rightarrow> memory_file_ref \<times> frontmatter option \<Rightarrow> finding list" where
  "cross_ref_findings de reg e p =
     (case p of
        (file, Some fm) \<Rightarrow>
          if fm_kind fm \<noteq> KFeature then []
          else
            (case fm_feature fm of
               None \<Rightarrow> []
             | Some feat \<Rightarrow>
                 feature_ref_findings de reg (handle_id de e) (fr_slug file) feat
                 @ milestone_ref_findings de reg (handle_id de e) (fr_slug file) feat)
      | (_, None) \<Rightarrow> [])"

text \<open>The rollup pass; \<open>pool\<close> is the process-wide cache, when there is one, per group.\<close>

definition rollup_findings ::
  "('ed, 'pod) diag_env \<Rightarrow> cache_error + indexed_row list \<Rightarrow> group_entry \<Rightarrow> memory_file_ref \<times> frontmatter option \<Rightarrow> finding list" where
  "rollup_findings de pool e p =
     (case p of
        (file, Some fm) \<Rightarrow>
          if fm_kind fm \<noteq> KMilestone then []
          else
            (case (fm_milestone fm, fm_id fm) of
               (Some meta, Some i) \<Rightarrow>
                 (case compute_rollup (en_uuids (dg_env de)) pool (fst (ge_handle e)) i of
                    Inl _ \<Rightarrow> []
                  | Inr computed \<Rightarrow>
                      (if ru_counted computed = 0
                       then [finding_of (handle_id de e) (Some (fr_slug file)) ''info'' ''milestone_rollup_empty''
                               ''no locally-mirrored feature currently targets this milestone'']
                       else [])
                      @ (if (mstatus meta = MCompleted) \<noteq> (ru_status computed = RollupCompleted)
                         then [finding_of (handle_id de e) (Some (fr_slug file)) ''warning'' ''milestone_status_stale''
                                 (''milestone status is '' @ quote_mark @ milestone_status_as_str (mstatus meta) @ quote_mark
                                  @ '' but the live rollup over its features is '' @ quote_mark
                                  @ rollup_status_as_str (ru_status computed) @ quote_mark @ '' '' @ em_dash
                                  @ '' stale milestone status'')]
                         else []))
             | _ \<Rightarrow> [])
      | (_, None) \<Rightarrow> [])"

definition group_pass ::
  "('ed, 'pod) diag_env \<Rightarrow> (group_entry \<Rightarrow> memory_file_ref \<times> frontmatter option \<Rightarrow> finding list)
    \<Rightarrow> (group_entry \<times> group_corpus) list \<Rightarrow> group_report list \<Rightarrow> group_report list" where
  "group_pass de check cs reports =
     fold (\<lambda>(e, c). fold (\<lambda>p. push_findings (handle_id de e) (check e p)) c) cs reports"

section \<open>The configuration\<close>

record config_sources =
  cs_os :: os_faults
  cs_user_toml :: "user_config config_toml"
  cs_project_toml :: "project_config config_toml"
  cs_globals :: git_globals
  cs_vars :: env_vars
  cs_disk :: disk
  cs_cwd :: "string option"
  cs_error_text :: "store_error \<Rightarrow> string"

definition author_findings :: "git_globals \<Rightarrow> user_config \<Rightarrow> finding list" where
  "author_findings globals cfg =
     (case uc_author cfg of
        None \<Rightarrow>
          [finding_of ''(user)'' None ''warning'' ''user_author_missing'' ''[author] section missing in user config'']
      | Some a \<Rightarrow>
          (case au_git_fallback a of
             None \<Rightarrow>
               [finding_of ''(user)'' None ''warning'' ''user_author_git_fallback_unset''
                  ''author.git_fallback not set - set to true (use git identity) or false (use mmcp fallback)'']
           | Some True \<Rightarrow>
               (if author_config.au_name a = None \<and> read_git_global globals ''user.name'' = None
                then [finding_of ''(user)'' None ''warning'' ''user_author_git_name_empty''
                        ''git_fallback=true but git config user.name is empty'']
                else [])
           | Some False \<Rightarrow> []))"

definition sync_missing :: "string \<Rightarrow> finding list" where
  "sync_missing message = [finding_of ''(project)'' None ''warning'' ''sync_not_configured'' message]"

definition check_project_config :: "config_sources \<Rightarrow> finding list" where
  "check_project_config cs =
     (let home = (case discover_home (cs_vars cs) of Inl _ \<Rightarrow> None | Inr h \<Rightarrow> Some h);
          user_cfg =
            (case home of
               None \<Rightarrow> default_user_config
             | Some h \<Rightarrow>
                 (case load_user_config (cs_os cs) (cs_user_toml cs) (cs_disk cs) h of
                    Inl _ \<Rightarrow> default_user_config | Inr c \<Rightarrow> c));
          user_has_sync = (\<not> sync_config_is_empty (uc_sync user_cfg));
          missing = (case home of None \<Rightarrow> True | Some h \<Rightarrow> \<not> fs_exists (cs_os cs) (cs_disk cs) (user_config_path h))
      in (if missing
          then [finding_of ''(user)'' None ''warning'' ''user_config_missing''
                  ''no user config at ~/.mmcp/config.toml - create one to set author identity and default sync server'']
          else author_findings (cs_globals cs) user_cfg)
         @ (case cs_cwd cs of
              None \<Rightarrow>
                (if \<not> user_has_sync
                 then sync_missing ''no [sync] server configured in user or project config'' else [])
            | Some cwd \<Rightarrow>
                (case find_project_root (cs_os cs) (cs_disk cs) cwd of
                   None \<Rightarrow>
                     finding_of ''(project)'' None ''warning'' ''project_config_missing''
                       ''no .mmcp.toml project config found in current directory or any parent''
                     # (if \<not> user_has_sync
                        then sync_missing ''no [sync] server configured anywhere - push/pull will not work'' else [])
                 | Some root \<Rightarrow>
                     (case load_project (cs_os cs) (cs_project_toml cs) (cs_disk cs) root of
                        Inl err \<Rightarrow>
                          [finding_of ''(project)'' None ''error'' ''project_config_load_failed''
                             (''project config failed to load: '' @ cs_error_text cs err)]
                      | Inr cfg \<Rightarrow>
                          (if sync_config_is_empty (pc_sync cfg) \<and> \<not> user_has_sync
                           then sync_missing
                             ''no [sync] server configured in user or project config - push/pull will not work''
                           else [])))))"

section \<open>The whole diagnosis\<close>

text \<open>The iteration orders of the hash maps over numbers, slugs and ids.\<close>

record diag_orders =
  do_numbers :: "32 word list \<Rightarrow> 32 word list"
  do_slugs :: "string list \<Rightarrow> string list"
  do_ids :: "uuid list \<Rightarrow> uuid list"

definition diag_corpora ::
  "('ed, 'pod) diag_env \<Rightarrow> (group_index \<Rightarrow> uuid list) \<Rightarrow> group_index \<Rightarrow> (group_entry \<times> group_corpus) list" where
  "diag_corpora de keys groups = map (\<lambda>e. (e, diag_corpus de e)) (index_list keys groups)"

definition corpora_slugs :: "(group_entry \<times> group_corpus) list \<Rightarrow> string list" where
  "corpora_slugs cs = remdups (concat (map (\<lambda>(_, c). map (\<lambda>(file, _). fr_slug file) c) cs))"

definition diagnose_all ::
  "('ed, 'pod) diag_env \<Rightarrow> config_sources \<Rightarrow> diag_orders \<Rightarrow> (cache_error + indexed_row list) option
    \<Rightarrow> (group_index \<Rightarrow> uuid list) \<Rightarrow> group_index \<Rightarrow> diag_report" where
  "diagnose_all de config orders pool keys groups =
     (let cs = diag_corpora de keys groups;
          reports = map (diagnose_group de (do_numbers orders)) (index_list keys groups);
          reports = fold (duplicate_slug_pass de cs) (do_slugs orders (corpora_slugs cs)) reports;
          reg = memory_registry de cs;
          reports = fold (duplicate_id_pass de reg) (do_ids orders (remdups (map fst reg))) reports;
          reports = group_pass de (cross_ref_findings de reg) cs reports;
          reports = (case pool of None \<Rightarrow> reports | Some p \<Rightarrow> group_pass de (rollup_findings de p) cs reports)
      in \<lparr> dr_project_findings = check_project_config config, dr_groups = reports \<rparr>)"

section \<open>Where findings go\<close>

lemma push_report_id [simp]: "map gr_group_id (push_findings g fs rs) = map gr_group_id rs"
  by (induction rs) simp_all

definition with_findings :: "group_report \<Rightarrow> finding list \<Rightarrow> group_report" where
  "with_findings r fs = r\<lparr> gr_findings := gr_findings r @ fs \<rparr>"

lemma with_findings_simps [simp]:
  "gr_group_id (with_findings r fs) = gr_group_id r"
  "gr_findings (with_findings r fs) = gr_findings r @ fs"
  "with_findings r [] = r"
  "with_findings (with_findings r fs) gs = with_findings r (fs @ gs)"
  by (simp_all add: with_findings_def)

lemma push_report_map:
  "distinct (map gr_group_id rs) \<Longrightarrow> push_findings g fs rs = map (\<lambda>r. with_findings r (if gr_group_id r = g then fs else [])) rs"
proof (induction rs)
  case (Cons r rs)
  have "map (\<lambda>r. with_findings r (if gr_group_id r = g then fs else [])) rs = rs" if "gr_group_id r = g"
    using Cons.prems that by (intro map_idI) (auto simp: image_iff)
  with Cons show ?case by (auto simp: with_findings_def)
qed simp

lemma fold_push_reports:
  "distinct (map gr_group_id rs) \<Longrightarrow>
     fold (\<lambda>x. push_findings (g x) (fs x)) xs rs
       = map (\<lambda>r. with_findings r (concat (map fs (filter (\<lambda>x. g x = gr_group_id r) xs)))) rs"
proof (induction xs arbitrary: rs)
  case Nil
  then show ?case by simp
next
  case (Cons x xs)
  have d: "distinct (map gr_group_id (push_findings (g x) (fs x) rs))" using Cons.prems by simp
  have "fold (\<lambda>x. push_findings (g x) (fs x)) (x # xs) rs
      = map (\<lambda>r. with_findings r (concat (map fs (filter (\<lambda>x. g x = gr_group_id r) xs)))) (push_findings (g x) (fs x) rs)"
    using Cons.IH [OF d] by simp
  then show ?case unfolding push_report_map [OF Cons.prems] by (auto simp: o_def)
qed

lemma group_pass_map:
  assumes "distinct (map gr_group_id rs)"
  shows "group_pass de check cs rs
    = map (\<lambda>r. with_findings r
        (concat (map (\<lambda>(e, p). check e p)
           (filter (\<lambda>(e, p). handle_id de e = gr_group_id r) (concat (map (\<lambda>(e, c). map (Pair e) c) cs)))))) rs"
proof -
  have "fold (\<lambda>(e, c). fold (\<lambda>p. push_findings (handle_id de e) (check e p)) c) cs rs
      = fold (\<lambda>x. push_findings (handle_id de (fst x)) (check (fst x) (snd x))) (concat (map (\<lambda>(e, c). map (Pair e) c) cs)) rs"
    for rs
    by (induction cs arbitrary: rs) (auto simp: fold_map o_def)
  then show ?thesis
    unfolding group_pass_def using fold_push_reports [OF assms, of "\<lambda>x. handle_id de (fst x)" "\<lambda>x. check (fst x) (snd x)"]
    by (simp add: case_prod_beta')
qed

lemma set_routed:
  "f \<in> set (concat (map (\<lambda>(e, p). h e p) (filter (\<lambda>(e, p). Q e) xs)))
     \<longleftrightarrow> (\<exists>x\<in>set xs. Q (fst x) \<and> f \<in> set (h (fst x) (snd x)))"
  by (induction xs) auto

text \<open>A group whose manifest names another id than its directory has no report under the id the passes use.\<close>

lemma mismatched_group_unchecked:
  "g \<notin> gr_group_id ` set rs \<Longrightarrow> push_findings g fs rs = rs"
  by (induction rs) auto

text \<open>The check for a newer manifest cannot fire: reading such a manifest is an error.\<close>

lemma schema_check_never_fires:
  "diag_manifest de e = Inr m \<Longrightarrow> \<not> gm_schema_version m > MANIFEST_SCHEMA_VERSION"
  by (auto simp: diag_manifest_def read_manifest_def manifest_from_toml_def bind_res_eq_Inr map_err_eq_Inr split: if_splits)

section \<open>Which codes a check emits\<close>

definition emits :: "string set \<Rightarrow> finding list \<Rightarrow> bool" where
  "emits codes fs \<longleftrightarrow> (\<forall>f\<in>set fs. fi_code f \<in> codes)"

lemma emits_simps [simp]:
  "emits codes []" "emits codes (fs @ gs) \<longleftrightarrow> emits codes fs \<and> emits codes gs"
  "emits codes (f # fs) \<longleftrightarrow> fi_code f \<in> codes \<and> emits codes fs"
  "emits codes (concat (map h xs)) \<longleftrightarrow> (\<forall>x\<in>set xs. emits codes (h x))"
  by (auto simp: emits_def)

lemma finding_of_simps [simp]:
  "fi_group (finding_of g s sev code msg) = g" "fi_slug (finding_of g s sev code msg) = s"
  "fi_code (finding_of g s sev code msg) = code"
  by (simp_all add: finding_of_def)

text \<open>The codes of the passes over all groups; no check of a single group emits one.\<close>

definition cross_codes :: "string set" where
  "cross_codes = {''feature_ref_dangling'', ''feature_ref_wrong_kind'', ''milestone_ref_dangling'', ''milestone_ref_wrong_kind'',
     ''slug_cross_group_duplicate'', ''memory_id_duplicate'', ''milestone_rollup_empty'', ''milestone_status_stale''}"

lemma health_codes: "emits (- cross_codes) (gr_findings (health_check_group de e))"
proof -
  have m: "emits (- cross_codes) (snd (health_manifest de e))"
    by (auto simp: health_manifest_def cross_codes_def split: sum.splits)
  have f: "emits (- cross_codes) (health_memory de e x)" for x
    by (auto simp: health_memory_def not_utf8_finding_def parse_failed_finding_def cross_codes_def split: sum.splits)
  from m f show ?thesis
    by (auto simp: health_check_group_def cross_codes_def Let_def case_prod_beta' split: sum.splits)
qed

lemma memory_codes: "emits (- cross_codes) (memory_findings de e p)"
proof -
  have "emits (- cross_codes) (quality_findings g s m)" for g s m
    by (auto simp: quality_findings_def cross_codes_def Let_def split: option.splits)
  moreover have "emits (- cross_codes) (drift_findings de g s m)" for g s m
    by (auto simp: drift_findings_def cross_codes_def Let_def)
  moreover have "emits (- cross_codes) (identity_findings de g x m)" for g x m
    by (auto simp: identity_findings_def cross_codes_def Let_def split: option.splits)
  moreover have "emits (- cross_codes) (feature_findings de g x m)" for g x m
    by (auto simp: feature_findings_def cross_codes_def Let_def split: option.splits)
  moreover have "emits (- cross_codes) (scope_findings sc g s m)" for sc g s m
    by (auto simp: scope_findings_def cross_codes_def)
  moreover have "emits (- cross_codes) (body_findings de g s m)" for g s m
    by (auto simp: body_findings_def cross_codes_def split: sum.splits)
  ultimately show ?thesis by (cases p) (simp add: memory_findings_def Let_def)
qed

lemma group_codes: "emits (- cross_codes) (gr_findings (diagnose_group de order e))"
proof -
  have "emits (- cross_codes) (deep_manifest de e)"
    by (auto simp: deep_manifest_def cross_codes_def Let_def split: sum.splits)
  moreover have "emits (- cross_codes) (supersede_findings de g ps l)" for g ps l
    by (auto simp: supersede_findings_def cross_codes_def split: option.splits prod.splits)
  moreover have "emits (- cross_codes) (number_findings order g ps)" for g ps
    by (auto simp: number_findings_def cross_codes_def emits_def Let_def split: if_splits)
  moreover have "emits (- cross_codes) (slug_dir_findings de g sd)" for g sd
    by (auto simp: slug_dir_findings_def cross_codes_def Let_def split: option.splits)
  ultimately show ?thesis
    using health_codes [of de e] memory_codes [of de e]
    by (simp add: diagnose_group_def Let_def) (simp add: cross_codes_def)
qed

section \<open>What the passes add\<close>

definition grows :: "string set \<Rightarrow> group_report list \<Rightarrow> group_report list \<Rightarrow> bool" where
  "grows codes rs rs' \<longleftrightarrow> list_all2 (\<lambda>r r'. \<exists>fs. r' = with_findings r fs \<and> emits codes fs) rs rs'"

lemma grows_refl: "grows codes rs rs"
  unfolding grows_def by (rule list_all2_refl) (metis emits_simps(1) with_findings_simps(3))

lemma grows_trans:
  assumes "grows codes rs rs1" "grows codes rs1 rs2"
  shows "grows codes rs rs2"
  using assms unfolding grows_def
  by (rule list_all2_trans [rotated]) (metis emits_simps(2) with_findings_simps(4))

lemma grows_fold: "(\<And>x rs. grows codes rs (h x rs)) \<Longrightarrow> grows codes rs (fold h xs rs)"
proof (induction xs arbitrary: rs)
  case Nil
  then show ?case by (simp add: grows_refl)
next
  case (Cons x xs)
  from Cons.IH [OF Cons.prems] Cons.prems [of rs x] show ?case by (auto intro: grows_trans)
qed

lemma grows_ids: "grows codes rs rs' \<Longrightarrow> map gr_group_id rs' = map gr_group_id rs"
  unfolding grows_def by (induction rule: list_all2_induct) auto

lemma grows_push: "emits codes fs \<Longrightarrow> grows codes rs (push_findings g fs rs)"
proof (induction rs)
  case (Cons r rs)
  have "\<exists>fs. r = with_findings r fs \<and> emits codes fs" by (metis emits_simps(1) with_findings_simps(3))
  moreover have "r\<lparr> gr_findings := gr_findings r @ fs \<rparr> = with_findings r fs" by (simp add: with_findings_def)
  ultimately show ?case using Cons grows_refl [of codes rs] unfolding grows_def by auto
qed (simp add: grows_def)

lemma grows_slug_pass: "grows {''slug_cross_group_duplicate''} rs (duplicate_slug_pass de cs slug rs)"
proof (cases "length (slug_groups de cs slug) > 1")
  case True
  let ?h = "\<lambda>r. if gr_group_id r \<in> set (slug_groups de cs slug)
      then r\<lparr> gr_findings := gr_findings r @ [finding_of (gr_group_id r) (Some slug) ''info'' ''slug_cross_group_duplicate''
             (''slug '' @ quote_mark @ slug @ quote_mark @ '' also exists in '' @ dec (length (slug_groups de cs slug) - 1)
              @ '' other group(s)'')] \<rparr> else r"
  have "\<exists>fs. ?h r = with_findings r fs \<and> emits {''slug_cross_group_duplicate''} fs" for r
  proof (cases "gr_group_id r \<in> set (slug_groups de cs slug)")
    case True
    then show ?thesis by (auto simp: with_findings_def finding_of_def intro!: exI)
  next
    case False
    then show ?thesis by (auto intro!: exI [of _ "[]"])
  qed
  then have "grows {''slug_cross_group_duplicate''} rs (map ?h rs)"
    by (auto simp: grows_def list_all2_conv_all_nth)
  with True show ?thesis by (simp add: duplicate_slug_pass_def Let_def)
qed (simp add: duplicate_slug_pass_def Let_def grows_refl)

lemma grows_id_pass: "grows {''memory_id_duplicate''} rs (duplicate_id_pass de reg i rs)"
  by (auto simp: duplicate_id_pass_def Let_def intro!: grows_refl grows_fold grows_push)

lemma grows_mono: "grows codes rs rs' \<Longrightarrow> codes \<subseteq> codes' \<Longrightarrow> grows codes' rs rs'"
  unfolding grows_def emits_def by (erule list_all2_mono) blast

lemma rollup_codes: "emits {''milestone_rollup_empty'', ''milestone_status_stale''} (rollup_findings de pool e p)"
  by (auto simp: rollup_findings_def split: prod.splits option.splits sum.splits)

lemma grows_rollup: "grows {''milestone_rollup_empty'', ''milestone_status_stale''} rs (group_pass de (rollup_findings de pool) cs rs)"
  unfolding group_pass_def by (auto split: prod.splits intro!: grows_fold grows_push rollup_codes)

lemma grows_kept:
  assumes "grows codes rs rs'" "r' \<in> set rs'" "code \<notin> codes"
  shows "\<exists>r\<in>set rs. gr_group_id r = gr_group_id r'
    \<and> (\<forall>f. fi_code f = code \<longrightarrow> (f \<in> set (gr_findings r') \<longleftrightarrow> f \<in> set (gr_findings r)))"
proof -
  obtain k where k: "k < length rs'" "r' = rs' ! k" using assms(2) by (auto simp: in_set_conv_nth)
  with assms(1) obtain r fs where "r = rs ! k" "k < length rs" "r' = with_findings r fs" "emits codes fs"
    unfolding grows_def list_all2_conv_all_nth by metis
  then have "r \<in> set rs" "r' = with_findings r fs" "emits codes fs" by simp_all
  with assms(3) show ?thesis by (intro bexI [of _ r]) (auto simp: emits_def)
qed

lemma records_of_Nil:
  "records_of (memory_registry de cs) i = [] \<longleftrightarrow> (\<forall>(e, c)\<in>set cs. \<forall>(file, fm)\<in>set c. fr_id file = i \<longrightarrow> fm = None)"
proof -
  have one: "(\<forall>p\<in>set (List.map_filter (\<lambda>(file, fm). map_option (\<lambda>fm. (fr_id file,
        \<lparr> mr_group_id = gid, mr_slug = fr_slug file, mr_kind = fm_kind fm \<rparr>)) fm) c). fst p \<noteq> i)
      \<longleftrightarrow> (\<forall>(file, fm)\<in>set c. fr_id file = i \<longrightarrow> fm = None)" for gid c
    by (induction c) (auto simp: List.map_filter_simps split: option.splits)
  have "records_of (memory_registry de cs) i = [] \<longleftrightarrow> (\<forall>p\<in>set (memory_registry de cs). fst p \<noteq> i)"
    by (simp add: records_of_def filter_empty_conv)
  also have "\<dots> \<longleftrightarrow> (\<forall>(e, c)\<in>set cs. \<forall>(file, fm)\<in>set c. fr_id file = i \<longrightarrow> fm = None)"
    unfolding memory_registry_def set_concat set_map
    by (simp add: case_prod_beta' ball_UN one [unfolded case_prod_beta'])
  finally show ?thesis .
qed

lemma dangling_code:
  "(\<exists>f\<in>set (cross_ref_findings de reg e p). fi_code f = ''feature_ref_dangling'' \<and> fi_slug f = Some s)
    \<longleftrightarrow> (\<exists>file fm feat i. p = (file, Some fm) \<and> fr_slug file = s \<and> fm_kind fm = KFeature \<and> fm_feature fm = Some feat
          \<and> i \<in> set (fdepends_on feat) \<union> set (fblocks feat) \<and> records_of reg i = [])"
proof -
  have one: "(\<exists>f\<in>set (feature_ref_findings de reg g slug feat). fi_code f = ''feature_ref_dangling'' \<and> fi_slug f = Some s)
      \<longleftrightarrow> slug = s \<and> (\<exists>i\<in>set (fdepends_on feat) \<union> set (fblocks feat). records_of reg i = [])" for g slug feat
  proof -
    have nil: "(\<forall>a b. records_of reg i \<noteq> a # b) \<longleftrightarrow> records_of reg i = []"
      "(\<exists>a b. records_of reg i = a # b) \<longleftrightarrow> records_of reg i \<noteq> []" for i
      by (cases "records_of reg i"; simp)+
    show ?thesis by (auto simp: feature_ref_findings_def bex_Un nil split: list.splits)
  qed
  have "emits {''milestone_ref_dangling'', ''milestone_ref_wrong_kind''} (milestone_ref_findings de reg g slug feat)" for g slug feat
    by (auto simp: milestone_ref_findings_def split: option.splits list.splits)
  then have two: "f \<in> set (milestone_ref_findings de reg g slug feat) \<Longrightarrow> fi_code f \<noteq> ''feature_ref_dangling''" for f g slug feat
    unfolding emits_def by fastforce
  obtain x fo where p: "p = (x, fo)" by fastforce
  show ?thesis
  proof (cases fo)
    case None
    then show ?thesis by (simp add: p cross_ref_findings_def)
  next
    case (Some fm)
    show ?thesis
    proof (cases "fm_kind fm = KFeature \<and> fm_feature fm \<noteq> None")
      case True
      then obtain feat where feat: "fm_feature fm = Some feat" by auto
      have "cross_ref_findings de reg e p = feature_ref_findings de reg (handle_id de e) (fr_slug x) feat
          @ milestone_ref_findings de reg (handle_id de e) (fr_slug x) feat"
        using True by (simp add: p Some cross_ref_findings_def feat)
      then have "(\<exists>f\<in>set (cross_ref_findings de reg e p). fi_code f = ''feature_ref_dangling'' \<and> fi_slug f = Some s)
          \<longleftrightarrow> (\<exists>f\<in>set (feature_ref_findings de reg (handle_id de e) (fr_slug x) feat).
                fi_code f = ''feature_ref_dangling'' \<and> fi_slug f = Some s)"
        using two by (auto simp: bex_Un)
      with True feat show ?thesis by (auto simp: one p Some)
    next
      case False
      then show ?thesis by (auto simp: p Some cross_ref_findings_def)
    qed
  qed
qed

lemma diagnose_group_id [simp]: "gr_group_id (diagnose_group de order e) = entry_id de e"
  by (simp add: diagnose_group_def health_check_group_def Let_def split: sum.splits prod.splits)

section \<open>Properties\<close>

text \<open>
  C28. The health check counts the memories of a group and names, with an error, exactly those
  that cannot be read, are not UTF-8 or do not parse, which are the ones the deep checks skip;
  the manifest is sound exactly when it can be read.
\<close>

theorem health_check_exact:
  assumes "diag_files de e = Inr files"
  shows "gr_memory_count (health_check_group de e) = length files
    \<and> (gr_manifest_ok (health_check_group de e) \<longleftrightarrow> (\<exists>m. diag_manifest de e = Inr m))
    \<and> {s. \<exists>f\<in>set (gr_findings (health_check_group de e)). fi_slug f = Some s}
        = {fr_slug x | x. x \<in> set files \<and> parsed_memory de e x = None}
    \<and> (\<forall>f\<in>set (gr_findings (health_check_group de e)). fi_severity f = ''error'')"
proof -
  obtain ok ms where m: "health_manifest de e = (ok, ms)" by fastforce
  have ms: "ok \<longleftrightarrow> (\<exists>m. diag_manifest de e = Inr m)" "\<forall>f\<in>set ms. fi_slug f = None \<and> fi_severity f = ''error''"
    using m by (auto simp: health_manifest_def finding_of_def split: sum.splits if_splits)
  have one: "parsed_memory de e x = None \<longleftrightarrow> health_memory de e x \<noteq> []"
    "\<forall>f\<in>set (health_memory de e x). fi_slug f = Some (fr_slug x) \<and> fi_severity f = ''error''" for x
    by (auto simp: parsed_memory_def health_memory_def not_utf8_finding_def parse_failed_finding_def finding_of_def
        split: sum.splits)
  have fs: "gr_findings (health_check_group de e) = ms @ concat (map (health_memory de e) files)"
    by (simp add: health_check_group_def m assms)
  have "{s. \<exists>f\<in>set (gr_findings (health_check_group de e)). fi_slug f = Some s}
      = {fr_slug x | x. x \<in> set files \<and> health_memory de e x \<noteq> []}"
  proof (intro set_eqI iffI; clarsimp simp: fs)
    fix s f assume "f \<in> set ms \<or> (\<exists>x\<in>set files. f \<in> set (health_memory de e x))" "fi_slug f = Some s"
    with ms(2) one(2) show "\<exists>x. s = fr_slug x \<and> x \<in> set files \<and> health_memory de e x \<noteq> []"
      by (metis empty_iff list.set(1) option.distinct(1) option.inject)
  next
    fix x assume "x \<in> set files" "health_memory de e x \<noteq> []"
    moreover from this(2) obtain f where "f \<in> set (health_memory de e x)" by (cases "health_memory de e x") auto
    ultimately show "\<exists>f\<in>set ms \<union> (\<Union>x\<in>set files. set (health_memory de e x)). fi_slug f = Some (fr_slug x)"
      using one(2) by blast
  qed
  moreover have "gr_memory_count (health_check_group de e) = length files" "gr_manifest_ok (health_check_group de e) = ok"
    by (simp_all add: health_check_group_def m assms)
  moreover have "\<forall>f\<in>set (gr_findings (health_check_group de e)). fi_severity f = ''error''"
    using ms(2) one(2) by (auto simp: fs)
  ultimately show ?thesis using ms(1) one(1) by simp
qed


lemma diagnose_all_ids:
  "map gr_group_id (dr_groups (diagnose_all de config orders pool keys groups)) = map (entry_id de) (index_list keys groups)"
proof -
  let ?b = "map (diagnose_group de (do_numbers orders)) (index_list keys groups)"
  have slugs: "map gr_group_id (fold (duplicate_slug_pass de cs) xs rs) = map gr_group_id rs" for cs xs rs
    by (rule grows_ids [OF grows_fold [OF grows_slug_pass]])
  have dups: "map gr_group_id (fold (duplicate_id_pass de reg) xs rs) = map gr_group_id rs" for reg xs rs
    by (rule grows_ids [OF grows_fold [OF grows_id_pass]])
  have pass: "map gr_group_id (group_pass de check cs rs) = map gr_group_id rs" for check cs rs
  proof -
    have "emits UNIV (check e p)" for e p by (simp add: emits_def)
    then have "grows UNIV rs (group_pass de check cs rs)"
      unfolding group_pass_def by (auto split: prod.splits intro!: grows_fold grows_push)
    then show ?thesis by (rule grows_ids)
  qed
  have base: "map gr_group_id ?b = map (entry_id de) (index_list keys groups)" by simp
  show ?thesis
    by (cases pool) (simp_all only: diagnose_all_def Let_def diag_report.simps option.case slugs dups pass base)
qed

text \<open>A mirror of one group, whose only memory that parses is a feature that depends on an unknown one.\<close>

definition ex_dependent :: frontmatter where
  "ex_dependent = (frontmatter_new ''F'' ''d'' KFeature)\<lparr> fm_id := Some 1,
     fm_feature := Some \<lparr> fstatus = FCompleted, fnumber = Some 1, fdepends_on = [5], fblocks = [], fsuperseded_by = None,
       fmilestone = None \<rparr> \<rparr>"

definition ex_diag :: "(ref_editor, string) diag_env" where
  "ex_diag =
     \<lparr> dg_env = ex_env (table_serde [(''a'', ex_dependent)]), dg_toml = ex_toml, dg_manifest_text = (\<lambda>_. []),
       dg_utf8_text = (\<lambda>_. []), dg_git_text = (\<lambda>_. []), dg_body_text = (\<lambda>_. []), dg_markdown = ex_markdown,
       dg_repo = (\<lambda>_. feature_repo) \<rparr>"

definition ex_file_ref :: memory_file_ref where
  "ex_file_ref = \<lparr> fr_slug = ''f'', fr_id = 1, fr_path = ''memories/f/uu.md'' \<rparr>"

lemma ex_index: "index_list sorted_keys [7 \<mapsto> ex_entry] = [ex_entry]"
  by (simp add: index_list_def sorted_keys_def List.map_filter_simps)

lemma ex_corpus: "find (\<lambda>(x, fm). fm \<noteq> None) (diag_corpus ex_diag ex_entry) = Some (ex_file_ref, Some ex_dependent)"
  by code_simp

lemma ex_unknown: "list_all (\<lambda>(x, fm). fr_id x = 5 \<longrightarrow> fm = None) (diag_corpus ex_diag ex_entry)"
  by code_simp

text \<open>A machine without files or variables, and the orders in which the keys were met.\<close>

definition ex_sources :: config_sources where
  "ex_sources =
     \<lparr> cs_os = calm_os, cs_user_toml = one_config_toml default_user_config, cs_project_toml = one_config_toml ex_project_config,
       cs_globals = None, cs_vars = Map.empty, cs_disk = Map.empty, cs_cwd = None, cs_error_text = (\<lambda>_. []) \<rparr>"

definition ex_orders :: diag_orders where
  "ex_orders = \<lparr> do_numbers = (\<lambda>ns. ns), do_slugs = (\<lambda>ss. ss), do_ids = (\<lambda>js. js) \<rparr>"


text \<open>The same mirror seen by a parser that knows no frontmatter.\<close>

definition ex_other_ref :: memory_file_ref where
  "ex_other_ref = \<lparr> fr_slug = ''a'', fr_id = 0, fr_path = ''memories/a/u.md'' \<rparr>"

definition ex_unparsable :: "(ref_editor, string) diag_env" where
  "ex_unparsable = ex_diag\<lparr> dg_env := ex_env (table_serde []) \<rparr>"

lemma ex_listed: "diag_files ex_unparsable ex_entry = Inr [ex_other_ref, ex_file_ref]"
  by code_simp

lemma ex_not_parsed: "parsed_memory ex_unparsable ex_entry ex_file_ref = None"
  by code_simp

theorem health_check_exact_witness:
  "gr_memory_count (health_check_group ex_unparsable ex_entry) = 2
    \<and> (\<exists>f\<in>set (gr_findings (health_check_group ex_unparsable ex_entry)). fi_slug f = Some ''f'')"
proof -
  have "fr_slug ex_file_ref = ''f''" by (simp add: ex_file_ref_def)
  then have "''f'' \<in> {fr_slug x | x. x \<in> set [ex_other_ref, ex_file_ref] \<and> parsed_memory ex_unparsable ex_entry x = None}"
    using ex_not_parsed by force
  with health_check_exact [OF ex_listed] show ?thesis by auto
qed

end
