(* ===== verification/Spec2Isabelle.thy ===== *)
theory Spec2Isabelle
  imports Acl Memory_File Section_Ops Slugs Versions Kinds Git_Remote Memory_Writes Concurrent_Writes Issues Milestones Remotes Sync_Engine Sessions Project_Scope Diagnostics
begin

text \<open>
  A verification development of mmcp, the memory server for coding agents.

  \<^bold>\<open>The program.\<close> mmcp keeps the memories of an agent as Markdown files with a frontmatter, in
  one bare git repository per group. \<open>mmcp-core\<close> holds the data model (frontmatter, kinds,
  statuses, versions, access control, configuration, manifests) and the pure text algorithms
  (parsing, sections, splices). \<open>mmcp-git\<close> reads and writes the repositories through the gix
  library and talks to remotes through the \<open>git\<close> command. \<open>mmcp-store\<close> builds the memory
  operations, the trackers and the locks on both. \<open>mmcp-sync\<close> moves groups between the local
  mirror and its remotes. The client, the server and the desktop application call these four.

  \<^bold>\<open>The theories.\<close> Each opens with the files it models; in the order of the imports:
  \<^item> \<open>Prelude\<close> (results as sums, lists) and \<open>Rust_Str\<close> (the string and slice methods of the
    standard library that the code uses);
  \<^item> \<open>Acl\<close>: roles, grants and the decision (\<open>acl/decision.rs\<close>, \<open>acl/resolver.rs\<close>), with the
    path of teams as the specification of a decision;
  \<^item> \<open>Kinds\<close>, \<open>Versions\<close>: memory kinds, the statuses of the trackers, version numbers and their
    bumps on 64-bit words (\<open>memory/kind.rs\<close>, \<open>status.rs\<close>, \<open>feature.rs\<close>, \<open>issue.rs\<close>, \<open>bump.rs\<close>);
  \<^item> \<open>Frontmatter\<close>, \<open>Memory_File\<close>, \<open>Body\<close>, \<open>Splice\<close>: the frontmatter record and its bounds, a
    file split into frontmatter and body and rendered back, the section tree of a body, and the
    exact-text edit with its context anchors (\<open>memory/frontmatter.rs\<close>, \<open>parser.rs\<close>, \<open>body.rs\<close>,
    \<open>splice.rs\<close>);
  \<^item> \<open>Section_Ops\<close>: the section and line edits of a stored memory (\<open>memory_ops.rs\<close>);
  \<^item> \<open>Slugs\<close>, \<open>Slug_Files\<close>: slugs, paths, automatic slugs and the agreement of a file's id with
    its name (\<open>conventions.rs\<close>, the first half of \<open>memory.rs\<close>);
  \<^item> \<open>Git_Tree\<close>, \<open>Git_Repo\<close>, \<open>Git_Reference\<close>: objects, trees and refs; revisions, reads,
    commits, moves of a ref and history (\<open>native/repo_ops.rs\<close>); an implementation of the gix
    operations on tries that meets the contract the model assumes of gix;
  \<^item> \<open>Git_Remote\<close>: the \<open>git\<close> commands for remotes, their credentials and their bounds;
  \<^item> \<open>Memory_Store\<close>, \<open>Memory_Writes\<close>: finding, reading, listing, writing, moving and deleting
    memories of a group (\<open>memory.rs\<close>);
  \<^item> \<open>Locks\<close>, \<open>Concurrent_Writes\<close>: the lock registry, the ranked chains every operation takes,
    tasks that take them as a step relation, and two commits with and without their locks
    (\<open>lock.rs\<close>, \<open>lock_registry/\<close>);
  \<^item> \<open>Tracker\<close>, \<open>Tracker_Surface\<close>, \<open>Features\<close>, \<open>Issues\<close>, \<open>Milestones\<close>: ticket numbers and
    listings the trackers share, the feature and the issue tracker, milestones and their rollup
    (\<open>tracker.rs\<close>, \<open>features.rs\<close>, \<open>issues.rs\<close>, \<open>milestones/\<close>);
  \<^item> \<open>Config\<close>, \<open>Group_Index\<close>, \<open>Remotes\<close>, \<open>Sync_Engine\<close>: the configuration files and the load
    set, the manifest of a group and the index of the local mirror, the effective set of remotes
    with their transports and credentials, and push, fetch, pull and sync
    (\<open>config/\<close>, \<open>loadset/\<close>, \<open>manifest/\<close>, \<open>groups.rs\<close>, \<open>sync/\<close>, \<open>mmcp-sync/engine/\<close>);
  \<^item> \<open>Home\<close>, \<open>Sessions\<close>, \<open>Project_Scope\<close>: the home directory and the configuration files on a
    model of the file system, the session files, compaction detection and the prompt hook, and
    the choice of the project a tracker call works on (\<open>home.rs\<close>, \<open>config.rs\<close>, \<open>sessions.rs\<close>,
    \<open>mmcp-session/compaction.rs\<close>, \<open>commands/hook.rs\<close>, \<open>features.rs\<close>);
  \<^item> \<open>Diagnostics\<close>: the health check, the deep diagnosis of the mirror and the check of the
    configuration (\<open>diagnostics.rs\<close>).

  \<^bold>\<open>How code becomes definitions.\<close> A Rust string is a list of its UTF-8 bytes, so that lengths,
  slices and comparisons are those of the code; \<open>Result\<close> is a sum with the error on the left and
  every error type a datatype with the code's variants; \<open>u64\<close>, \<open>u32\<close> and uuids are words of
  their width; a struct is a record, an enum a datatype. State is passed: an operation on a
  repository takes it and returns the result with the repository it leaves, also on the error
  paths. Where the code takes a lock, the operation is what runs under it, and the chain of locks
  it takes is a definition of \<open>Locks\<close>. Warnings that are logged are left out, as is tracing.

  \<^bold>\<open>What is a parameter.\<close> The code under \<open>src/\<close> calls libraries that are not there: serde and
  TOML (a record of parse and render functions), the Markdown parser (its headings and code
  ranges), uuid generation and text, gix (a record of operations), the subprocess runner, the
  process environment, the clock, what the operating system refuses (\<open>os_faults\<close>), the hash
  map's iteration order and the order in which concurrent work completes. What a property needs of them is a named hypothesis: the locale
  \<open>gix_backend\<close>, \<open>toml_contract\<close>, \<open>keys_contract\<close>, \<open>net_contract\<close> and their like, each met by
  a concrete instance that the witnesses use. \<open>Git_Reference\<close> shows the one for gix to be
  implementable; its fuel of 64 bounds the depth of trees and the length of histories in that
  reference implementation only, and a longer one makes it return an error, never a wrong result.

  \<^bold>\<open>Interfaces.\<close> The locales state what one component relies on in another: \<open>join_bot\<close> (roles),
  \<open>status_contract\<close> (the three trackers' statuses), \<open>gix_backend\<close> (the object store),
  \<open>ranked_locks\<close> (the scopes), \<open>tracker_read\<close> and \<open>tracker_listing\<close> (what a tracker's surface
  shares), \<open>sync_backend\<close> (what the engine asks of a backend). Each is interpreted on the
  definitions that provide it.

  \<^bold>\<open>What is shown.\<close> For the text algorithms: round trips, exact effect of every edit on the bytes,
  addresses that stay valid, and no internal error. For the repositories: a commit refines an
  update of a map from paths to contents, reads return what was written, refs move only forward,
  history lists exactly the commits that changed a file. For the store: what a write stores and
  what each operation leaves alone; numbers are fresh; renames and supersessions are atomic or
  leave what they say. For the locks: exclusion, progress and termination of every system of
  tasks that takes the ranked chains; without them a commit can be lost. For sync: credentials
  stay apart, a bound set is well formed, a push accounts for every candidate, and a pull only
  moves branches forward along the default remote. For sessions: under any refusals of the
  operating system the files implement an abstract session, whose counter, compaction flag and
  reads follow from what the calls returned. For the diagnosis: what it flags is exactly what
  is wrong. For access control: a decision allows exactly
  what a path of memberships and grants allows.

  \<^bold>\<open>Not modelled.\<close> The command line client and its MCP server, the HTTP server, the database, the
  authentication crates, the archives, the
  search cache, the AsciiDoc converter, the desktop application and the web
  interface: they unpack requests, call the operations modelled here or third-party libraries,
  and render the results. The cache of open repositories in \<open>native/backend.rs\<close> is a cache of
  handles and does not change what an operation returns.
\<close>

end
